(* ===== verification/Prelude.thy ===== *)
theory Prelude
  imports Main "HOL-Library.Word"
begin

text \<open>
  What the components of the permanode model share: Rust's fixed-width integers as words
  with the standard library's saturating, ceiling and multiple-of operations, the casts
  between \<open>u64\<close> and the signed 64-bit integers SQLite stores, and the facts the
  component proofs rest on. The collection \<open>u_arith\<close> reads word arithmetic as arithmetic
  on natural numbers.
\<close>

section \<open>Machine integers\<close>

type_synonym u8 = "8 word"
type_synonym u32 = "32 word"
type_synonym u64 = "64 word"
type_synonym u128 = "128 word"

named_theorems u_arith \<open>word operations read as operations on natural numbers\<close>

definition saturating_sub :: "'a::len word \<Rightarrow> 'a word \<Rightarrow> 'a word" where
  "saturating_sub a b = (if b \<le> a then a - b else 0)"

definition saturating_add :: "'a::len word \<Rightarrow> 'a word \<Rightarrow> 'a word" where
  "saturating_add a b = (if unat a + unat b < 2 ^ LENGTH('a) then a + b else - 1)"

definition saturating_mul :: "'a::len word \<Rightarrow> 'a word \<Rightarrow> 'a word" where
  "saturating_mul a b = (if unat a * unat b < 2 ^ LENGTH('a) then a * b else - 1)"

definition div_ceil :: "'a::len word \<Rightarrow> 'a word \<Rightarrow> 'a word" where
  "div_ceil a b = (if 0 < a mod b then a div b + 1 else a div b)"

definition is_multiple_of :: "'a::len word \<Rightarrow> 'a word \<Rightarrow> bool" where
  "is_multiple_of a b = (if b = 0 then a = 0 else a mod b = 0)"

lemma unat_saturating_sub [u_arith]: "unat (saturating_sub a b) = unat a - unat b"
  by (simp add: saturating_sub_def unat_sub word_le_nat_alt)

lemma unat_minus_one: "unat (- 1 :: 'a::len word) = 2 ^ LENGTH('a) - 1"
  by (simp add: unsigned_minus_1_eq_mask mask_eq_exp_minus_1)

lemma unat_saturating_add [u_arith]:
  "unat (saturating_add a (b :: 'a::len word)) = min (unat a + unat b) (2 ^ LENGTH('a) - 1)"
  by (auto simp: saturating_add_def unat_minus_one unat_word_ariths min_def)

lemma unat_saturating_mul [u_arith]:
  "unat (saturating_mul a (b :: 'a::len word)) = min (unat a * unat b) (2 ^ LENGTH('a) - 1)"
  by (cases "unat a * unat b < 2 ^ LENGTH('a)")
    (simp_all add: saturating_mul_def unat_minus_one unat_word_ariths)

lemma unat_add_bound [u_arith]:
  "unat a + unat b < 2 ^ LENGTH('a) \<Longrightarrow> unat (a + b :: 'a::len word) = unat a + unat b"
  by (simp add: unat_word_ariths)

lemma unat_mult_bound [u_arith]:
  "unat a * unat b < 2 ^ LENGTH('a) \<Longrightarrow> unat (a * b :: 'a::len word) = unat a * unat b"
  by (simp add: unat_word_ariths)

lemma unat_sub_bound [u_arith]:
  "unat b \<le> unat a \<Longrightarrow> unat (a - b :: 'a::len word) = unat a - unat b"
  by (simp add: unat_sub word_le_nat_alt)

lemma unat_min [u_arith]: "unat (min a b) = min (unat a) (unat b)"
  by (simp add: min_def word_le_nat_alt)

lemma unat_max [u_arith]: "unat (max a b) = max (unat a) (unat b)"
  by (simp add: max_def word_le_nat_alt)

lemmas unat_order [u_arith] = word_le_nat_alt word_less_nat_alt word_unat_eq_iff
lemmas unat_division [u_arith] = unat_div unat_mod

lemma is_multiple_of_dvd [u_arith]: "is_multiple_of a b \<longleftrightarrow> unat b dvd unat a"
  by (auto simp: is_multiple_of_def word_unat_eq_iff unat_mod dvd_eq_mod_eq_0)

lemma unat_u64_bound [simp]: "unat (h :: u64) < 18446744073709551616"
  using unsigned_less [of h] by simp

lemma unat_u64_max: "unat (h :: u64) \<le> 2 ^ 64 - 1"
  using less_imp_le_nat [OF unat_u64_bound [of h]] by (simp add: less_Suc_eq_le [symmetric])

lemma of_nat_of_unat: "of_nat (unat (h :: 'a::len word)) = h"
  by simp

lemma unat_ucast_u128 [u_arith]: "unat (ucast (x :: u64) :: u128) = unat x"
proof -
  have "unat x < 2 ^ 128" by (rule less_trans [OF unat_u64_bound]) simp
  then show ?thesis by (simp add: unsigned_ucast_eq take_bit_nat_eq_self)
qed

lemma ceil_div_nat_eq:
  assumes "0 < d"
  shows "(if 0 < x mod d then x div d + 1 else x div d) = (x + d - 1) div (d :: nat)"
proof -
  define q r where "q = x div d" and "r = x mod d"
  have x: "x = q * d + r" and r: "r < d" using assms by (simp_all add: q_def r_def)
  have "(x + d - 1) div d = (if 0 < r then q + 1 else q)"
  proof (cases "r = 0")
    case True
    have "(q * d + (d - 1)) div d = q" using assms by (subst div_mult_self3) auto
    with True assms show ?thesis by (simp add: x)
  next
    case False
    then have split: "x + d - 1 = (r - 1) + (q + 1) * d" by (simp add: x)
    have "((r - 1) + (q + 1) * d) div d = q + 1"
      using r assms by (subst div_mult_self1) auto
    with False show ?thesis by (simp only: split if_True neq0_conv)
  qed
  then show ?thesis by (simp add: q_def r_def)
qed

lemma unat_div_ceil [u_arith]:
  fixes a b :: "'a::len word"
  assumes "0 < unat b"
  shows "unat (div_ceil a b) = (unat a + unat b - 1) div unat b"
proof -
  have lt: "unat a div unat b + 1 < 2 ^ LENGTH('a)" if "0 < unat a mod unat b"
  proof -
    have "unat b \<noteq> 1" using that by auto
    then have "unat a div unat b \<le> unat a div 2" using assms by (intro div_le_mono2) auto
    moreover have "unat a div 2 + 1 \<le> unat a" if "1 < unat a" using that by presburger
    moreover have "unat a \<noteq> 0" using that by (cases "unat a = 0") auto
    ultimately have "unat a div unat b + 1 \<le> unat a \<or> unat a = 1 \<and> unat a div unat b + 1 = 1"
      using \<open>unat b \<noteq> 1\<close> assms by (cases "unat a = 1") (auto simp: div_less)
    then have "unat a div unat b + 1 \<le> unat a" by auto
    then show ?thesis by (rule le_less_trans) (rule unsigned_less)
  qed
  then show ?thesis
    using assms ceil_div_nat_eq [of "unat b" "unat a"]
    by (auto simp: div_ceil_def word_less_nat_alt unat_div unat_mod unat_word_ariths)
qed
lemma ceil_div_le:
  assumes "0 < d"
  shows "(x + d - 1) div d \<le> a \<longleftrightarrow> x \<le> a * (d :: nat)"
proof -
  have "(x + d - 1) div d < a + 1 \<longleftrightarrow> x + d - 1 < (a + 1) * d"
    using assms by (rule div_less_iff_less_mult)
  then show ?thesis using assms by auto
qed

lemma unat_two_power [simp]: "n < LENGTH('a) \<Longrightarrow> unat (2 ^ n :: 'a::len word) = 2 ^ n"
  using unat_of_nat [of "2 ^ n", where ?'a = 'a] by (simp add: take_bit_nat_eq_self)

lemma unat_push_bit_one: "n < LENGTH('a) \<Longrightarrow> unat (push_bit n 1 :: 'a::len word) = 2 ^ n"
  by simp

end
