(* ===== verification/Emission.thy ===== *)
theory Emission
  imports Prelude
begin

text \<open>
  The emission schedule of \<^verbatim>\<open>core/src/emission.rs\<close>: the constants, the per-block functions
  (subsidy, tier, development allocation) and the closed forms over a range of heights. Every
  integer has the width the code gives it; \<open>as u128\<close> is \<^const>\<open>ucast\<close>, \<open>>>\<close> is
  \<^const>\<open>drop_bit\<close>, and the arithmetic wraps as in a release build. The theory
  Emission_Spec proves the closed forms against the per-block functions.
\<close>

section \<open>Constants\<close>

definition MICRONOID_PER_NOID :: u64 where "MICRONOID_PER_NOID = 1000000"
definition BASE_REWARD_MICRONOID :: u64 where "BASE_REWARD_MICRONOID = 50 * MICRONOID_PER_NOID"
definition FLOOR_REWARD_MICRONOID :: u64 where "FLOOR_REWARD_MICRONOID = MICRONOID_PER_NOID"
definition LOG_SLOTS_GENESIS :: u32 where "LOG_SLOTS_GENESIS = 24"

definition LEGACY_BLOCK_TIME :: u64 where "LEGACY_BLOCK_TIME = 20"
definition V2_BLOCK_TIME :: u64 where "V2_BLOCK_TIME = 30"
definition V2_ACTIVATION_HEIGHT :: u64 where "V2_ACTIVATION_HEIGHT = 210537"

definition BLOCKS_PER_DAY :: u64 where "BLOCKS_PER_DAY = 24 * 60 * 60 div LEGACY_BLOCK_TIME"
definition V2_BLOCKS_PER_DAY :: u64 where "V2_BLOCKS_PER_DAY = 24 * 60 * 60 div V2_BLOCK_TIME"

definition V2_REWARD_INTERVAL_BLOCKS :: u64 where
  "V2_REWARD_INTERVAL_BLOCKS = 365 * V2_BLOCKS_PER_DAY"

definition V2_REWARDS_MICRONOID :: "u64 list" where
  "V2_REWARDS_MICRONOID =
     [16000000, 11300000, 8000000, 5650000, 4000000, 2830000, 2000000, 1410000, 1000000]"

definition DEVELOPMENT_ALLOCATION_DURATION_SECONDS :: u64 where
  "DEVELOPMENT_ALLOCATION_DURATION_SECONDS = 86400 * 365 * 3"
definition LEGACY_DEVELOPMENT_ALLOCATION_END_HEIGHT :: u64 where
  "LEGACY_DEVELOPMENT_ALLOCATION_END_HEIGHT = BLOCKS_PER_DAY * 365 * 3"
definition DEVELOPMENT_ALLOCATION_END_HEIGHT :: u64 where
  "DEVELOPMENT_ALLOCATION_END_HEIGHT =
     (V2_ACTIVATION_HEIGHT - 1)
     + (DEVELOPMENT_ALLOCATION_DURATION_SECONDS - (V2_ACTIVATION_HEIGHT - 1) * LEGACY_BLOCK_TIME)
         div V2_BLOCK_TIME"
definition DEVELOPMENT_SHARE_DENOMINATOR :: u64 where "DEVELOPMENT_SHARE_DENOMINATOR = 20"

named_theorems schedule_consts \<open>the schedule's constants, evaluated\<close>

lemma schedule_values [schedule_consts]:
  "MICRONOID_PER_NOID = 1000000"
  "BASE_REWARD_MICRONOID = 50000000"
  "FLOOR_REWARD_MICRONOID = 1000000"
  "LOG_SLOTS_GENESIS = 24"
  "LEGACY_BLOCK_TIME = 20"
  "V2_BLOCK_TIME = 30"
  "V2_ACTIVATION_HEIGHT = 210537"
  "BLOCKS_PER_DAY = 4320"
  "V2_BLOCKS_PER_DAY = 2880"
  "V2_REWARD_INTERVAL_BLOCKS = 1051200"
  "LEGACY_DEVELOPMENT_ALLOCATION_END_HEIGHT = 4730400"
  "DEVELOPMENT_ALLOCATION_END_HEIGHT = 3223778"
  "DEVELOPMENT_SHARE_DENOMINATOR = 20"
  by (simp_all add: MICRONOID_PER_NOID_def BASE_REWARD_MICRONOID_def FLOOR_REWARD_MICRONOID_def
      LOG_SLOTS_GENESIS_def LEGACY_BLOCK_TIME_def V2_BLOCK_TIME_def V2_ACTIVATION_HEIGHT_def
      BLOCKS_PER_DAY_def V2_BLOCKS_PER_DAY_def V2_REWARD_INTERVAL_BLOCKS_def
      DEVELOPMENT_ALLOCATION_DURATION_SECONDS_def LEGACY_DEVELOPMENT_ALLOCATION_END_HEIGHT_def
      DEVELOPMENT_ALLOCATION_END_HEIGHT_def DEVELOPMENT_SHARE_DENOMINATOR_def)

section \<open>Per-block functions\<close>

definition v2_active :: "u64 \<Rightarrow> bool" where
  "v2_active height = (height \<ge> V2_ACTIVATION_HEIGHT)"

definition block_time_at :: "u64 \<Rightarrow> u64" where
  "block_time_at height = (if v2_active height then V2_BLOCK_TIME else LEGACY_BLOCK_TIME)"

definition target_seconds_between :: "u64 \<Rightarrow> u64 \<Rightarrow> u64" where
  "target_seconds_between from to =
     (if to \<le> from then 0
      else
        let last_legacy = V2_ACTIVATION_HEIGHT - 1;
            legacy = saturating_sub (min to last_legacy) from;
            v2 = to - from - legacy
        in legacy * LEGACY_BLOCK_TIME + v2 * V2_BLOCK_TIME)"

definition block_reward :: "u32 \<Rightarrow> u64" where
  "block_reward log_slots =
     (let halvings = saturating_sub log_slots LOG_SLOTS_GENESIS
      in max (drop_bit (unat (min halvings 63)) BASE_REWARD_MICRONOID) FLOOR_REWARD_MICRONOID)"

definition v2_tier :: "u64 \<Rightarrow> nat option" where
  "v2_tier height =
     (if v2_active height
      then Some (unat (min ((height - V2_ACTIVATION_HEIGHT) div V2_REWARD_INTERVAL_BLOCKS)
                           (of_nat (length V2_REWARDS_MICRONOID) - 1)))
      else None)"

definition v2_tier_first_height :: "nat \<Rightarrow> u64" where
  "v2_tier_first_height tier = V2_ACTIVATION_HEIGHT + of_nat tier * V2_REWARD_INTERVAL_BLOCKS"

definition block_reward_at :: "u64 \<Rightarrow> u32 \<Rightarrow> u64" where
  "block_reward_at height log_slots =
     (case v2_tier height of
        Some tier \<Rightarrow> V2_REWARDS_MICRONOID ! tier
      | None \<Rightarrow> block_reward log_slots)"

definition next_step_reward :: "u64 \<Rightarrow> u32 \<Rightarrow> u64" where
  "next_step_reward height log_slots =
     (case v2_tier height of
        Some tier \<Rightarrow> V2_REWARDS_MICRONOID ! min (tier + 1) (length V2_REWARDS_MICRONOID - 1)
      | None \<Rightarrow> block_reward (log_slots + 1))"

record development_allocation =
  active :: bool
  payout_due :: bool
  share_each :: u64
  payout_each :: "u64 option"
  miner_subsidy_of_block :: u64

definition development_allocation_at :: "u64 \<Rightarrow> u32 \<Rightarrow> development_allocation" where
  "development_allocation_at height log_slots =
     (let subsidy = block_reward_at height log_slots;
          inactive = \<lparr>active = False, payout_due = False, share_each = 0, payout_each = None,
                      miner_subsidy_of_block = subsidy\<rparr>;
          share = subsidy div DEVELOPMENT_SHARE_DENOMINATOR
      in if \<not> v2_active height then
           if height = 0 \<or> height > LEGACY_DEVELOPMENT_ALLOCATION_END_HEIGHT then inactive
           else
             let due = is_multiple_of height BLOCKS_PER_DAY
             in \<lparr>active = True, payout_due = due, share_each = share,
                 payout_each = (if due then Some (share * BLOCKS_PER_DAY) else None),
                 miner_subsidy_of_block = subsidy - 2 * share\<rparr>
         else if height > DEVELOPMENT_ALLOCATION_END_HEIGHT then inactive
         else
           let elapsed = height - (V2_ACTIVATION_HEIGHT - 1);
               count = (if height = V2_ACTIVATION_HEIGHT then None
                        else if is_multiple_of elapsed V2_BLOCKS_PER_DAY then Some V2_BLOCKS_PER_DAY
                        else if height = DEVELOPMENT_ALLOCATION_END_HEIGHT
                             then Some (elapsed mod V2_BLOCKS_PER_DAY)
                        else None)
           in \<lparr>active = True, payout_due = (count \<noteq> None), share_each = share,
               payout_each = map_option (\<lambda>blocks. share * blocks) count,
               miner_subsidy_of_block = subsidy - 2 * share\<rparr>)"

definition development_allocation_active :: "u64 \<Rightarrow> bool" where
  "development_allocation_active height =
     (height > 0 \<and> height \<le> DEVELOPMENT_ALLOCATION_END_HEIGHT)"

definition miner_subsidy :: "u64 \<Rightarrow> u32 \<Rightarrow> u64" where
  "miner_subsidy height log_slots =
     miner_subsidy_of_block (development_allocation_at height log_slots)"

definition development_payout :: "u64 \<Rightarrow> u32 \<Rightarrow> u64" where
  "development_payout height log_slots =
     (case payout_each (development_allocation_at height log_slots) of
        None \<Rightarrow> 0
      | Some each \<Rightarrow> 2 * each)"

definition is_development_payout_height :: "u64 \<Rightarrow> bool" where
  "is_development_payout_height height =
     payout_due (development_allocation_at height LOG_SLOTS_GENESIS)"

section \<open>Closed forms over ranges of heights\<close>

definition final_partial_payout_blocks :: u64 where
  "final_partial_payout_blocks =
     (DEVELOPMENT_ALLOCATION_END_HEIGHT - (V2_ACTIVATION_HEIGHT - 1)) mod V2_BLOCKS_PER_DAY"

definition v2_regular_payouts_in :: "u64 \<Rightarrow> u64 \<Rightarrow> u64" where
  "v2_regular_payouts_in lo hi =
     (let base = V2_ACTIVATION_HEIGHT - 1;
          hi = min hi DEVELOPMENT_ALLOCATION_END_HEIGHT;
          lo = max lo V2_ACTIVATION_HEIGHT
      in if hi < lo then 0
         else
           let k_max = (hi - base) div V2_BLOCKS_PER_DAY;
               k_min = div_ceil (lo - base) V2_BLOCKS_PER_DAY
           in saturating_sub (k_max + 1) k_min)"

definition development_payout_blocks_up_to :: "u64 \<Rightarrow> u64" where
  "development_payout_blocks_up_to height =
     (let legacy = min height (V2_ACTIVATION_HEIGHT - 1) div BLOCKS_PER_DAY;
          v2 = v2_regular_payouts_in V2_ACTIVATION_HEIGHT height;
          v2 = (if final_partial_payout_blocks \<noteq> 0 \<and> height \<ge> DEVELOPMENT_ALLOCATION_END_HEIGHT
                then v2 + 1 else v2)
      in legacy + v2)"

record emission_split =
  miner :: u128
  development :: u128

definition no_emission :: emission_split where
  "no_emission = \<lparr>miner = 0, development = 0\<rparr>"

definition add_split :: "emission_split \<Rightarrow> emission_split \<Rightarrow> emission_split" where
  "add_split a b = \<lparr>miner = miner a + miner b, development = development a + development b\<rparr>"

definition emitted_legacy_range :: "u64 \<Rightarrow> u64 \<Rightarrow> u32 \<Rightarrow> emission_split" where
  "emitted_legacy_range from to log_slots =
     (if to < from then no_emission
      else
        let subsidy = (ucast (block_reward log_slots) :: u128);
            share = ucast (block_reward log_slots div DEVELOPMENT_SHARE_DENOMINATOR);
            n = ucast (to - from + 1);
            payout_blocks = ucast (to div BLOCKS_PER_DAY - (from - 1) div BLOCKS_PER_DAY)
        in \<lparr>miner = n * (subsidy - 2 * share),
            development = payout_blocks * 2 * share * ucast BLOCKS_PER_DAY\<rparr>)"

fun legacy_ranges :: "u64 list \<Rightarrow> u64 \<Rightarrow> u32 \<Rightarrow> emission_split \<Rightarrow> emission_split" where
  "legacy_ranges [] start log_slots acc = acc"
| "legacy_ranges (next # bounds) start log_slots acc =
     legacy_ranges bounds next (log_slots + 1)
       (if next > start
        then add_split acc (emitted_legacy_range start (next - 1) log_slots)
        else acc)"

definition emitted_legacy_up_to :: "u64 \<Rightarrow> u64 list \<Rightarrow> emission_split" where
  "emitted_legacy_up_to height expansions =
     (let bounds = filter (\<lambda>h. h \<le> height) expansions @ [height + 1]
      in legacy_ranges bounds 1 LOG_SLOTS_GENESIS no_emission)"

definition tier_range_emission :: "u64 \<Rightarrow> u64 \<Rightarrow> nat \<Rightarrow> emission_split" where
  "tier_range_emission first last' tier =
     (let reward = (ucast (V2_REWARDS_MICRONOID ! tier) :: u128);
          share = ucast (V2_REWARDS_MICRONOID ! tier div DEVELOPMENT_SHARE_DENOMINATOR);
          dev_last = min last' DEVELOPMENT_ALLOCATION_END_HEIGHT;
          dev_blocks = (if dev_last \<ge> first then ucast (dev_last - first + 1) else 0);
          plain_blocks = ucast (last' - first + 1) - dev_blocks;
          regular = ucast (v2_regular_payouts_in first last') * 2 * share * ucast V2_BLOCKS_PER_DAY;
          partial = final_partial_payout_blocks;
          final = (if partial \<noteq> 0 \<and> first \<le> DEVELOPMENT_ALLOCATION_END_HEIGHT
                      \<and> DEVELOPMENT_ALLOCATION_END_HEIGHT \<le> last'
                   then 2 * share * ucast partial else 0)
      in \<lparr>miner = dev_blocks * (reward - 2 * share) + plain_blocks * reward,
          development = regular + final\<rparr>)"

definition v2_tier_emission :: "u64 \<Rightarrow> u64 \<Rightarrow> nat \<Rightarrow> emission_split" where
  "v2_tier_emission from to tier =
     (let first = max (v2_tier_first_height tier) from;
          last = (if tier + 1 = length V2_REWARDS_MICRONOID then to
                  else min (v2_tier_first_height (tier + 1) - 1) to)
      in if last < first then no_emission else tier_range_emission first last tier)"

definition emitted_v2_between :: "u64 \<Rightarrow> u64 \<Rightarrow> emission_split" where
  "emitted_v2_between from to =
     (if to < from then no_emission
      else foldl (\<lambda>total tier. add_split total (v2_tier_emission from to tier)) no_emission
             [0..<length V2_REWARDS_MICRONOID])"

definition emitted_split_up_to :: "u64 \<Rightarrow> u64 list \<Rightarrow> emission_split" where
  "emitted_split_up_to height expansions =
     (let total = emitted_legacy_up_to (min height (V2_ACTIVATION_HEIGHT - 1)) expansions
      in if v2_active height
         then add_split total (emitted_v2_between V2_ACTIVATION_HEIGHT height)
         else total)"

definition emitted_up_to :: "u64 \<Rightarrow> u64 list \<Rightarrow> u128" where
  "emitted_up_to height expansions =
     (let split = emitted_split_up_to height expansions in miner split + development split)"

definition next_development_payout_height :: "u64 \<Rightarrow> u64 option" where
  "next_development_payout_height height =
     (let legacy_next = (height div BLOCKS_PER_DAY + 1) * BLOCKS_PER_DAY
      in if height < V2_ACTIVATION_HEIGHT - 1 \<and> legacy_next < V2_ACTIVATION_HEIGHT
         then Some legacy_next
         else
           let base = V2_ACTIVATION_HEIGHT - 1;
               from = max height base;
               next = base + ((from - base) div V2_BLOCKS_PER_DAY + 1) * V2_BLOCKS_PER_DAY
           in if next \<le> DEVELOPMENT_ALLOCATION_END_HEIGHT then Some next
              else if height < DEVELOPMENT_ALLOCATION_END_HEIGHT \<and> final_partial_payout_blocks \<noteq> 0
              then Some DEVELOPMENT_ALLOCATION_END_HEIGHT
              else None)"

section \<open>The same functions on natural numbers\<close>

text \<open>
  Reading heights as natural numbers: what each per-block function is, with no wrap-around
  in the way. All later proofs about the schedule use these equations.
\<close>

lemma v2_active_nat: "v2_active h \<longleftrightarrow> 210537 \<le> unat h"
  by (simp add: v2_active_def schedule_consts u_arith)

lemma unat_block_time_at: "unat (block_time_at h) = (if 210537 \<le> unat h then 30 else 20)"
  by (simp add: block_time_at_def v2_active_nat schedule_consts)

lemma final_partial_payout_blocks_value [schedule_consts]: "final_partial_payout_blocks = 762"
  by (simp add: final_partial_payout_blocks_def schedule_consts)

lemma length_rewards [simp]: "length V2_REWARDS_MICRONOID = 9"
  by (simp add: V2_REWARDS_MICRONOID_def)

lemma v2_tier_nat:
  "v2_tier h = (if 210537 \<le> unat h then Some (min ((unat h - 210537) div 1051200) 8) else None)"
  by (auto simp: v2_tier_def v2_active_nat schedule_consts u_arith)

lemma v2_tier_bound: "v2_tier h = Some t \<Longrightarrow> t < 9"
  by (auto simp: v2_tier_nat split: if_splits)

lemma unat_v2_tier_first_height:
  "t \<le> 9 \<Longrightarrow> unat (v2_tier_first_height t) = 210537 + t * 1051200"
  by (simp add: v2_tier_first_height_def schedule_consts u_arith unat_of_nat)

end
