(* ===== verification/Emission_Spec.thy ===== *)
theory Emission_Spec
  imports Emission
begin

text \<open>
  The emission schedule's contract: what the closed forms of Emission promise is the sum of
  what the per-block functions mint, block by block. The locale \<open>cumulative\<close> states the
  contract of a running total against its per-block amount, and its interpretations are the
  totals the code computes in closed form.
\<close>

section \<open>Running totals\<close>

text \<open>
  A running total over heights, read against what one block adds to it. The totals of the
  schedule depend on a history (the heights at which the state expanded); \<open>valid\<close> says which
  histories the total is defined for and \<open>bound\<close> up to which height the machine integers hold it.
\<close>

locale cumulative =
  fixes total :: "'h \<Rightarrow> nat \<Rightarrow> nat" and per_block :: "'h \<Rightarrow> nat \<Rightarrow> nat"
    and valid :: "'h \<Rightarrow> bool" and bound :: nat
  assumes total_is_sum: "valid x \<Longrightarrow> h \<le> bound \<Longrightarrow> total x h = (\<Sum>k = 1..h. per_block x k)"
begin

lemma total_step:
  "valid x \<Longrightarrow> Suc h \<le> bound \<Longrightarrow> total x (Suc h) = total x h + per_block x (Suc h)"
  by (simp add: total_is_sum)

lemma total_mono: "valid x \<Longrightarrow> a \<le> b \<Longrightarrow> b \<le> bound \<Longrightarrow> total x a \<le> total x b"
  by (simp add: total_is_sum sum_mono2)

lemma total_between:
  assumes "valid x" "a \<le> b" "b \<le> bound"
  shows "total x b = total x a + (\<Sum>k = Suc a..b. per_block x k)"
proof -
  have "{1..b} = {1..a} \<union> {Suc a..b}" and "{1..a} \<inter> {Suc a..b} = {}"
    using assms by auto
  then have "(\<Sum>k = 1..b. per_block x k) = (\<Sum>k = 1..a. per_block x k) + (\<Sum>k = Suc a..b. per_block x k)"
    by (simp add: sum.union_disjoint)
  then show ?thesis
    using assms by (simp add: total_is_sum)
qed

lemma total_at_most:
  assumes "valid x" "h \<le> bound" "\<And>k. 1 \<le> k \<Longrightarrow> k \<le> h \<Longrightarrow> per_block x k \<le> m"
  shows "total x h \<le> h * m"
  using sum_bounded_above [of "{1..h}" "per_block x" m] assms by (simp add: total_is_sum)

end

section \<open>Counting helpers\<close>

lemma sum_multiples:
  fixes a b s d c :: nat
  assumes "s < a" "a \<le> Suc b" "0 < d"
  shows "(\<Sum>k = a..b. if d dvd (k - s) then c else 0) = ((b - s) div d - (a - 1 - s) div d) * c"
proof -
  have "(\<Sum>k = a..a - 1 + n. if d dvd (k - s) then c else 0)
      = ((a - 1 + n - s) div d - (a - 1 - s) div d) * c" for n
  proof (induction n)
    case 0
    then show ?case using assms(1) by simp
  next
    case (Suc n)
    let ?m = "a - 1 + n"
    have shift: "Suc ?m - s = Suc (?m - s)" using assms(1) by simp
    have "(Suc ?m - s) div d = (?m - s) div d + (if d dvd (Suc ?m - s) then 1 else 0)"
      unfolding shift by (simp add: div_Suc dvd_eq_mod_eq_0)
    moreover have "(a - 1 - s) div d \<le> (?m - s) div d"
      by (intro div_le_mono) auto
    moreover have "(\<Sum>k = a..Suc ?m. if d dvd (k - s) then c else 0)
        = (\<Sum>k = a..?m. if d dvd (k - s) then c else 0) + (if d dvd (Suc ?m - s) then c else 0)"
      by (subst sum.nat_ivl_Suc') (use assms(1) in auto)
    moreover have "p \<le> q \<Longrightarrow> (q + (if P then 1 else 0) - p) * c = (q - p) * c + (if P then c else 0)"
      for p q :: nat and P by (auto simp: Suc_diff_le)
    ultimately show ?case
      using Suc.IH by (simp only: add_Suc_right)
  qed
  from this [of "Suc b - a"] show ?thesis
    using assms by simp
qed

lemma sum_two_rates:
  fixes a b e x y :: nat
  assumes "a \<le> Suc b"
  shows "(\<Sum>k = a..b. if k \<le> e then x else y)
    = (Suc (min b e) - a) * x + ((Suc b - a) - (Suc (min b e) - a)) * y"
proof -
  have "{a..b} = {a..min b e} \<union> {max a (Suc e)..b}" and "{a..min b e} \<inter> {max a (Suc e)..b} = {}"
    using assms by auto
  then have "(\<Sum>k = a..b. if k \<le> e then x else y)
      = (\<Sum>k = a..min b e. x) + (\<Sum>k = max a (Suc e)..b. y)"
    by (simp add: sum.union_disjoint)
  also have "\<dots> = (Suc (min b e) - a) * x + (Suc b - max a (Suc e)) * y"
    by simp
  also have "Suc b - max a (Suc e) = (Suc b - a) - (Suc (min b e) - a)"
    using assms by auto
  finally show ?thesis .
qed

lemma ceil_div_nat: "0 < x \<Longrightarrow> (if 0 < x mod d then x div d + 1 else x div d) = (x - 1) div d + (1::nat)"
  by (cases x) (auto simp: div_Suc)

lemma ucast_u128_of_nat: "(ucast (x :: u64) :: u128) = of_nat (unat x)"
  by (simp add: word_unat_eq_iff unat_ucast_u128 unat_of_nat unsigned_less [of x, THEN less_le_trans])

section \<open>The per-block functions as natural numbers\<close>

definition gross :: "nat \<Rightarrow> u32 \<Rightarrow> nat" where
  "gross k ls = unat (block_reward_at (of_nat k) ls)"

definition mined :: "nat \<Rightarrow> u32 \<Rightarrow> nat" where
  "mined k ls = unat (miner_subsidy (of_nat k) ls)"

definition paid_out :: "nat \<Rightarrow> u32 \<Rightarrow> nat" where
  "paid_out k ls = unat (development_payout (of_nat k) ls)"

lemma unat_block_reward_bounds:
  "unat (block_reward ls) \<le> 50000000" "1000000 \<le> unat (block_reward ls)"
proof -
  have "unat (drop_bit n (50000000 :: u64)) \<le> 50000000" for n
    by (simp add: drop_bit_eq_div unat_div)
  then show "unat (block_reward ls) \<le> 50000000" "1000000 \<le> unat (block_reward ls)"
    by (simp_all add: block_reward_def schedule_consts u_arith Let_def)
qed

lemma v2_reward_cases: "t < 9 \<Longrightarrow> V2_REWARDS_MICRONOID ! t \<in> set V2_REWARDS_MICRONOID"
  by simp

lemma v2_reward_bounds:
  assumes "t < 9"
  shows "unat (V2_REWARDS_MICRONOID ! t) \<le> 16000000" "1000000 \<le> unat (V2_REWARDS_MICRONOID ! t)"
  using v2_reward_cases [OF assms] by (auto simp: V2_REWARDS_MICRONOID_def)

lemma gross_bounds: "gross k ls \<le> 50000000" "1000000 \<le> gross k ls"
  unfolding gross_def block_reward_at_def
  using unat_block_reward_bounds [of ls] v2_reward_bounds v2_tier_bound
  by (auto split: option.splits intro: order_trans [of _ 16000000])

lemma of_nat_u64: "k < 2 ^ 64 \<Longrightarrow> unat (of_nat k :: u64) = k"
  by (simp add: unat_of_nat)

lemma unat_share:
  assumes "unat (g :: u64) \<le> 50000000"
  shows "unat (g div 20) = unat g div 20" "unat (g - 2 * (g div 20)) = unat g - 2 * (unat g div 20)"
    "n \<le> 4320 \<Longrightarrow> unat (2 * (g div 20 * of_nat n)) = 2 * (unat g div 20 * n)"
proof -
  show s: "unat (g div 20) = unat g div 20" by (simp add: unat_div)
  have d: "unat (2 * (g div 20)) = 2 * (unat g div 20)"
    using assms by (subst unat_mult_bound) (auto simp: s)
  show "unat (g - 2 * (g div 20)) = unat g - 2 * (unat g div 20)"
    by (subst unat_sub_bound) (auto simp: d)
  assume n: "n \<le> 4320"
  then have un: "unat (of_nat n :: u64) = n" by (simp add: unat_of_nat)
  have le: "unat g div 20 * n \<le> 2500000 * 4320"
    using assms n by (intro mult_le_mono) auto
  then have m: "unat (g div 20 * of_nat n) = unat g div 20 * n"
    by (subst unat_mult_bound) (auto simp: s un)
  show "unat (2 * (g div 20 * of_nat n)) = 2 * (unat g div 20 * n)"
    using le by (subst unat_mult_bound) (simp_all add: m mult.commute [of n "unat g div 20"])
qed

lemma v2_active_of_nat: "k < 2 ^ 64 \<Longrightarrow> v2_active (of_nat k) \<longleftrightarrow> 210537 \<le> k"
  by (simp add: v2_active_nat of_nat_u64)

lemmas alloc_defs = mined_def paid_out_def miner_subsidy_def development_payout_def
  development_allocation_at_def Let_def

lemma mined_legacy:
  assumes "1 \<le> k" "k \<le> 210536"
  shows "mined k ls = gross k ls - 2 * (gross k ls div 20)"
    "paid_out k ls = (if 4320 dvd k then 2 * (gross k ls div 20 * 4320) else 0)"
proof -
  have k: "unat (of_nat k :: u64) = k" using assms by (simp add: unat_of_nat)
  have "\<not> v2_active (of_nat k)" using assms by (simp add: v2_active_nat k)
  then show "mined k ls = gross k ls - 2 * (gross k ls div 20)"
    "paid_out k ls = (if 4320 dvd k then 2 * (gross k ls div 20 * 4320) else 0)"
    using assms unat_share(2) [of "block_reward_at (of_nat k) ls"]
      unat_share(3) [of "block_reward_at (of_nat k) ls" 4320] gross_bounds(1) [of k ls]
    by (simp_all add: alloc_defs gross_def schedule_consts u_arith k)
qed

lemma mined_v2:
  assumes "210537 \<le> k" "k < 2 ^ 64"
  shows "mined k ls = (if k \<le> 3223778 then gross k ls - 2 * (gross k ls div 20) else gross k ls)"
    "paid_out k ls = (if k \<le> 3223778 \<and> 2880 dvd (k - 210536) then 2 * (gross k ls div 20 * 2880)
                      else if k = 3223778 then 2 * (gross k ls div 20 * 762) else 0)"
proof -
  have k: "unat (of_nat k :: u64) = k" using assms by (simp add: unat_of_nat)
  have a: "v2_active (of_nat k)" using assms by (simp add: v2_active_nat k)
  note u = unat_share(2) [of "block_reward_at (of_nat k) ls"]
    unat_share(3) [of "block_reward_at (of_nat k) ls" 2880]
    unat_share(3) [of "block_reward_at (of_nat k) ls" 762] gross_bounds(1) [of k ls]
  show "mined k ls = (if k \<le> 3223778 then gross k ls - 2 * (gross k ls div 20) else gross k ls)"
    using a u by (simp add: alloc_defs gross_def schedule_consts u_arith k)
  have el: "k \<le> 3223778 \<Longrightarrow> unat (of_nat k - 210536 :: u64) = k - 210536"
    using assms by (subst unat_sub_bound) (auto simp: k)
  show "paid_out k ls = (if k \<le> 3223778 \<and> 2880 dvd (k - 210536) then 2 * (gross k ls div 20 * 2880)
                      else if k = 3223778 then 2 * (gross k ls div 20 * 762) else 0)"
    using a u by (auto simp: alloc_defs gross_def schedule_consts u_arith k el)
qed

section \<open>The closed forms are the block-by-block sums\<close>

text \<open>
  \<open>split_sum L a b\<close> is what the blocks \<open>a \<le> k < b\<close> mint, added up one by one, where \<open>L k\<close> is
  the state size at block \<open>k\<close>. In the ring of 128-bit words no overflow side condition is
  needed; the bound comes in once, at the end.
\<close>

definition split_sum :: "(nat \<Rightarrow> u32) \<Rightarrow> nat \<Rightarrow> nat \<Rightarrow> emission_split" where
  "split_sum L a b =
     \<lparr>miner = of_nat (\<Sum>k = a..<b. mined k (L k)), development = of_nat (\<Sum>k = a..<b. paid_out k (L k))\<rparr>"

lemma add_split_simps [simp]:
  "add_split a no_emission = a" "add_split no_emission a = a"
  by (simp_all add: add_split_def no_emission_def)

lemma add_split_assoc: "add_split (add_split a b) c = add_split a (add_split b c)"
  by (simp add: add_split_def add.assoc)

lemma split_sum_append:
  "a \<le> b \<Longrightarrow> b \<le> c \<Longrightarrow> add_split (split_sum L a b) (split_sum L b c) = split_sum L a c"
  by (simp add: split_sum_def add_split_def sum.atLeastLessThan_concat flip: of_nat_add)

lemma split_sum_cong:
  "(\<And>k. a \<le> k \<Longrightarrow> k < b \<Longrightarrow> L k = L' k) \<Longrightarrow> split_sum L a b = split_sum L' a b"
  unfolding split_sum_def by (intro arg_cong2 [where f = "\<lambda>x y. \<lparr>miner = x, development = y\<rparr>"]
    arg_cong [where f = of_nat] sum.cong) auto

lemma split_sum_empty: "b \<le> a \<Longrightarrow> split_sum L a b = no_emission"
  by (simp add: split_sum_def no_emission_def)

lemma gross_legacy: "k \<le> 210536 \<Longrightarrow> gross k ls = unat (block_reward ls)"
  by (simp add: gross_def block_reward_at_def v2_tier_nat unat_of_nat)

lemma emitted_legacy_range_sum:
  assumes "1 \<le> unat from" "unat from \<le> unat to" "unat to \<le> 210536"
  shows "emitted_legacy_range from to ls = split_sum (\<lambda>_. ls) (unat from) (Suc (unat to))"
proof -
  let ?a = "unat from" and ?b = "unat to" and ?g = "unat (block_reward ls)"
  let ?s = "?g div 20"
  have g: "?g \<le> 50000000" by (rule unat_block_reward_bounds)
  have sub: "unat (to - from) = ?b - ?a" "unat (from - 1) = ?a - 1"
    using assms by (simp_all add: u_arith)
  have n: "unat (to - from + 1) = Suc ?b - ?a"
    using assms by (subst unat_add_bound) (auto simp: sub)
  have le: "(?a - 1) div 4320 \<le> ?b div 4320" using assms by (intro div_le_mono) auto
  have p: "unat (to div 4320 - (from - 1) div 4320) = ?b div 4320 - (?a - 1) div 4320"
    using le by (subst unat_sub_bound) (auto simp: sub unat_div)
  have mined: "(\<Sum>k = ?a..<Suc ?b. mined k ls) = (Suc ?b - ?a) * (?g - 2 * ?s)"
  proof -
    have "(\<Sum>k = ?a..<Suc ?b. mined k ls) = (\<Sum>k = ?a..<Suc ?b. ?g - 2 * ?s)"
      using assms by (intro sum.cong) (auto simp: mined_legacy(1) gross_legacy)
    then show ?thesis by (simp only: sum_constant card_atLeastLessThan of_nat_id)
  qed
  have "(\<Sum>k = ?a..<Suc ?b. paid_out k ls) = (\<Sum>k = ?a..?b. if 4320 dvd (k - 0) then 2 * (?s * 4320) else 0)"
    using assms by (intro sum.cong) (auto simp: mined_legacy(2) gross_legacy)
  also have "\<dots> = (?b div 4320 - (?a - 1) div 4320) * (2 * (?s * 4320))"
    using assms by (subst sum_multiples) auto
  finally have paid: "(\<Sum>k = ?a..<Suc ?b. paid_out k ls)
      = (?b div 4320 - (?a - 1) div 4320) * (2 * (?s * 4320))" .
  have wide: "(of_nat ?g :: u128) - 2 * of_nat ?s = of_nat (?g - 2 * ?s)"
    by (subst of_nat_diff) simp_all
  have "emitted_legacy_range from to ls = \<lparr>miner = of_nat (Suc ?b - ?a) * (of_nat ?g - 2 * of_nat ?s),
      development = of_nat (?b div 4320 - (?a - 1) div 4320) * 2 * of_nat ?s * 4320\<rparr>"
    using assms(2) by (simp only: emitted_legacy_range_def schedule_consts Let_def word_less_nat_alt
        ucast_u128_of_nat n p unat_div if_False linorder_not_less [symmetric]) simp
  then show ?thesis
    unfolding split_sum_def mined paid wide by (simp only: of_nat_mult of_nat_numeral mult.assoc)
qed

lemma legacy_ranges_sum:
  assumes "bounds \<noteq> []" "sorted (map unat (start # bounds))" "1 \<le> unat start" "unat (last bounds) \<le> 210537"
  shows "legacy_ranges bounds start ls acc
    = add_split acc (split_sum (\<lambda>k. ls + of_nat (length (filter (\<lambda>b. unat b \<le> k) bounds)))
                      (unat start) (unat (last bounds)))"
  using assms
proof (induction bounds arbitrary: start ls acc)
  case Nil
  then show ?case by simp
next
  case (Cons nb bs)
  define L where "L = (\<lambda>k. ls + of_nat (length (filter (\<lambda>b. unat b \<le> k) (nb # bs))))"
  have sn: "unat start \<le> unat nb" using Cons.prems by auto
  have nl: "unat nb \<le> unat (last (nb # bs))"
    using Cons.prems by (cases bs rule: rev_cases) auto
  have const: "L k = ls" if "k < unat nb" for k
  proof -
    have "filter (\<lambda>b. unat b \<le> k) (nb # bs) = []"
      using that Cons.prems by (auto simp: filter_empty_conv)
    then show ?thesis by (simp add: L_def)
  qed
  have low: "split_sum L (unat start) (unat nb) = split_sum (\<lambda>_. ls) (unat start) (unat nb)"
    by (rule split_sum_cong) (rule const)
  define hd_sum where "hd_sum = (if nb > start
      then add_split acc (emitted_legacy_range start (nb - 1) ls) else acc)"
  have hd_sum: "hd_sum = add_split acc (split_sum L (unat start) (unat nb))"
  proof (cases "start < nb")
    case True
    then have "unat (nb - 1) = unat nb - 1" using Cons.prems by (simp add: u_arith)
    with True Cons.prems nl have "emitted_legacy_range start (nb - 1) ls
        = split_sum (\<lambda>_. ls) (unat start) (unat nb)"
      by (subst emitted_legacy_range_sum) (auto simp: word_less_nat_alt)
    with True show ?thesis
      by (simp only: hd_sum_def low if_True)
  next
    case False
    with sn show ?thesis
      by (simp add: hd_sum_def split_sum_empty word_less_nat_alt)
  qed
  show ?case
  proof (cases "bs = []")
    case True
    then show ?thesis using hd_sum by (simp add: hd_sum_def L_def)
  next
    case False
    have "legacy_ranges bs nb (ls + 1) hd_sum = add_split hd_sum
        (split_sum (\<lambda>k. (ls + 1) + of_nat (length (filter (\<lambda>b. unat b \<le> k) bs))) (unat nb) (unat (last bs)))"
      using Cons.prems False by (intro Cons.IH) auto
    also have "split_sum (\<lambda>k. (ls + 1) + of_nat (length (filter (\<lambda>b. unat b \<le> k) bs))) (unat nb) (unat (last bs))
        = split_sum L (unat nb) (unat (last bs))"
      by (intro split_sum_cong) (simp add: L_def add.assoc)
    finally have tail: "legacy_ranges bs nb (ls + 1) hd_sum
        = add_split hd_sum (split_sum L (unat nb) (unat (last bs)))" .
    have "last (nb # bs) = last bs" using False by simp
    then show ?thesis
      using tail split_sum_append [OF sn, of "unat (last bs)" L] nl
      by (simp only: legacy_ranges.simps hd_sum_def [symmetric] hd_sum add_split_assoc L_def [symmetric])
  qed
qed

section \<open>The v2 tiers\<close>

definition cut :: "nat \<Rightarrow> nat \<Rightarrow> nat" where
  "cut to t = (if t = 9 then Suc to else min (210537 + t * 1051200) (Suc to))"

lemma gross_v2:
  assumes "210537 \<le> k" "k < 2 ^ 64"
  shows "gross k ls = unat (V2_REWARDS_MICRONOID ! min ((k - 210537) div 1051200) 8)"
  using assms by (simp add: gross_def block_reward_at_def v2_tier_nat of_nat_u64)

lemma cut_tier:
  assumes "t < 9" "cut to t \<le> k" "k < cut to (Suc t)"
  shows "min ((k - 210537) div 1051200) 8 = t"
proof (cases "t = 8")
  case True
  then have "8 * 1051200 \<le> k - 210537" using assms by (auto simp: cut_def split: if_splits)
  then have "8 \<le> (k - 210537) div 1051200" by simp
  with True show ?thesis by simp
next
  case False
  then have "t * 1051200 \<le> k - 210537" "k - 210537 < Suc t * 1051200"
    using assms by (auto simp: cut_def split: if_splits)
  then have "(k - 210537) div 1051200 = t"
    by (simp add: div_nat_eqI)
  with assms show ?thesis by simp
qed

lemma cut_mono: "t < 9 \<Longrightarrow> cut to t \<le> cut to (Suc t)"
  by (auto simp: cut_def)

lemma v2_first_last:
  assumes "t < 9" "210537 \<le> unat to"
  shows "unat (max (v2_tier_first_height t) V2_ACTIVATION_HEIGHT) = 210537 + t * 1051200"
    "unat (if t + 1 = length V2_REWARDS_MICRONOID then to
           else min (v2_tier_first_height (t + 1) - 1) to) = cut (unat to) (Suc t) - 1"
proof -
  have f: "unat (v2_tier_first_height (Suc t)) = 210537 + Suc t * 1051200"
    using assms by (intro unat_v2_tier_first_height) simp
  then have "unat (v2_tier_first_height (Suc t) - 1) = 210536 + Suc t * 1051200"
    by (subst unat_sub_bound) auto
  then show "unat (if t + 1 = length V2_REWARDS_MICRONOID then to
           else min (v2_tier_first_height (t + 1) - 1) to) = cut (unat to) (Suc t) - 1"
    using assms by (auto simp: cut_def unat_min)
  show "unat (max (v2_tier_first_height t) V2_ACTIVATION_HEIGHT) = 210537 + t * 1051200"
    using assms by (simp add: u_arith unat_v2_tier_first_height schedule_consts)
qed

lemma v2_regular_payouts_count:
  assumes "210537 \<le> unat lo" "unat lo \<le> unat hi"
  shows "unat (v2_regular_payouts_in lo hi)
    = (min (unat hi) 3223778 - 210536) div 2880 - (unat lo - 1 - 210536) div 2880"
proof (cases "unat lo \<le> 3223778")
  case True
  have hb: "unat (min hi 3223778 - 210536) = min (unat hi) 3223778 - 210536"
    using assms by (subst unat_sub_bound) (auto simp: unat_min)
  have lb: "unat (lo - 210536) = unat lo - 210536"
    using assms by (subst unat_sub_bound) auto
  have mx: "max lo 210537 = lo" using assms by (auto simp: word_unat_eq_iff unat_max)
  have nl: "\<not> min hi 3223778 < lo" using assms True by (simp add: word_less_nat_alt unat_min)
  have k: "unat ((min hi 3223778 - 210536) div 2880 + 1) = (min (unat hi) 3223778 - 210536) div 2880 + 1"
  proof -
    have "(min (unat hi) 3223778 - 210536) div 2880 \<le> 3223778 div 2880"
      by (intro div_le_mono) auto
    then show ?thesis by (subst unat_add_bound) (auto simp: unat_div hb)
  qed
  have lt: "unat lo - 210536 < 18446744073709551616"
    using unat_u64_bound [of lo] by linarith
  have c: "unat (div_ceil (lo - 210536) 2880) = (unat lo - 210536 - 1) div 2880 + 1"
    using assms lt ceil_div_nat [of "unat lo - 210536" 2880]
    by (auto simp: div_ceil_def unat_div unat_mod lb word_less_nat_alt word_unat_eq_iff unat_word_ariths split: if_splits)
  show ?thesis
    using nl by (simp add: v2_regular_payouts_in_def schedule_consts Let_def mx unat_saturating_sub k c)
next
  case False
  then have "min hi 3223778 < max lo 210537" using assms by (auto simp: u_arith)
  moreover have "3013242 div 2880 \<le> (unat lo - 1 - 210536) div 2880"
    using False by (intro div_le_mono) auto
  ultimately show ?thesis
    using assms False by (simp add: v2_regular_payouts_in_def schedule_consts Let_def min_def)
qed

lemma sum_payouts:
  fixes a b c d :: nat
  assumes "210536 < a" "a \<le> b"
  shows "(\<Sum>k = a..b. if k \<le> 3223778 \<and> 2880 dvd (k - 210536) then c else if k = 3223778 then d else 0)
    = ((min b 3223778 - 210536) div 2880 - (a - 1 - 210536) div 2880) * c
      + (if a \<le> 3223778 \<and> 3223778 \<le> b then d else 0)"
proof -
  have nd: "\<not> 2880 dvd (3013242 :: nat)" by (simp add: dvd_eq_mod_eq_0)
  have "(\<Sum>k = a..b. if k \<le> 3223778 \<and> 2880 dvd (k - 210536) then c else if k = 3223778 then d else 0)
      = (\<Sum>k = a..b. if k \<le> 3223778 \<and> 2880 dvd (k - 210536) then c else 0)
        + (\<Sum>k = a..b. if k = 3223778 then d else 0)"
    unfolding sum.distrib [symmetric] using nd by (intro sum.cong) auto
  moreover have "(\<Sum>k = a..b. if k = 3223778 then d else 0) = (if a \<le> 3223778 \<and> 3223778 \<le> b then d else 0)"
    by (simp add: sum.delta)
  moreover have "(\<Sum>k = a..b. if k \<le> 3223778 \<and> 2880 dvd (k - 210536) then c else 0)
      = ((min b 3223778 - 210536) div 2880 - (a - 1 - 210536) div 2880) * c"
  proof (cases "a \<le> 3223778")
    case True
    have "(\<Sum>k = a..b. if k \<le> 3223778 \<and> 2880 dvd (k - 210536) then c else 0)
        = (\<Sum>k = a..min b 3223778. if 2880 dvd (k - 210536) then c else 0)"
      using assms True by (intro sum.mono_neutral_cong_right) auto
    then show ?thesis using assms True by (subst (asm) sum_multiples) auto
  next
    case False
    then have "(3223778 - 210536) div 2880 \<le> (a - 1 - 210536) div 2880"
      by (intro div_le_mono) auto
    then show ?thesis using False assms by (simp add: min_def)
  qed
  ultimately show ?thesis by simp
qed

lemma v2_tier_emission_sum:
  assumes t: "t < 9" and to: "210537 \<le> unat to"
  shows "v2_tier_emission V2_ACTIVATION_HEIGHT to t = split_sum L (cut (unat to) t) (cut (unat to) (Suc t))"
proof -
  define a where "a = 210537 + t * 1051200"
  define b where "b = cut (unat to) (Suc t) - 1"
  define first where "first = max (v2_tier_first_height t) V2_ACTIVATION_HEIGHT"
  define final where "final = (if t + 1 = length V2_REWARDS_MICRONOID then to
           else min (v2_tier_first_height (t + 1) - 1) to)"
  have unfolded: "v2_tier_emission V2_ACTIVATION_HEIGHT to t
      = (if final < first then no_emission else tier_range_emission first final t)"
    by (simp only: v2_tier_emission_def Let_def first_def final_def)
  have fa: "unat first = a" and lb: "unat final = b"
    unfolding first_def final_def a_def b_def by (fact v2_first_last [OF t to])+
  show ?thesis
  proof (cases "b < a")
    case True
    then have "cut (unat to) (Suc t) \<le> cut (unat to) t"
      using t by (auto simp: a_def b_def cut_def split: if_splits)
    with True show ?thesis
      by (simp add: unfolded word_less_nat_alt fa lb split_sum_empty)
  next
    case False
    then have ca: "cut (unat to) t = a" and cb: "cut (unat to) (Suc t) = Suc b"
      using t to by (auto simp: a_def b_def cut_def split: if_splits)
    have b64: "b < 2 ^ 64" using unat_u64_bound [of final] lb by simp
    have a537: "210537 \<le> a" by (simp add: a_def)
    define g where "g = unat (V2_REWARDS_MICRONOID ! t)"
    have g: "gross k ls = g" if "a \<le> k" "k \<le> b" for k ls
      using gross_v2 [of k ls] cut_tier [OF t, of "unat to" k] that ca cb a537 b64 by (simp add: g_def)
    have "(\<Sum>k = a..b. mined k (L k)) = (\<Sum>k = a..b. if k \<le> 3223778 then g - 2 * (g div 20) else g)"
      using a537 b64 by (intro sum.cong) (auto simp: mined_v2(1) g)
    also have "\<dots> = (Suc (min b 3223778) - a) * (g - 2 * (g div 20))
        + ((Suc b - a) - (Suc (min b 3223778) - a)) * g"
      using False by (intro sum_two_rates) simp
    finally have M: "(\<Sum>k = a..b. mined k (L k)) = \<dots>" .
    have "(\<Sum>k = a..b. paid_out k (L k)) = (\<Sum>k = a..b. if k \<le> 3223778 \<and> 2880 dvd (k - 210536)
        then 2 * (g div 20 * 2880) else if k = 3223778 then 2 * (g div 20 * 762) else 0)"
      using a537 b64 by (intro sum.cong) (auto simp: mined_v2(2) g)
    also have "\<dots> = ((min b 3223778 - 210536) div 2880 - (a - 1 - 210536) div 2880) * (2 * (g div 20 * 2880))
      + (if a \<le> 3223778 \<and> 3223778 \<le> b then 2 * (g div 20 * 762) else 0)"
      using False a537 by (intro sum_payouts) auto
    finally have P: "(\<Sum>k = a..b. paid_out k (L k)) = \<dots>" .
    have n: "unat (final - first + 1) = Suc b - a"
      using False fa lb b64 a537 by (subst unat_add_bound) (auto simp: unat_sub_bound)
    have dev: "unat (if min final 3223778 \<ge> first then min final 3223778 - first + 1 else 0) = Suc (min b 3223778) - a"
      using False fa lb b64 a537 by (auto simp: unat_min word_le_nat_alt unat_sub_bound unat_add_bound)
    define D where "D = Suc (min b 3223778) - a"
    define R where "R = (min b 3223778 - 210536) div 2880 - (a - 1 - 210536) div 2880"
    have reg: "unat (v2_regular_payouts_in first final) = R"
      using v2_regular_payouts_count [of first final] a537 False by (simp add: fa lb R_def)
    have gd: "unat (V2_REWARDS_MICRONOID ! t div 20) = g div 20" by (simp add: g_def unat_div)
    have wide: "(of_nat g :: u128) - 2 * of_nat (g div 20) = of_nat (g - 2 * (g div 20))"
      "(of_nat (Suc b - a) :: u128) - of_nat D = of_nat (Suc b - a - D)"
      by (subst of_nat_diff; simp add: D_def)+
    have dcast: "(if first \<le> min final 3223778 then ucast (min final 3223778 - first + 1) else 0 :: u128) = of_nat D"
      unfolding D_def dev [symmetric] ucast_u128_of_nat [symmetric] by (simp only: if_distrib [of ucast] unsigned_0)
    have num: "(ucast (2880 :: u64) :: u128) = 2880" "(ucast (762 :: u64) :: u128) = 762"
      "((762 :: u64) = 0) = False"
      by simp_all
    have ends: "first \<le> 3223778 \<longleftrightarrow> a \<le> 3223778" "3223778 \<le> final \<longleftrightarrow> 3223778 \<le> b"
      by (simp_all add: word_le_nat_alt fa lb)
    have "v2_tier_emission V2_ACTIVATION_HEIGHT to t = tier_range_emission first final t"
      using False by (simp add: unfolded word_less_nat_alt fa lb)
    also have "\<dots> = \<lparr>miner = of_nat D * (of_nat g - 2 * of_nat (g div 20))
          + (of_nat (Suc b - a) - of_nat D) * of_nat g,
        development = of_nat R * 2 * of_nat (g div 20) * 2880
          + (if a \<le> 3223778 \<and> 3223778 \<le> b then 2 * of_nat (g div 20) * 762 else 0)\<rparr>"
      unfolding tier_range_emission_def Let_def schedule_consts dcast ends num
      by (simp only: ucast_u128_of_nat n reg gd g_def [symmetric] not_False_eq_True simp_thms)
    also have "\<dots> = \<lparr>miner = of_nat (D * (g - 2 * (g div 20)) + (Suc b - a - D) * g),
        development = of_nat (R * (2 * (g div 20 * 2880))
          + (if a \<le> 3223778 \<and> 3223778 \<le> b then 2 * (g div 20 * 762) else 0))\<rparr>"
      unfolding wide by (simp add: mult.assoc)
    also have "\<dots> = split_sum L a (Suc b)"
      unfolding split_sum_def atLeastLessThanSuc_atLeastAtMost M P D_def R_def ..
    finally show ?thesis by (simp only: ca cb)
  qed
qed

lemma emitted_v2_between_sum:
  assumes "210537 \<le> unat to"
  shows "emitted_v2_between V2_ACTIVATION_HEIGHT to = split_sum L 210537 (Suc (unat to))"
proof -
  have "n \<le> 9 \<Longrightarrow> foldl (\<lambda>total tier. add_split total (v2_tier_emission V2_ACTIVATION_HEIGHT to tier))
      no_emission [0..<n] = split_sum L (cut (unat to) 0) (cut (unat to) n)" for n
  proof (induction n)
    case 0
    then show ?case by (simp add: split_sum_empty)
  next
    case (Suc n)
    have "cut (unat to) 0 \<le> cut (unat to) n"
      using Suc.prems by (auto simp: cut_def)
    then show ?case
      using Suc assms cut_mono [of n "unat to"]
      by (simp add: v2_tier_emission_sum [where L = L] split_sum_append)
  qed
  from this [of 9] show ?thesis
    using assms by (simp add: emitted_v2_between_def cut_def schedule_consts word_less_nat_alt)
qed

text \<open>
  The state size a block sees, given the heights at which the state doubled: 24 at genesis and
  one more from each expansion height on.
\<close>

definition log_slots_at :: "u64 list \<Rightarrow> nat \<Rightarrow> u32" where
  "log_slots_at expansions k = LOG_SLOTS_GENESIS + of_nat (length (filter (\<lambda>e. unat e \<le> k) expansions))"

lemma emitted_legacy_up_to_sum:
  assumes "sorted (map unat expansions)" "\<forall>e \<in> set expansions. 1 \<le> unat e" "unat height \<le> 210536"
  shows "emitted_legacy_up_to height expansions = split_sum (log_slots_at expansions) 1 (Suc (unat height))"
proof -
  let ?kept = "filter (\<lambda>h. h \<le> height) expansions"
  have nxt: "unat (height + 1) = Suc (unat height)"
    using assms(3) by (subst unat_add_bound) auto
  have "map unat ?kept = filter (\<lambda>e. e \<le> unat height) (map unat expansions)"
    by (simp add: filter_map o_def word_le_nat_alt)
  then have "sorted (map unat ?kept)"
    using assms(1) by (simp add: sorted_wrt_filter)
  then have srt: "sorted (map unat (1 # ?kept @ [height + 1]))"
    using assms(2) by (auto simp: sorted_append nxt word_le_nat_alt)
  have "legacy_ranges (?kept @ [height + 1]) 1 LOG_SLOTS_GENESIS no_emission
      = add_split no_emission (split_sum (\<lambda>k. LOG_SLOTS_GENESIS
          + of_nat (length (filter (\<lambda>b. unat b \<le> k) (?kept @ [height + 1]))))
          (unat (1 :: u64)) (unat (last (?kept @ [height + 1]))))"
    by (rule legacy_ranges_sum [OF _ srt]) (use assms(3) nxt in simp_all)
  also have "\<dots> = split_sum (log_slots_at expansions) 1 (Suc (unat height))"
    unfolding add_split_simps last_snoc nxt unat_1
  proof (rule split_sum_cong)
    fix k assume "k < Suc (unat height)"
    then have "filter (\<lambda>b. unat b \<le> k) (?kept @ [height + 1]) = filter (\<lambda>e. unat e \<le> k) expansions"
      by (auto simp: nxt word_le_nat_alt intro!: filter_cong)
    then show "LOG_SLOTS_GENESIS + of_nat (length (filter (\<lambda>b. unat b \<le> k) (?kept @ [height + 1])))
        = log_slots_at expansions k"
      by (simp add: log_slots_at_def)
  qed
  finally show ?thesis
    by (simp add: emitted_legacy_up_to_def)
qed

lemma emitted_split_is_sum:
  assumes "sorted (map unat expansions)" "\<forall>e \<in> set expansions. 1 \<le> unat e"
  shows "emitted_split_up_to height expansions = split_sum (log_slots_at expansions) 1 (Suc (unat height))"
proof (cases "v2_active height")
  case True
  then have h: "210537 \<le> unat height" by (simp add: v2_active_nat)
  then have "min height 210536 = 210536" by (simp add: word_unat_eq_iff unat_min)
  then have "emitted_legacy_up_to (min height (V2_ACTIVATION_HEIGHT - 1)) expansions
      = split_sum (log_slots_at expansions) 1 210537"
    using emitted_legacy_up_to_sum [OF assms, of 210536] by (simp add: schedule_consts)
  then show ?thesis
    using True h emitted_v2_between_sum [of height "log_slots_at expansions"]
    by (simp add: emitted_split_up_to_def split_sum_append)
next
  case False
  then have h: "unat height \<le> 210536" by (simp add: v2_active_nat)
  then have "min height 210536 = height" by (simp add: word_unat_eq_iff unat_min)
  with False h show ?thesis
    by (simp add: emitted_split_up_to_def emitted_legacy_up_to_sum [OF assms] schedule_consts)
qed

end
