(* ===== verification/Emission_Contract.thy ===== *)
theory Emission_Contract
  imports Emission_Spec
begin

text \<open>
  The properties of the emission schedule. The closed forms the API reports are interpretations
  of the running-total contract: their laws say that they are the block-by-block sums of the
  per-block functions, over the machine integers the code uses.
\<close>

section \<open>Bounds of what one block mints\<close>

lemma mined_bound: "mined k ls \<le> 50000000" if "1 \<le> k" "k < 2 ^ 64" for k ls
  using that mined_legacy(1) [of k ls] mined_v2(1) [of k ls] gross_bounds(1) [of k ls]
  by (cases "k \<le> 210536") auto

lemma share_times: "g \<le> 50000000 \<Longrightarrow> n \<le> 4320 \<Longrightarrow> 2 * (g div 20 * n) \<le> (21600000000 :: nat)"
  using mult_le_mono [of "g div 20" 2500000 n 4320] by linarith

lemma paid_out_bound: "paid_out k ls \<le> 21600000000" if "1 \<le> k" "k < 2 ^ 64" for k ls
  using that mined_legacy(2) [of k ls] mined_v2(2) [of k ls]
    share_times [OF gross_bounds(1) [of k ls], of 4320] share_times [OF gross_bounds(1) [of k ls], of 2880]
    share_times [OF gross_bounds(1) [of k ls], of 762]
  by (cases "k \<le> 210536") auto

lemma sum_fits_u128:
  fixes f :: "nat \<Rightarrow> nat"
  assumes "\<And>k. 1 \<le> k \<Longrightarrow> k \<le> h \<Longrightarrow> f k \<le> 21600000000" "h < 2 ^ 64"
  shows "(\<Sum>k = 1..h. f k) < 2 ^ 128"
proof -
  have "(\<Sum>k = 1..h. f k) \<le> h * 21600000000"
    using sum_bounded_above [of "{1..h}" f 21600000000] assms(1) by simp
  also have "\<dots> \<le> 2 ^ 64 * 21600000000" using assms(2) by simp
  also have "\<dots> < 2 ^ 128" by simp
  finally show ?thesis .
qed

section \<open>Interpretations of the running-total contract\<close>

text \<open>The expansion heights the node can report: ascending, none at genesis.\<close>

definition expansion_history :: "u64 list \<Rightarrow> bool" where
  "expansion_history expansions = (sorted (map unat expansions) \<and> (\<forall>e \<in> set expansions. 1 \<le> unat e))"

interpretation miner_emission: cumulative
  "\<lambda>exps h. unat (miner (emitted_split_up_to (of_nat h) exps))"
  "\<lambda>exps k. mined k (log_slots_at exps k)" expansion_history "2 ^ 64 - 1"
proof unfold_locales
  fix exps h
  assume v: "expansion_history exps" and h: "h \<le> (2 ^ 64 - 1 :: nat)"
  have h64: "h < 2 ^ 64" using h by simp
  have "(\<Sum>k = 1..h. mined k (log_slots_at exps k)) < 2 ^ 128"
    using h64 by (intro sum_fits_u128) (auto intro!: order_trans [OF mined_bound])
  then show "unat (miner (emitted_split_up_to (of_nat h) exps)) = (\<Sum>k = 1..h. mined k (log_slots_at exps k))"
    using v h64 emitted_split_is_sum [of exps "of_nat h"]
    by (simp add: expansion_history_def split_sum_def of_nat_u64 unat_of_nat atLeastLessThanSuc_atLeastAtMost
        del: of_nat_sum)
qed

interpretation development_emission: cumulative
  "\<lambda>exps h. unat (development (emitted_split_up_to (of_nat h) exps))"
  "\<lambda>exps k. paid_out k (log_slots_at exps k)" expansion_history "2 ^ 64 - 1"
proof unfold_locales
  fix exps h
  assume v: "expansion_history exps" and h: "h \<le> (2 ^ 64 - 1 :: nat)"
  have h64: "h < 2 ^ 64" using h by simp
  have "(\<Sum>k = 1..h. paid_out k (log_slots_at exps k)) < 2 ^ 128"
    using h64 by (intro sum_fits_u128) (auto intro!: paid_out_bound)
  then show "unat (development (emitted_split_up_to (of_nat h) exps)) = (\<Sum>k = 1..h. paid_out k (log_slots_at exps k))"
    using v h64 emitted_split_is_sum [of exps "of_nat h"]
    by (simp add: expansion_history_def split_sum_def of_nat_u64 unat_of_nat atLeastLessThanSuc_atLeastAtMost
        del: of_nat_sum)
qed

lemma is_development_payout_height_nat:
  assumes "k < 2 ^ 64"
  shows "is_development_payout_height (of_nat k)
    \<longleftrightarrow> (if k \<le> 210536 then 1 \<le> k \<and> 4320 dvd k
        else k \<le> 3223778 \<and> 2880 dvd (k - 210536) \<or> k = 3223778)"
proof (cases "k \<le> 210536")
  case True
  then show ?thesis
    using assms by (auto simp: is_development_payout_height_def development_allocation_at_def Let_def
        v2_active_of_nat schedule_consts u_arith of_nat_u64)
next
  case False
  have el: "k \<le> 3223778 \<Longrightarrow> unat (of_nat k - 210536 :: u64) = k - 210536"
    using False assms by (subst unat_sub_bound) (auto simp: of_nat_u64)
  have "k = 210537 \<Longrightarrow> \<not> 2880 dvd (k - 210536)" by simp
  moreover have "\<exists>y :: u64. unat y = 762" "\<exists>y :: u64. unat y = 2880"
    by (rule exI [of _ 762], simp) (rule exI [of _ 2880], simp)
  ultimately show ?thesis
    using assms False by (auto simp: is_development_payout_height_def development_allocation_at_def Let_def
        v2_active_of_nat schedule_consts u_arith of_nat_u64 el)
qed

lemma unat_v2_payouts_up_to:
  "unat (v2_regular_payouts_in 210537 h) = (min (unat h) 3223778 - 210536) div 2880"
proof (cases "210537 \<le> unat h")
  case True
  then show ?thesis using v2_regular_payouts_count [of 210537 h] by simp
next
  case False
  then have "min h 3223778 < 210537" by (auto simp: word_less_nat_alt unat_min)
  with False show ?thesis by (simp add: v2_regular_payouts_in_def schedule_consts Let_def)
qed

interpretation payout_blocks: cumulative
  "\<lambda>_ h. unat (development_payout_blocks_up_to (of_nat h))"
  "\<lambda>_ k. if is_development_payout_height (of_nat k) then 1 else 0" "\<lambda>_ :: unit. True" "2 ^ 64 - 1"
proof unfold_locales
  fix x :: unit and h :: nat assume h: "h \<le> 2 ^ 64 - 1"
  define l where "l = min h 210536"
  have h64: "h < 2 ^ 64" using h by simp
  have lo: "(\<Sum>k = 1..l. if is_development_payout_height (of_nat k) then 1 else 0) = l div 4320"
  proof -
    have "(\<Sum>k = 1..l. if is_development_payout_height (of_nat k) then 1 else 0)
        = (\<Sum>k = 1..l. if 4320 dvd (k - 0) then 1 else 0)"
      using h64 by (intro sum.cong) (auto simp: l_def is_development_payout_height_nat)
    then show ?thesis by (subst (asm) sum_multiples) auto
  qed
  have hi: "(\<Sum>k = 210537..h. if is_development_payout_height (of_nat k) then 1 else 0)
      = (min h 3223778 - 210536) div 2880 + (if 3223778 \<le> h then 1 else 0)"
  proof (cases "210537 \<le> h")
    case True
    have "(\<Sum>k = 210537..h. if is_development_payout_height (of_nat k) then 1 else 0)
        = (\<Sum>k = 210537..h. if k \<le> 3223778 \<and> 2880 dvd (k - 210536) then 1 else if k = 3223778 then 1 else 0)"
      using h64 by (intro sum.cong) (auto simp: is_development_payout_height_nat)
    then show ?thesis using True by (subst (asm) sum_payouts) auto
  qed simp
  have "{1..h} = {1..l} \<union> {210537..h}" and "{1..l} \<inter> {210537..h} = {}"
    by (auto simp: l_def)
  then have "(\<Sum>k = 1..h. if is_development_payout_height (of_nat k) then 1 else 0)
      = l div 4320 + ((min h 3223778 - 210536) div 2880 + (if 3223778 \<le> h then 1 else 0))"
    using lo hi by (simp add: sum.union_disjoint)
  moreover have "unat (development_payout_blocks_up_to (of_nat h))
      = l div 4320 + ((min h 3223778 - 210536) div 2880 + (if 3223778 \<le> h then 1 else 0))"
  proof -
    have "(min h 3223778 - 210536) div 2880 \<le> 3223778 div 2880" by (intro div_le_mono) auto
    moreover have "l div 4320 \<le> 210536 div 4320" by (intro div_le_mono) (auto simp: l_def)
    ultimately have small: "(min h 3223778 - 210536) div 2880 \<le> 1119" "l div 4320 \<le> 48" by simp_all
    have v: "unat (v2_regular_payouts_in 210537 (of_nat h)) = (min h 3223778 - 210536) div 2880"
      using h64 by (simp add: unat_v2_payouts_up_to of_nat_u64)
    have m: "unat (min (of_nat h) 210536 :: u64) = l"
      using h64 by (simp add: unat_min of_nat_u64 l_def)
    have e: "(3223778 :: u64) \<le> of_nat h \<longleftrightarrow> 3223778 \<le> h"
      using h64 by (simp add: word_le_nat_alt of_nat_u64)
    show ?thesis
      using small by (simp add: development_payout_blocks_up_to_def schedule_consts Let_def unat_word_ariths v m e)
  qed
  ultimately show "unat (development_payout_blocks_up_to (of_nat h))
      = (\<Sum>k = 1..h. if is_development_payout_height (of_nat k) then 1 else 0)"
    by simp
qed

interpretation target_seconds: cumulative
  "\<lambda>from h. unat (target_seconds_between from (from + of_nat h))"
  "\<lambda>from k. unat (block_time_at (from + of_nat k))" "\<lambda>from. unat from < 2 ^ 63" "2 ^ 59"
proof unfold_locales
  fix start :: u64 and h :: nat
  assume start: "unat start < 2 ^ 63" and h: "h \<le> 2 ^ 59"
  let ?s = "unat start"
  define legacy where "legacy = min (?s + h) 210536 - ?s"
  have at: "unat (start + of_nat k) = ?s + k" if "k \<le> h" for k
    using that start h by (simp add: unat_word_ariths unat_of_nat)
  have "(\<Sum>k = 1..h. unat (block_time_at (start + of_nat k)))
      = (\<Sum>k = 1..h. if k \<le> 210536 - ?s then 20 else 30)"
    by (intro sum.cong) (auto simp: unat_block_time_at at)
  also have "\<dots> = legacy * 20 + (h - legacy) * 30"
    by (subst sum_two_rates) (auto simp: legacy_def min_def)
  finally have blocks: "(\<Sum>k = 1..h. unat (block_time_at (start + of_nat k))) = \<dots>" .
  show "unat (target_seconds_between start (start + of_nat h))
      = (\<Sum>k = 1..h. unat (block_time_at (start + of_nat k)))"
  proof (cases "h = 0")
    case True
    then show ?thesis by (simp add: target_seconds_between_def)
  next
    case False
    have le: "legacy \<le> h" by (auto simp: legacy_def)
    have lt: "\<not> start + of_nat h \<le> start" using False by (simp add: word_le_nat_alt at)
    have l: "unat (saturating_sub (min (start + of_nat h) 210536) start) = legacy"
      by (simp add: unat_saturating_sub unat_min at legacy_def)
    have d: "unat (start + of_nat h - start) = h" using h by (simp add: unat_of_nat)
    have r: "unat (start + of_nat h - start - saturating_sub (min (start + of_nat h) 210536) start) = h - legacy"
      using le d l by (subst unat_sub_bound) simp_all
    have "target_seconds_between start (start + of_nat h)
        = saturating_sub (min (start + of_nat h) 210536) start * 20
          + (start + of_nat h - start - saturating_sub (min (start + of_nat h) 210536) start) * 30"
      using lt by (simp only: target_seconds_between_def Let_def schedule_consts if_False) simp
    then show ?thesis
      using h le unfolding blocks by (simp only: unat_word_ariths l r) simp
  qed
qed

section \<open>The next payout\<close>

lemma multiple_after: "0 < d \<Longrightarrow> x < (x div d + 1) * (d :: nat)"
  using dividend_less_div_times [of d x] by (simp add: algebra_simps)

lemma multiple_after_least: "d dvd k \<Longrightarrow> x < k \<Longrightarrow> (x div d + 1) * (d :: nat) \<le> k"
proof -
  assume "d dvd k" "x < k"
  obtain m where m: "k = m * d" using \<open>d dvd k\<close> by (auto simp: dvd_def mult.commute)
  with \<open>x < k\<close> have "x div d < m" by (simp add: less_mult_imp_div_less)
  then show ?thesis unfolding m by (intro mult_le_mono1) simp
qed

definition payout_nat :: "nat \<Rightarrow> bool" where
  "payout_nat k = (if k \<le> 210536 then 1 \<le> k \<and> 4320 dvd k
        else k \<le> 3223778 \<and> 2880 dvd (k - 210536) \<or> k = 3223778)"

definition next_payout_nat :: "nat \<Rightarrow> nat option" where
  "next_payout_nat h =
     (if h < 210536 \<and> (h div 4320 + 1) * 4320 < 210537 then Some ((h div 4320 + 1) * 4320)
      else let nxt = 210536 + ((max h 210536 - 210536) div 2880 + 1) * 2880
           in if nxt \<le> 3223778 then Some nxt else if h < 3223778 then Some 3223778 else None)"

lemma next_payout_nat_eq:
  assumes "unat h < 2 ^ 64 - 4320"
  shows "next_development_payout_height h = map_option of_nat (next_payout_nat (unat h))"
proof -
  have l: "unat ((h div 4320 + 1) * 4320) = (unat h div 4320 + 1) * 4320"
    using assms by (simp add: unat_word_ariths)
  have m: "unat (max h 210536 - 210536) = max (unat h) 210536 - 210536"
    by (subst unat_sub_bound) (auto simp: unat_max)
  have d: "unat ((max h 210536 - 210536) div 2880) = (max (unat h) 210536 - 210536) div 2880"
    by (simp only: unat_div m) simp
  have "(max (unat h) 210536 - 210536) div 2880 * 2880 \<le> max (unat h) 210536 - 210536"
    by (rule div_times_less_eq_dividend)
  then have n: "unat (210536 + ((max h 210536 - 210536) div 2880 + 1) * 2880)
      = 210536 + ((max (unat h) 210536 - 210536) div 2880 + 1) * 2880"
    using assms by (auto simp: unat_word_ariths m)
  define wl where "wl = (h div 4320 + 1) * 4320"
  define wn where "wn = 210536 + ((max h 210536 - 210536) div 2880 + 1) * 2880"
  define nl where "nl = (unat h div 4320 + 1) * 4320"
  define nn where "nn = 210536 + ((max (unat h) 210536 - 210536) div 2880 + 1) * 2880"
  have w: "unat wl = nl" "unat wn = nn" by (simp_all only: wl_def wn_def nl_def nn_def l n)
  have v: "of_nat nl = wl" "of_nat nn = wn" by (auto simp flip: w)
  have num: "(210537 - 1 :: u64) = 210536" "((762 :: u64) \<noteq> 0) = True" by simp_all
  have "next_development_payout_height h = (if h < 210536 \<and> wl < 210537 then Some wl
      else if wn \<le> 3223778 then Some wn else if h < 3223778 then Some 3223778 else None)"
    by (simp only: next_development_payout_height_def Let_def schedule_consts wl_def wn_def num simp_thms)
  moreover have "next_payout_nat (unat h) = (if unat h < 210536 \<and> nl < 210537 then Some nl
      else if nn \<le> 3223778 then Some nn else if unat h < 3223778 then Some 3223778 else None)"
    by (simp only: next_payout_nat_def Let_def nl_def nn_def)
  ultimately show ?thesis
    by (auto simp: word_le_nat_alt word_less_nat_alt w v)
qed

lemma next_payout_nat_least:
  "case next_payout_nat h of
     Some n \<Rightarrow> h < n \<and> payout_nat n \<and> (\<forall>k. h < k \<and> k < n \<longrightarrow> \<not> payout_nat k)
   | None \<Rightarrow> (\<forall>k. h < k \<longrightarrow> \<not> payout_nat k)"
proof (cases "h < 210536 \<and> (h div 4320 + 1) * 4320 < 210537")
  case True
  then show ?thesis
    using multiple_after [of 4320 h] multiple_after_least [of 4320 _ h]
    by (fastforce simp: next_payout_nat_def payout_nat_def)
next
  case False
  define nxt where "nxt = 210536 + ((max h 210536 - 210536) div 2880 + 1) * 2880"
  have above: "h < nxt" and base: "210536 < nxt" and mult: "2880 dvd (nxt - 210536)"
    using multiple_after [of 2880 "max h 210536 - 210536"] by (auto simp: nxt_def)
  have none_legacy: "\<not> payout_nat k" if "h < k" "k \<le> 210536" for k
    using that False multiple_after_least [of 4320 k h] by (auto simp: payout_nat_def)
  have none_v2: "\<not> payout_nat k" if "h < k" "k < nxt" "k \<noteq> 3223778" for k
  proof (cases "k \<le> 210536")
    case True
    with that none_legacy show ?thesis by blast
  next
    case False
    with that have "max h 210536 - 210536 < k - 210536" by auto
    with False that show ?thesis
      using multiple_after_least [of 2880 "k - 210536" "max h 210536 - 210536"]
      by (auto simp: payout_nat_def nxt_def)
  qed
  have result: "next_payout_nat h
      = (if nxt \<le> 3223778 then Some nxt else if h < 3223778 then Some 3223778 else None)"
    unfolding next_payout_nat_def Let_def nxt_def by (simp only: False if_False)
  show ?thesis
    using above base mult none_v2 by (auto simp: result payout_nat_def)
qed
lemma payout_height_nat: "k < 2 ^ 64 \<Longrightarrow> is_development_payout_height (of_nat k) = payout_nat k"
  by (simp add: is_development_payout_height_nat payout_nat_def)

lemma payout_height_unat: "is_development_payout_height h = payout_nat (unat h)"
  using payout_height_nat [of "unat h"] by simp

lemma next_payout_nat_small: "next_payout_nat h = Some n \<Longrightarrow> n \<le> 3223778"
  by (auto simp: next_payout_nat_def Let_def split: if_splits)

section \<open>What the funds receive\<close>

lemma withheld_tier:
  assumes "210537 \<le> a" "a \<le> b" "b \<le> 3223778" "\<And>k. a \<le> k \<Longrightarrow> k \<le> b \<Longrightarrow> (k - 210537) div 1051200 = t" "t < 3"
  shows "(\<Sum>k = a..b. gross k (L k) - mined k (L k))
      = (Suc b - a) * (2 * (unat (V2_REWARDS_MICRONOID ! t) div 20))"
    "(\<Sum>k = a..b. paid_out k (L k))
      = ((b - 210536) div 2880 - (a - 1 - 210536) div 2880) * (5760 * (unat (V2_REWARDS_MICRONOID ! t) div 20))
        + (if b = 3223778 then 1524 * (unat (V2_REWARDS_MICRONOID ! t) div 20) else 0)"
proof -
  let ?g = "unat (V2_REWARDS_MICRONOID ! t)"
  have g: "gross k ls = ?g" if "a \<le> k" "k \<le> b" for k ls
    using gross_v2 [of k ls] that assms by simp
  have "(\<Sum>k = a..b. gross k (L k) - mined k (L k)) = (\<Sum>k = a..b. 2 * (?g div 20))"
    using assms(1,3) by (intro sum.cong) (auto simp: mined_v2(1) g)
  then show "(\<Sum>k = a..b. gross k (L k) - mined k (L k)) = (Suc b - a) * (2 * (?g div 20))"
    by simp
  have "(\<Sum>k = a..b. paid_out k (L k)) = (\<Sum>k = a..b. if k \<le> 3223778 \<and> 2880 dvd (k - 210536)
      then 5760 * (?g div 20) else if k = 3223778 then 1524 * (?g div 20) else 0)"
    using assms(1,3) by (intro sum.cong) (auto simp: mined_v2(2) g)
  also have "\<dots> = ((min b 3223778 - 210536) div 2880 - (a - 1 - 210536) div 2880) * (5760 * (?g div 20))
      + (if a \<le> 3223778 \<and> 3223778 \<le> b then 1524 * (?g div 20) else 0)"
    using assms by (intro sum_payouts) auto
  finally show "(\<Sum>k = a..b. paid_out k (L k))
      = ((b - 210536) div 2880 - (a - 1 - 210536) div 2880) * (5760 * (?g div 20))
        + (if b = 3223778 then 1524 * (?g div 20) else 0)"
    using assms by (auto simp: min_def)
qed

lemma sum_three_tiers:
  fixes f :: "nat \<Rightarrow> nat"
  shows "(\<Sum>k = 210537..3223778. f k) = (\<Sum>k = 210537..1261736. f k)
     + (\<Sum>k = 1261737..2312936. f k) + (\<Sum>k = 2312937..3223778. f k)"
proof -
  have "sum f {210537..3223778} = sum f {210537..1261736} + sum f {1261737..3223778}"
    using sum.ub_add_nat [of 210537 1261736 f 1962042] by simp
  moreover have "sum f {1261737..3223778} = sum f {1261737..2312936} + sum f {2312937..3223778}"
    using sum.ub_add_nat [of 1261737 2312936 f 910842] by simp
  ultimately show ?thesis by simp
qed

lemma legacy_day_unpaid:
  assumes "207361 \<le> k" "k < 213416"
  shows "paid_out k ls = 0"
proof (cases "k \<le> 210536")
  case True
  have "\<not> 4320 dvd k"
  proof
    assume "4320 dvd k"
    then obtain m where "k = 4320 * m" by (auto simp: dvd_def)
    with True assms show False by (cases "m \<le> 48") simp_all
  qed
  with True assms show ?thesis by (simp add: mined_legacy(2))
next
  case False
  have "\<not> 2880 dvd (k - 210536)"
    using False assms by (auto dest!: dvd_imp_le)
  with False assms show ?thesis by (simp add: mined_v2(2))
qed

section \<open>Properties of the schedule\<close>

text \<open>
  C19. What the API reports as issued up to a height, split into miner coinbases and
  development payouts, is the block-by-block sum of what the per-block functions mint from
  height 1 on, for every height a \<open>u64\<close> can hold and every ascending history of state expansions:
  no 64-bit or 128-bit operation of the closed form loses anything.
\<close>
theorem emitted_split_is_block_sum:
  assumes "expansion_history expansions"
  shows "unat (miner (emitted_split_up_to height expansions))
      = (\<Sum>k = 1..unat height. unat (miner_subsidy (of_nat k) (log_slots_at expansions k)))
    \<and> unat (development (emitted_split_up_to height expansions))
      = (\<Sum>k = 1..unat height. unat (development_payout (of_nat k) (log_slots_at expansions k)))"
proof -
  note miner_emission.total_is_sum [OF assms unat_u64_max] development_emission.total_is_sum [OF assms unat_u64_max]
  then show ?thesis by (simp only: mined_def paid_out_def of_nat_of_unat)
qed

theorem emitted_split_is_block_sum_witness:
  "unat (miner (emitted_split_up_to 3 [2]))
     = (\<Sum>k = 1..unat (3 :: u64). unat (miner_subsidy (of_nat k) (log_slots_at [2] k)))
   \<and> unat (miner (emitted_split_up_to 3 [2])) = 90000000"
proof
  show "unat (miner (emitted_split_up_to 3 [2]))
     = (\<Sum>k = 1..unat (3 :: u64). unat (miner_subsidy (of_nat k) (log_slots_at [2] k)))"
    by (rule conjunct1 [OF emitted_split_is_block_sum]) (simp add: expansion_history_def)
  show "unat (miner (emitted_split_up_to 3 [2])) = 90000000"
    by (simp add: emitted_split_up_to_def emitted_legacy_up_to_def v2_active_def schedule_consts Let_def
        emitted_legacy_range_def block_reward_def saturating_sub_def add_split_def no_emission_def
        drop_bit_eq_div)
qed

text \<open>
  The next-payout lookup answers with the least later height that carries a development
  payout, and with nothing exactly when no later block carries one, for every height
  further than a day from the end of the \<open>u64\<close> range.
\<close>
theorem next_payout_is_least:
  assumes "unat height < 2 ^ 64 - 4320"
  shows "case next_development_payout_height height of
      Some n \<Rightarrow> height < n \<and> is_development_payout_height n
        \<and> (\<forall>k. height < k \<and> k < n \<longrightarrow> \<not> is_development_payout_height k)
    | None \<Rightarrow> (\<forall>k. height < k \<longrightarrow> \<not> is_development_payout_height k)"
proof (cases "next_payout_nat (unat height)")
  case None
  then show ?thesis
    using next_payout_nat_least [of "unat height"]
    by (simp add: next_payout_nat_eq [OF assms] payout_height_unat word_less_nat_alt)
next
  case (Some n)
  then show ?thesis
    using next_payout_nat_least [of "unat height"] next_payout_nat_small [OF Some]
    by (simp add: next_payout_nat_eq [OF assms] payout_height_unat word_less_nat_alt unat_of_nat)
qed

theorem next_payout_is_least_witness:
  "next_development_payout_height 207360 = Some 213416 \<and> is_development_payout_height 213416
   \<and> \<not> is_development_payout_height 211680"
proof -
  have "next_development_payout_height 207360 = Some 213416" by code_simp
  with next_payout_is_least [of 207360] show ?thesis by simp
qed

text \<open>
  The number of payout blocks the API reports up to a height counts exactly the heights
  that the per-block rule marks as payout heights.
\<close>
theorem payout_blocks_are_counted:
  "unat (development_payout_blocks_up_to height)
    = card {k. 1 \<le> k \<and> k \<le> unat height \<and> is_development_payout_height (of_nat k)}"
proof -
  have "{k. 1 \<le> k \<and> k \<le> unat height \<and> is_development_payout_height (of_nat k)}
      = {k \<in> {1..unat height}. is_development_payout_height (of_nat k)}" by auto
  then show ?thesis
    using payout_blocks.total_is_sum [of "unat height"] unat_u64_bound [of height]
    by (simp add: sum.If_cases card_eq_sum [symmetric] Int_def)
qed

text \<open>
  The target time the API reports between two heights is the sum of the target intervals
  of the blocks between them, across the fork, for any start below \<open>2 ^ 63\<close> and up to \<open>2 ^ 59\<close>
  blocks (more than the number of seconds a \<open>u64\<close> holds would allow at 30 s a block).
\<close>
theorem target_seconds_are_block_times:
  assumes "from \<le> to" "unat from < 2 ^ 63" "unat to - unat from \<le> 2 ^ 59"
  shows "unat (target_seconds_between from to)
    = (\<Sum>k = Suc (unat from)..unat to. unat (block_time_at (of_nat k)))"
proof -
  let ?n = "unat to - unat from"
  have le: "unat from \<le> unat to" using assms(1) by (simp add: word_le_nat_alt)
  have to: "from + of_nat ?n = to"
    using le by (simp add: word_unat_eq_iff unat_word_ariths unat_of_nat)
  have "unat (target_seconds_between from to) = (\<Sum>k = 1..?n. unat (block_time_at (from + of_nat k)))"
    using target_seconds.total_is_sum [OF assms(2,3)] unfolding to .
  also have "\<dots> = (\<Sum>k = 1 + unat from..?n + unat from. unat (block_time_at (of_nat k)))"
    by (subst sum.shift_bounds_cl_nat_ivl) (simp add: add.commute)
  finally show ?thesis using le by simp
qed

theorem target_seconds_are_block_times_witness:
  "unat (target_seconds_between 210534 210538)
     = (\<Sum>k = Suc (unat (210534 :: u64))..unat (210538 :: u64). unat (block_time_at (of_nat k)))
   \<and> target_seconds_between 210534 210538 = 100"
proof
  show "unat (target_seconds_between 210534 210538)
     = (\<Sum>k = Suc (unat (210534 :: u64))..unat (210538 :: u64). unat (block_time_at (of_nat k)))"
    by (rule target_seconds_are_block_times) simp_all
  show "target_seconds_between 210534 210538 = 100"
    by code_simp
qed

text \<open>
  C24. Over the v2 part of the allocation the two funds receive exactly what was withheld from
  the miners, tier changes and the final partial interval included, whatever the state size;
  and no block from the last legacy payout (207,360) to the first v2 payout (213,416) pays
  anything, so the incomplete legacy day is withheld and never paid.
\<close>
theorem v2_funds_receive_what_was_withheld:
  "(\<Sum>k = 210537..3223778. unat (development_payout (of_nat k) (log_slots k)))
     = (\<Sum>k = 210537..3223778. unat (block_reward_at (of_nat k) (log_slots k))
                              - unat (miner_subsidy (of_nat k) (log_slots k)))
   \<and> (\<Sum>k = 207361..213415. unat (development_payout (of_nat k) (log_slots k))) = 0"
proof
  have t: "(k - 210537) div 1051200 = i"
    if "210537 + i * 1051200 \<le> k" "k \<le> 1261736 + i * 1051200" for k i :: nat
    using that by (intro div_nat_eqI) auto
  have r: "unat (V2_REWARDS_MICRONOID ! 0) = 16000000" "unat (V2_REWARDS_MICRONOID ! 1) = 11300000"
    "unat (V2_REWARDS_MICRONOID ! 2) = 8000000"
    by (simp_all add: V2_REWARDS_MICRONOID_def)
  note w = withheld_tier [of 210537 1261736 0 log_slots] withheld_tier [of 1261737 2312936 1 log_slots]
    withheld_tier [of 2312937 3223778 2 log_slots]
  show "(\<Sum>k = 210537..3223778. unat (development_payout (of_nat k) (log_slots k)))
     = (\<Sum>k = 210537..3223778. unat (block_reward_at (of_nat k) (log_slots k))
                              - unat (miner_subsidy (of_nat k) (log_slots k)))"
    unfolding paid_out_def [symmetric] gross_def [symmetric] mined_def [symmetric] sum_three_tiers
    using t [of 0] t [of 1] t [of 2] by (simp add: w r)
  show "(\<Sum>k = 207361..213415. unat (development_payout (of_nat k) (log_slots k))) = 0"
    unfolding paid_out_def [symmetric] by (rule sum.neutral) (auto simp: legacy_day_unpaid)
qed

text \<open>
  Every block's subsidy is split without remainder: the miner's part and the two equal fund
  shares add up to the block reward; the shares are positive exactly while the allocation is
  active, which is the range \<open>development_allocation_active\<close> names.
\<close>
theorem allocation_splits_the_reward:
  fixes height :: u64 and log_slots :: u32
  defines "a \<equiv> development_allocation_at height log_slots"
  shows "unat (block_reward_at height log_slots)
      = unat (miner_subsidy_of_block a) + 2 * unat (share_each a)
    \<and> (active a \<longleftrightarrow> development_allocation_active height)
    \<and> (active a \<longleftrightarrow> 0 < share_each a)
    \<and> (payout_due a \<longleftrightarrow> payout_each a \<noteq> None)"
proof -
  let ?g = "block_reward_at height log_slots"
  have g: "unat ?g \<le> 50000000" "1000000 \<le> unat ?g"
    using gross_bounds [of "unat height" log_slots] by (simp_all add: gross_def)
  note s = unat_share(1,2) [OF g(1)]
  have pos: "0 < ?g div 20" using g by (simp add: word_less_nat_alt s(1))
  have active: "active a \<longleftrightarrow> 1 \<le> unat height \<and> unat height \<le> 3223778"
    by (auto simp: a_def development_allocation_at_def Let_def v2_active_nat schedule_consts word_less_nat_alt
        word_unat_eq_iff)
  have shares: "active a \<Longrightarrow> share_each a = ?g div 20 \<and> miner_subsidy_of_block a = ?g - 2 * (?g div 20)"
    "\<not> active a \<Longrightarrow> share_each a = 0 \<and> miner_subsidy_of_block a = ?g"
    by (auto simp: a_def development_allocation_at_def Let_def schedule_consts split: if_splits)
  have "payout_due a \<longleftrightarrow> payout_each a \<noteq> None"
    by (auto simp: a_def development_allocation_at_def Let_def split: if_splits)
  moreover have "development_allocation_active height \<longleftrightarrow> 1 \<le> unat height \<and> unat height \<le> 3223778"
    by (auto simp: development_allocation_active_def schedule_consts word_less_nat_alt word_le_nat_alt)
  moreover have "unat ?g = unat (miner_subsidy_of_block a) + 2 * unat (share_each a)"
    using shares s g by (cases "active a") auto
  ultimately show ?thesis
    using shares pos active by (cases "active a") auto
qed

text \<open>
  Past the last interval of the \<open>u64\<close> range the product in the next-payout lookup wraps
  around and the lookup answers with a height of the past; a release build has no overflow check.
\<close>
theorem next_payout_wraps_at_the_top:
  "next_development_payout_height (- 1) = Some 1000 \<and> \<not> is_development_payout_height 1000"
  by code_simp

end
