(* ===== verification/Text.thy ===== *)
theory Text
  imports Prelude "HOL-Library.Sublist" "HOL-Library.List_Lexorder" "HOL-Library.Char_ord"
begin

text \<open>
  The text the program stores and compares: decimal numbers as Rust's \<open>to_string\<close> writes them
  and \<open>str::parse::<u64>\<close> reads them, SQLite's case-insensitive \<open>LIKE '%..%'\<close>, and the
  predicates the API uses on hex strings. SQLite compares TEXT by bytes, which is the
  lexicographic order of \<open>List_Lexorder\<close>.
\<close>

section \<open>Decimal numbers\<close>

definition digit :: "nat \<Rightarrow> char" where
  "digit d = char_of (48 + d)"

fun decimal :: "nat \<Rightarrow> string" where
  "decimal n = (if n < 10 then [digit n] else decimal (n div 10) @ [digit (n mod 10)])"

declare decimal.simps [simp del]

definition is_digit :: "char \<Rightarrow> bool" where
  "is_digit c = (48 \<le> (of_char c :: nat) \<and> (of_char c :: nat) \<le> 57)"

definition digit_value :: "char \<Rightarrow> nat" where
  "digit_value c = of_char c - 48"

definition digits_value :: "string \<Rightarrow> nat" where
  "digits_value s = foldl (\<lambda>n c. 10 * n + digit_value c) 0 s"

text \<open>\<open>str::parse\<close> takes an optional plus sign, at least one digit, and no value out of range.\<close>

definition parse_u64 :: "string \<Rightarrow> u64 option" where
  "parse_u64 s =
     (let ds = (case s of c # rest \<Rightarrow> if c = CHR ''+'' then rest else s | [] \<Rightarrow> [])
      in if ds \<noteq> [] \<and> list_all is_digit ds \<and> digits_value ds < 2 ^ 64
         then Some (of_nat (digits_value ds)) else None)"

definition u64_to_string :: "u64 \<Rightarrow> string" where
  "u64_to_string n = decimal (unat n)"

lemma of_char_digit [simp]: "d < 10 \<Longrightarrow> (of_char (digit d) :: nat) = 48 + d"
  by (simp add: digit_def)

lemma digit_props [simp]: "d < 10 \<Longrightarrow> is_digit (digit d)" "d < 10 \<Longrightarrow> digit_value (digit d) = d"
  by (simp_all add: is_digit_def digit_value_def)

lemma decimal_digits: "list_all is_digit (decimal n)"
  by (induction n rule: decimal.induct) (subst decimal.simps, simp)

lemma decimal_not_empty [simp]: "decimal n \<noteq> []"
  by (subst decimal.simps) simp

lemma digits_value_snoc: "digits_value (s @ [c]) = 10 * digits_value s + digit_value c"
  by (simp add: digits_value_def)

lemma digits_value_decimal [simp]: "digits_value (decimal n) = n"
proof (induction n rule: decimal.induct)
  case (1 n)
  show ?case
  proof (cases "n < 10")
    case True
    then have "decimal n = [digit n]" by (subst decimal.simps) simp
    with True show ?thesis by (simp add: digits_value_def)
  next
    case False
    then have "decimal n = decimal (n div 10) @ [digit (n mod 10)]" by (subst decimal.simps) simp
    with 1 [OF False] show ?thesis by (simp add: digits_value_snoc)
  qed
qed

lemma decimal_inject [simp]: "decimal a = decimal b \<longleftrightarrow> a = b"
  using digits_value_decimal by metis

lemma plus_is_no_digit: "\<not> is_digit (CHR ''+'')"
  by (simp add: is_digit_def)

lemma parse_u64_to_string [simp]: "parse_u64 (u64_to_string n) = Some n"
proof -
  obtain c rest where d: "decimal (unat n) = c # rest"
    by (cases "decimal (unat n)") simp_all
  have "is_digit c" using decimal_digits [of "unat n"] by (simp add: d)
  then have "c \<noteq> CHR ''+''" using plus_is_no_digit by auto
  then show ?thesis
    using decimal_digits [of "unat n"] digits_value_decimal [of "unat n"]
    by (simp add: parse_u64_def u64_to_string_def d)
qed

lemma u64_to_string_inject [simp]: "u64_to_string a = u64_to_string b \<longleftrightarrow> a = b"
  using parse_u64_to_string by (metis option.inject)

section \<open>Matching\<close>

definition ascii_lower :: "char \<Rightarrow> char" where
  "ascii_lower c = (if 65 \<le> (of_char c :: nat) \<and> (of_char c :: nat) \<le> 90 then char_of (of_char c + 32 :: nat) else c)"

definition like_contains :: "string \<Rightarrow> string \<Rightarrow> bool" where
  "like_contains pat s = sublist (map ascii_lower pat) (map ascii_lower s)"

definition is_hexdigit :: "char \<Rightarrow> bool" where
  "is_hexdigit c =
     (let n = (of_char c :: nat) in 48 \<le> n \<and> n \<le> 57 \<or> 65 \<le> n \<and> n \<le> 70 \<or> 97 \<le> n \<and> n \<le> 102)"

section \<open>SQLite's signed 64-bit integers\<close>

definition as_i64 :: "u64 \<Rightarrow> int" where "as_i64 x = sint x"

definition as_u64 :: "int \<Rightarrow> u64" where "as_u64 i = word_of_int i"

lemma as_u64_as_i64 [simp]: "as_u64 (as_i64 x) = x"
  by (simp add: as_u64_def as_i64_def)

lemma as_i64_inject [simp]: "as_i64 x = as_i64 y \<longleftrightarrow> x = y"
  by (metis as_u64_as_i64)

lemma as_i64_small: "unat x < 2 ^ 63 \<Longrightarrow> as_i64 x = int (unat x)"
proof -
  assume "unat x < 2 ^ 63"
  then have "int (unat x) < int (2 ^ 63)" by (simp only: of_nat_less_iff)
  then have "uint x < 2 ^ 63" by (simp only: uint_nat of_nat_power of_nat_numeral)
  moreover have "0 \<le> uint x" by (rule unsigned_greater_eq)
  then have "- 9223372036854775808 \<le> uint x" by linarith
  ultimately show ?thesis
    by (simp add: as_i64_def sint_uint signed_take_bit_int_eq_self_iff)
qed

end
