(* ===== verification/Rpc_Types.thy ===== *)
theory Rpc_Types
  imports Text
begin

text \<open>
  The node's answers as \<^verbatim>\<open>permanode/src/rpc.rs\<close> declares them. The node itself is not part of
  the repository: \<open>node\<close> holds its RPC methods as functions, each answering with an error, with
  nothing, or with a value; the model's definitions take it as an argument.
\<close>

section \<open>Errors\<close>

text \<open>Every \<open>bail!\<close> and propagated error of the source is a value on the left of a sum.\<close>

datatype failure = Failure string

type_synonym 'a result = "failure + 'a"

definition bail :: "string \<Rightarrow> 'a result" where "bail msg = Inl (Failure msg)"

definition and_then :: "'a result \<Rightarrow> ('a \<Rightarrow> 'b result) \<Rightarrow> 'b result" where
  "and_then r f = (case r of Inl e \<Rightarrow> Inl e | Inr x \<Rightarrow> f x)"

lemma and_then_simps [simp]:
  "and_then (Inl e) f = Inl e" "and_then (Inr x) f = f x" "and_then (bail m) f = bail m"
  by (simp_all add: and_then_def bail_def)

lemma and_then_Inr_iff: "and_then r f = Inr y \<longleftrightarrow> (\<exists>x. r = Inr x \<and> f x = Inr y)"
  by (cases r) auto

lemma bail_not_Inr [simp]: "bail m \<noteq> Inr x" "Inr x \<noteq> bail m"
  by (simp_all add: bail_def)

section \<open>Blocks and transactions\<close>

record block_header_info =
  h_height :: u64
  h_hash :: string
  h_prev_hash :: string
  h_state_root :: string
  h_tx_root :: string
  h_timestamp :: u64
  h_miner :: string
  h_nonce_hex :: string
  h_difficulty_target :: string
  h_log_slots :: u32
  h_active_slot_count :: u64
  h_alloc_counter :: u64

record input_info =
  in_page :: u32
  in_lane :: u32
  in_slot_index :: u64
  in_amount :: u64
  in_creation_id :: u64

record output_info =
  out_page :: u32
  out_lane :: u32
  out_slot_index :: u64
  out_amount :: u64
  out_owner :: string
  out_creation_id :: u64

record transaction_info =
  tx_position :: u32
  tx_txid :: string
  tx_page_count :: u32
  tx_live_inputs :: u32
  tx_live_outputs :: u32
  tx_fee :: u64
  tx_coinbase :: bool
  tx_development_payout :: bool
  tx_epoch_anchor :: string
  tx_input_owner :: "string option"
  tx_input_sum :: string
  tx_output_sum :: string
  tx_page_hashes :: "string list"
  tx_inputs :: "input_info list"
  tx_outputs :: "output_info list"

record retained_block_info =
  rb_proof_class :: string
  rb_logical_transactions :: u32
  rb_user_pages :: u32
  rb_live_inputs :: u32
  rb_live_outputs :: u32
  rb_reward :: u64
  rb_total_fees :: string
  rb_block_bytes :: u64
  rb_transactions :: "transaction_info list"

record block_details_info =
  d_header :: block_header_info
  d_retained :: "retained_block_info option"

record state_map_info =
  sm_log_slots :: u32
  bucket_capacity :: u64
  live_counts :: "u64 list"

record slot_info =
  sl_slot_index :: u64
  sl_value :: u64
  sl_creation_id :: u64
  sl_owner :: string
  sl_empty :: bool

section \<open>The node\<close>

type_synonym bytes = "u8 list"

record node =
  block_count :: "u64 result"
  get_block_header :: "u64 \<Rightarrow> block_header_info option result"
  get_block_details :: "u64 \<Rightarrow> block_details_info option result"
  get_block_raw :: "u64 \<Rightarrow> bytes option result"
  get_slot :: "u64 \<Rightarrow> slot_info result"
  get_slots_by_owner :: "string \<Rightarrow> slot_info list result"
  get_state_map :: "state_map_info result"

end
