(* ===== verification/Db_Tables.thy ===== *)
theory Db_Tables
  imports Rpc_Types
begin

text \<open>
  The SQLite schema of \<^verbatim>\<open>core/src/db.rs\<close>: one record per table row, one list per table in
  rowid order, and the SQL statements the operations are built from. INTEGER columns are
  signed 64-bit values, TEXT columns strings, NULL is \<open>None\<close>; 0/1 columns are booleans.
\<close>

section \<open>Rows\<close>

record block_row =
  b_id :: int
  b_height :: int
  b_hash :: string
  b_prev_hash :: string
  b_state_root :: string
  b_tx_root :: string
  b_timestamp :: int
  b_miner :: string
  b_nonce_hex :: string
  b_difficulty_target :: string
  b_proof_class :: "string option"
  b_reward :: "int option"
  b_total_fees :: "string option"
  b_body_captured :: bool
  b_body_source :: "string option"
  b_first_seen_at :: string
  b_log_slots :: "int option"
  b_contracts_scanned :: bool
  b_tx_count_total :: "int option"
  b_tip_seen_at_ms :: "int option"

datatype block_status = Canonical | Orphaned

record status_row =
  s_id :: int
  s_block_id :: int
  s_status :: block_status
  s_observed_at :: string

record tx_row =
  t_id :: int
  t_block_id :: int
  t_position :: int
  t_txid :: string
  t_page_count :: int
  t_fee :: int
  t_coinbase :: bool
  t_development_payout :: bool
  t_epoch_anchor :: string
  t_input_owner :: "string option"
  t_input_sum :: string
  t_output_sum :: string
  t_contract_flags :: int
  t_source :: "string option"

record page_hash_row =
  p_tx_id :: int
  p_idx :: int
  p_page_hash :: string

record input_row =
  i_tx_id :: int
  i_idx :: int
  i_page :: int
  i_lane :: int
  i_slot_index :: int
  i_amount :: int
  i_creation_id :: string

record output_row =
  o_rowid :: int
  o_tx_id :: int
  o_idx :: int
  o_page :: int
  o_lane :: int
  o_slot_index :: int
  o_amount :: int
  o_owner :: string
  o_creation_id :: "string option"
  o_spent_in_gap :: bool
  o_spent_in_gap_at :: "string option"

record gap_row =
  g_height :: int
  g_hash :: "string option"
  g_detected_at :: string
  g_note :: string
  g_resolved_at :: "string option"
  g_resolution :: "string option"

record receipt_row =
  r_tx_id :: int
  r_receipt_hex :: string
  r_imported_at :: string

record raw_row =
  w_block_id :: int
  w_codec :: string
  w_raw_len :: int
  w_data :: bytes
  w_source :: string
  w_stored_at :: string

record state_slot_row =
  f_slot_index :: int
  f_segment :: int
  f_creation_id :: string
  f_owner :: string
  f_amount :: int
  f_seen_height :: int
  f_seen_at :: string

record balance_row =
  a_address :: string
  a_balance :: string
  a_utxo_count :: int
  a_fetched_at :: string

record db =
  blocks :: "block_row list"
  status_log :: "status_row list"
  transactions :: "tx_row list"
  page_hashes :: "page_hash_row list"
  inputs :: "input_row list"
  outputs :: "output_row list"
  gaps :: "gap_row list"
  receipts :: "receipt_row list"
  raw_blocks :: "raw_row list"
  state_slots :: "state_slot_row list"
  balances :: "balance_row list"
  indexer_state :: "string \<Rightarrow> string option"

definition empty_db :: db where
  "empty_db = \<lparr>blocks = [], status_log = [], transactions = [], page_hashes = [], inputs = [],
     outputs = [], gaps = [], receipts = [], raw_blocks = [], state_slots = [], balances = [],
     indexer_state = Map.empty\<rparr>"

section \<open>SQL statements\<close>

text \<open>A new row's INTEGER PRIMARY KEY is one more than the largest in the table.\<close>

definition next_rowid :: "int list \<Rightarrow> int" where
  "next_rowid ids = (if ids = [] then 1 else Max (set ids) + 1)"

definition update_where :: "('r \<Rightarrow> bool) \<Rightarrow> ('r \<Rightarrow> 'r) \<Rightarrow> 'r list \<Rightarrow> 'r list" where
  "update_where P f rows = map (\<lambda>r. if P r then f r else r) rows"

definition rows_matching :: "('r \<Rightarrow> bool) \<Rightarrow> 'r list \<Rightarrow> nat" where
  "rows_matching P rows = length (filter P rows)"

definition insert_or_ignore :: "('r \<Rightarrow> 'k) \<Rightarrow> 'r \<Rightarrow> 'r list \<Rightarrow> 'r list" where
  "insert_or_ignore key r rows = (if key r \<in> key ` set rows then rows else rows @ [r])"

definition insert_or_replace :: "('r \<Rightarrow> 'k) \<Rightarrow> 'r \<Rightarrow> 'r list \<Rightarrow> 'r list" where
  "insert_or_replace key r rows = filter (\<lambda>x. key x \<noteq> key r) rows @ [r]"

text \<open>\<open>ORDER BY key DESC LIMIT 1\<close> over a key that no two rows share.\<close>

fun latest :: "('r \<Rightarrow> int) \<Rightarrow> 'r list \<Rightarrow> 'r option" where
  "latest key [] = None"
| "latest key (r # rows) =
     (case latest key rows of
        None \<Rightarrow> Some r
      | Some m \<Rightarrow> if key r < key m then Some m else Some r)"

text \<open>The first row, as \<open>query_row(..).optional()\<close> returns it.\<close>

definition first_row :: "('r \<Rightarrow> bool) \<Rightarrow> 'r list \<Rightarrow> 'r option" where
  "first_row P rows = find P rows"

section \<open>Their laws\<close>

lemma next_rowid_fresh: "i \<in> set ids \<Longrightarrow> i < next_rowid ids"
proof -
  assume "i \<in> set ids"
  then have "i \<le> Max (set ids)" and "ids \<noteq> []" by auto
  then show ?thesis by (simp add: next_rowid_def)
qed

lemma next_rowid_not_in: "next_rowid ids \<notin> set ids"
  using next_rowid_fresh by blast

lemma map_update_where: "(\<And>r. P r \<Longrightarrow> g (f r) = g r) \<Longrightarrow> map g (update_where P f rows) = map g rows"
  by (simp add: update_where_def)

lemma length_update_where [simp]: "length (update_where P f rows) = length rows"
  by (simp add: update_where_def)

lemma in_update_where: "x \<in> set (update_where P f rows) \<longleftrightarrow>
    (\<exists>r \<in> set rows. if P r then x = f r else x = r)"
  by (auto simp: update_where_def)

lemma update_where_none: "(\<And>r. r \<in> set rows \<Longrightarrow> \<not> P r) \<Longrightarrow> update_where P f rows = rows"
  by (simp add: update_where_def map_idI)

lemma filter_update_where:
  "(\<And>r. P r \<Longrightarrow> Q (f r) = Q r) \<Longrightarrow> filter Q (update_where P f rows) = update_where P f (filter Q rows)"
  by (induction rows) (auto simp: update_where_def)

lemma distinct_insert_or_ignore:
  "distinct (map key rows) \<Longrightarrow> distinct (map key (insert_or_ignore key r rows))"
  by (auto simp: insert_or_ignore_def)

lemma insert_or_ignore_keeps: "set rows \<subseteq> set (insert_or_ignore key r rows)"
  by (auto simp: insert_or_ignore_def)

lemma insert_or_ignore_twice:
  "key r = key r' \<Longrightarrow> insert_or_ignore key r' (insert_or_ignore key r rows) = insert_or_ignore key r rows"
  by (auto simp: insert_or_ignore_def)

lemma latest_None_iff [simp]: "latest key rows = None \<longleftrightarrow> rows = []"
  by (cases rows) (auto split: option.splits)

lemma latest_in: "latest key rows = Some m \<Longrightarrow> m \<in> set rows"
  by (induction rows arbitrary: m) (auto split: option.splits if_splits)

lemma latest_max: "latest key rows = Some m \<Longrightarrow> r \<in> set rows \<Longrightarrow> key r \<le> key m"
  by (induction rows arbitrary: m) (auto split: option.splits if_splits)

lemma latest_append_greater:
  "(\<And>x. x \<in> set rows \<Longrightarrow> key x < key r) \<Longrightarrow> latest key (rows @ [r]) = Some r"
  by (induction rows) auto

lemma latest_eqI:
  assumes "m \<in> set rows" "\<And>r. r \<in> set rows \<Longrightarrow> r \<noteq> m \<Longrightarrow> key r < key m"
  shows "latest key rows = Some m"
proof (cases "latest key rows")
  case None
  with assms(1) show ?thesis by auto
next
  case (Some x)
  have "key m \<le> key x" using latest_max [OF Some assms(1)] .
  with assms(2) [OF latest_in [OF Some]] Some show ?thesis by force
qed

lemma find_unique:
  assumes "distinct (map key rows)" "r \<in> set rows" "\<And>x. P x \<Longrightarrow> key x = key r" "P r"
  shows "find P rows = Some r"
proof -
  obtain x where x: "find P rows = Some x"
    using assms(2,4) by (cases "find P rows") (auto simp: find_None_iff)
  then have in_rows: "x \<in> set rows" and "P x" by (auto simp: find_Some_iff)
  have "inj_on key (set rows)" using assms(1) by (simp add: distinct_map)
  then have "x = r" using assms(3) [OF \<open>P x\<close>] in_rows assms(2) by (rule inj_onD)
  with x show ?thesis by simp
qed

end
