(* ===== verification/Db.thy ===== *)
theory Db
  imports Db_Tables
begin

text \<open>
  The storage operations of \<^verbatim>\<open>core/src/db.rs\<close>, one definition per function, over the tables of
  Db_Tables. A function that only reads returns its answer, one that writes returns the new
  database (and its answer), and one that can \<open>bail!\<close> returns a result; an error leaves the
  database as it was, which is the rollback of the caller's transaction.
\<close>

section \<open>Commit and rollback\<close>

text \<open>An error rolls the transaction back: the database stays as it was.\<close>

definition committed :: "db \<Rightarrow> (db \<times> 'b) result \<Rightarrow> db" where
  "committed c r = (case r of Inl _ \<Rightarrow> c | Inr (c', _) \<Rightarrow> c')"

lemma committed_simps [simp]:
  "committed c (Inr (c', x)) = c'" "committed c (Inl e) = c" "committed c (bail m) = c"
  by (simp_all add: committed_def bail_def)

definition stored :: "db \<Rightarrow> db result \<Rightarrow> db" where
  "stored c r = (case r of Inl _ \<Rightarrow> c | Inr c' \<Rightarrow> c')"

lemma stored_simps [simp]: "stored c (Inr c') = c'" "stored c (Inl e) = c" "stored c (bail m) = c"
  by (simp_all add: stored_def bail_def)

section \<open>Predicates\<close>

definition HEADER_ONLY_SOURCE :: string where "HEADER_ONLY_SOURCE = ''header''"
definition RECEIPT_SOURCE :: string where "RECEIPT_SOURCE = ''receipt''"

definition archived :: "block_row \<Rightarrow> bool" where
  "archived b = (b_body_source b \<noteq> Some HEADER_ONLY_SOURCE)"

definition recorded :: "tx_row \<Rightarrow> bool" where
  "recorded t = (t_source t \<noteq> Some RECEIPT_SOURCE)"

text \<open>
  \<open>(SELECT s.status FROM block_status_log s WHERE s.block_id = b.id ORDER BY s.id DESC LIMIT 1)\<close>,
  the status every query but one goes by.
\<close>

definition current_status :: "db \<Rightarrow> int \<Rightarrow> block_status option" where
  "current_status c bid = map_option s_status (latest s_id (filter (\<lambda>s. s_block_id s = bid) (status_log c)))"

definition is_canonical :: "db \<Rightarrow> int \<Rightarrow> bool" where
  "is_canonical c bid = (current_status c bid = Some Canonical)"

section \<open>Key-value state\<close>

definition get_state :: "db \<Rightarrow> string \<Rightarrow> string option" where
  "get_state c key = indexer_state c key"

definition set_state :: "db \<Rightarrow> string \<Rightarrow> string \<Rightarrow> db" where
  "set_state c key value = c\<lparr>indexer_state := (indexer_state c)(key \<mapsto> value)\<rparr>"

section \<open>Arrival times and proof classes\<close>

definition set_tip_seen :: "db \<Rightarrow> u64 \<Rightarrow> string \<Rightarrow> int \<Rightarrow> db \<times> bool" where
  "set_tip_seen c height hash at_ms =
     (let P = (\<lambda>b. b_height b = as_i64 height \<and> b_hash b = hash)
      in (c\<lparr>blocks := update_where P
              (\<lambda>b. b\<lparr>b_tip_seen_at_ms := (case b_tip_seen_at_ms b of Some t \<Rightarrow> Some t | None \<Rightarrow> Some at_ms)\<rparr>)
              (blocks c)\<rparr>,
          rows_matching P (blocks c) > 0))"

definition adopt_tip_seen :: "db \<Rightarrow> u64 \<Rightarrow> string \<Rightarrow> int \<Rightarrow> db \<times> bool" where
  "adopt_tip_seen c height hash at_ms =
     (let P = (\<lambda>b. b_height b = as_i64 height \<and> b_hash b = hash \<and> b_tip_seen_at_ms b = None)
      in (c\<lparr>blocks := update_where P (\<lambda>b. b\<lparr>b_tip_seen_at_ms := Some at_ms\<rparr>) (blocks c)\<rparr>,
          rows_matching P (blocks c) > 0))"

definition max_or :: "int \<Rightarrow> int list \<Rightarrow> int" where
  "max_or d xs = (if xs = [] then d else Max (set xs))"

definition min_option :: "int list \<Rightarrow> int option" where
  "min_option xs = (if xs = [] then None else Some (Min (set xs)))"

definition seen_fill_tip :: "db \<Rightarrow> u64" where
  "seen_fill_tip c = as_u64 (max (max_or 0 (map b_height (blocks c))) 0)"

definition seen_from :: "db \<Rightarrow> u64 option" where
  "seen_from c = map_option as_u64
     (min_option (map b_height (filter (\<lambda>b. b_tip_seen_at_ms b \<noteq> None) (blocks c))))"

text \<open>\<open>from.min(i64::MAX as u64) as i64\<close>\<close>

definition clamp_i64 :: "u64 \<Rightarrow> int" where
  "clamp_i64 h = as_i64 (min h 9223372036854775807)"

definition between :: "u64 \<Rightarrow> u64 \<Rightarrow> block_row \<Rightarrow> bool" where
  "between from to b = (clamp_i64 from \<le> b_height b \<and> b_height b \<le> clamp_i64 to)"

text \<open>\<open>ORDER BY height LIMIT max\<close>; a negative LIMIT (a limit above \<open>i64::MAX\<close>) is no limit.\<close>

definition limit_rows :: "int \<Rightarrow> 'r list \<Rightarrow> 'r list" where
  "limit_rows n rows = (if n < 0 then rows else take (nat n) rows)"

definition seen_in_range :: "db \<Rightarrow> u64 \<Rightarrow> u64 \<Rightarrow> u64 \<Rightarrow> (u64 \<times> string \<times> int) list" where
  "seen_in_range c from to lim =
     map (\<lambda>b. (as_u64 (b_height b), b_hash b, the (b_tip_seen_at_ms b)))
       (limit_rows (as_i64 lim) (sort_key b_height
          (filter (\<lambda>b. between from to b \<and> b_tip_seen_at_ms b \<noteq> None) (blocks c))))"

definition blocks_missing_seen :: "db \<Rightarrow> u64 \<Rightarrow> u64 \<Rightarrow> u64 \<Rightarrow> (u64 \<times> string) list" where
  "blocks_missing_seen c from to lim =
     map (\<lambda>b. (as_u64 (b_height b), b_hash b))
       (limit_rows (as_i64 lim) (sort_key b_height
          (filter (\<lambda>b. between from to b \<and> b_tip_seen_at_ms b = None \<and> archived b) (blocks c))))"

definition unavailable :: "string \<Rightarrow> bool" where
  "unavailable class = like_contains ''unavailable'' class"

definition blocks_missing_proof_class :: "db \<Rightarrow> u64 \<Rightarrow> u64 \<Rightarrow> u64 list" where
  "blocks_missing_proof_class c from lim =
     map as_u64 (limit_rows (as_i64 lim) (rev (sort (remdups (map b_height
       (filter (\<lambda>b. clamp_i64 from \<le> b_height b
                  \<and> (case b_proof_class b of Some p \<Rightarrow> unavailable p | None \<Rightarrow> False)) (blocks c)))))))"

definition proof_classes_at :: "db \<Rightarrow> u64 list \<Rightarrow> (u64 \<times> string \<times> string) list" where
  "proof_classes_at c heights = concat (map (\<lambda>h.
     map (\<lambda>b. (as_u64 (b_height b), b_hash b, the (b_proof_class b)))
       (filter (\<lambda>b. b_height b = clamp_i64 h
                  \<and> (case b_proof_class b of Some p \<Rightarrow> \<not> unavailable p | None \<Rightarrow> False)) (blocks c))) heights)"

text \<open>Rust's \<open>contains\<close> is case-sensitive, SQLite's \<open>LIKE\<close> is not.\<close>

definition adopt_proof_class :: "db \<Rightarrow> u64 \<Rightarrow> string \<Rightarrow> string \<Rightarrow> db \<times> bool" where
  "adopt_proof_class c height hash class =
     (if sublist ''unavailable'' class then (c, False)
      else
        let P = (\<lambda>b. b_height b = as_i64 height \<and> b_hash b = hash
                   \<and> (case b_proof_class b of Some p \<Rightarrow> unavailable p | None \<Rightarrow> False))
        in (c\<lparr>blocks := update_where P (\<lambda>b. b\<lparr>b_proof_class := Some class\<rparr>) (blocks c)\<rparr>,
            rows_matching P (blocks c) > 0))"

section \<open>Canonical blocks\<close>

text \<open>
  The status rows of the blocks at \<open>height\<close> that are canonical and carry their block's largest
  \<open>observed_at\<close>, as TEXT; the one with the largest id answers.
\<close>

definition statuses_of :: "db \<Rightarrow> int \<Rightarrow> status_row list" where
  "statuses_of c bid = filter (\<lambda>s. s_block_id s = bid) (status_log c)"

definition canonical_candidates :: "db \<Rightarrow> u64 \<Rightarrow> (block_row \<times> status_row) list" where
  "canonical_candidates c height =
     concat (map (\<lambda>b. map (\<lambda>s. (b, s))
        (filter (\<lambda>s. s_status s = Canonical
                  \<and> (\<forall>s2 \<in> set (statuses_of c (b_id b)). s_observed_at s2 \<le> s_observed_at s))
           (statuses_of c (b_id b))))
      (filter (\<lambda>b. b_height b = as_i64 height) (blocks c)))"

definition canonical_hash_at :: "db \<Rightarrow> u64 \<Rightarrow> (int \<times> string) option" where
  "canonical_hash_at c height =
     map_option (\<lambda>(b, s). (b_id b, b_hash b)) (latest (\<lambda>(b, s). s_id s) (canonical_candidates c height))"

definition block_with_id :: "db \<Rightarrow> int \<Rightarrow> block_row option" where
  "block_with_id c bid = find (\<lambda>b. b_id b = bid) (blocks c)"

definition canonical_link_at :: "db \<Rightarrow> u64 \<Rightarrow> (string \<times> string) option" where
  "canonical_link_at c height =
     (case canonical_hash_at c height of
        None \<Rightarrow> None
      | Some (bid, hash) \<Rightarrow> map_option (\<lambda>b. (hash, b_prev_hash b)) (block_with_id c bid))"

definition is_header_only :: "db \<Rightarrow> int \<Rightarrow> bool result" where
  "is_header_only c bid =
     (case block_with_id c bid of
        None \<Rightarrow> bail ''Query returned no rows''
      | Some b \<Rightarrow> Inr (b_body_source b = Some HEADER_ONLY_SOURCE))"

definition archive_first_height :: "db \<Rightarrow> u64 option" where
  "archive_first_height c = map_option as_u64 (min_option (map b_height (filter archived (blocks c))))"

definition lowest_recorded_height :: "db \<Rightarrow> u64 option" where
  "lowest_recorded_height c = map_option as_u64 (min_option (map b_height (blocks c)))"

section \<open>Block rows\<close>

definition append_status :: "db \<Rightarrow> int \<Rightarrow> block_status \<Rightarrow> string \<Rightarrow> db" where
  "append_status c bid status now =
     c\<lparr>status_log := status_log c @
        [\<lparr>s_id = next_rowid (map s_id (status_log c)), s_block_id = bid, s_status = status, s_observed_at = now\<rparr>]\<rparr>"

record header_only_block =
  ho_height :: u64
  ho_hash :: string
  ho_prev_hash :: string
  ho_state_root :: string
  ho_tx_root :: string
  ho_timestamp :: u64
  ho_miner :: string
  ho_nonce_hex :: string
  ho_difficulty_target :: string
  ho_log_slots :: u32

definition header_only_row :: "int \<Rightarrow> header_only_block \<Rightarrow> string \<Rightarrow> block_row" where
  "header_only_row bid b now =
     \<lparr>b_id = bid, b_height = as_i64 (ho_height b), b_hash = ho_hash b, b_prev_hash = ho_prev_hash b,
      b_state_root = ho_state_root b, b_tx_root = ho_tx_root b, b_timestamp = as_i64 (ho_timestamp b),
      b_miner = ho_miner b, b_nonce_hex = ho_nonce_hex b, b_difficulty_target = ho_difficulty_target b,
      b_proof_class = None, b_reward = None, b_total_fees = None, b_body_captured = False,
      b_body_source = Some HEADER_ONLY_SOURCE, b_first_seen_at = now,
      b_log_slots = Some (uint (ho_log_slots b)), b_contracts_scanned = False,
      b_tx_count_total = None, b_tip_seen_at_ms = None\<rparr>"

definition insert_header_only_block :: "db \<Rightarrow> header_only_block \<Rightarrow> string \<Rightarrow> (db \<times> bool) result" where
  "insert_header_only_block c b now =
     (let existing = map b_hash (filter (\<lambda>r. b_height r = as_i64 (ho_height b)) (blocks c))
      in if ho_hash b \<in> set existing then Inr (c, False)
         else if existing \<noteq> [] then
           bail (''height: block '' @ hd existing @ '' is on record, the node's header says '' @ ho_hash b)
         else
           let bid = next_rowid (map b_id (blocks c));
               c = c\<lparr>blocks := blocks c @ [header_only_row bid b now]\<rparr>
           in Inr (append_status c bid Canonical now, True))"

record canonical_block =
  cb_id :: int
  cb_hash :: string
  cb_tx_root :: string
  cb_timestamp :: u64
  cb_body_captured :: bool
  cb_header_only :: bool

definition canonical_block_at :: "db \<Rightarrow> u64 \<Rightarrow> canonical_block option" where
  "canonical_block_at c height =
     (case canonical_hash_at c height of
        None \<Rightarrow> None
      | Some (bid, hash) \<Rightarrow> map_option (\<lambda>b.
          \<lparr>cb_id = bid, cb_hash = hash, cb_tx_root = b_tx_root b, cb_timestamp = as_u64 (b_timestamp b),
           cb_body_captured = b_body_captured b,
           cb_header_only = (b_body_source b = Some HEADER_ONLY_SOURCE)\<rparr>) (block_with_id c bid))"

definition mark_orphaned :: "db \<Rightarrow> int \<Rightarrow> string \<Rightarrow> db" where
  "mark_orphaned c bid now = append_status c bid Orphaned now"

definition block_id_of :: "db \<Rightarrow> u64 \<Rightarrow> string \<Rightarrow> int option" where
  "block_id_of c height hash =
     map_option b_id (find (\<lambda>b. b_height b = as_i64 height \<and> b_hash b = hash) (blocks c))"

definition uncaptured_block_id :: "db \<Rightarrow> u64 \<Rightarrow> string \<Rightarrow> int option" where
  "uncaptured_block_id c height hash =
     map_option b_id (find (\<lambda>b. b_height b = as_i64 height \<and> b_hash b = hash
                               \<and> \<not> b_body_captured b \<and> archived b) (blocks c))"

definition mark_body_recovered :: "db \<Rightarrow> int \<Rightarrow> string \<Rightarrow> db" where
  "mark_body_recovered c bid body_source =
     c\<lparr>blocks := update_where (\<lambda>b. b_id b = bid)
        (\<lambda>b. b\<lparr>b_body_captured := True, b_body_source := Some body_source\<rparr>) (blocks c)\<rparr>"

end
