(* ===== verification/Db_Records.thy ===== *)
theory Db_Records
  imports Db
begin

text \<open>
  The second half of \<^verbatim>\<open>core/src/db.rs\<close>: receipt transactions, gaps, contract flags, the raw
  block archive, pruning, the known addresses and the balance cache.
\<close>

section \<open>Transactions proven by receipts\<close>

record receipt_input =
  ri_page :: u32
  ri_lane :: u32
  ri_slot_index :: u64
  ri_amount :: u64
  ri_creation_id :: u64

record receipt_output =
  ro_page :: u32
  ro_lane :: u32
  ro_slot_index :: u64
  ro_amount :: u64
  ro_owner :: string

record receipt_transaction =
  rt_position :: u32
  rt_tx_count :: u32
  rt_txid :: string
  rt_page_count :: u32
  rt_fee :: u64
  rt_epoch_anchor :: string
  rt_input_owner :: string
  rt_input_sum :: string
  rt_output_sum :: string
  rt_contract_flags :: u8
  rt_page_hashes :: "string list"
  rt_inputs :: "receipt_input list"
  rt_outputs :: "receipt_output list"
  rt_receipt_hex :: string

text \<open>A plain INSERT fails on a duplicate key; a list of them fails at the first duplicate.\<close>

definition insert_unique :: "('r \<Rightarrow> 'k) \<Rightarrow> 'r \<Rightarrow> 'r list \<Rightarrow> 'r list result" where
  "insert_unique key r rows =
     (if key r \<in> key ` set rows then bail ''UNIQUE constraint failed'' else Inr (rows @ [r]))"

fun insert_all_unique :: "('r \<Rightarrow> 'k) \<Rightarrow> 'r list \<Rightarrow> 'r list \<Rightarrow> 'r list result" where
  "insert_all_unique key [] rows = Inr rows"
| "insert_all_unique key (r # rs) rows = and_then (insert_unique key r rows) (insert_all_unique key rs)"

definition page_hash_key :: "page_hash_row \<Rightarrow> int \<times> int" where "page_hash_key r = (p_tx_id r, p_idx r)"
definition input_key :: "input_row \<Rightarrow> int \<times> int" where "input_key r = (i_tx_id r, i_idx r)"
definition output_key :: "output_row \<Rightarrow> int \<times> int" where "output_key r = (o_tx_id r, o_idx r)"

definition receipt_page_rows :: "int \<Rightarrow> string list \<Rightarrow> page_hash_row list" where
  "receipt_page_rows tx_id hashes =
     map (\<lambda>(idx, h). \<lparr>p_tx_id = tx_id, p_idx = idx, p_page_hash = h\<rparr>)
       (zip (map int [0..<length hashes]) hashes)"

definition receipt_input_rows :: "int \<Rightarrow> receipt_input list \<Rightarrow> input_row list" where
  "receipt_input_rows tx_id ins =
     map (\<lambda>(idx, i). \<lparr>i_tx_id = tx_id, i_idx = idx, i_page = uint (ri_page i), i_lane = uint (ri_lane i),
            i_slot_index = as_i64 (ri_slot_index i), i_amount = as_i64 (ri_amount i),
            i_creation_id = u64_to_string (ri_creation_id i)\<rparr>)
       (zip (map int [0..<length ins]) ins)"

definition receipt_output_row :: "int \<Rightarrow> int \<Rightarrow> int \<Rightarrow> receipt_output \<Rightarrow> output_row" where
  "receipt_output_row rowid tx_id idx out =
     \<lparr>o_rowid = rowid, o_tx_id = tx_id, o_idx = idx, o_page = uint (ro_page out), o_lane = uint (ro_lane out),
      o_slot_index = as_i64 (ro_slot_index out), o_amount = as_i64 (ro_amount out), o_owner = ro_owner out,
      o_creation_id = None, o_spent_in_gap = False, o_spent_in_gap_at = None\<rparr>"

fun insert_receipt_outputs :: "int \<Rightarrow> int \<Rightarrow> receipt_output list \<Rightarrow> output_row list \<Rightarrow> output_row list result" where
  "insert_receipt_outputs tx_id idx [] rows = Inr rows"
| "insert_receipt_outputs tx_id idx (out # outs) rows =
     and_then (insert_unique output_key
                (receipt_output_row (next_rowid (map o_rowid rows)) tx_id idx out) rows)
       (insert_receipt_outputs tx_id (idx + 1) outs)"

definition receipt_tx_row :: "int \<Rightarrow> int \<Rightarrow> receipt_transaction \<Rightarrow> tx_row" where
  "receipt_tx_row tx_id bid tx =
     \<lparr>t_id = tx_id, t_block_id = bid, t_position = uint (rt_position tx), t_txid = rt_txid tx,
      t_page_count = uint (rt_page_count tx), t_fee = as_i64 (rt_fee tx), t_coinbase = False,
      t_development_payout = False, t_epoch_anchor = rt_epoch_anchor tx,
      t_input_owner = Some (rt_input_owner tx), t_input_sum = rt_input_sum tx,
      t_output_sum = rt_output_sum tx, t_contract_flags = uint (rt_contract_flags tx),
      t_source = Some RECEIPT_SOURCE\<rparr>"

text \<open>The rows of one receipt transaction, written after every check has passed.\<close>

definition store_receipt_rows :: "db \<Rightarrow> int \<Rightarrow> receipt_transaction \<Rightarrow> string \<Rightarrow> db result" where
  "store_receipt_rows c bid tx now =
     (let tx_id = next_rowid (map t_id (transactions c))
      in and_then (insert_unique (\<lambda>t. (t_block_id t, t_position t)) (receipt_tx_row tx_id bid tx) (transactions c)) (\<lambda>txs.
         and_then (insert_all_unique page_hash_key (receipt_page_rows tx_id (rt_page_hashes tx)) (page_hashes c)) (\<lambda>phs.
         and_then (insert_all_unique input_key (receipt_input_rows tx_id (rt_inputs tx)) (inputs c)) (\<lambda>ins.
         and_then (insert_receipt_outputs tx_id 0 (rt_outputs tx) (outputs c)) (\<lambda>outs.
         and_then (insert_unique r_tx_id \<lparr>r_tx_id = tx_id, r_receipt_hex = rt_receipt_hex tx, r_imported_at = now\<rparr>
                     (receipts c)) (\<lambda>rcs.
         Inr (c\<lparr>transactions := txs, page_hashes := phs, inputs := ins, outputs := outs, receipts := rcs,
                blocks := update_where (\<lambda>b. b_id b = bid)
                   (\<lambda>b. b\<lparr>b_tx_count_total := Some (uint (rt_tx_count tx))\<rparr>) (blocks c)\<rparr>)))))))"

definition insert_receipt_transaction :: "db \<Rightarrow> int \<Rightarrow> receipt_transaction \<Rightarrow> string \<Rightarrow> (db \<times> bool) result" where
  "insert_receipt_transaction c bid tx now =
     and_then (is_header_only c bid) (\<lambda>header_only.
       if \<not> header_only then bail ''not a header-only block; receipts only complete blocks below the archive''
       else if rt_position tx = 0 \<or> rt_position tx \<ge> rt_tx_count tx then bail ''position does not fit the block''
       else
         let known = (case block_with_id c bid of Some b \<Rightarrow> b_tx_count_total b | None \<Rightarrow> None)
         in if (case known of Some n \<Rightarrow> n \<noteq> uint (rt_tx_count tx) | None \<Rightarrow> False)
            then bail ''the block holds another number of transactions per an earlier receipt''
            else case find (\<lambda>t. t_block_id t = bid \<and> t_position t = uint (rt_position tx)) (transactions c) of
                Some t \<Rightarrow>
                  if t_txid t = rt_txid tx \<and> t_source t = Some RECEIPT_SOURCE then Inr (c, False)
                  else bail (''position holds '' @ t_txid t @ '' already'')
              | None \<Rightarrow> and_then (store_receipt_rows c bid tx now) (\<lambda>c'. Inr (c', True)))"

definition receipt_transaction_count :: "db \<Rightarrow> nat" where
  "receipt_transaction_count c = rows_matching (\<lambda>t. t_source t = Some ''receipt'') (transactions c)"

section \<open>Gaps\<close>

definition record_gap :: "db \<Rightarrow> u64 \<Rightarrow> string option \<Rightarrow> string \<Rightarrow> string \<Rightarrow> db" where
  "record_gap c height hash now note =
     c\<lparr>gaps := insert_or_ignore g_height
        \<lparr>g_height = as_i64 height, g_hash = hash, g_detected_at = now, g_note = note,
         g_resolved_at = None, g_resolution = None\<rparr> (gaps c)\<rparr>"

definition resolve_gap :: "db \<Rightarrow> u64 \<Rightarrow> string \<Rightarrow> string \<Rightarrow> db" where
  "resolve_gap c height resolved_at resolution =
     c\<lparr>gaps := update_where (\<lambda>g. g_height g = as_i64 height \<and> g_resolved_at g = None)
        (\<lambda>g. g\<lparr>g_resolved_at := Some resolved_at, g_resolution := Some resolution\<rparr>) (gaps c)\<rparr>"

definition open_gap_heights :: "db \<Rightarrow> u64 \<Rightarrow> u64 list" where
  "open_gap_heights c min_height =
     map as_u64 (sort (map g_height
       (filter (\<lambda>g. g_resolved_at g = None \<and> as_i64 min_height \<le> g_height g) (gaps c))))"

definition resolve_gaps_with_bodies :: "db \<Rightarrow> string \<Rightarrow> db \<times> nat" where
  "resolve_gaps_with_bodies c now =
     (let P = (\<lambda>g. g_resolved_at g = None
                 \<and> (\<exists>b \<in> set (blocks c). b_height b = g_height g \<and> b_body_captured b \<and> archived b
                                        \<and> is_canonical c (b_id b)))
      in (c\<lparr>gaps := update_where P
              (\<lambda>g. g\<lparr>g_resolved_at := Some now, g_resolution := Some ''body on record''\<rparr>) (gaps c)\<rparr>,
          rows_matching P (gaps c)))"

section \<open>Contract flags\<close>

definition set_flag :: "int \<Rightarrow> u32 \<times> u8 \<Rightarrow> tx_row list \<Rightarrow> tx_row list" where
  "set_flag bid pf txs = update_where (\<lambda>t. t_block_id t = bid \<and> t_position t = uint (fst pf))
     (\<lambda>t. t\<lparr>t_contract_flags := uint (snd pf)\<rparr>) txs"

definition set_contract_flags :: "db \<Rightarrow> u64 \<Rightarrow> string \<Rightarrow> (u32 \<times> u8) list \<Rightarrow> db" where
  "set_contract_flags c height hash flags =
     (case block_id_of c height hash of
        None \<Rightarrow> c
      | Some bid \<Rightarrow>
          let cleared = update_where (\<lambda>t. t_block_id t = bid \<and> t_contract_flags t \<noteq> 0)
                          (\<lambda>t. t\<lparr>t_contract_flags := 0\<rparr>) (transactions c)
          in c\<lparr>transactions := foldl (\<lambda>txs pf. set_flag bid pf txs) cleared flags,
               blocks := update_where (\<lambda>b. b_id b = bid) (\<lambda>b. b\<lparr>b_contracts_scanned := True\<rparr>) (blocks c)\<rparr>)"

section \<open>Raw block archive\<close>

definition has_raw_block :: "db \<Rightarrow> int \<Rightarrow> bool" where
  "has_raw_block c bid = (\<exists>w \<in> set (raw_blocks c). w_block_id w = bid)"

definition insert_raw_block :: "db \<Rightarrow> int \<Rightarrow> string \<Rightarrow> u64 \<Rightarrow> bytes \<Rightarrow> string \<Rightarrow> string \<Rightarrow> db" where
  "insert_raw_block c bid codec raw_len data source now =
     c\<lparr>raw_blocks := insert_or_ignore w_block_id
        \<lparr>w_block_id = bid, w_codec = codec, w_raw_len = as_i64 raw_len, w_data = data, w_source = source,
         w_stored_at = now\<rparr> (raw_blocks c)\<rparr>"

definition raw_block :: "db \<Rightarrow> u64 \<Rightarrow> string \<Rightarrow> (string \<times> u64 \<times> bytes) option" where
  "raw_block c height hash =
     (case concat (map (\<lambda>w. map (\<lambda>b. (w, b)) (filter (\<lambda>b. b_id b = w_block_id w \<and> b_height b = as_i64 height
                                                           \<and> b_hash b = hash) (blocks c))) (raw_blocks c)) of
        [] \<Rightarrow> None
      | (w, b) # _ \<Rightarrow> Some (w_codec w, as_u64 (w_raw_len w), w_data w))"

definition blocks_missing_raw :: "db \<Rightarrow> u64 \<Rightarrow> u64 \<Rightarrow> u64 \<Rightarrow> (u64 \<times> string) list" where
  "blocks_missing_raw c from to lim =
     map (\<lambda>b. (as_u64 (b_height b), b_hash b))
       (limit_rows (clamp_i64 lim) (sort_key b_height
          (filter (\<lambda>b. between from to b \<and> b_body_captured b \<and> archived b
                     \<and> \<not> has_raw_block c (b_id b) \<and> is_canonical c (b_id b)) (blocks c))))"

record raw_coverage_info =
  rc_blocks :: u64
  rc_raw_bytes :: u64
  rc_stored_bytes :: u64
  rc_from_height :: "u64 option"

definition raw_coverage :: "db \<Rightarrow> raw_coverage_info" where
  "raw_coverage c =
     (let joined = concat (map (\<lambda>w. map (\<lambda>b. (w, b)) (filter (\<lambda>b. b_id b = w_block_id w) (blocks c))) (raw_blocks c))
      in \<lparr>rc_blocks = of_nat (length joined),
          rc_raw_bytes = as_u64 (sum_list (map (\<lambda>(w, b). w_raw_len w) joined)),
          rc_stored_bytes = as_u64 (sum_list (map (\<lambda>(w, b). int (length (w_data w))) joined)),
          rc_from_height = map_option as_u64 (min_option (map (\<lambda>(w, b). b_height b) joined))\<rparr>)"

section \<open>Pruning\<close>

definition prune_block :: "db \<Rightarrow> int \<Rightarrow> db" where
  "prune_block c bid =
     (let doomed = (\<lambda>tx_id. \<exists>t \<in> set (transactions c). t_id t = tx_id \<and> t_block_id t = bid)
      in c\<lparr>page_hashes := filter (\<lambda>p. \<not> doomed (p_tx_id p)) (page_hashes c),
           inputs := filter (\<lambda>i. \<not> doomed (i_tx_id i)) (inputs c),
           outputs := filter (\<lambda>out. \<not> doomed (o_tx_id out)) (outputs c),
           transactions := filter (\<lambda>t. t_block_id t \<noteq> bid) (transactions c),
           raw_blocks := filter (\<lambda>w. w_block_id w \<noteq> bid) (raw_blocks c),
           blocks := update_where (\<lambda>b. b_id b = bid) (\<lambda>b. b\<lparr>b_body_captured := False\<rparr>) (blocks c)\<rparr>)"

definition prunable :: "db \<Rightarrow> int \<Rightarrow> int list" where
  "prunable c cutoff = map b_id (filter (\<lambda>b. b_timestamp b < cutoff \<and> b_body_captured b \<and> archived b) (blocks c))"

definition prune_older_than :: "db \<Rightarrow> int \<Rightarrow> db \<times> nat" where
  "prune_older_than c cutoff = (foldl prune_block c (prunable c cutoff), length (prunable c cutoff))"

section \<open>Addresses and balances\<close>

definition from_receipt :: "db \<Rightarrow> int \<Rightarrow> bool" where
  "from_receipt c tx_id = (\<exists>t \<in> set (transactions c). t_id t = tx_id \<and> t_source t = Some RECEIPT_SOURCE)"

definition known_addresses :: "db \<Rightarrow> string list" where
  "known_addresses c =
     sort (remdups (List.map_filter t_input_owner (filter recorded (transactions c))
       @ map o_owner (filter (\<lambda>out. \<not> from_receipt c (o_tx_id out)) (outputs c))
       @ map b_miner (filter archived (blocks c))))"

definition upsert_address_balance_cache :: "db \<Rightarrow> string \<Rightarrow> string \<Rightarrow> int \<Rightarrow> string \<Rightarrow> db" where
  "upsert_address_balance_cache c address balance utxo_count fetched_at =
     (let r = \<lparr>a_address = address, a_balance = balance, a_utxo_count = utxo_count, a_fetched_at = fetched_at\<rparr>
      in if address \<in> a_address ` set (balances c)
         then c\<lparr>balances := update_where (\<lambda>x. a_address x = address) (\<lambda>_. r) (balances c)\<rparr>
         else c\<lparr>balances := balances c @ [r]\<rparr>)"

definition cached_balance :: "db \<Rightarrow> string \<Rightarrow> balance_row option" where
  "cached_balance c address = find (\<lambda>r. a_address r = address) (balances c)"

definition zero_balance_cache_except :: "db \<Rightarrow> string set \<Rightarrow> string \<Rightarrow> db \<times> nat" where
  "zero_balance_cache_except c keep now =
     (let stale = filter (\<lambda>a. a \<notin> keep) (map a_address (filter (\<lambda>r. a_utxo_count r > 0) (balances c)))
      in (foldl (\<lambda>c a. upsert_address_balance_cache c a ''0'' 0 now) c stale, length stale))"

end
