(* ===== verification/Db_Live.thy ===== *)
theory Db_Live
  imports Db_Records
begin

text \<open>
  The live-state queries of \<^verbatim>\<open>core/src/db.rs\<close>: which recorded outputs are unspent, how many live
  UTXOs each state segment holds in this permanode's picture, the sweep's own slots, and the
  balances derived from both.
\<close>

section \<open>Recorded outputs and spends\<close>

text \<open>The joins to \<open>transactions\<close> and \<open>blocks\<close> are by primary key, so they find at most one row.\<close>

definition origin :: "db \<Rightarrow> int \<Rightarrow> (tx_row \<times> block_row) option" where
  "origin c tx_id =
     (case find (\<lambda>t. t_id t = tx_id) (transactions c) of
        None \<Rightarrow> None
      | Some t \<Rightarrow> map_option (\<lambda>b. (t, b)) (block_with_id c (t_block_id t)))"

definition on_record :: "db \<Rightarrow> int \<Rightarrow> int \<Rightarrow> bool" where
  "on_record c max_height tx_id =
     (case origin c tx_id of
        None \<Rightarrow> False
      | Some (t, b) \<Rightarrow> b_height b \<le> max_height \<and> recorded t \<and> is_canonical c (b_id b))"

definition spent_by_recorded_input :: "db \<Rightarrow> int \<Rightarrow> string option \<Rightarrow> bool" where
  "spent_by_recorded_input c max_height cid =
     (\<exists>i \<in> set (inputs c). Some (i_creation_id i) = cid \<and> on_record c max_height (i_tx_id i))"

definition in_slots :: "u64 \<Rightarrow> u64 \<Rightarrow> int \<Rightarrow> bool" where
  "in_slots lo hi slot = (as_i64 lo \<le> slot \<and> slot < as_i64 hi)"

definition live_recorded :: "db \<Rightarrow> int \<Rightarrow> output_row \<Rightarrow> bool" where
  "live_recorded c max_height out =
     (\<not> o_spent_in_gap out \<and> on_record c max_height (o_tx_id out)
      \<and> \<not> spent_by_recorded_input c max_height (o_creation_id out))"

definition live_foreign :: "db \<Rightarrow> int \<Rightarrow> state_slot_row \<Rightarrow> bool" where
  "live_foreign c max_height f = (\<not> spent_by_recorded_input c max_height (Some (f_creation_id f)))"

text \<open>Reading a NULL creation id as a string is an error.\<close>

definition text_column :: "(int \<times> string option) list \<Rightarrow> (int \<times> string) list result" where
  "text_column rows =
     (if \<exists>r \<in> set rows. snd r = None then bail ''Invalid column type Null''
      else Inr (map (\<lambda>(i, t). (i, the t)) rows))"

definition unspent_recorded_outputs :: "db \<Rightarrow> u64 \<Rightarrow> u64 \<Rightarrow> u64 \<Rightarrow> (int \<times> string) list result" where
  "unspent_recorded_outputs c max_height lo hi =
     text_column (map (\<lambda>out. (o_rowid out, o_creation_id out))
       (filter (\<lambda>out. in_slots lo hi (o_slot_index out) \<and> live_recorded c (as_i64 max_height) out) (outputs c)))"

definition recorded_creation_ids :: "db \<Rightarrow> u64 \<Rightarrow> u64 \<Rightarrow> string list result" where
  "recorded_creation_ids c lo hi =
     and_then (text_column (map (\<lambda>out. (o_rowid out, o_creation_id out))
        (filter (\<lambda>out. in_slots lo hi (o_slot_index out) \<and> on_record c (2 ^ 63 - 1) (o_tx_id out)) (outputs c))))
       (\<lambda>rows. Inr (map snd rows))"

section \<open>Counts per segment\<close>

text \<open>SQLite divides integers toward zero.\<close>

definition sql_div :: "int \<Rightarrow> int \<Rightarrow> int" where
  "sql_div a b = (if (a < 0) = (b < 0) then \<bar>a\<bar> div \<bar>b\<bar> else - (\<bar>a\<bar> div \<bar>b\<bar>))"

definition live_segments :: "db \<Rightarrow> u64 \<Rightarrow> u64 \<Rightarrow> u64 list" where
  "live_segments c height segment_size =
     map (\<lambda>out. as_u64 (sql_div (o_slot_index out) (as_i64 segment_size)))
       (filter (live_recorded c (as_i64 height)) (outputs c))
     @ map (\<lambda>f. as_u64 (f_segment f)) (filter (live_foreign c (as_i64 height)) (state_slots c))"

text \<open>A division by zero is NULL, which is no \<open>i64\<close>.\<close>

definition live_count_per_segment :: "db \<Rightarrow> u64 \<Rightarrow> u64 \<Rightarrow> (u64 \<times> u64) list result" where
  "live_count_per_segment c height segment_size =
     (if segment_size = 0 \<and> (\<exists>out \<in> set (outputs c). live_recorded c (as_i64 height) out)
      then bail ''Invalid column type Null''
      else let segs = live_segments c height segment_size
           in Inr (map (\<lambda>s. (s, of_nat (count_list segs s))) (remdups segs)))"

section \<open>The sweep's own slots\<close>

record state_slot =
  ss_slot_index :: u64
  ss_creation_id :: string
  ss_owner :: string
  ss_amount :: u64

definition state_slot_row_of :: "u64 \<Rightarrow> u64 \<Rightarrow> string \<Rightarrow> state_slot \<Rightarrow> state_slot_row" where
  "state_slot_row_of segment height now s =
     \<lparr>f_slot_index = as_i64 (ss_slot_index s), f_segment = as_i64 segment, f_creation_id = ss_creation_id s,
      f_owner = ss_owner s, f_amount = as_i64 (ss_amount s), f_seen_height = as_i64 height, f_seen_at = now\<rparr>"

definition replace_state_slots :: "db \<Rightarrow> u64 \<Rightarrow> state_slot list \<Rightarrow> u64 \<Rightarrow> string \<Rightarrow> db" where
  "replace_state_slots c segment slots height now =
     c\<lparr>state_slots := foldl (\<lambda>rows s. insert_or_replace f_slot_index (state_slot_row_of segment height now s) rows)
        (filter (\<lambda>f. f_segment f \<noteq> as_i64 segment) (state_slots c)) slots\<rparr>"

definition mark_spent_in_gap :: "db \<Rightarrow> int list \<Rightarrow> string \<Rightarrow> db" where
  "mark_spent_in_gap c rowids now =
     c\<lparr>outputs := foldl (\<lambda>rows i. update_where (\<lambda>out. o_rowid out = i)
          (\<lambda>out. out\<lparr>o_spent_in_gap := True, o_spent_in_gap_at := Some now\<rparr>) rows) (outputs c) rowids\<rparr>"

definition unmark :: "output_row \<Rightarrow> output_row" where
  "unmark out = out\<lparr>o_spent_in_gap := False, o_spent_in_gap_at := None\<rparr>"

definition unmark_live_outputs :: "db \<Rightarrow> u64 \<Rightarrow> u64 \<Rightarrow> string set \<Rightarrow> (db \<times> nat) result" where
  "unmark_live_outputs c lo hi live =
     and_then (text_column (map (\<lambda>out. (o_rowid out, o_creation_id out))
        (filter (\<lambda>out. o_spent_in_gap out \<and> in_slots lo hi (o_slot_index out) \<and> \<not> from_receipt c (o_tx_id out))
           (outputs c))))
       (\<lambda>flagged. let back = filter (\<lambda>(i, cid). cid \<in> live) flagged
         in Inr (c\<lparr>outputs := foldl (\<lambda>rows r. update_where (\<lambda>out. o_rowid out = fst r) unmark rows) (outputs c) back\<rparr>,
                 length back))"

definition clear_spent_in_gap_with_recorded_spend :: "db \<Rightarrow> db \<times> nat" where
  "clear_spent_in_gap_with_recorded_spend c =
     (let P = (\<lambda>out. o_spent_in_gap out
                 \<and> (\<exists>i \<in> set (inputs c). Some (i_creation_id i) = o_creation_id out
                      \<and> (case origin c (i_tx_id i) of Some (t, b) \<Rightarrow> recorded t \<and> is_canonical c (b_id b) | None \<Rightarrow> False)))
      in (c\<lparr>outputs := update_where P unmark (outputs c)\<rparr>, rows_matching P (outputs c)))"

section \<open>Balances\<close>

definition live_amounts :: "db \<Rightarrow> (string \<times> int) list" where
  "live_amounts c =
     map (\<lambda>out. (o_owner out, o_amount out)) (filter (live_recorded c (2 ^ 63 - 1)) (outputs c))
     @ map (\<lambda>f. (f_owner f, f_amount f)) (filter (live_foreign c (2 ^ 63 - 1)) (state_slots c))"

definition live_balances :: "db \<Rightarrow> (string \<times> u128 \<times> u64) list" where
  "live_balances c =
     map (\<lambda>owner. (owner,
            sum_list (map (\<lambda>(w, a). word_of_int a) (filter (\<lambda>(w, a). w = owner) (live_amounts c))),
            of_nat (length (filter (\<lambda>(w, a). w = owner) (live_amounts c)))))
       (remdups (map fst (live_amounts c)))"

end
