(* ===== verification/Ingest.thy ===== *)
theory Ingest
  imports Db_Live
begin

text \<open>
  How \<^verbatim>\<open>permanode/src/indexer.rs\<close> writes one height: a block with its body, a block recorded as
  a gap, and the transactions of a body. \<open>now\<close> is the clock reading the code takes inside each
  function; it is an argument here.
\<close>

section \<open>Rows of a body\<close>

definition body_tx_row :: "int \<Rightarrow> int \<Rightarrow> transaction_info \<Rightarrow> tx_row" where
  "body_tx_row tx_id bid tx =
     \<lparr>t_id = tx_id, t_block_id = bid, t_position = uint (tx_position tx), t_txid = tx_txid tx,
      t_page_count = uint (tx_page_count tx), t_fee = as_i64 (tx_fee tx), t_coinbase = tx_coinbase tx,
      t_development_payout = tx_development_payout tx, t_epoch_anchor = tx_epoch_anchor tx,
      t_input_owner = tx_input_owner tx, t_input_sum = tx_input_sum tx, t_output_sum = tx_output_sum tx,
      t_contract_flags = 0, t_source = None\<rparr>"

definition body_page_row :: "int \<Rightarrow> nat \<Rightarrow> string \<Rightarrow> page_hash_row" where
  "body_page_row tx_id idx h = \<lparr>p_tx_id = tx_id, p_idx = int idx, p_page_hash = h\<rparr>"

definition body_input_row :: "int \<Rightarrow> nat \<Rightarrow> input_info \<Rightarrow> input_row" where
  "body_input_row tx_id idx i =
     \<lparr>i_tx_id = tx_id, i_idx = int idx, i_page = uint (in_page i), i_lane = uint (in_lane i),
      i_slot_index = as_i64 (in_slot_index i), i_amount = as_i64 (in_amount i),
      i_creation_id = u64_to_string (in_creation_id i)\<rparr>"

definition body_output_row :: "int \<Rightarrow> int \<Rightarrow> nat \<Rightarrow> output_info \<Rightarrow> output_row" where
  "body_output_row rowid tx_id idx out =
     \<lparr>o_rowid = rowid, o_tx_id = tx_id, o_idx = int idx, o_page = uint (out_page out), o_lane = uint (out_lane out),
      o_slot_index = as_i64 (out_slot_index out), o_amount = as_i64 (out_amount out), o_owner = out_owner out,
      o_creation_id = Some (u64_to_string (out_creation_id out)), o_spent_in_gap = False,
      o_spent_in_gap_at = None\<rparr>"

text \<open>\<open>INSERT OR IGNORE\<close> over an enumerated list; an output row takes the next rowid.\<close>

fun insert_page_hashes :: "int \<Rightarrow> nat \<Rightarrow> string list \<Rightarrow> page_hash_row list \<Rightarrow> page_hash_row list" where
  "insert_page_hashes tx_id idx [] rows = rows"
| "insert_page_hashes tx_id idx (h # hs) rows =
     insert_page_hashes tx_id (Suc idx) hs (insert_or_ignore page_hash_key (body_page_row tx_id idx h) rows)"

fun insert_inputs :: "int \<Rightarrow> nat \<Rightarrow> input_info list \<Rightarrow> input_row list \<Rightarrow> input_row list" where
  "insert_inputs tx_id idx [] rows = rows"
| "insert_inputs tx_id idx (i # is) rows =
     insert_inputs tx_id (Suc idx) is (insert_or_ignore input_key (body_input_row tx_id idx i) rows)"

fun insert_outputs :: "int \<Rightarrow> nat \<Rightarrow> output_info list \<Rightarrow> output_row list \<Rightarrow> output_row list" where
  "insert_outputs tx_id idx [] rows = rows"
| "insert_outputs tx_id idx (out # outs) rows =
     insert_outputs tx_id (Suc idx) outs
       (insert_or_ignore output_key (body_output_row (next_rowid (map o_rowid rows)) tx_id idx out) rows)"

section \<open>Transactions of a body\<close>

definition at_position :: "int \<Rightarrow> u32 \<Rightarrow> tx_row \<Rightarrow> bool" where
  "at_position bid pos t = (t_block_id t = bid \<and> t_position t = uint pos)"

definition insert_transaction :: "int \<Rightarrow> transaction_info \<Rightarrow> db \<Rightarrow> db" where
  "insert_transaction bid tx c =
     (let txs = insert_or_ignore (\<lambda>t. (t_block_id t, t_position t))
                  (body_tx_row (next_rowid (map t_id (transactions c))) bid tx) (transactions c);
          tx_id = (case find (at_position bid (tx_position tx)) txs of Some t \<Rightarrow> t_id t | None \<Rightarrow> 0)
      in c\<lparr>transactions := txs,
           page_hashes := insert_page_hashes tx_id 0 (tx_page_hashes tx) (page_hashes c),
           inputs := insert_inputs tx_id 0 (tx_inputs tx) (inputs c),
           outputs := insert_outputs tx_id 0 (tx_outputs tx) (outputs c)\<rparr>)"

definition body_columns :: "retained_block_info \<Rightarrow> block_row \<Rightarrow> block_row" where
  "body_columns retained b =
     b\<lparr>b_proof_class := (if unavailable (rb_proof_class retained) \<and> b_proof_class b \<noteq> None
                         then b_proof_class b else Some (rb_proof_class retained)),
       b_reward := Some (as_i64 (rb_reward retained)),
       b_total_fees := Some (rb_total_fees retained)\<rparr>"

definition insert_transactions :: "db \<Rightarrow> int \<Rightarrow> retained_block_info \<Rightarrow> db" where
  "insert_transactions c bid retained =
     foldl (\<lambda>c tx. insert_transaction bid tx c)
       (c\<lparr>blocks := update_where (\<lambda>b. b_id b = bid) (body_columns retained) (blocks c)\<rparr>)
       (rb_transactions retained)"

section \<open>A block and a gap\<close>

definition header_row :: "int \<Rightarrow> block_header_info \<Rightarrow> bool \<Rightarrow> string option \<Rightarrow> string \<Rightarrow> block_row" where
  "header_row bid h body_captured body_source now =
     \<lparr>b_id = bid, b_height = as_i64 (h_height h), b_hash = h_hash h, b_prev_hash = h_prev_hash h,
      b_state_root = h_state_root h, b_tx_root = h_tx_root h, b_timestamp = as_i64 (h_timestamp h),
      b_miner = h_miner h, b_nonce_hex = h_nonce_hex h, b_difficulty_target = h_difficulty_target h,
      b_proof_class = None, b_reward = None, b_total_fees = None, b_body_captured = body_captured,
      b_body_source = body_source, b_first_seen_at = now, b_log_slots = Some (uint (h_log_slots h)),
      b_contracts_scanned = False, b_tx_count_total = None, b_tip_seen_at_ms = None\<rparr>"

definition insert_block_header_row ::
    "db \<Rightarrow> block_header_info \<Rightarrow> bool \<Rightarrow> string option \<Rightarrow> string \<Rightarrow> db \<times> int" where
  "insert_block_header_row c h body_captured body_source now =
     (let rows = insert_or_ignore (\<lambda>b. (b_height b, b_hash b))
                   (header_row (next_rowid (map b_id (blocks c))) h body_captured body_source now) (blocks c);
          bid = (case find (\<lambda>b. b_height b = as_i64 (h_height h) \<and> b_hash b = h_hash h) rows of
                   Some b \<Rightarrow> b_id b | None \<Rightarrow> 0)
      in (append_status (c\<lparr>blocks := rows\<rparr>) bid Canonical now, bid))"

definition known_canonical :: "db \<Rightarrow> block_header_info \<Rightarrow> bool" where
  "known_canonical c h =
     (case canonical_hash_at c (h_height h) of Some (_, hash) \<Rightarrow> hash = h_hash h | None \<Rightarrow> False)"

definition record_gap_block :: "db \<Rightarrow> block_details_info \<Rightarrow> string \<Rightarrow> string \<Rightarrow> db" where
  "record_gap_block c details note now =
     (let h = d_header details
      in if known_canonical c h then record_gap c (h_height h) (Some (h_hash h)) now note
         else record_gap (fst (insert_block_header_row c h False None now)) (h_height h) (Some (h_hash h)) now note)"

text \<open>\<open>store_block\<close> expects a retained body; without one it panics.\<close>

definition store_block :: "db \<Rightarrow> block_details_info \<Rightarrow> string \<Rightarrow> string \<Rightarrow> db result" where
  "store_block c details body_source now =
     (let h = d_header details
      in case d_retained details of
           None \<Rightarrow> bail ''store_block called without a retained body - caller bug''
         | Some retained \<Rightarrow>
             Inr (if known_canonical c h then
                    (case uncaptured_block_id c (h_height h) (h_hash h) of
                       None \<Rightarrow> c
                     | Some bid \<Rightarrow>
                         resolve_gap (mark_body_recovered (insert_transactions c bid retained) bid body_source)
                           (h_height h) now (''recovered via '' @ body_source))
                  else
                    let (c, bid) = insert_block_header_row c h True (Some body_source) now
                    in insert_transactions c bid retained))"

end
