(* ===== verification/Db_Invariant.thy ===== *)
theory Db_Invariant
  imports Ingest
begin

text \<open>
  The invariant of the database and the archive contract. \<open>wf_db\<close> collects what the schema's keys
  and references promise and what the code adds: header-only blocks never carry a body, and
  transactions from receipts live in header-only blocks and nowhere else. \<open>evidence_le\<close> is the
  append-only promise of the schema notes: no block row, status entry, gap or receipt that was
  once recorded is overwritten or removed. The locale \<open>archive_operation\<close> states the contract of
  one operation, and every operation of the storage layer is an interpretation of it.
\<close>

section \<open>The invariant\<close>

definition block_sig :: "block_row \<Rightarrow> int \<times> bool" where
  "block_sig b = (b_id b, archived b)"

definition tx_sig :: "tx_row \<Rightarrow> int \<times> bool" where
  "tx_sig t = (t_id t, recorded t)"

definition block_key :: "block_row \<Rightarrow> int \<times> string" where
  "block_key b = (b_height b, b_hash b)"

definition tx_key :: "tx_row \<Rightarrow> int \<times> int" where
  "tx_key t = (t_block_id t, t_position t)"

definition wf_blocks :: "block_row list \<Rightarrow> bool" where
  "wf_blocks bs \<longleftrightarrow> distinct (map b_id bs) \<and> distinct (map block_key bs)
     \<and> (\<forall>b \<in> set bs. b_body_captured b \<longrightarrow> archived b)"

definition wf_status :: "(int \<times> bool) set \<Rightarrow> status_row list \<Rightarrow> bool" where
  "wf_status sigs ss \<longleftrightarrow> sorted_wrt (<) (map s_id ss) \<and> (\<forall>s \<in> set ss. s_block_id s \<in> fst ` sigs)"

definition wf_txs :: "(int \<times> bool) set \<Rightarrow> tx_row list \<Rightarrow> bool" where
  "wf_txs sigs ts \<longleftrightarrow> distinct (map t_id ts) \<and> distinct (map tx_key ts)
     \<and> (\<forall>t \<in> set ts. (t_block_id t, recorded t) \<in> sigs)"

definition wf_pages :: "(int \<times> bool) set \<Rightarrow> page_hash_row list \<Rightarrow> bool" where
  "wf_pages tsigs ps \<longleftrightarrow> distinct (map page_hash_key ps) \<and> (\<forall>p \<in> set ps. p_tx_id p \<in> fst ` tsigs)"

definition wf_inputs :: "(int \<times> bool) set \<Rightarrow> input_row list \<Rightarrow> bool" where
  "wf_inputs tsigs ins \<longleftrightarrow> distinct (map input_key ins) \<and> (\<forall>i \<in> set ins. i_tx_id i \<in> fst ` tsigs)"

definition wf_outputs :: "(int \<times> bool) set \<Rightarrow> output_row list \<Rightarrow> bool" where
  "wf_outputs tsigs outs \<longleftrightarrow> distinct (map o_rowid outs) \<and> distinct (map output_key outs)
     \<and> (\<forall>out \<in> set outs. (o_tx_id out, o_creation_id out \<noteq> None) \<in> tsigs)"

definition wf_raws :: "(int \<times> bool) set \<Rightarrow> raw_row list \<Rightarrow> bool" where
  "wf_raws sigs ws \<longleftrightarrow> distinct (map w_block_id ws) \<and> (\<forall>w \<in> set ws. w_block_id w \<in> fst ` sigs)"

definition wf_receipts :: "(int \<times> bool) set \<Rightarrow> receipt_row list \<Rightarrow> bool" where
  "wf_receipts tsigs rs \<longleftrightarrow> distinct (map r_tx_id rs) \<and> (\<forall>r \<in> set rs. (r_tx_id r, False) \<in> tsigs)"

abbreviation block_sigs :: "db \<Rightarrow> (int \<times> bool) set" where "block_sigs c \<equiv> block_sig ` set (blocks c)"
abbreviation tx_sigs :: "db \<Rightarrow> (int \<times> bool) set" where "tx_sigs c \<equiv> tx_sig ` set (transactions c)"

definition wf_db :: "db \<Rightarrow> bool" where
  "wf_db c \<longleftrightarrow> wf_blocks (blocks c) \<and> wf_status (block_sigs c) (status_log c)
     \<and> wf_txs (block_sigs c) (transactions c) \<and> wf_pages (tx_sigs c) (page_hashes c)
     \<and> wf_inputs (tx_sigs c) (inputs c) \<and> wf_outputs (tx_sigs c) (outputs c)
     \<and> wf_raws (block_sigs c) (raw_blocks c) \<and> wf_receipts (tx_sigs c) (receipts c)
     \<and> distinct (map g_height (gaps c)) \<and> distinct (map f_slot_index (state_slots c))
     \<and> distinct (map a_address (balances c))"

lemma wf_empty: "wf_db empty_db"
  by (simp add: wf_db_def empty_db_def wf_blocks_def wf_status_def wf_txs_def wf_pages_def wf_inputs_def
      wf_outputs_def wf_raws_def wf_receipts_def)

section \<open>Evidence\<close>

definition block_identity where
  "block_identity b = (b_id b, b_height b, b_hash b, b_prev_hash b, b_state_root b, b_tx_root b, b_timestamp b,
     b_miner b, b_nonce_hex b, b_difficulty_target b, b_first_seen_at b)"

definition gap_identity where
  "gap_identity g = (g_height g, g_hash g, g_detected_at g, g_note g)"

definition evidence_le :: "db \<Rightarrow> db \<Rightarrow> bool" where
  "evidence_le c c' \<longleftrightarrow> prefix (map block_identity (blocks c)) (map block_identity (blocks c'))
     \<and> prefix (status_log c) (status_log c')
     \<and> prefix (map gap_identity (gaps c)) (map gap_identity (gaps c'))
     \<and> prefix (receipts c) (receipts c')"

lemma evidence_refl [simp]: "evidence_le c c"
  by (simp add: evidence_le_def)

lemma evidence_trans: "evidence_le a b \<Longrightarrow> evidence_le b c \<Longrightarrow> evidence_le a c"
  by (auto simp: evidence_le_def intro: prefix_order.trans)

section \<open>The contract of an operation\<close>

locale archive_operation =
  fixes step :: "'a \<Rightarrow> db \<Rightarrow> db" and pre :: "'a \<Rightarrow> db \<Rightarrow> bool"
  assumes keeps_wf: "wf_db c \<Longrightarrow> pre a c \<Longrightarrow> wf_db (step a c)"
    and keeps_evidence: "wf_db c \<Longrightarrow> pre a c \<Longrightarrow> evidence_le c (step a c)"
begin

text \<open>A run of the operation over a list, its precondition holding at every step.\<close>

fun run_ok :: "'a list \<Rightarrow> db \<Rightarrow> bool" where
  "run_ok [] c = True"
| "run_ok (a # as) c = (pre a c \<and> run_ok as (step a c))"

lemma run_keeps_wf: "wf_db c \<Longrightarrow> run_ok as c \<Longrightarrow> wf_db (foldl (\<lambda>c a. step a c) c as)"
  by (induction as arbitrary: c) (auto intro: keeps_wf)

lemma run_keeps_evidence: "wf_db c \<Longrightarrow> run_ok as c \<Longrightarrow> evidence_le c (foldl (\<lambda>c a. step a c) c as)"
  by (induction as arbitrary: c) (auto intro: keeps_wf keeps_evidence evidence_trans)

end

section \<open>Preservation, table by table\<close>

lemma wf_status_mono: "wf_status sigs ss \<Longrightarrow> sigs \<subseteq> sigs' \<Longrightarrow> wf_status sigs' ss"
  by (fastforce simp: wf_status_def)

lemma wf_txs_mono: "wf_txs sigs ts \<Longrightarrow> sigs \<subseteq> sigs' \<Longrightarrow> wf_txs sigs' ts"
  by (fastforce simp: wf_txs_def)

lemma wf_raws_mono: "wf_raws sigs ws \<Longrightarrow> sigs \<subseteq> sigs' \<Longrightarrow> wf_raws sigs' ws"
  by (fastforce simp: wf_raws_def)

lemma wf_pages_mono: "wf_pages sigs ps \<Longrightarrow> sigs \<subseteq> sigs' \<Longrightarrow> wf_pages sigs' ps"
  by (fastforce simp: wf_pages_def)

lemma wf_inputs_mono: "wf_inputs sigs ins \<Longrightarrow> sigs \<subseteq> sigs' \<Longrightarrow> wf_inputs sigs' ins"
  by (fastforce simp: wf_inputs_def)

lemma wf_outputs_mono: "wf_outputs sigs outs \<Longrightarrow> sigs \<subseteq> sigs' \<Longrightarrow> wf_outputs sigs' outs"
  by (auto simp: wf_outputs_def)

lemma wf_receipts_mono: "wf_receipts sigs rs \<Longrightarrow> sigs \<subseteq> sigs' \<Longrightarrow> wf_receipts sigs' rs"
  by (auto simp: wf_receipts_def)

lemmas wf_mono = wf_status_mono wf_txs_mono wf_raws_mono wf_pages_mono wf_inputs_mono wf_outputs_mono
  wf_receipts_mono

text \<open>An update of block rows that leaves their identity alone.\<close>

lemma image_update_where: "(\<And>r. P r \<Longrightarrow> g (f r) = g r) \<Longrightarrow> g ` set (update_where P f rows) = g ` set rows"
  by (simp add: map_update_where flip: set_map)

lemma wf_blocks_update:
  assumes "wf_blocks bs" "\<And>b. P b \<Longrightarrow> b_id (f b) = b_id b \<and> block_key (f b) = block_key b"
    and "\<And>b. P b \<Longrightarrow> b \<in> set bs \<Longrightarrow> b_body_captured (f b) \<Longrightarrow> archived (f b)"
  shows "wf_blocks (update_where P f bs)"
  using assms by (auto simp: wf_blocks_def map_update_where in_update_where split: if_splits)

lemma wf_append_status:
  assumes "wf_status sigs ss" "s_block_id s \<in> fst ` sigs" "s_id s = next_rowid (map s_id ss)"
  shows "wf_status sigs (ss @ [s])"
  using assms next_rowid_fresh [of _ "map s_id ss"] by (auto simp: wf_status_def sorted_wrt_append)

lemma wf_db_update_blocks:
  assumes "wf_db c" "\<And>b. P b \<Longrightarrow> b_id (f b) = b_id b \<and> block_key (f b) = block_key b \<and> archived (f b) = archived b"
    and "\<And>b. P b \<Longrightarrow> b \<in> set (blocks c) \<Longrightarrow> b_body_captured (f b) \<Longrightarrow> archived b"
  shows "wf_db (c\<lparr>blocks := update_where P f (blocks c)\<rparr>)"
proof -
  have "block_sig ` set (update_where P f (blocks c)) = block_sigs c"
    using assms(2) by (intro image_update_where) (auto simp: block_sig_def)
  moreover have "wf_blocks (update_where P f (blocks c))"
    using assms by (intro wf_blocks_update) (auto simp: wf_db_def)
  ultimately show ?thesis using assms(1) by (simp add: wf_db_def)
qed

lemma evidence_update_blocks:
  "(\<And>b. P b \<Longrightarrow> block_identity (f b) = block_identity b)
    \<Longrightarrow> evidence_le c (c\<lparr>blocks := update_where P f (blocks c)\<rparr>)"
  by (simp add: evidence_le_def map_update_where)

section \<open>The operations of the storage layer\<close>

definition has_block :: "db \<Rightarrow> int \<Rightarrow> bool" where
  "has_block c bid = (bid \<in> b_id ` set (blocks c))"

definition archived_block :: "db \<Rightarrow> int \<Rightarrow> bool" where
  "archived_block c bid = ((bid, True) \<in> block_sigs c)"

lemma fst_block_sigs: "fst ` block_sigs c = b_id ` set (blocks c)"
  by (auto simp: block_sig_def image_image)

lemma fst_tx_sigs: "fst ` tx_sigs c = t_id ` set (transactions c)"
  by (auto simp: tx_sig_def image_image)

lemma wf_db_append_status: "wf_db c \<Longrightarrow> has_block c bid \<Longrightarrow> wf_db (append_status c bid st now)"
  by (simp add: wf_db_def append_status_def wf_append_status fst_block_sigs has_block_def)

lemma blocks_append_status [simp]: "blocks (append_status c bid st now) = blocks c"
  by (simp add: append_status_def)

lemma evidence_append_status: "evidence_le c (append_status c bid st now)"
  by (simp add: evidence_le_def append_status_def)

lemma wf_db_unrelated:
  assumes "wf_db c" "wf_db c \<Longrightarrow> distinct (map g_height gs)"
    "wf_db c \<Longrightarrow> distinct (map f_slot_index fs)" "wf_db c \<Longrightarrow> distinct (map a_address bals)"
  shows "wf_db (c\<lparr>gaps := gs\<rparr>)" "wf_db (c\<lparr>state_slots := fs\<rparr>)" "wf_db (c\<lparr>balances := bals\<rparr>)"
    "wf_db (c\<lparr>indexer_state := m\<rparr>)"
  using assms by (auto simp: wf_db_def)

interpretation op_mark_orphaned: archive_operation
  "\<lambda>(bid, now) c. mark_orphaned c bid now" "\<lambda>(bid, now) c. has_block c bid"
  by unfold_locales (auto simp: mark_orphaned_def wf_db_append_status evidence_append_status)

interpretation op_set_state: archive_operation
  "\<lambda>(key, value) c. set_state c key value" "\<lambda>_ _. True"
  by unfold_locales (auto simp: set_state_def wf_db_def evidence_le_def)

interpretation op_record_gap: archive_operation
  "\<lambda>(height, hash, now, note) c. record_gap c height hash now note" "\<lambda>_ _. True"
  by unfold_locales (auto simp: record_gap_def wf_db_def evidence_le_def insert_or_ignore_def)

interpretation op_resolve_gap: archive_operation
  "\<lambda>(height, now, resolution) c. resolve_gap c height now resolution" "\<lambda>_ _. True"
  by unfold_locales (auto simp: resolve_gap_def wf_db_def evidence_le_def map_update_where gap_identity_def)

interpretation op_resolve_gaps_with_bodies: archive_operation
  "\<lambda>now c. fst (resolve_gaps_with_bodies c now)" "\<lambda>_ _. True"
  by unfold_locales
    (auto simp: resolve_gaps_with_bodies_def Let_def wf_db_def evidence_le_def map_update_where gap_identity_def)

interpretation op_mark_body_recovered: archive_operation
  "\<lambda>(bid, body_source) c. mark_body_recovered c bid body_source"
  "\<lambda>(bid, body_source) c. archived_block c bid \<and> body_source \<noteq> HEADER_ONLY_SOURCE"
proof unfold_locales
  fix a c assume wf: "wf_db c" and pre: "(\<lambda>(bid, src) c. archived_block c bid \<and> src \<noteq> HEADER_ONLY_SOURCE) a c"
  obtain bid src where a: "a = (bid, src)" by (cases a)
  have archived: "archived b" if "b \<in> set (blocks c)" "b_id b = bid" for b
    using that pre wf by (auto simp: a archived_block_def block_sig_def wf_db_def wf_blocks_def distinct_map inj_on_def)
  let ?f = "\<lambda>b. b\<lparr>b_body_captured := True, b_body_source := Some src\<rparr>"
  have eq: "(\<lambda>(bid, src) c. mark_body_recovered c bid src) a c
      = c\<lparr>blocks := update_where (\<lambda>b. b_id b = bid \<and> archived b) ?f (blocks c)\<rparr>"
    using archived by (auto simp: a mark_body_recovered_def update_where_def)
  show "wf_db ((\<lambda>(bid, src) c. mark_body_recovered c bid src) a c)"
    unfolding eq using pre wf by (intro wf_db_update_blocks) (auto simp: a archived_def block_key_def)
  show "evidence_le c ((\<lambda>(bid, src) c. mark_body_recovered c bid src) a c)"
    unfolding eq by (intro evidence_update_blocks) (simp add: block_identity_def)
qed

interpretation op_set_tip_seen: archive_operation
  "\<lambda>(height, hash, at) c. fst (set_tip_seen c height hash at)" "\<lambda>_ _. True"
  by unfold_locales (auto simp: set_tip_seen_def Let_def archived_def block_key_def block_identity_def
      intro!: wf_db_update_blocks evidence_update_blocks; auto simp: wf_db_def wf_blocks_def archived_def)+

interpretation op_adopt_tip_seen: archive_operation
  "\<lambda>(height, hash, at) c. fst (adopt_tip_seen c height hash at)" "\<lambda>_ _. True"
  by unfold_locales (auto simp: adopt_tip_seen_def Let_def archived_def block_key_def block_identity_def
      intro!: wf_db_update_blocks evidence_update_blocks; auto simp: wf_db_def wf_blocks_def archived_def)+

interpretation op_adopt_proof_class: archive_operation
  "\<lambda>(height, hash, class) c. fst (adopt_proof_class c height hash class)" "\<lambda>_ _. True"
  by unfold_locales (auto simp: adopt_proof_class_def Let_def archived_def block_key_def block_identity_def
      intro!: wf_db_update_blocks evidence_update_blocks; auto simp: wf_db_def wf_blocks_def archived_def)+

lemma wf_db_append_block:
  assumes "wf_db c" "b_id r = next_rowid (map b_id (blocks c))" "block_key r \<notin> block_key ` set (blocks c)"
    and "b_body_captured r \<longrightarrow> archived r"
  shows "wf_db (c\<lparr>blocks := blocks c @ [r]\<rparr>)"
proof -
  have sub: "block_sigs c \<subseteq> block_sig ` set (blocks c @ [r])" by auto
  have "wf_blocks (blocks c @ [r])"
    using assms next_rowid_not_in [of "map b_id (blocks c)"] by (auto simp: wf_db_def wf_blocks_def)
  then show ?thesis
    using assms(1) sub by (auto simp: wf_db_def simp del: set_append intro: wf_mono)
qed

lemma evidence_append_block: "evidence_le c (c\<lparr>blocks := blocks c @ [r]\<rparr>)"
  by (simp add: evidence_le_def)

interpretation op_insert_header_only_block: archive_operation
  "\<lambda>(b, now) c. committed c (insert_header_only_block c b now)" "\<lambda>_ _. True"
proof unfold_locales
  fix a :: "header_only_block \<times> string" and c assume wf: "wf_db c"
  obtain b now where a: "a = (b, now)" by (cases a)
  let ?bid = "next_rowid (map b_id (blocks c))"
  let ?c = "c\<lparr>blocks := blocks c @ [header_only_row ?bid b now]\<rparr>"
  have "wf_db (committed c (insert_header_only_block c b now))
      \<and> evidence_le c (committed c (insert_header_only_block c b now))"
  proof (cases "filter (\<lambda>r. b_height r = as_i64 (ho_height b)) (blocks c) = []")
    case True
    then have eq: "committed c (insert_header_only_block c b now) = append_status ?c ?bid Canonical now"
      by (simp add: insert_header_only_block_def Let_def)
    have "wf_db ?c"
      using wf True by (intro wf_db_append_block)
        (auto simp: header_only_row_def block_key_def filter_empty_conv)
    moreover have "has_block ?c ?bid" by (simp add: has_block_def header_only_row_def)
    ultimately show ?thesis
      unfolding eq using evidence_trans [OF evidence_append_block evidence_append_status]
      by (simp add: wf_db_append_status)
  next
    case False
    then have "committed c (insert_header_only_block c b now) = c"
      unfolding insert_header_only_block_def Let_def
      by (cases "ho_hash b \<in> set (map b_hash (filter (\<lambda>r. b_height r = as_i64 (ho_height b)) (blocks c)))") simp_all
    with wf show ?thesis by simp
  qed
  then show "wf_db ((\<lambda>(b, now) c. committed c (insert_header_only_block c b now)) a c)"
    "evidence_le c ((\<lambda>(b, now) c. committed c (insert_header_only_block c b now)) a c)"
    by (simp_all add: a)
qed

interpretation op_insert_raw_block: archive_operation
  "\<lambda>(bid, codec, raw_len, data, source, now) c. insert_raw_block c bid codec raw_len data source now"
  "\<lambda>(bid, rest) c. has_block c bid"
  by unfold_locales (auto simp: insert_raw_block_def wf_db_def wf_raws_def evidence_le_def insert_or_ignore_def
      fst_block_sigs has_block_def split: if_splits)

lemma distinct_upsert:
  "distinct (map key rows) \<Longrightarrow> (\<And>r. key r = k \<Longrightarrow> key (f r) = k) \<Longrightarrow> distinct (map key (update_where (\<lambda>r. key r = k) f rows))"
  by (subst map_update_where) auto

interpretation op_upsert_balance: archive_operation
  "\<lambda>(address, balance, n, at) c. upsert_address_balance_cache c address balance n at" "\<lambda>_ _. True"
  by unfold_locales (auto simp: upsert_address_balance_cache_def Let_def wf_db_def evidence_le_def map_update_where)

lemma distinct_insert_or_replace:
  "distinct (map key rows) \<Longrightarrow> distinct (map key (insert_or_replace key r rows))"
  by (auto simp: insert_or_replace_def distinct_map inj_on_def)

interpretation op_replace_state_slots: archive_operation
  "\<lambda>(segment, slots, height, now) c. replace_state_slots c segment slots height now" "\<lambda>_ _. True"
proof unfold_locales
  fix a :: "u64 \<times> state_slot list \<times> u64 \<times> string" and c assume wf: "wf_db c"
  obtain segment slots height now where a: "a = (segment, slots, height, now)" by (cases a)
  have "distinct (map f_slot_index (foldl (\<lambda>rows s. insert_or_replace f_slot_index (state_slot_row_of segment height now s) rows)
      rows slots))" if "distinct (map f_slot_index rows)" for rows
    using that by (induction slots arbitrary: rows) (auto intro: distinct_insert_or_replace)
  moreover have "distinct (map f_slot_index (filter (\<lambda>f. f_segment f \<noteq> as_i64 segment) (state_slots c)))"
    using wf by (auto simp: wf_db_def distinct_map_filter)
  ultimately show "wf_db ((\<lambda>(segment, slots, height, now) c. replace_state_slots c segment slots height now) a c)"
    using wf by (simp add: a replace_state_slots_def wf_db_def)
  show "evidence_le c ((\<lambda>(segment, slots, height, now) c. replace_state_slots c segment slots height now) a c)"
    by (simp add: a replace_state_slots_def evidence_le_def)
qed

text \<open>Updates of output rows that leave their identity alone.\<close>

definition output_identity where
  "output_identity out = (o_rowid out, o_tx_id out, o_idx out, o_page out, o_lane out, o_slot_index out,
     o_amount out, o_owner out, o_creation_id out)"

lemma wf_outputs_same_identity:
  assumes "wf_outputs tsigs outs" "map output_identity outs' = map output_identity outs"
  shows "wf_outputs tsigs outs'"
proof -
  have "map o_rowid outs' = map o_rowid outs" "map output_key outs' = map output_key outs"
    "map (\<lambda>out. (o_tx_id out, o_creation_id out \<noteq> None)) outs' = map (\<lambda>out. (o_tx_id out, o_creation_id out \<noteq> None)) outs"
    using arg_cong [OF assms(2), of "map (\<lambda>(r, t, i, p, l, s, a, w, k). r)"]
      arg_cong [OF assms(2), of "map (\<lambda>(r, t, i, p, l, s, a, w, k). (t, i))"]
      arg_cong [OF assms(2), of "map (\<lambda>(r, t, i, p, l, s, a, w, k). (t, k \<noteq> None))"]
    by (simp_all add: output_identity_def output_key_def [abs_def] o_def)
  then have keys: "map o_rowid outs' = map o_rowid outs" "map output_key outs' = map output_key outs"
    and sigs: "(\<lambda>out. (o_tx_id out, o_creation_id out \<noteq> None)) ` set outs'
      = (\<lambda>out. (o_tx_id out, o_creation_id out \<noteq> None)) ` set outs"
    by (simp_all only: set_map [symmetric])
  have "(\<lambda>out. (o_tx_id out, o_creation_id out \<noteq> None)) ` set outs \<subseteq> tsigs"
    using assms(1) by (auto simp: wf_outputs_def)
  then have "(\<lambda>out. (o_tx_id out, o_creation_id out \<noteq> None)) ` set outs' \<subseteq> tsigs"
    by (simp only: sigs)
  then show ?thesis
    using assms(1) by (auto simp: wf_outputs_def keys)
qed

lemma wf_db_same_outputs:
  "wf_db c \<Longrightarrow> map output_identity outs = map output_identity (outputs c) \<Longrightarrow> wf_db (c\<lparr>outputs := outs\<rparr>)"
  by (auto simp: wf_db_def intro: wf_outputs_same_identity)

lemma evidence_outputs: "evidence_le c (c\<lparr>outputs := outs\<rparr>)"
  by (simp add: evidence_le_def)

lemma foldl_update_identity:
  assumes "\<And>r. output_identity (f r) = output_identity r"
  shows "map output_identity (foldl (\<lambda>rows x. update_where (P x) f rows) rows xs) = map output_identity rows"
  using assms by (induction xs arbitrary: rows) (auto simp: map_update_where)

interpretation op_mark_spent_in_gap: archive_operation
  "\<lambda>(rowids, now) c. mark_spent_in_gap c rowids now" "\<lambda>_ _. True"
  by unfold_locales (auto simp: mark_spent_in_gap_def evidence_outputs foldl_update_identity output_identity_def
      intro!: wf_db_same_outputs)

interpretation op_unmark_live_outputs: archive_operation
  "\<lambda>(lo, hi, live) c. committed c (unmark_live_outputs c lo hi live)" "\<lambda>_ _. True"
  by unfold_locales (auto simp: unmark_live_outputs_def text_column_def evidence_outputs foldl_update_identity
      unmark_def output_identity_def Let_def intro!: wf_db_same_outputs)

interpretation op_clear_spent_in_gap: archive_operation
  "\<lambda>_ c. fst (clear_spent_in_gap_with_recorded_spend c)" "\<lambda>_ :: unit. \<lambda>_. True"
  by unfold_locales (auto simp: clear_spent_in_gap_with_recorded_spend_def Let_def evidence_outputs
      map_update_where unmark_def output_identity_def intro!: wf_db_same_outputs)

section \<open>Bodies\<close>

lemma wf_insert_page_hashes:
  assumes "tx_id \<in> fst ` tsigs"
  shows "wf_pages tsigs rows \<Longrightarrow> wf_pages tsigs (insert_page_hashes tx_id idx hs rows)"
proof (induction hs arbitrary: idx rows)
  case (Cons h hs)
  have "wf_pages tsigs (insert_or_ignore page_hash_key (body_page_row tx_id idx h) rows)"
    using Cons.prems assms by (auto simp: wf_pages_def insert_or_ignore_def body_page_row_def)
  then show ?case using Cons.IH by simp
qed simp

lemma wf_insert_inputs:
  assumes "tx_id \<in> fst ` tsigs"
  shows "wf_inputs tsigs rows \<Longrightarrow> wf_inputs tsigs (insert_inputs tx_id idx is rows)"
proof (induction "is" arbitrary: idx rows)
  case (Cons i "is")
  have "wf_inputs tsigs (insert_or_ignore input_key (body_input_row tx_id idx i) rows)"
    using Cons.prems assms by (auto simp: wf_inputs_def insert_or_ignore_def body_input_row_def)
  then show ?case using Cons.IH by simp
qed simp

lemma wf_outputs_append:
  assumes "wf_outputs tsigs rows" "o_rowid r = next_rowid (map o_rowid rows)" "output_key r \<notin> output_key ` set rows"
    and "(o_tx_id r, o_creation_id r \<noteq> None) \<in> tsigs"
  shows "wf_outputs tsigs (rows @ [r])"
  using assms next_rowid_not_in [of "map o_rowid rows"] by (auto simp: wf_outputs_def)

lemma wf_insert_outputs:
  "wf_outputs tsigs rows \<Longrightarrow> (tx_id, True) \<in> tsigs \<Longrightarrow> wf_outputs tsigs (insert_outputs tx_id idx outs rows)"
proof (induction outs arbitrary: idx rows)
  case (Cons out outs)
  let ?r = "body_output_row (next_rowid (map o_rowid rows)) tx_id idx out"
  have "wf_outputs tsigs (insert_or_ignore output_key ?r rows)"
    using Cons.prems by (auto simp: insert_or_ignore_def body_output_row_def intro!: wf_outputs_append)
  with Cons show ?case by simp
qed simp

lemma insert_or_ignore_has_key: "\<exists>x \<in> set (insert_or_ignore key r rows). key x = key r"
  by (auto simp: insert_or_ignore_def)

lemma wf_txs_insert:
  assumes "wf_txs sigs ts" "t_id r = next_rowid (map t_id ts)" "(t_block_id r, recorded r) \<in> sigs"
  shows "wf_txs sigs (insert_or_ignore (\<lambda>t. (t_block_id t, t_position t)) r ts)"
  using assms next_rowid_not_in [of "map t_id ts"]
  by (auto simp: wf_txs_def insert_or_ignore_def tx_key_def)

lemma insert_transaction_unfold:
  assumes "wf_txs (block_sigs c) (transactions c)" "wf_blocks (blocks c)" "archived_block c bid"
  obtains txs tx_id where
    "insert_transaction bid tx c = c\<lparr>transactions := txs,
       page_hashes := insert_page_hashes tx_id 0 (tx_page_hashes tx) (page_hashes c),
       inputs := insert_inputs tx_id 0 (tx_inputs tx) (inputs c),
       outputs := insert_outputs tx_id 0 (tx_outputs tx) (outputs c)\<rparr>"
    "wf_txs (block_sigs c) txs" "(tx_id, True) \<in> tx_sig ` set txs" "set (transactions c) \<subseteq> set txs"
    "\<exists>t \<in> set txs. t_id t = tx_id \<and> at_position bid (tx_position tx) t"
proof -
  let ?new = "body_tx_row (next_rowid (map t_id (transactions c))) bid tx"
  define txs where "txs = insert_or_ignore (\<lambda>t. (t_block_id t, t_position t)) ?new (transactions c)"
  have sig: "(bid, True) \<in> block_sigs c" using assms(3) by (simp add: archived_block_def)
  then have wf: "wf_txs (block_sigs c) txs"
    unfolding txs_def using assms(1) by (intro wf_txs_insert) (auto simp: body_tx_row_def recorded_def)
  obtain t where t: "t \<in> set txs" "at_position bid (tx_position tx) t"
    using insert_or_ignore_has_key [of "\<lambda>t. (t_block_id t, t_position t)" ?new "transactions c"]
    by (auto simp: txs_def at_position_def body_tx_row_def)
  have found: "find (at_position bid (tx_position tx)) txs = Some t"
    using wf t by (intro find_unique [where key = tx_key]) (auto simp: wf_txs_def at_position_def tx_key_def)
  have "recorded t"
  proof -
    have "(bid, recorded t) \<in> block_sigs c" using wf t by (auto simp: wf_txs_def at_position_def)
    with sig assms(2) show ?thesis by (auto simp: block_sig_def wf_blocks_def distinct_map inj_on_def)
  qed
  with t have "(t_id t, True) \<in> tx_sig ` set txs" by (force simp: tx_sig_def)
  moreover have "set (transactions c) \<subseteq> set txs" unfolding txs_def by (rule insert_or_ignore_keeps)
  ultimately show thesis
    using wf t found by (intro that) (auto simp: insert_transaction_def txs_def Let_def)
qed

interpretation op_insert_transaction: archive_operation
  "\<lambda>(bid, tx) c. insert_transaction bid tx c" "\<lambda>(bid, tx) c. archived_block c bid"
proof unfold_locales
  fix a :: "int \<times> transaction_info" and c
  assume wf: "wf_db c" and pre: "(\<lambda>(bid, tx) c. archived_block c bid) a c"
  obtain bid tx where a: "a = (bid, tx)" by (cases a)
  obtain txs tx_id where
    eq: "insert_transaction bid tx c = c\<lparr>transactions := txs,
       page_hashes := insert_page_hashes tx_id 0 (tx_page_hashes tx) (page_hashes c),
       inputs := insert_inputs tx_id 0 (tx_inputs tx) (inputs c),
       outputs := insert_outputs tx_id 0 (tx_outputs tx) (outputs c)\<rparr>"
    and wtx: "wf_txs (block_sigs c) txs" and sig: "(tx_id, True) \<in> tx_sig ` set txs"
    and sub: "set (transactions c) \<subseteq> set txs"
    by (rule insert_transaction_unfold [of c bid tx]) (use wf pre in \<open>auto simp: a wf_db_def\<close>)
  have sub': "tx_sigs c \<subseteq> tx_sig ` set txs" using sub by auto
  have id: "tx_id \<in> fst ` tx_sig ` set txs" using imageI [OF sig, of fst] by (simp only: fst_conv)
  have "wf_pages (tx_sig ` set txs) (insert_page_hashes tx_id 0 (tx_page_hashes tx) (page_hashes c))"
    "wf_inputs (tx_sig ` set txs) (insert_inputs tx_id 0 (tx_inputs tx) (inputs c))"
    "wf_outputs (tx_sig ` set txs) (insert_outputs tx_id 0 (tx_outputs tx) (outputs c))"
    "wf_receipts (tx_sig ` set txs) (receipts c)"
    using wf sub' id sig
    by (auto simp: wf_db_def intro!: wf_insert_page_hashes wf_insert_inputs wf_insert_outputs intro: wf_mono)
  then show "wf_db ((\<lambda>(bid, tx) c. insert_transaction bid tx c) a c)"
    using wf wtx by (simp add: a eq wf_db_def)
  show "evidence_le c ((\<lambda>(bid, tx) c. insert_transaction bid tx c) a c)"
    by (simp add: a eq evidence_le_def)
qed

lemma insert_transaction_blocks [simp]: "blocks (insert_transaction bid tx c) = blocks c"
  by (simp add: insert_transaction_def Let_def)

lemma insert_transaction_runs:
  "archived_block c bid \<Longrightarrow> op_insert_transaction.run_ok (map (Pair bid) txs) c"
proof (induction txs arbitrary: c)
  case (Cons tx txs)
  then have "archived_block (insert_transaction bid tx c) bid" by (simp add: archived_block_def)
  with Cons show ?case by (simp add: op_insert_transaction.run_ok.simps)
qed (simp add: op_insert_transaction.run_ok.simps)

interpretation op_insert_transactions: archive_operation
  "\<lambda>(bid, retained) c. insert_transactions c bid retained" "\<lambda>(bid, retained) c. archived_block c bid"
proof unfold_locales
  fix a :: "int \<times> retained_block_info" and c
  assume wf: "wf_db c" and pre: "(\<lambda>(bid, retained) c. archived_block c bid) a c"
  obtain bid retained where a: "a = (bid, retained)" by (cases a)
  define c1 where "c1 = c\<lparr>blocks := update_where (\<lambda>b. b_id b = bid) (body_columns retained) (blocks c)\<rparr>"
  have wf1: "wf_db c1"
    unfolding c1_def using wf
    by (intro wf_db_update_blocks) (auto simp: body_columns_def block_key_def archived_def wf_db_def wf_blocks_def)
  have ev1: "evidence_le c c1"
    unfolding c1_def by (intro evidence_update_blocks) (simp add: body_columns_def block_identity_def)
  have "block_sigs c1 = block_sigs c"
    unfolding c1_def by (simp add: image_update_where block_sig_def body_columns_def archived_def)
  then have run: "op_insert_transaction.run_ok (map (Pair bid) (rb_transactions retained)) c1"
    using pre by (intro insert_transaction_runs) (simp add: a archived_block_def)
  have eq: "insert_transactions c bid retained
      = foldl (\<lambda>c a. (\<lambda>(bid, tx) c. insert_transaction bid tx c) a c) c1 (map (Pair bid) (rb_transactions retained))"
    by (simp add: insert_transactions_def c1_def foldl_map)
  show "wf_db ((\<lambda>(bid, retained) c. insert_transactions c bid retained) a c)"
    using op_insert_transaction.run_keeps_wf [OF wf1 run] by (simp add: a eq)
  show "evidence_le c ((\<lambda>(bid, retained) c. insert_transactions c bid retained) a c)"
    using evidence_trans [OF ev1 op_insert_transaction.run_keeps_evidence [OF wf1 run]] by (simp add: a eq)
qed

section \<open>Blocks and gaps\<close>

definition no_header_only :: "db \<Rightarrow> block_header_info \<Rightarrow> bool" where
  "no_header_only c h = (\<forall>b \<in> set (blocks c). block_key b = (as_i64 (h_height h), h_hash h) \<longrightarrow> archived b)"

lemma find_append: "find P (xs @ ys) = (case find P xs of Some x \<Rightarrow> Some x | None \<Rightarrow> find P ys)"
  by (induction xs) auto

lemma insert_block_header_row_unfold:
  assumes "wf_blocks (blocks c)"
  obtains (old) b where "b \<in> set (blocks c)" "block_key b = (as_i64 (h_height h), h_hash h)"
      "insert_block_header_row c h captured source now = (append_status c (b_id b) Canonical now, b_id b)"
    | (new) bid where "bid = next_rowid (map b_id (blocks c))"
      "(as_i64 (h_height h), h_hash h) \<notin> block_key ` set (blocks c)"
      "insert_block_header_row c h captured source now
         = (append_status (c\<lparr>blocks := blocks c @ [header_row bid h captured source now]\<rparr>) bid Canonical now, bid)"
proof (cases "(as_i64 (h_height h), h_hash h) \<in> block_key ` set (blocks c)")
  case True
  then obtain b where b: "b \<in> set (blocks c)" "block_key b = (as_i64 (h_height h), h_hash h)" by auto
  have "find (\<lambda>b. b_height b = as_i64 (h_height h) \<and> b_hash b = h_hash h) (blocks c) = Some b"
    using assms b by (intro find_unique [where key = block_key]) (auto simp: wf_blocks_def block_key_def)
  with b True show thesis
    by (intro old [of b]) (auto simp: insert_block_header_row_def insert_or_ignore_def header_row_def block_key_def
        Let_def)
next
  case False
  then have "find (\<lambda>b. b_height b = as_i64 (h_height h) \<and> b_hash b = h_hash h) (blocks c) = None"
    by (auto simp: find_None_iff block_key_def image_iff)
  with False show thesis
    by (intro new) (auto simp: insert_block_header_row_def insert_or_ignore_def header_row_def block_key_def
        Let_def find_append)
qed

lemma insert_block_header_row_ok:
  assumes wf: "wf_db c" and src: "source \<noteq> Some HEADER_ONLY_SOURCE" and nh: "no_header_only c h"
    and r_def: "r = insert_block_header_row c h captured source now"
  shows "wf_db (fst r)" "evidence_le c (fst r)" "archived_block (fst r) (snd r)"
proof -
  have wb: "wf_blocks (blocks c)" using wf by (simp add: wf_db_def)
  have "wf_db (fst r) \<and> evidence_le c (fst r) \<and> archived_block (fst r) (snd r)"
  proof (rule insert_block_header_row_unfold [OF wb, of h captured source now])
    fix b assume b: "b \<in> set (blocks c)" "block_key b = (as_i64 (h_height h), h_hash h)"
      "insert_block_header_row c h captured source now = (append_status c (b_id b) Canonical now, b_id b)"
    then have "archived b" using nh by (auto simp: no_header_only_def)
    with b show ?thesis
      using wf by (auto simp: r_def has_block_def wf_db_append_status evidence_append_status archived_block_def
          block_sig_def intro!: image_eqI [of _ _ b])
  next
    fix bid
    let ?c = "c\<lparr>blocks := blocks c @ [header_row bid h captured source now]\<rparr>"
    assume n: "bid = next_rowid (map b_id (blocks c))" "(as_i64 (h_height h), h_hash h) \<notin> block_key ` set (blocks c)"
      "insert_block_header_row c h captured source now = (append_status ?c bid Canonical now, bid)"
    have "wf_db ?c"
      using wf n(1,2) src by (intro wf_db_append_block) (auto simp: header_row_def block_key_def archived_def)
    moreover have "has_block ?c bid" "archived_block (append_status ?c bid Canonical now) bid"
      using src by (auto simp: has_block_def header_row_def archived_block_def block_sig_def archived_def)
    ultimately show ?thesis
      using evidence_trans [OF evidence_append_block evidence_append_status]
      by (simp add: r_def n(3) wf_db_append_status)
  qed
  then show "wf_db (fst r)" "evidence_le c (fst r)" "archived_block (fst r) (snd r)" by auto
qed

interpretation op_record_gap_block: archive_operation
  "\<lambda>(details, note, now) c. record_gap_block c details note now"
  "\<lambda>(details, note, now) c. no_header_only c (d_header details)"
proof unfold_locales
  fix a :: "block_details_info \<times> string \<times> string" and c
  assume wf: "wf_db c" and pre: "(\<lambda>(details, note, now) c. no_header_only c (d_header details)) a c"
  obtain details msg now where a: "a = (details, msg, now)" by (cases a)
  let ?h = "d_header details"
  have nh: "no_header_only c ?h" using pre by (simp add: a)
  note row = insert_block_header_row_ok [OF wf _ nh refl, of None False now, simplified]
  note gap = op_record_gap.keeps_wf [of _ "(h_height ?h, Some (h_hash ?h), now, msg)", simplified]
    op_record_gap.keeps_evidence [of _ "(h_height ?h, Some (h_hash ?h), now, msg)", simplified]
  show "wf_db ((\<lambda>(details, note, now) c. record_gap_block c details note now) a c)"
    using wf row gap by (simp add: a record_gap_block_def Let_def)
  show "evidence_le c ((\<lambda>(details, note, now) c. record_gap_block c details note now) a c)"
    using wf row gap by (auto simp: a record_gap_block_def Let_def intro: evidence_trans)
qed

lemma uncaptured_archived:
  "uncaptured_block_id c height hash = Some bid \<Longrightarrow> archived_block c bid"
  by (auto simp: uncaptured_block_id_def find_Some_iff archived_block_def block_sig_def
      intro!: image_eqI [OF _ nth_mem])

lemma insert_transactions_sigs [simp]: "block_sigs (insert_transactions c bid retained) = block_sigs c"
proof -
  have "blocks (foldl (\<lambda>c tx. insert_transaction bid tx c) c txs) = blocks c" for txs c
    by (induction txs arbitrary: c) auto
  then have "blocks (insert_transactions c bid retained)
      = update_where (\<lambda>b. b_id b = bid) (body_columns retained) (blocks c)"
    by (simp add: insert_transactions_def)
  then show ?thesis by (simp add: image_update_where block_sig_def body_columns_def archived_def)
qed

interpretation op_store_block: archive_operation
  "\<lambda>(details, src, now) c. stored c (store_block c details src now)"
  "\<lambda>(details, src, now) c. no_header_only c (d_header details) \<and> src \<noteq> HEADER_ONLY_SOURCE"
proof unfold_locales
  fix a :: "block_details_info \<times> string \<times> string" and c
  assume wf: "wf_db c"
    and pre: "(\<lambda>(details, src, now) c. no_header_only c (d_header details) \<and> src \<noteq> HEADER_ONLY_SOURCE) a c"
  obtain details src now where a: "a = (details, src, now)" by (cases a)
  let ?h = "d_header details"
  have nh: "no_header_only c ?h" and src: "src \<noteq> HEADER_ONLY_SOURCE" using pre by (simp_all add: a)
  note txs = op_insert_transactions.keeps_wf [of _ "(bid, retained)" for bid retained, simplified]
    op_insert_transactions.keeps_evidence [of _ "(bid, retained)" for bid retained, simplified]
  note rec = op_mark_body_recovered.keeps_wf [of _ "(bid, src)" for bid, simplified]
    op_mark_body_recovered.keeps_evidence [of _ "(bid, src)" for bid, simplified]
  note gap = op_resolve_gap.keeps_wf [of _ "(h_height ?h, now, m)" for m, simplified]
    op_resolve_gap.keeps_evidence [of _ "(h_height ?h, now, m)" for m, simplified]
  note row = insert_block_header_row_ok [OF wf _ nh refl, of "Some src" True now]
  have "wf_db (stored c (store_block c details src now)) \<and> evidence_le c (stored c (store_block c details src now))"
  proof (cases "d_retained details")
    case None
    then show ?thesis using wf by (simp add: store_block_def Let_def)
  next
    case (Some retained)
    show ?thesis
    proof (cases "known_canonical c ?h")
      case True
      show ?thesis
      proof (cases "uncaptured_block_id c (h_height ?h) (h_hash ?h)")
        case None
        with Some True wf show ?thesis by (simp add: store_block_def Let_def)
      next
        case (Some bid)
        have ab: "archived_block c bid" by (rule uncaptured_archived [OF Some])
        let ?c1 = "insert_transactions c bid retained"
        have ab1: "archived_block ?c1 bid" using ab by (simp add: archived_block_def)
        have w1: "wf_db ?c1" "evidence_le c ?c1" using wf ab txs by auto
        have w2: "wf_db (mark_body_recovered ?c1 bid src)" "evidence_le ?c1 (mark_body_recovered ?c1 bid src)"
          using w1 ab1 src rec by auto
        show ?thesis
          using \<open>d_retained details = _\<close> True Some w1 w2 gap
          by (auto simp: store_block_def Let_def intro: evidence_trans)
      qed
    next
      case False
      obtain c1 bid where r: "insert_block_header_row c ?h True (Some src) now = (c1, bid)" by fastforce
      have "wf_db c1" "evidence_le c c1" "archived_block c1 bid"
        using row src by (simp_all add: r)
      then show ?thesis
        using Some False r txs by (auto simp: store_block_def Let_def intro: evidence_trans)
    qed
  qed
  then show "wf_db ((\<lambda>(details, src, now) c. stored c (store_block c details src now)) a c)"
    "evidence_le c ((\<lambda>(details, src, now) c. stored c (store_block c details src now)) a c)"
    by (simp_all add: a)
qed

section \<open>Contract flags and pruning\<close>

lemma wf_db_update_flags:
  assumes "wf_db c" "map tx_key txs = map tx_key (transactions c)" "map tx_sig txs = map tx_sig (transactions c)"
  shows "wf_db (c\<lparr>transactions := txs\<rparr>)"
proof -
  have ids: "map t_id txs = map t_id (transactions c)"
    using arg_cong [OF assms(3), of "map fst"] by (simp add: tx_sig_def o_def)
  have sigs: "tx_sig ` set txs = tx_sigs c" using assms(3) by (metis set_map)
  have "map (\<lambda>t. (t_block_id t, recorded t)) txs = map (\<lambda>t. (t_block_id t, recorded t)) (transactions c)"
    using arg_cong [OF assms(2), of "map fst"] arg_cong [OF assms(3), of "map snd"]
    by (auto simp: tx_sig_def tx_key_def o_def list_eq_iff_nth_eq)
  then have "(\<lambda>t. (t_block_id t, recorded t)) ` set txs = (\<lambda>t. (t_block_id t, recorded t)) ` set (transactions c)"
    by (metis set_map)
  then have "wf_txs (block_sigs c) txs"
    using assms(1) ids assms(2) unfolding wf_db_def wf_txs_def by (auto simp: image_subset_iff [symmetric])
  then show ?thesis using assms(1) by (simp add: wf_db_def sigs)
qed

lemma set_flags_identity:
  "map tx_key (foldl (\<lambda>txs pf. set_flag bid pf txs) txs flags) = map tx_key txs
   \<and> map tx_sig (foldl (\<lambda>txs pf. set_flag bid pf txs) txs flags) = map tx_sig txs"
  by (induction flags arbitrary: txs) (auto simp: set_flag_def map_update_where tx_key_def tx_sig_def recorded_def)

interpretation op_set_contract_flags: archive_operation
  "\<lambda>(height, hash, flags) c. set_contract_flags c height hash flags" "\<lambda>_ _. True"
proof unfold_locales
  fix a :: "u64 \<times> string \<times> (u32 \<times> u8) list" and c assume wf: "wf_db c"
  obtain height hash flags where a: "a = (height, hash, flags)" by (cases a)
  have "wf_db (set_contract_flags c height hash flags) \<and> evidence_le c (set_contract_flags c height hash flags)"
  proof (cases "block_id_of c height hash")
    case None
    then show ?thesis using wf by (simp add: set_contract_flags_def)
  next
    case (Some bid)
    define txs where "txs = foldl (\<lambda>txs pf. set_flag bid pf txs)
      (update_where (\<lambda>t. t_block_id t = bid \<and> t_contract_flags t \<noteq> 0) (\<lambda>t. t\<lparr>t_contract_flags := 0\<rparr>) (transactions c)) flags"
    define c1 where "c1 = c\<lparr>transactions := txs\<rparr>"
    have "map tx_key txs = map tx_key (transactions c) \<and> map tx_sig txs = map tx_sig (transactions c)"
      unfolding txs_def using set_flags_identity [of bid _ flags]
      by (simp add: map_update_where tx_key_def tx_sig_def recorded_def)
    then have w1: "wf_db c1" unfolding c1_def using wf by (auto intro: wf_db_update_flags)
    have eq: "set_contract_flags c height hash flags
        = c1\<lparr>blocks := update_where (\<lambda>b. b_id b = bid) (\<lambda>b. b\<lparr>b_contracts_scanned := True\<rparr>) (blocks c1)\<rparr>"
      by (simp add: set_contract_flags_def Some Let_def txs_def c1_def)
    have "wf_db (set_contract_flags c height hash flags)"
      unfolding eq using w1
      by (intro wf_db_update_blocks) (auto simp: archived_def block_key_def wf_db_def wf_blocks_def)
    moreover have "evidence_le c1 (set_contract_flags c height hash flags)"
      unfolding eq by (intro evidence_update_blocks) (simp add: block_identity_def)
    moreover have "evidence_le c c1" by (simp add: c1_def evidence_le_def)
    ultimately show ?thesis by (auto intro: evidence_trans)
  qed
  then show "wf_db ((\<lambda>(height, hash, flags) c. set_contract_flags c height hash flags) a c)"
    "evidence_le c ((\<lambda>(height, hash, flags) c. set_contract_flags c height hash flags) a c)"
    by (simp_all add: a)
qed

lemma block_sig_unique:
  assumes "wf_blocks bs" "(i, x) \<in> block_sig ` set bs" "(i, y) \<in> block_sig ` set bs"
  shows "x = y"
proof -
  obtain b b' where b: "b \<in> set bs" "b' \<in> set bs" "b_id b = i" "b_id b' = i" "archived b = x" "archived b' = y"
    using assms(2,3) by (auto simp: block_sig_def)
  have "inj_on b_id (set bs)" using assms(1) by (simp add: wf_blocks_def distinct_map)
  then have "b = b'" using b by (auto dest: inj_onD)
  with b show ?thesis by simp
qed

lemma block_of_tx_archived:
  assumes "wf_db c" "t \<in> set (transactions c)" "archived_block c (t_block_id t)"
  shows "recorded t"
proof -
  have "(t_block_id t, recorded t) \<in> block_sigs c" using assms(1,2) by (simp add: wf_db_def wf_txs_def)
  then have "recorded t = True"
    using assms block_sig_unique [of "blocks c" "t_block_id t" "recorded t" True]
    by (simp add: archived_block_def wf_db_def)
  then show ?thesis by simp
qed

interpretation op_prune_block: archive_operation "\<lambda>bid c. prune_block c bid" "\<lambda>bid c. archived_block c bid"
proof unfold_locales
  fix bid c assume wf: "wf_db c" and pre: "archived_block c bid"
  let ?txs = "filter (\<lambda>t. t_block_id t \<noteq> bid) (transactions c)"
  have survive: "sg \<in> tx_sig ` set ?txs"
    if "sg \<in> tx_sigs c" "\<not> (\<exists>t \<in> set (transactions c). t_id t = fst sg \<and> t_block_id t = bid)" for sg
    using that by (auto simp: tx_sig_def)
  have survive1: "x \<in> fst ` tx_sig ` set ?txs"
    if "x \<in> fst ` tx_sigs c" "\<not> (\<exists>t \<in> set (transactions c). t_id t = x \<and> t_block_id t = bid)" for x
    using that by (auto simp: tx_sig_def image_image)
  have kept: "(r_tx_id r, False) \<in> tx_sig ` set ?txs" if "r \<in> set (receipts c)" for r
  proof -
    have r: "(r_tx_id r, False) \<in> tx_sigs c" using wf that by (auto simp: wf_db_def wf_receipts_def)
    have "\<not> (\<exists>t \<in> set (transactions c). t_id t = r_tx_id r \<and> t_block_id t = bid)"
    proof
      assume "\<exists>t \<in> set (transactions c). t_id t = r_tx_id r \<and> t_block_id t = bid"
      then obtain t where t: "t \<in> set (transactions c)" "t_id t = r_tx_id r" "t_block_id t = bid" by auto
      have "recorded t" using block_of_tx_archived [OF wf t(1)] pre t(3) by simp
      with r t wf show False
        by (auto simp: tx_sig_def wf_db_def wf_txs_def distinct_map inj_on_def)
    qed
    with survive [OF r] show ?thesis by simp
  qed
  have sigs: "block_sig ` set (update_where (\<lambda>b. b_id b = bid) (\<lambda>b. b\<lparr>b_body_captured := False\<rparr>) (blocks c))
      = block_sigs c"
    by (intro image_update_where) (simp add: block_sig_def archived_def)
  have "wf_blocks (update_where (\<lambda>b. b_id b = bid) (\<lambda>b. b\<lparr>b_body_captured := False\<rparr>) (blocks c))"
    using wf by (intro wf_blocks_update) (auto simp: wf_db_def block_key_def)
  then show "wf_db (prune_block c bid)"
    using wf survive survive1 kept
    by (auto simp: wf_db_def prune_block_def Let_def sigs wf_txs_def wf_pages_def wf_inputs_def wf_outputs_def
        wf_raws_def wf_receipts_def distinct_map_filter)
  show "evidence_le c (prune_block c bid)"
    by (simp add: prune_block_def Let_def evidence_le_def map_update_where block_identity_def)
qed

interpretation op_prune: archive_operation "\<lambda>cutoff c. fst (prune_older_than c cutoff)" "\<lambda>_ _. True"
proof unfold_locales
  fix cutoff c assume wf: "wf_db c"
  have sigs: "block_sigs (prune_block c bid) = block_sigs c" for c bid
    by (simp add: prune_block_def Let_def image_update_where block_sig_def archived_def)
  have run: "op_prune_block.run_ok bids c" if "\<forall>bid \<in> set bids. archived_block c bid" for bids c
    using that
  proof (induction bids arbitrary: c)
    case (Cons bid bids)
    then have "\<forall>bid' \<in> set bids. archived_block (prune_block c bid) bid'" by (simp add: archived_block_def sigs)
    with Cons show ?case by (simp add: op_prune_block.run_ok.simps)
  qed (simp add: op_prune_block.run_ok.simps)
  have "op_prune_block.run_ok (prunable c cutoff) c"
    by (intro run) (auto simp: prunable_def archived_block_def block_sig_def)
  from op_prune_block.run_keeps_wf [OF wf this] op_prune_block.run_keeps_evidence [OF wf this]
  show "wf_db (fst (prune_older_than c cutoff))" "evidence_le c (fst (prune_older_than c cutoff))"
    by (simp_all add: prune_older_than_def)
qed

section \<open>Receipt transactions\<close>

lemma insert_unique_Inr:
  "insert_unique key r rows = Inr rows' \<longleftrightarrow> key r \<notin> key ` set rows \<and> rows' = rows @ [r]"
  by (auto simp: insert_unique_def)

lemma insert_all_unique_Inr:
  "insert_all_unique key rs rows = Inr rows' \<Longrightarrow>
     rows' = rows @ rs \<and> (distinct (map key rows) \<longrightarrow> distinct (map key rows'))"
proof (induction rs arbitrary: rows)
  case (Cons r rs)
  then have "insert_all_unique key rs (rows @ [r]) = Inr rows'" "key r \<notin> key ` set rows"
    by (auto simp: and_then_Inr_iff insert_unique_Inr)
  note d = Cons.IH [OF this(1)] this(2)
  show ?case
  proof (intro conjI impI)
    show "rows' = rows @ r # rs" using d by simp
    assume "distinct (map key rows)"
    then have "distinct (map key (rows @ [r]))" using d(2) by simp
    with d(1) show "distinct (map key rows')" by blast
  qed
qed simp

lemma insert_receipt_outputs_wf:
  "insert_receipt_outputs tx_id idx outs rows = Inr rows' \<Longrightarrow> wf_outputs tsigs rows
    \<Longrightarrow> (tx_id, False) \<in> tsigs \<Longrightarrow> wf_outputs tsigs rows' \<and> prefix rows rows'"
proof (induction outs arbitrary: idx rows)
  case (Cons out outs)
  let ?r = "receipt_output_row (next_rowid (map o_rowid rows)) tx_id idx out"
  have r: "output_key ?r \<notin> output_key ` set rows" "insert_receipt_outputs tx_id (idx + 1) outs (rows @ [?r]) = Inr rows'"
    using Cons.prems(1) by (auto simp: and_then_Inr_iff insert_unique_Inr)
  have "wf_outputs tsigs (rows @ [?r])"
    using Cons.prems(2,3) r(1) by (intro wf_outputs_append) (auto simp: receipt_output_row_def)
  from Cons.IH [OF r(2) this Cons.prems(3)] show ?case by (auto simp: prefix_def)
qed simp

lemma store_receipt_rows_Inr:
  assumes "store_receipt_rows c bid tx now = Inr c'"
  obtains tx_id phs ins outs rcs where
    "tx_id = next_rowid (map t_id (transactions c))"
    "tx_key (receipt_tx_row tx_id bid tx) \<notin> tx_key ` set (transactions c)"
    "insert_all_unique page_hash_key (receipt_page_rows tx_id (rt_page_hashes tx)) (page_hashes c) = Inr phs"
    "insert_all_unique input_key (receipt_input_rows tx_id (rt_inputs tx)) (inputs c) = Inr ins"
    "insert_receipt_outputs tx_id 0 (rt_outputs tx) (outputs c) = Inr outs"
    "tx_id \<notin> r_tx_id ` set (receipts c)"
    "rcs = receipts c @ [\<lparr>r_tx_id = tx_id, r_receipt_hex = rt_receipt_hex tx, r_imported_at = now\<rparr>]"
    "c' = c\<lparr>transactions := transactions c @ [receipt_tx_row tx_id bid tx], page_hashes := phs, inputs := ins,
            outputs := outs, receipts := rcs,
            blocks := update_where (\<lambda>b. b_id b = bid) (\<lambda>b. b\<lparr>b_tx_count_total := Some (uint (rt_tx_count tx))\<rparr>) (blocks c)\<rparr>"
  using assms by (auto simp: store_receipt_rows_def Let_def and_then_Inr_iff insert_unique_Inr tx_key_def [abs_def])

lemma store_receipt_rows_ok:
  assumes wf: "wf_db c" and hdr: "(bid, False) \<in> block_sigs c"
    and ok: "store_receipt_rows c bid tx now = Inr c'"
  shows "wf_db c' \<and> evidence_le c c'"
proof (rule store_receipt_rows_Inr [OF ok])
  fix tx_id phs ins outs rcs
  let ?row = "receipt_tx_row tx_id bid tx"
  let ?txs = "transactions c @ [?row]"
  let ?bs = "update_where (\<lambda>b. b_id b = bid) (\<lambda>b. b\<lparr>b_tx_count_total := Some (uint (rt_tx_count tx))\<rparr>) (blocks c)"
  assume r: "tx_id = next_rowid (map t_id (transactions c))"
    "tx_key ?row \<notin> tx_key ` set (transactions c)"
    "insert_all_unique page_hash_key (receipt_page_rows tx_id (rt_page_hashes tx)) (page_hashes c) = Inr phs"
    "insert_all_unique input_key (receipt_input_rows tx_id (rt_inputs tx)) (inputs c) = Inr ins"
    "insert_receipt_outputs tx_id 0 (rt_outputs tx) (outputs c) = Inr outs"
    "tx_id \<notin> r_tx_id ` set (receipts c)"
    "rcs = receipts c @ [\<lparr>r_tx_id = tx_id, r_receipt_hex = rt_receipt_hex tx, r_imported_at = now\<rparr>]"
    "c' = c\<lparr>transactions := ?txs, page_hashes := phs, inputs := ins, outputs := outs, receipts := rcs, blocks := ?bs\<rparr>"
  have new: "(tx_id, False) \<in> tx_sig ` set ?txs"
    by (auto simp: tx_sig_def receipt_tx_row_def recorded_def)
  have id: "tx_id \<in> fst ` tx_sig ` set ?txs" using imageI [OF new, of fst] by (simp only: fst_conv)
  have sub: "tx_sigs c \<subseteq> tx_sig ` set ?txs" by auto
  have sigs: "block_sig ` set ?bs = block_sigs c"
    by (intro image_update_where) (simp add: block_sig_def archived_def)
  have "wf_blocks ?bs"
    using wf by (intro wf_blocks_update) (auto simp: wf_db_def wf_blocks_def block_key_def archived_def)
  moreover have "wf_txs (block_sigs c) ?txs"
    using wf r(1,2) hdr next_rowid_not_in [of "map t_id (transactions c)"]
    by (auto simp: wf_db_def wf_txs_def receipt_tx_row_def recorded_def)
  moreover have "wf_pages (tx_sig ` set ?txs) phs"
  proof -
    have phs: "phs = page_hashes c @ receipt_page_rows tx_id (rt_page_hashes tx)" "distinct (map page_hash_key phs)"
      using insert_all_unique_Inr [OF r(3)] wf by (auto simp only: wf_db_def wf_pages_def)
    moreover have "\<forall>p \<in> set (page_hashes c). p_tx_id p \<in> fst ` tx_sig ` set ?txs"
      using wf wf_pages_mono [OF _ sub] by (auto simp only: wf_db_def wf_pages_def)
    moreover have "\<forall>p \<in> set (receipt_page_rows tx_id (rt_page_hashes tx)). p_tx_id p = tx_id"
      by (auto simp: receipt_page_rows_def)
    ultimately show ?thesis using id unfolding wf_pages_def by (metis Un_iff set_append)
  qed
  moreover have "wf_inputs (tx_sig ` set ?txs) ins"
  proof -
    have ins: "ins = inputs c @ receipt_input_rows tx_id (rt_inputs tx)" "distinct (map input_key ins)"
      using insert_all_unique_Inr [OF r(4)] wf by (auto simp only: wf_db_def wf_inputs_def)
    moreover have "\<forall>i \<in> set (inputs c). i_tx_id i \<in> fst ` tx_sig ` set ?txs"
      using wf wf_inputs_mono [OF _ sub] by (auto simp only: wf_db_def wf_inputs_def)
    moreover have "\<forall>i \<in> set (receipt_input_rows tx_id (rt_inputs tx)). i_tx_id i = tx_id"
      by (auto simp: receipt_input_rows_def)
    ultimately show ?thesis using id unfolding wf_inputs_def by (metis Un_iff set_append)
  qed
  moreover have "wf_outputs (tx_sig ` set ?txs) outs"
    using wf insert_receipt_outputs_wf [OF r(5) _ new] wf_outputs_mono [OF _ sub] by (simp add: wf_db_def)
  moreover have "wf_receipts (tx_sig ` set ?txs) rcs"
    using wf r(6,7) new wf_receipts_mono [OF _ sub] by (auto simp: wf_db_def wf_receipts_def)
  ultimately have "wf_db c'" using wf unfolding r(8) wf_db_def by (simp add: sigs)
  moreover have "evidence_le c c'"
    unfolding r(8) r(7) by (simp add: evidence_le_def map_update_where block_identity_def)
  ultimately show ?thesis ..
qed

lemma is_header_only_sig:
  "is_header_only c bid = Inr x \<Longrightarrow> (bid, \<not> x) \<in> block_sigs c"
  by (auto simp: is_header_only_def block_with_id_def block_sig_def archived_def find_Some_iff split: option.splits
      intro!: image_eqI [OF _ nth_mem])

lemma insert_receipt_transaction_Inr:
  "insert_receipt_transaction c bid tx now = Inr (c', fresh) \<Longrightarrow>
     (bid, False) \<in> block_sigs c \<and> (if fresh then store_receipt_rows c bid tx now = Inr c' else c' = c)"
  by (auto simp: insert_receipt_transaction_def and_then_Inr_iff dest!: is_header_only_sig
      split: if_splits option.splits)

interpretation op_insert_receipt_transaction: archive_operation
  "\<lambda>(bid, tx, now) c. committed c (insert_receipt_transaction c bid tx now)" "\<lambda>_ _. True"
proof unfold_locales
  fix a :: "int \<times> receipt_transaction \<times> string" and c assume wf: "wf_db c"
  obtain bid tx now where a: "a = (bid, tx, now)" by (cases a)
  have "wf_db (committed c (insert_receipt_transaction c bid tx now))
      \<and> evidence_le c (committed c (insert_receipt_transaction c bid tx now))"
  proof (cases "insert_receipt_transaction c bid tx now")
    case (Inr r)
    obtain c' fresh where r: "r = (c', fresh)" by (cases r)
    note d = insert_receipt_transaction_Inr [OF Inr [unfolded r]]
    show ?thesis
    proof (cases fresh)
      case True
      with d have "(bid, False) \<in> block_sigs c" "store_receipt_rows c bid tx now = Inr c'" by simp_all
      from store_receipt_rows_ok [OF wf this] show ?thesis by (simp add: Inr r)
    next
      case False
      with d wf show ?thesis by (simp add: Inr r)
    qed
  qed (simp add: wf)
  then show "wf_db ((\<lambda>(bid, tx, now) c. committed c (insert_receipt_transaction c bid tx now)) a c)"
    "evidence_le c ((\<lambda>(bid, tx, now) c. committed c (insert_receipt_transaction c bid tx now)) a c)"
    by (simp_all add: a)
qed

end
