(* ===== verification/Decode.thy ===== *)
theory Decode
  imports Db_Records
begin

text \<open>
  The block decoder of \<^verbatim>\<open>permanode/src/decode.rs\<close> and the raw block archive of
  \<^verbatim>\<open>permanode/src/raw.rs\<close>. The node's own crates, the hex encoding and zlib are not part of the
  repository: their functions are the fields of \<open>chain_lib\<close>, an argument of every definition
  here, and their records hold the fields the code reads.
\<close>

type_synonym u16 = "16 word"

section \<open>What the node's crates provide\<close>

record coin_input =
  ci_slot_index :: u32
  ci_amount :: u64
  ci_creation_id :: u64

record coin_output =
  co_slot_index :: u32
  co_amount :: u64
  co_owner :: bytes

record page =
  pg_txid :: bytes
  pg_epoch_anchor :: bytes
  pg_validity_bitmap :: u32
  pg_live_inputs :: "(u8 \<times> coin_input) list"
  pg_live_outputs :: "(u8 \<times> coin_output) list"

record chain_header =
  ch_height :: u64
  ch_alloc_counter :: u64
  ch_tx_root :: bytes
  ch_rest :: bytes

record chain_block =
  bk_header :: chain_header
  bk_transactions :: "page list"

record spend_group =
  gr_start_page :: u16
  gr_page_count :: u16
  gr_logical_txid :: bytes
  gr_live_inputs :: u16
  gr_live_outputs :: u16
  gr_fee :: u64
  gr_epoch_anchor :: bytes
  gr_input_owner :: bytes
  gr_input_sum :: u128
  gr_output_sum :: u128

datatype block_proof_class = B25 | B255

record page_stream =
  ps_has_development_payout :: bool
  ps_page_count :: u16
  ps_live_inputs :: u16
  ps_live_outputs :: u16
  ps_groups :: "spend_group list"
  ps_proof_class :: block_proof_class

record chain_lib =
  block_from_bytes :: "bytes \<Rightarrow> chain_block result"
  block_to_bytes :: "chain_block \<Rightarrow> bytes"
  block_id :: "chain_header \<Rightarrow> bytes"
  compute_tx_root :: "page list \<Rightarrow> bytes result"
  validate_page_stream :: "page list \<Rightarrow> page_stream result"
  compute_logical_txids :: "page list \<Rightarrow> bytes list result"
  user_body_start :: "page_stream \<Rightarrow> nat \<Rightarrow> nat"
  user_logical_index :: "page_stream \<Rightarrow> nat \<Rightarrow> nat"
  coinbase_creation_id :: "u64 \<Rightarrow> u64"
  chain_v2_active :: "u64 \<Rightarrow> bool"
  to_bech32 :: "bytes \<Rightarrow> string"
  hex_encode :: "bytes \<Rightarrow> string"
  max_block_bytes :: nat
  contract_bit :: u32
  terminal_bit :: u32
  zlib_compress :: "bytes \<Rightarrow> bytes result"
  zlib_decompress :: "bytes \<Rightarrow> bytes result"

section \<open>Binding bytes to a block on record\<close>

definition decode_bound_block :: "chain_lib \<Rightarrow> bytes \<Rightarrow> u64 \<Rightarrow> string \<Rightarrow> chain_block result" where
  "decode_bound_block lib bytes expected_height expected_hash =
     and_then (block_from_bytes lib bytes) (\<lambda>block.
       if ch_height (bk_header block) \<noteq> expected_height then bail ''height mismatch''
       else if hex_encode lib (block_id lib (bk_header block)) \<noteq> expected_hash then bail ''body hash''
       else and_then
         (if bk_transactions block = [] then Inr ()
          else and_then (compute_tx_root lib (bk_transactions block)) (\<lambda>root.
                 if root \<noteq> ch_tx_root (bk_header block) then bail ''tx_root'' else Inr ()))
         (\<lambda>_. if block_to_bytes lib block \<noteq> bytes then bail ''not the canonical encoding'' else Inr block))"

section \<open>Decoding a retained block\<close>

fun number_outputs :: "chain_lib \<Rightarrow> nat \<Rightarrow> (u8 \<times> coin_output) list \<Rightarrow> u64 \<Rightarrow> output_info list \<times> u64" where
  "number_outputs lib page_index [] cursor = ([], cursor)"
| "number_outputs lib page_index ((lane, out) # outs) cursor =
     (let cursor = cursor + 1;
          (rest, end_cursor) = number_outputs lib page_index outs cursor
      in (\<lparr>out_page = of_nat page_index, out_lane = ucast lane, out_slot_index = ucast (co_slot_index out),
           out_amount = co_amount out, out_owner = to_bech32 lib (co_owner out), out_creation_id = cursor\<rparr> # rest,
          end_cursor))"

definition coinbase_outputs :: "chain_lib \<Rightarrow> u64 \<Rightarrow> (u8 \<times> coin_output) list \<Rightarrow> output_info list" where
  "coinbase_outputs lib height outs =
     map (\<lambda>(lane, out). \<lparr>out_page = 0, out_lane = ucast lane, out_slot_index = ucast (co_slot_index out),
        out_amount = co_amount out, out_owner = to_bech32 lib (co_owner out),
        out_creation_id = coinbase_creation_id lib height\<rparr>) outs"

definition page_inputs :: "nat \<Rightarrow> page \<Rightarrow> input_info list" where
  "page_inputs page_index pg =
     map (\<lambda>(lane, i). \<lparr>in_page = of_nat page_index, in_lane = ucast lane, in_slot_index = ucast (ci_slot_index i),
        in_amount = ci_amount i, in_creation_id = ci_creation_id i\<rparr>) (pg_live_inputs pg)"

fun decode_pages :: "chain_lib \<Rightarrow> nat \<Rightarrow> page list \<Rightarrow> u64 \<Rightarrow> string list \<times> input_info list \<times> output_info list \<times> u64" where
  "decode_pages lib page_index [] cursor = ([], [], [], cursor)"
| "decode_pages lib page_index (pg # pgs) cursor =
     (let (outs, cursor) = number_outputs lib page_index (pg_live_outputs pg) cursor;
          (hashes, inputs, outputs, end_cursor) = decode_pages lib (Suc page_index) pgs cursor
      in (hex_encode lib (pg_txid pg) # hashes, page_inputs page_index pg @ inputs, outs @ outputs, end_cursor))"

text \<open>\<open>transactions.get(start..end)\<close>\<close>

definition slice :: "nat \<Rightarrow> nat \<Rightarrow> 'a list \<Rightarrow> 'a list option" where
  "slice start stop xs = (if start \<le> stop \<and> stop \<le> length xs then Some (take (stop - start) (drop start xs)) else None)"

definition require :: "string \<Rightarrow> 'a option \<Rightarrow> 'a result" where
  "require msg x = (case x of None \<Rightarrow> bail msg | Some v \<Rightarrow> Inr v)"

definition nth_opt :: "'a list \<Rightarrow> nat \<Rightarrow> 'a option" where
  "nth_opt xs i = (if i < length xs then Some (xs ! i) else None)"

definition decode_group :: "chain_lib \<Rightarrow> page list \<Rightarrow> page_stream \<Rightarrow> nat \<Rightarrow> spend_group \<Rightarrow> u64
    \<Rightarrow> (transaction_info \<times> u64) result" where
  "decode_group lib pages stream index grp cursor =
     (let start = user_body_start lib stream (unat (gr_start_page grp))
      in and_then (require ''page range'' (slice start (start + unat (gr_page_count grp)) pages)) (\<lambda>pgs.
         let (hashes, ins, outs, cursor) = decode_pages lib 0 pgs cursor
         in Inr (\<lparr>tx_position = of_nat (user_logical_index lib stream index),
                  tx_txid = hex_encode lib (gr_logical_txid grp), tx_page_count = ucast (gr_page_count grp),
                  tx_live_inputs = ucast (gr_live_inputs grp), tx_live_outputs = ucast (gr_live_outputs grp),
                  tx_fee = gr_fee grp, tx_coinbase = False, tx_development_payout = False,
                  tx_epoch_anchor = hex_encode lib (gr_epoch_anchor grp),
                  tx_input_owner = Some (to_bech32 lib (gr_input_owner grp)),
                  tx_input_sum = decimal (unat (gr_input_sum grp)),
                  tx_output_sum = decimal (unat (gr_output_sum grp)),
                  tx_page_hashes = hashes, tx_inputs = ins, tx_outputs = outs\<rparr>, cursor)))"

fun decode_groups :: "chain_lib \<Rightarrow> page list \<Rightarrow> page_stream \<Rightarrow> nat \<Rightarrow> spend_group list \<Rightarrow> u64
    \<Rightarrow> (transaction_info list \<times> u64) result" where
  "decode_groups lib pages stream index [] cursor = Inr ([], cursor)"
| "decode_groups lib pages stream index (g # gs) cursor =
     and_then (decode_group lib pages stream index g cursor) (\<lambda>(tx, cursor).
     and_then (decode_groups lib pages stream (Suc index) gs cursor) (\<lambda>(txs, cursor).
       Inr (tx # txs, cursor)))"

definition minted_transaction :: "u32 \<Rightarrow> string \<Rightarrow> u32 \<Rightarrow> bool \<Rightarrow> string \<Rightarrow> string \<Rightarrow> output_info list \<Rightarrow> transaction_info" where
  "minted_transaction position txid n_outputs dev anchor out_sum outs =
     \<lparr>tx_position = position, tx_txid = txid, tx_page_count = 1, tx_live_inputs = 0, tx_live_outputs = n_outputs,
      tx_fee = 0, tx_coinbase = True, tx_development_payout = dev, tx_epoch_anchor = anchor,
      tx_input_owner = None, tx_input_sum = ''0'', tx_output_sum = out_sum, tx_page_hashes = [txid],
      tx_inputs = [], tx_outputs = outs\<rparr>"

definition u16_of_count :: "nat \<Rightarrow> u16 result" where
  "u16_of_count n = (if n < 2 ^ 16 then Inr (of_nat n) else bail ''out of range integral type conversion attempted'')"

definition reward_of :: "page \<Rightarrow> u64" where
  "reward_of coinbase = foldl (\<lambda>r (lane, out). saturating_add r (co_amount out)) 0 (pg_live_outputs coinbase)"

definition V2_CLASS_UNAVAILABLE :: string where "V2_CLASS_UNAVAILABLE = ''v2 / class unavailable''"

definition proof_class_of :: "chain_lib \<Rightarrow> u64 \<Rightarrow> page_stream \<Rightarrow> string" where
  "proof_class_of lib height stream =
     (if chain_v2_active lib height then V2_CLASS_UNAVAILABLE
      else case ps_proof_class stream of B25 \<Rightarrow> ''B25 / m22'' | B255 \<Rightarrow> ''B255 / m24'')"

text \<open>The development payout at position 1, if the stream has one: its transaction and the cursor after it.\<close>

definition decode_payout :: "chain_lib \<Rightarrow> page list \<Rightarrow> page_stream \<Rightarrow> bytes list \<Rightarrow> u16 \<Rightarrow> u64
    \<Rightarrow> (transaction_info list \<times> u64) result" where
  "decode_payout lib pages stream txids n_outputs cursor =
     (if \<not> ps_has_development_payout stream then Inr ([], cursor)
      else and_then (require ''development payout page missing'' (nth_opt pages 1)) (\<lambda>payout.
        let (outs, cursor) = number_outputs lib 0 (pg_live_outputs payout) cursor;
            total = sum_list (map (\<lambda>(lane, out). ucast (co_amount out) :: u128) (pg_live_outputs payout))
        in and_then (require ''development payout txid missing'' (nth_opt txids 1)) (\<lambda>txid.
             Inr ([minted_transaction 1 (hex_encode lib txid) (ucast n_outputs) True
                     (hex_encode lib (pg_epoch_anchor payout)) (decimal (unat total)) outs], cursor))))"

definition development_output_count :: "page list \<Rightarrow> page_stream \<Rightarrow> u16 result" where
  "development_output_count pages stream =
     (if ps_has_development_payout stream
      then and_then (require ''development payout flagged but block has no second page'' (nth_opt pages 1))
             (\<lambda>payout. u16_of_count (length (pg_live_outputs payout)))
      else Inr 0)"

definition retained_of :: "chain_lib \<Rightarrow> bytes \<Rightarrow> chain_block \<Rightarrow> page_stream \<Rightarrow> bytes list \<Rightarrow> page \<Rightarrow> u16 \<Rightarrow> u16
    \<Rightarrow> retained_block_info result" where
  "retained_of lib bytes block stream txids coinbase n_coinbase n_development =
     (let header = bk_header block; pages = bk_transactions block;
          minted = (ucast (ps_live_outputs stream) + ucast n_coinbase + ucast n_development :: u64)
      in if ch_alloc_counter header < minted then bail ''alloc underflow''
         else
           let cursor = ch_alloc_counter header - minted + of_nat (length (pg_live_outputs coinbase))
           in and_then (require ''no logical txids'' (nth_opt txids 0)) (\<lambda>cb_txid.
              and_then (decode_payout lib pages stream txids n_development cursor) (\<lambda>(payout, cursor).
              and_then (decode_groups lib pages stream 0 (ps_groups stream) cursor) (\<lambda>(spends, cursor).
                if cursor \<noteq> ch_alloc_counter header then bail ''alloc_counter mismatch''
                else Inr \<lparr>rb_proof_class = proof_class_of lib (ch_height header) stream,
                  rb_logical_transactions = of_nat (length txids), rb_user_pages = ucast (ps_page_count stream),
                  rb_live_inputs = ucast (ps_live_inputs stream),
                  rb_live_outputs = saturating_add (saturating_add (ucast (ps_live_outputs stream)) (ucast n_coinbase))
                                      (ucast n_development),
                  rb_reward = reward_of coinbase,
                  rb_total_fees = decimal (unat (sum_list (map (\<lambda>g. ucast (gr_fee g) :: u128) (ps_groups stream)))),
                  rb_block_bytes = of_nat (length bytes),
                  rb_transactions = minted_transaction 0 (hex_encode lib cb_txid) (ucast n_coinbase) False
                      (hex_encode lib (pg_epoch_anchor coinbase)) (u64_to_string (reward_of coinbase))
                      (coinbase_outputs lib (ch_height header) (pg_live_outputs coinbase))
                    # payout @ spends\<rparr>))))"

definition decode_retained_block :: "chain_lib \<Rightarrow> bytes \<Rightarrow> u64 \<Rightarrow> string \<Rightarrow> retained_block_info result" where
  "decode_retained_block lib bytes expected_height expected_hash =
     (if expected_height = 0 then bail ''genesis block has no coinbase/transactions, not a decode target''
      else and_then (decode_bound_block lib bytes expected_height expected_hash) (\<lambda>block.
           and_then (validate_page_stream lib (bk_transactions block)) (\<lambda>stream.
           and_then (compute_logical_txids lib (bk_transactions block)) (\<lambda>txids.
           and_then (require ''missing coinbase'' (nth_opt (bk_transactions block) 0)) (\<lambda>coinbase.
           and_then (u16_of_count (length (pg_live_outputs coinbase))) (\<lambda>n_coinbase.
           and_then (development_output_count (bk_transactions block) stream) (\<lambda>n_development.
             retained_of lib bytes block stream txids coinbase n_coinbase n_development)))))))"

section \<open>Contract calls\<close>

definition CONTRACT_CALL :: u8 where "CONTRACT_CALL = 1"
definition CONTRACT_CLOSE :: u8 where "CONTRACT_CLOSE = 2"

definition flags_of_bitmap :: "chain_lib \<Rightarrow> u32 \<Rightarrow> u8" where
  "flags_of_bitmap lib bitmap =
     (if and bitmap (contract_bit lib) \<noteq> 0
      then (if and bitmap (terminal_bit lib) \<noteq> 0 then or CONTRACT_CALL CONTRACT_CLOSE else CONTRACT_CALL)
      else 0)"

fun contract_flags_groups :: "chain_lib \<Rightarrow> page list \<Rightarrow> page_stream \<Rightarrow> nat \<Rightarrow> spend_group list \<Rightarrow> (u32 \<times> u8) list result" where
  "contract_flags_groups lib pages stream index [] = Inr []"
| "contract_flags_groups lib pages stream index (g # gs) =
     and_then (require ''page range'' (nth_opt pages (user_body_start lib stream (unat (gr_start_page g))))) (\<lambda>first.
     and_then (contract_flags_groups lib pages stream (Suc index) gs) (\<lambda>rest.
       let f = flags_of_bitmap lib (pg_validity_bitmap first)
       in Inr (if f \<noteq> 0 then (of_nat (user_logical_index lib stream index), f) # rest else rest)))"

definition contract_flags_of :: "chain_lib \<Rightarrow> page list \<Rightarrow> (u32 \<times> u8) list result" where
  "contract_flags_of lib pages =
     and_then (validate_page_stream lib pages) (\<lambda>stream.
       contract_flags_groups lib pages stream 0 (ps_groups stream))"

definition contract_flags :: "chain_lib \<Rightarrow> bytes \<Rightarrow> u64 \<Rightarrow> string \<Rightarrow> (u32 \<times> u8) list result" where
  "contract_flags lib bytes expected_height expected_hash =
     and_then (decode_bound_block lib bytes expected_height expected_hash) (\<lambda>block.
       contract_flags_of lib (bk_transactions block))"

section \<open>The raw block archive\<close>

definition CODEC :: string where "CODEC = ''zlib''"

definition verify_raw :: "chain_lib \<Rightarrow> bytes \<Rightarrow> u64 \<Rightarrow> string \<Rightarrow> unit result" where
  "verify_raw lib bytes height hash =
     (if length bytes > max_block_bytes lib then bail ''more than a block can have''
      else and_then (decode_bound_block lib bytes height hash) (\<lambda>_. Inr ()))"

definition decompress :: "chain_lib \<Rightarrow> string \<Rightarrow> bytes \<Rightarrow> nat \<Rightarrow> bytes result" where
  "decompress lib codec data raw_len =
     (if codec \<noteq> CODEC then bail ''unknown codec''
      else if raw_len > max_block_bytes lib then bail ''recorded length is more than a block can have''
      else and_then (zlib_decompress lib data) (\<lambda>full.
        let out = take (raw_len + 1) full
        in if length out \<noteq> raw_len then bail ''decompressed to another length'' else Inr out))"

definition store_raw :: "chain_lib \<Rightarrow> db \<Rightarrow> u64 \<Rightarrow> string \<Rightarrow> bytes \<Rightarrow> string \<Rightarrow> string \<Rightarrow> (db \<times> bool) result" where
  "store_raw lib c height hash bytes source now =
     (case block_id_of c height hash of
        None \<Rightarrow> Inr (c, False)
      | Some bid \<Rightarrow>
          if has_raw_block c bid then Inr (c, False)
          else and_then (verify_raw lib bytes height hash) (\<lambda>_.
               and_then (zlib_compress lib bytes) (\<lambda>packed.
                 Inr (insert_raw_block c bid CODEC (of_nat (length bytes)) packed source now, True))))"

definition load_raw :: "chain_lib \<Rightarrow> db \<Rightarrow> u64 \<Rightarrow> string \<Rightarrow> bytes option result" where
  "load_raw lib c height hash =
     (case raw_block c height hash of
        None \<Rightarrow> Inr None
      | Some (codec, raw_len, data) \<Rightarrow>
          and_then (decompress lib codec data (unat raw_len)) (\<lambda>bytes.
          and_then (verify_raw lib bytes height hash) (\<lambda>_. Inr (Some bytes))))"

end
