(* ===== verification/Poll.thy ===== *)
theory Poll
  imports Ingest Decode Emission
begin

text \<open>
  One cycle of the indexer in \<^verbatim>\<open>permanode/src/indexer.rs\<close>: ingesting new heights, re-checking a
  trailing window for reorgs, retrying open gaps and missing raw bytes, and noting when tip
  blocks arrived. The node is the record of RPC methods of Rpc_Types, the node's crates are
  the \<open>chain_lib\<close> of Decode, and every clock reading is an argument.
\<close>

definition GETBLOCK_SERVING_WINDOW :: u64 where "GETBLOCK_SERVING_WINDOW = 42"

record config =
  getblock_fallback :: bool
  decoder_selfcheck :: bool
  archive_raw_blocks :: bool
  reorg_check_depth :: u64

definition default_config :: config where
  "default_config = \<lparr>getblock_fallback = True, decoder_selfcheck = True, archive_raw_blocks = True,
     reorg_check_depth = 30\<rparr>"

section \<open>Fetching a body\<close>

datatype fallback_outcome = Recovered retained_block_info bytes | NoBody | DecodeFailed failure

definition try_getblock_fallback :: "chain_lib \<Rightarrow> node \<Rightarrow> u64 \<Rightarrow> string \<Rightarrow> fallback_outcome" where
  "try_getblock_fallback lib rpc height expected_hash =
     (case get_block_raw rpc height of
        Inl _ \<Rightarrow> NoBody
      | Inr None \<Rightarrow> NoBody
      | Inr (Some raw) \<Rightarrow>
          (case decode_retained_block lib raw height expected_hash of
             Inl e \<Rightarrow> DecodeFailed e
           | Inr retained \<Rightarrow> Recovered retained raw))"

definition fetch_raw :: "node \<Rightarrow> u64 \<Rightarrow> bytes option" where
  "fetch_raw rpc height = (case get_block_raw rpc height of Inl _ \<Rightarrow> None | Inr bytes \<Rightarrow> bytes)"

datatype body_outcome =
  Store block_details_info string "bytes option"
| Gap block_details_info string

definition resolve_body :: "chain_lib \<Rightarrow> node \<Rightarrow> config \<Rightarrow> block_details_info \<Rightarrow> string \<Rightarrow> body_outcome" where
  "resolve_body lib rpc cfg details missing_note =
     (if d_retained details \<noteq> None then Store details ''details'' None
      else if getblock_fallback cfg then
        (case try_getblock_fallback lib rpc (h_height (d_header details)) (h_hash (d_header details)) of
           Recovered retained raw \<Rightarrow> Store (details\<lparr>d_retained := Some retained\<rparr>) ''getblock'' (Some raw)
         | NoBody \<Rightarrow> Gap details ''no body via getBlockDetails nor getBlock (outside serving window)''
         | DecodeFailed e \<Rightarrow> Gap details (''getBlock body could not be decoded: '' @ (case e of Failure m \<Rightarrow> m)))
      else Gap details missing_note)"

section \<open>What is written next to a body\<close>

definition record_contract_flags :: "chain_lib \<Rightarrow> db \<Rightarrow> u64 \<Rightarrow> string \<Rightarrow> bytes option \<Rightarrow> db" where
  "record_contract_flags lib c height hash raw =
     (if \<not> v2_active height then c
      else case raw of
             None \<Rightarrow> c
           | Some bytes \<Rightarrow>
               (case contract_flags lib bytes height hash of
                  Inr flags \<Rightarrow> set_contract_flags c height hash flags
                | Inl _ \<Rightarrow> c))"

definition keep_raw :: "chain_lib \<Rightarrow> db \<Rightarrow> config \<Rightarrow> u64 \<Rightarrow> string \<Rightarrow> bytes option \<Rightarrow> string \<Rightarrow> string \<Rightarrow> db" where
  "keep_raw lib c cfg height hash raw source now =
     (if \<not> archive_raw_blocks cfg then c
      else case raw of
             None \<Rightarrow> c
           | Some bytes \<Rightarrow> committed c (store_raw lib c height hash bytes source now))"

text \<open>The decoder's self-check; with v2 rules the proof class is left out of the comparison.\<close>

definition parse_i64 :: "string \<Rightarrow> int option" where
  "parse_i64 s =
     (let neg = (case s of c # _ \<Rightarrow> c = CHR ''-'' | [] \<Rightarrow> False);
          ds = (case s of c # rest \<Rightarrow> if c = CHR ''+'' \<or> c = CHR ''-'' then rest else s | [] \<Rightarrow> []);
          v = (if neg then - int (digits_value ds) else int (digits_value ds))
      in if ds \<noteq> [] \<and> list_all is_digit ds \<and> - (2 ^ 63) \<le> v \<and> v < 2 ^ 63 then Some v else None)"

definition int_to_string :: "int \<Rightarrow> string" where
  "int_to_string i = (if i < 0 then CHR ''-'' # decimal (nat (- i)) else decimal (nat i))"

definition increment_mismatch_counter :: "db \<Rightarrow> db" where
  "increment_mismatch_counter c =
     (let current = (case get_state c ''decoder_mismatches'' of Some s \<Rightarrow> (case parse_i64 s of Some n \<Rightarrow> n | None \<Rightarrow> 0)
                     | None \<Rightarrow> 0)
      in set_state c ''decoder_mismatches'' (int_to_string (current + 1)))"

definition comparable :: "u64 \<Rightarrow> retained_block_info \<Rightarrow> retained_block_info" where
  "comparable height r = (if v2_active height then r\<lparr>rb_proof_class := []\<rparr> else r)"

definition selfcheck :: "chain_lib \<Rightarrow> db \<Rightarrow> u64 \<Rightarrow> block_details_info \<Rightarrow> bytes \<Rightarrow> db" where
  "selfcheck lib c height details raw =
     (case decode_retained_block lib raw height (h_hash (d_header details)) of
        Inl _ \<Rightarrow> c
      | Inr decoded \<Rightarrow>
          if Some (comparable height decoded) \<noteq> map_option (comparable height) (d_retained details)
          then increment_mismatch_counter c else c)"

section \<open>Ingesting a height\<close>

definition store_with_extras ::
    "chain_lib \<Rightarrow> db \<Rightarrow> config \<Rightarrow> u64 \<Rightarrow> block_details_info \<Rightarrow> string \<Rightarrow> bytes option \<Rightarrow> string \<Rightarrow> db result" where
  "store_with_extras lib c cfg height details source raw now =
     (let hash = h_hash (d_header details)
      in and_then (store_block c details source now) (\<lambda>c.
           Inr (keep_raw lib (record_contract_flags lib c height hash raw) cfg height hash raw ''node'' now)))"

definition ingest_height :: "chain_lib \<Rightarrow> db \<Rightarrow> node \<Rightarrow> config \<Rightarrow> u64 \<Rightarrow> string \<Rightarrow> (db \<times> bool) result" where
  "ingest_height lib c rpc cfg height now =
     and_then (get_block_details rpc height) (\<lambda>answer. case answer of
       None \<Rightarrow> Inr (c, False)
     | Some details \<Rightarrow>
         (case resolve_body lib rpc cfg details ''body already pruned by node on first ingest attempt'' of
            Store details source raw \<Rightarrow>
              let wants_raw = decoder_selfcheck cfg \<or> archive_raw_blocks cfg \<or> v2_active height;
                  raw = (case raw of Some bytes \<Rightarrow> Some bytes
                         | None \<Rightarrow> if wants_raw then fetch_raw rpc height else None)
              in and_then (store_with_extras lib c cfg height details source raw now) (\<lambda>c.
                   Inr (if source = ''getblock'' then c
                        else if decoder_selfcheck cfg
                             then (case raw of Some bytes \<Rightarrow> selfcheck lib c height details bytes | None \<Rightarrow> c)
                        else c, True))
          | Gap details note \<Rightarrow> Inr (record_gap_block c details note now, True)))"

section \<open>Re-checking a height for a reorg\<close>

definition REORG_NOTE :: string where
  "REORG_NOTE = ''reorg: new canonical body already unavailable at recheck time''"

definition replace_block :: "chain_lib \<Rightarrow> db \<Rightarrow> node \<Rightarrow> config \<Rightarrow> u64 \<Rightarrow> string \<Rightarrow> body_outcome option \<Rightarrow> string \<Rightarrow> string \<Rightarrow> db result" where
  "replace_block lib c rpc cfg height new_hash replacement orphaned_at stored_at =
     (case replacement of
        Some (Store details source raw) \<Rightarrow>
          let raw = (case raw of Some bytes \<Rightarrow> Some bytes
                     | None \<Rightarrow> if archive_raw_blocks cfg \<or> v2_active height then fetch_raw rpc height else None)
          in store_with_extras lib c cfg height details source raw stored_at
      | Some (Gap details note) \<Rightarrow> Inr (record_gap_block c details note stored_at)
      | None \<Rightarrow> Inr (record_gap c height (Some new_hash) orphaned_at REORG_NOTE))"

definition recheck_height :: "chain_lib \<Rightarrow> db \<Rightarrow> node \<Rightarrow> config \<Rightarrow> u64 \<Rightarrow> string \<Rightarrow> string \<Rightarrow> db result" where
  "recheck_height lib c rpc cfg height orphaned_at stored_at =
     and_then (get_block_header rpc height) (\<lambda>answer. case answer of
       None \<Rightarrow> Inr c
     | Some header \<Rightarrow>
         (case canonical_hash_at c height of
            None \<Rightarrow> Inr c
          | Some (bid, known_hash) \<Rightarrow>
              if known_hash = h_hash header then Inr c
              else and_then (is_header_only c bid) (\<lambda>header_only.
                if header_only then Inr c
                else and_then (get_block_details rpc height) (\<lambda>details.
                  let replacement = map_option (\<lambda>d. resolve_body lib rpc cfg d REORG_NOTE) details
                  in replace_block lib (mark_orphaned c bid orphaned_at) rpc cfg height (h_hash header)
                       replacement orphaned_at stored_at))))"

section \<open>Retrying an open gap\<close>

definition backfill_gap :: "chain_lib \<Rightarrow> db \<Rightarrow> node \<Rightarrow> config \<Rightarrow> u64 \<Rightarrow> string \<Rightarrow> db" where
  "backfill_gap lib c rpc cfg height now =
     (case canonical_hash_at c height of
        None \<Rightarrow> c
      | Some (_, hash) \<Rightarrow>
          (case uncaptured_block_id c height hash of
             None \<Rightarrow> c
           | Some bid \<Rightarrow>
               (case try_getblock_fallback lib rpc height hash of
                  Recovered retained raw \<Rightarrow>
                    resolve_gap
                      (keep_raw lib
                        (record_contract_flags lib
                          (mark_body_recovered (insert_transactions c bid retained) bid ''getblock'')
                          height hash (Some raw))
                        cfg height hash (Some raw) ''node'' now)
                      height now ''recovered via getBlock''
                | NoBody \<Rightarrow> c
                | DecodeFailed _ \<Rightarrow> c)))"

section \<open>One poll cycle\<close>

text \<open>\<open>(a..=b)\<close> over \<open>u64\<close>.\<close>

definition heights :: "u64 \<Rightarrow> u64 \<Rightarrow> u64 list" where
  "heights a b = map of_nat [unat a..<Suc (unat b)]"

definition first_start_height :: "node \<Rightarrow> u64 \<Rightarrow> u64" where
  "first_start_height rpc tip =
     (let served = takeWhile (\<lambda>h. case get_block_raw rpc h of Inr (Some _) \<Rightarrow> True | _ \<Rightarrow> False)
                     (rev (heights (saturating_sub tip GETBLOCK_SERVING_WINDOW) tip))
      in if served = [] then tip else last served)"

definition LAST_PROCESSED :: string where "LAST_PROCESSED = ''last_processed_height''"

definition last_processed :: "db \<Rightarrow> node \<Rightarrow> u64 \<Rightarrow> u64" where
  "last_processed c rpc tip =
     (case (case get_state c LAST_PROCESSED of Some s \<Rightarrow> parse_u64 s | None \<Rightarrow> None) of
        Some h \<Rightarrow> h
      | None \<Rightarrow> saturating_sub (first_start_height rpc tip) 1)"

text \<open>The clock readings of a cycle, by phase and height.\<close>

record clock =
  ingest_at :: "u64 \<Rightarrow> string"
  orphan_at :: "u64 \<Rightarrow> string"
  replace_at :: "u64 \<Rightarrow> string"
  backfill_at :: "u64 \<Rightarrow> string"
  raw_at :: "u64 \<Rightarrow> string"

text \<open>
  Every height is committed on its own, so an error ends the cycle and keeps what was
  committed before it: a phase returns the database together with the error, if any.
\<close>

fun ingest_loop :: "chain_lib \<Rightarrow> node \<Rightarrow> config \<Rightarrow> clock \<Rightarrow> u64 list \<Rightarrow> db \<Rightarrow> db \<times> failure option" where
  "ingest_loop lib rpc cfg clk [] c = (c, None)"
| "ingest_loop lib rpc cfg clk (h # hs) c =
     (case ingest_height lib c rpc cfg h (ingest_at clk h) of
        Inl e \<Rightarrow> (c, Some e)
      | Inr (c, False) \<Rightarrow> (c, None)
      | Inr (c, True) \<Rightarrow> ingest_loop lib rpc cfg clk hs (set_state c LAST_PROCESSED (u64_to_string h)))"

fun recheck_loop :: "chain_lib \<Rightarrow> node \<Rightarrow> config \<Rightarrow> clock \<Rightarrow> u64 list \<Rightarrow> db \<Rightarrow> db \<times> failure option" where
  "recheck_loop lib rpc cfg clk [] c = (c, None)"
| "recheck_loop lib rpc cfg clk (h # hs) c =
     (case recheck_height lib c rpc cfg h (orphan_at clk h) (replace_at clk h) of
        Inl e \<Rightarrow> (c, Some e)
      | Inr c \<Rightarrow> recheck_loop lib rpc cfg clk hs c)"

definition backfill_phase :: "chain_lib \<Rightarrow> node \<Rightarrow> config \<Rightarrow> clock \<Rightarrow> u64 \<Rightarrow> db \<Rightarrow> db" where
  "backfill_phase lib rpc cfg clk tip c =
     (if getblock_fallback cfg
      then foldl (\<lambda>c h. backfill_gap lib c rpc cfg h (backfill_at clk h)) c
             (open_gap_heights c (saturating_sub tip GETBLOCK_SERVING_WINDOW))
      else c)"

definition raw_phase :: "chain_lib \<Rightarrow> node \<Rightarrow> config \<Rightarrow> clock \<Rightarrow> u64 \<Rightarrow> db \<Rightarrow> db" where
  "raw_phase lib rpc cfg clk tip c =
     (if archive_raw_blocks cfg
      then foldl (\<lambda>c (height, hash). case fetch_raw rpc height of
               Some bytes \<Rightarrow> keep_raw lib c cfg height hash (Some bytes) ''node'' (raw_at clk height)
             | None \<Rightarrow> c) c
             (blocks_missing_raw c (saturating_sub tip GETBLOCK_SERVING_WINDOW) tip (GETBLOCK_SERVING_WINDOW + 1))
      else c)"

definition poll_once :: "chain_lib \<Rightarrow> db \<Rightarrow> node \<Rightarrow> config \<Rightarrow> clock \<Rightarrow> db \<times> failure option" where
  "poll_once lib c rpc cfg clk =
     (case block_count rpc of
        Inl e \<Rightarrow> (c, Some e)
      | Inr tip \<Rightarrow>
          (case ingest_loop lib rpc cfg clk (heights (last_processed c rpc tip + 1) tip) c of
             (c, Some e) \<Rightarrow> (c, Some e)
           | (c, None) \<Rightarrow>
               (case recheck_loop lib rpc cfg clk (heights (saturating_sub tip (reorg_check_depth cfg)) tip) c of
                  (c, Some e) \<Rightarrow> (c, Some e)
                | (c, None) \<Rightarrow> (raw_phase lib rpc cfg clk tip (backfill_phase lib rpc cfg clk tip c), None))))"

section \<open>Arrival times\<close>

text \<open>
  One tick of the tip watcher: what it saw, walking down from the tip to the first block it has
  handled, and the bounded list of hashes it remembers.
\<close>

definition TIP_WALK :: nat where "TIP_WALK = 20"
definition KNOWN_MAX :: nat where "KNOWN_MAX = 256"

record watcher =
  last_tip :: "(u64 \<times> string) option"
  known :: "string list"

fun walk_down :: "node \<Rightarrow> string list \<Rightarrow> nat \<Rightarrow> u64 \<Rightarrow> (u64 \<times> string) list" where
  "walk_down rpc seen 0 h = []"
| "walk_down rpc seen (Suc n) h =
     (if h = 0 then []
      else case get_block_header rpc (h - 1) of
             Inr (Some hdr) \<Rightarrow> if h_hash hdr \<notin> set seen then (h - 1, h_hash hdr) # walk_down rpc seen n (h - 1) else []
           | _ \<Rightarrow> [])"

definition remember :: "string list \<Rightarrow> string list \<Rightarrow> string list" where
  "remember seen hashes =
     (let seen = foldl (\<lambda>seen h. if h \<in> set seen then seen else seen @ [h]) seen hashes
      in drop (length seen - KNOWN_MAX) seen)"

definition watch_tick :: "watcher \<Rightarrow> node \<Rightarrow> u64 \<times> string \<Rightarrow> int \<Rightarrow> watcher \<times> (u64 \<times> string \<times> int) list" where
  "watch_tick w rpc tip at =
     (if last_tip w = Some tip then (w, [])
      else
        let fresh = tip # walk_down rpc (known w) TIP_WALK (fst tip)
        in (\<lparr>last_tip = Some tip, known = remember (known w) (map snd fresh)\<rparr>,
            if last_tip w = None then [] else map (\<lambda>(h, hash). (h, hash, at)) fresh))"

fun note_sightings :: "db \<Rightarrow> int \<Rightarrow> (u64 \<times> string \<times> int) list \<Rightarrow> db \<times> (u64 \<times> string \<times> int) list" where
  "note_sightings c now_ms [] = (c, [])"
| "note_sightings c now_ms ((height, hash, at) # list) =
     (case set_tip_seen c height hash at of
        (c, True) \<Rightarrow> note_sightings c now_ms list
      | (c, False) \<Rightarrow>
          let (c, kept) = note_sightings c now_ms list
          in (c, if now_ms - at < 600000 then (height, hash, at) # kept else kept))"

end
