(* ===== verification/Canonical.thy ===== *)
theory Canonical
  imports Db_Invariant Poll
begin

text \<open>
  Which block of a height is canonical. The status log is the truth: a block is canonical when its
  latest status entry says so. The locale \<open>status_view\<close> states what a reader of the log must
  answer; the query of \<^verbatim>\<open>canonical_hash_at\<close>, which goes by the text of the time stamps, meets
  that contract while the clock never steps back, and only then.
\<close>

section \<open>The status log\<close>

lemma current_status_append:
  assumes "wf_db c"
  shows "current_status (append_status c bid st now) x = (if x = bid then Some st else current_status c x)"
proof -
  let ?new = "\<lparr>s_id = next_rowid (map s_id (status_log c)), s_block_id = bid, s_status = st, s_observed_at = now\<rparr>"
  have "s_id s < next_rowid (map s_id (status_log c))" if "s \<in> set (status_log c)" for s
    using that by (intro next_rowid_fresh) simp
  then have "latest s_id (filter (\<lambda>s. s_block_id s = bid) (status_log c) @ [?new]) = Some ?new"
    by (intro latest_append_greater) simp
  then show ?thesis by (auto simp: current_status_def append_status_def)
qed

lemma current_status_blocks [simp]: "current_status (c\<lparr>blocks := bs\<rparr>) = current_status c"
  by (simp add: current_status_def fun_eq_iff)

lemma is_canonical_append:
  "wf_db c \<Longrightarrow> is_canonical (append_status c bid st now) x = (if x = bid then st = Canonical else is_canonical c x)"
  by (simp add: is_canonical_def current_status_append)

definition canonical_rows :: "db \<Rightarrow> int \<Rightarrow> (int \<times> string) set" where
  "canonical_rows c k =
     {(b_id b, b_hash b) |b. b \<in> set (blocks c) \<and> b_height b = k \<and> is_canonical c (b_id b)}"

definition canonical_at :: "db \<Rightarrow> u64 \<Rightarrow> (int \<times> string) set" where
  "canonical_at c height = canonical_rows c (as_i64 height)"

definition one_canonical :: "db \<Rightarrow> bool" where
  "one_canonical c = (\<forall>b \<in> set (blocks c). \<forall>b' \<in> set (blocks c).
     b_height b = b_height b' \<and> is_canonical c (b_id b) \<and> is_canonical c (b_id b') \<longrightarrow> b_id b = b_id b')"

definition clock_forward :: "db \<Rightarrow> bool" where
  "clock_forward c = (\<forall>s \<in> set (status_log c). \<forall>s' \<in> set (status_log c).
     s_block_id s = s_block_id s' \<and> s_id s < s_id s' \<longrightarrow> s_observed_at s < s_observed_at s')"

lemma one_canonical_rows:
  assumes "wf_db c"
  shows "one_canonical c \<longleftrightarrow> (\<forall>k. \<forall>r \<in> canonical_rows c k. \<forall>r' \<in> canonical_rows c k. r = r')"
proof -
  have "inj_on b_id (set (blocks c))" using assms by (simp add: wf_db_def wf_blocks_def distinct_map)
  then have same: "b = b'" if "b \<in> set (blocks c)" "b' \<in> set (blocks c)" "b_id b = b_id b'" for b b'
    using that by (auto dest: inj_onD)
  show ?thesis
  proof
    assume one: "one_canonical c"
    show "\<forall>k. \<forall>r \<in> canonical_rows c k. \<forall>r' \<in> canonical_rows c k. r = r'"
    proof (intro allI ballI)
      fix k r r' assume "r \<in> canonical_rows c k" "r' \<in> canonical_rows c k"
      then obtain b b' where b: "b \<in> set (blocks c)" "b' \<in> set (blocks c)" "r = (b_id b, b_hash b)" "r' = (b_id b', b_hash b')"
        "b_height b = b_height b'" "is_canonical c (b_id b)" "is_canonical c (b_id b')"
        by (auto simp: canonical_rows_def)
      then have "b_id b = b_id b'" using one by (auto simp: one_canonical_def)
      with b same show "r = r'" by blast
    qed
  next
    assume rows: "\<forall>k. \<forall>r \<in> canonical_rows c k. \<forall>r' \<in> canonical_rows c k. r = r'"
    have "b_id b = b_id b'"
      if "b \<in> set (blocks c)" "b' \<in> set (blocks c)" "b_height b = b_height b'" "is_canonical c (b_id b)" "is_canonical c (b_id b')"
      for b b'
    proof -
      have "(b_id b, b_hash b) \<in> canonical_rows c (b_height b)" "(b_id b', b_hash b') \<in> canonical_rows c (b_height b)"
        using that by (auto simp: canonical_rows_def)
      with rows show ?thesis by blast
    qed
    then show "one_canonical c" by (auto simp: one_canonical_def)
  qed
qed

section \<open>What a reader of the log must answer\<close>

locale status_view =
  fixes answer :: "db \<Rightarrow> u64 \<Rightarrow> (int \<times> string) option" and trusted :: "db \<Rightarrow> bool"
  assumes sound: "trusted c \<Longrightarrow> answer c h = Some r \<Longrightarrow> r \<in> canonical_at c h"
    and complete: "trusted c \<Longrightarrow> answer c h = None \<Longrightarrow> canonical_at c h = {}"
    and unique: "trusted c \<Longrightarrow> r \<in> canonical_at c h \<Longrightarrow> r' \<in> canonical_at c h \<Longrightarrow> r = r'"
begin

lemma answer_iff: "trusted c \<Longrightarrow> answer c h = Some r \<longleftrightarrow> r \<in> canonical_at c h"
  using sound [of c h] complete [of c h] unique [of c r h] by (cases "answer c h") auto

lemma answer_none_iff: "trusted c \<Longrightarrow> answer c h = None \<longleftrightarrow> canonical_at c h = {}"
  using sound [of c h] complete [of c h] by (cases "answer c h") auto

lemma answer_is_the_set: "trusted c \<Longrightarrow> answer c h = Some r \<Longrightarrow> canonical_at c h = {r}"
  by (rule set_eqI) (metis answer_iff option.inject singleton_iff)

end

section \<open>The time-stamp query meets the contract\<close>

lemma latest_status:
  assumes "wf_db c" "current_status c bid = Some st"
  obtains s where "s \<in> set (statuses_of c bid)" "s_status s = st"
    "\<And>s'. s' \<in> set (statuses_of c bid) \<Longrightarrow> s' \<noteq> s \<Longrightarrow> s_id s' < s_id s"
proof -
  obtain s where s: "latest s_id (filter (\<lambda>s. s_block_id s = bid) (status_log c)) = Some s" "s_status s = st"
    using assms(2) by (auto simp: current_status_def)
  have inj: "inj_on s_id (set (status_log c))"
    using assms(1) by (auto simp: wf_db_def wf_status_def strict_sorted_iff distinct_map)
  show thesis
  proof
    show "s \<in> set (statuses_of c bid)" using latest_in [OF s(1)] by (simp add: statuses_of_def)
    show "s_status s = st" by fact
    fix s' assume s': "s' \<in> set (statuses_of c bid)" "s' \<noteq> s"
    then have "s_id s' \<le> s_id s" using latest_max [OF s(1), of s'] by (simp add: statuses_of_def)
    moreover have "s_id s' \<noteq> s_id s"
      using inj_onD [OF inj, of s' s] s' latest_in [OF s(1)] by (auto simp: statuses_of_def)
    ultimately show "s_id s' < s_id s" by simp
  qed
qed

lemma candidate_is_current:
  assumes wf: "wf_db c" and fw: "clock_forward c" and cand: "(b, s) \<in> set (canonical_candidates c h)"
  shows "b \<in> set (blocks c)" "b_height b = as_i64 h" "is_canonical c (b_id b)" "s \<in> set (statuses_of c (b_id b))"
proof -
  have b: "b \<in> set (blocks c)" "b_height b = as_i64 h" and s: "s \<in> set (statuses_of c (b_id b))"
    and st: "s_status s = Canonical" and mx: "\<forall>s2 \<in> set (statuses_of c (b_id b)). s_observed_at s2 \<le> s_observed_at s"
    using cand by (auto simp: canonical_candidates_def)
  have "filter (\<lambda>s. s_block_id s = b_id b) (status_log c) \<noteq> []"
    using s by (auto simp: statuses_of_def filter_empty_conv)
  then obtain m0 where "latest s_id (filter (\<lambda>s. s_block_id s = b_id b) (status_log c)) = Some m0"
    by (cases "latest s_id (filter (\<lambda>s. s_block_id s = b_id b) (status_log c))") auto
  then obtain x where x: "current_status c (b_id b) = Some x" by (simp add: current_status_def)
  obtain m where m: "m \<in> set (statuses_of c (b_id b))" "s_status m = x"
    "\<And>s'. s' \<in> set (statuses_of c (b_id b)) \<Longrightarrow> s' \<noteq> m \<Longrightarrow> s_id s' < s_id m"
    using latest_status [OF wf x] by blast
  have "s = m"
  proof (rule ccontr)
    assume "s \<noteq> m"
    then have "s_id s < s_id m" using m(3) s by blast
    then have "s_observed_at s < s_observed_at m"
      using fw s m(1) by (auto simp: clock_forward_def statuses_of_def)
    with mx m(1) show False by (auto simp: not_le [symmetric])
  qed
  with m(2) st x show "is_canonical c (b_id b)" by (simp add: is_canonical_def)
  show "b \<in> set (blocks c)" "b_height b = as_i64 h" "s \<in> set (statuses_of c (b_id b))" by fact+
qed

lemma current_is_candidate:
  assumes wf: "wf_db c" and fw: "clock_forward c"
    and b: "b \<in> set (blocks c)" "b_height b = as_i64 h" "is_canonical c (b_id b)"
  shows "\<exists>s. (b, s) \<in> set (canonical_candidates c h)"
proof -
  obtain m where m: "m \<in> set (statuses_of c (b_id b))" "s_status m = Canonical"
    "\<And>s'. s' \<in> set (statuses_of c (b_id b)) \<Longrightarrow> s' \<noteq> m \<Longrightarrow> s_id s' < s_id m"
    using latest_status [OF wf] b(3) unfolding is_canonical_def by blast
  have "s_observed_at s2 \<le> s_observed_at m" if "s2 \<in> set (statuses_of c (b_id b))" for s2
  proof (cases "s2 = m")
    case False
    then have "s_id s2 < s_id m" using m(3) that by blast
    then show ?thesis
      using fw that m(1) by (auto simp: clock_forward_def statuses_of_def intro: less_imp_le)
  qed simp
  with m b have "(b, m) \<in> set (canonical_candidates c h)"
    by (auto simp: canonical_candidates_def)
  then show ?thesis ..
qed

definition trusted_log :: "db \<Rightarrow> bool" where
  "trusted_log c = (wf_db c \<and> clock_forward c \<and> one_canonical c)"

interpretation by_time: status_view canonical_hash_at trusted_log
proof unfold_locales
  fix c h r assume t: "trusted_log c" and a: "canonical_hash_at c h = Some r"
  then obtain b s where r: "r = (b_id b, b_hash b)" and cand: "(b, s) \<in> set (canonical_candidates c h)"
    by (auto simp: canonical_hash_at_def dest: latest_in)
  from candidate_is_current [OF _ _ cand] t show "r \<in> canonical_at c h"
    by (auto simp: r trusted_log_def canonical_at_def canonical_rows_def)
next
  fix c h assume t: "trusted_log c" and a: "canonical_hash_at c h = None"
  show "canonical_at c h = {}"
  proof (rule ccontr)
    assume "canonical_at c h \<noteq> {}"
    then obtain b where "b \<in> set (blocks c)" "b_height b = as_i64 h" "is_canonical c (b_id b)"
      by (auto simp: canonical_at_def canonical_rows_def)
    from current_is_candidate [OF _ _ this] t have "canonical_candidates c h \<noteq> []"
      by (auto simp: trusted_log_def)
    with a show False by (simp add: canonical_hash_at_def)
  qed
next
  fix c h r r' assume t: "trusted_log c" and r: "r \<in> canonical_at c h" "r' \<in> canonical_at c h"
  then obtain b b' where b: "b \<in> set (blocks c)" "b' \<in> set (blocks c)" "r = (b_id b, b_hash b)" "r' = (b_id b', b_hash b')"
    "b_height b = b_height b'" "is_canonical c (b_id b)" "is_canonical c (b_id b')"
    by (auto simp: canonical_at_def canonical_rows_def)
  then have "b_id b = b_id b'" using t by (auto simp: trusted_log_def one_canonical_def)
  moreover have "inj_on b_id (set (blocks c))"
    using t by (simp add: trusted_log_def wf_db_def wf_blocks_def distinct_map)
  ultimately show "r = r'" using b by (auto dest: inj_onD)
qed

section \<open>Operations that leave the chain alone\<close>

definition ikey where "ikey b = (b_id b, b_height b, b_hash b)"

definition same_chain :: "db \<Rightarrow> db \<Rightarrow> bool" where
  "same_chain c c' = (status_log c' = status_log c \<and> map ikey (blocks c') = map ikey (blocks c))"

lemma same_chain_refl [simp]: "same_chain c c"
  by (simp add: same_chain_def)

lemma same_chain_trans: "same_chain a b \<Longrightarrow> same_chain b c \<Longrightarrow> same_chain a c"
  by (simp add: same_chain_def)

lemma in_ikeys: "(i, k, hash) \<in> ikey ` set bs \<longleftrightarrow> (\<exists>b \<in> set bs. b_id b = i \<and> b_height b = k \<and> b_hash b = hash)"
  by (auto simp: ikey_def)

lemma in_canonical_at:
  "(i, hash) \<in> canonical_at c h \<longleftrightarrow> (i, as_i64 h, hash) \<in> ikey ` set (blocks c) \<and> is_canonical c i"
  unfolding in_ikeys by (auto simp: canonical_at_def canonical_rows_def)

lemma one_canonical_ikey:
  "one_canonical c \<longleftrightarrow> (\<forall>i i' k x x'. (i, k, x) \<in> ikey ` set (blocks c) \<and> (i', k, x') \<in> ikey ` set (blocks c)
     \<and> is_canonical c i \<and> is_canonical c i' \<longrightarrow> i = i')"
  unfolding in_ikeys one_canonical_def by metis

lemma same_chain_status: "same_chain c c' \<Longrightarrow> is_canonical c' = is_canonical c"
  by (rule ext) (simp add: same_chain_def is_canonical_def current_status_def)

lemma same_chain_ikeys: "same_chain c c' \<Longrightarrow> ikey ` set (blocks c') = ikey ` set (blocks c)"
proof -
  assume "same_chain c c'"
  then have "map ikey (blocks c') = map ikey (blocks c)" unfolding same_chain_def by (rule conjunct2)
  then have "set (map ikey (blocks c')) = set (map ikey (blocks c))" by (rule arg_cong)
  then show ?thesis unfolding set_map .
qed

lemma same_chain_canonical_at: "same_chain c c' \<Longrightarrow> canonical_at c' h = canonical_at c h"
  by (auto simp only: in_canonical_at same_chain_ikeys same_chain_status)

lemma same_chain_one_canonical: "same_chain c c' \<Longrightarrow> one_canonical c' = one_canonical c"
  by (simp only: one_canonical_ikey same_chain_ikeys same_chain_status)

lemma same_chain_clock: "same_chain c c' \<Longrightarrow> clock_forward c' = clock_forward c"
  by (simp add: same_chain_def clock_forward_def)

locale chain_neutral =
  fixes step :: "'a \<Rightarrow> db \<Rightarrow> db"
  assumes neutral: "same_chain c (step a c)"
begin

lemmas step_canonical_at = same_chain_canonical_at [OF neutral]
lemmas step_one_canonical = same_chain_one_canonical [OF neutral]
lemmas step_clock = same_chain_clock [OF neutral]

lemma run_neutral: "same_chain c (foldl (\<lambda>c a. step a c) c as)"
  by (induction as arbitrary: c) (auto intro: same_chain_trans neutral)

end

interpretation n_set_state: chain_neutral "\<lambda>(k, v) c. set_state c k v"
  by unfold_locales (auto simp: set_state_def same_chain_def)

interpretation n_record_gap: chain_neutral "\<lambda>(height, hash, now, msg) c. record_gap c height hash now msg"
  by unfold_locales (auto simp: record_gap_def same_chain_def)

interpretation n_resolve_gap: chain_neutral "\<lambda>(height, now, res) c. resolve_gap c height now res"
  by unfold_locales (auto simp: resolve_gap_def same_chain_def)

interpretation n_mark_body_recovered: chain_neutral "\<lambda>(bid, src) c. mark_body_recovered c bid src"
  by unfold_locales (auto simp: mark_body_recovered_def same_chain_def map_update_where ikey_def)

interpretation n_insert_transaction: chain_neutral "\<lambda>(bid, tx) c. insert_transaction bid tx c"
  by unfold_locales (auto simp: insert_transaction_def Let_def same_chain_def)

interpretation n_insert_transactions: chain_neutral "\<lambda>(bid, retained) c. insert_transactions c bid retained"
proof unfold_locales
  fix a :: "int \<times> retained_block_info" and c :: db
  obtain bid retained where a: "a = (bid, retained)" by (cases a)
  let ?c = "c\<lparr>blocks := update_where (\<lambda>b. b_id b = bid) (body_columns retained) (blocks c)\<rparr>"
  have "same_chain c ?c" by (simp add: same_chain_def map_update_where ikey_def body_columns_def)
  moreover have "same_chain ?c (insert_transactions c bid retained)"
    using n_insert_transaction.run_neutral [of ?c "map (Pair bid) (rb_transactions retained)"]
    by (simp add: insert_transactions_def foldl_map)
  ultimately show "same_chain c ((\<lambda>(bid, retained) c. insert_transactions c bid retained) a c)"
    by (auto simp: a intro: same_chain_trans)
qed

interpretation n_set_contract_flags: chain_neutral "\<lambda>(height, hash, flags) c. set_contract_flags c height hash flags"
  by unfold_locales (auto simp: set_contract_flags_def Let_def same_chain_def map_update_where ikey_def split: option.splits)

interpretation n_record_contract_flags: chain_neutral
  "\<lambda>(lib, height, hash, raw) c. record_contract_flags lib c height hash raw"
  using n_set_contract_flags.neutral
  by unfold_locales (auto simp: record_contract_flags_def split: option.splits sum.splits)

lemma store_raw_neutral: "store_raw lib c height hash bytes source now = Inr (c', x) \<Longrightarrow> same_chain c c'"
  by (auto simp: store_raw_def and_then_Inr_iff insert_raw_block_def same_chain_def split: option.splits if_splits)

interpretation n_keep_raw: chain_neutral
  "\<lambda>(lib, cfg, height, hash, raw, src, now) c. keep_raw lib c cfg height hash raw src now"
  by unfold_locales
    (auto simp: keep_raw_def committed_def split: option.splits sum.splits dest: store_raw_neutral)

interpretation n_prune: chain_neutral "\<lambda>cutoff c. fst (prune_older_than c cutoff)"
proof unfold_locales
  fix cutoff c
  have "same_chain c (prune_block c bid)" for c bid
    by (simp add: prune_block_def Let_def same_chain_def map_update_where ikey_def)
  then have "same_chain c (foldl prune_block c bids)" for bids c
    by (induction bids arbitrary: c) (auto intro: same_chain_trans)
  then show "same_chain c (fst (prune_older_than c cutoff))" by (simp add: prune_older_than_def)
qed

section \<open>Status changes\<close>

definition later_than_all :: "db \<Rightarrow> string \<Rightarrow> bool" where
  "later_than_all c now = (\<forall>s \<in> set (status_log c). s_observed_at s < now)"

lemma clock_append_status:
  assumes "wf_db c" "clock_forward c" "later_than_all c now"
  shows "clock_forward (append_status c bid st now)"
proof -
  have "s_id s < next_rowid (map s_id (status_log c))" if "s \<in> set (status_log c)" for s
    using that by (intro next_rowid_fresh) simp
  then show ?thesis
    using assms by (fastforce simp: clock_forward_def later_than_all_def append_status_def)
qed

lemma later_append_status: "later_than_all c t \<Longrightarrow> t < t' \<Longrightarrow> later_than_all (append_status c bid st t) t'"
  by (auto simp: later_than_all_def append_status_def)

lemma canonical_rows_append_status:
  assumes "wf_db c"
  shows "canonical_rows (append_status c bid st now) k =
    {r \<in> canonical_rows c k. fst r \<noteq> bid} \<union> {(b_id b, b_hash b) |b. b \<in> set (blocks c) \<and> b_height b = k \<and> b_id b = bid \<and> st = Canonical}"
  by (auto simp: canonical_rows_def is_canonical_append [OF assms])

lemma canonical_rows_orphaned:
  "wf_db c \<Longrightarrow> canonical_rows (mark_orphaned c bid now) k = {r \<in> canonical_rows c k. fst r \<noteq> bid}"
  by (simp add: mark_orphaned_def canonical_rows_append_status)

lemma one_canonical_orphaned: "wf_db c \<Longrightarrow> one_canonical c \<Longrightarrow> one_canonical (mark_orphaned c bid now)"
  by (auto simp: one_canonical_def mark_orphaned_def is_canonical_append)

lemma status_has_block:
  assumes "wf_db c" "s \<in> set (status_log c)"
  shows "s_block_id s \<in> b_id ` set (blocks c)"
proof -
  have "wf_status (block_sigs c) (status_log c)" using assms(1) by (simp add: wf_db_def)
  then have "s_block_id s \<in> fst ` block_sigs c" using assms(2) by (simp add: wf_status_def)
  then show ?thesis by (simp only: fst_block_sigs)
qed

lemma canonical_has_block:
  assumes "wf_db c" "is_canonical c bid"
  shows "bid \<in> b_id ` set (blocks c)"
proof -
  obtain z where "latest s_id (filter (\<lambda>s. s_block_id s = bid) (status_log c)) = Some z"
    using assms(2) by (auto simp: is_canonical_def current_status_def)
  from latest_in [OF this] status_has_block [OF assms(1), of z] show ?thesis by auto
qed

lemma canonical_rows_append_block:
  assumes "wf_db c" "b_id r = next_rowid (map b_id (blocks c))"
  shows "canonical_rows (c\<lparr>blocks := blocks c @ [r]\<rparr>) k = canonical_rows c k"
proof -
  have "\<not> is_canonical c (b_id r)"
    using canonical_has_block [OF assms(1), of "b_id r"] assms(2) next_rowid_not_in [of "map b_id (blocks c)"] by auto
  moreover have "is_canonical (c\<lparr>blocks := blocks c @ [r]\<rparr>) = is_canonical c"
    by (simp add: is_canonical_def fun_eq_iff)
  ultimately show ?thesis by (auto simp: canonical_rows_def)
qed

lemma block_with_key_unique:
  assumes "wf_db c" "b \<in> set (blocks c)" "b' \<in> set (blocks c)" "b_id b = b_id b'"
  shows "b = b'"
proof -
  have "inj_on b_id (set (blocks c))" using assms(1) by (simp add: wf_db_def wf_blocks_def distinct_map)
  then show ?thesis using assms(2-4) by (auto dest: inj_onD)
qed

lemma canonical_rows_new_block:
  assumes wf: "wf_db c" and fresh: "b_id r = next_rowid (map b_id (blocks c))"
    and key: "block_key r \<notin> block_key ` set (blocks c)" and body: "b_body_captured r \<longrightarrow> archived r"
  shows "canonical_rows (append_status (c\<lparr>blocks := blocks c @ [r]\<rparr>) (b_id r) Canonical now) k =
    (if k = b_height r then insert (b_id r, b_hash r) (canonical_rows c k) else canonical_rows c k)"
proof -
  let ?c = "c\<lparr>blocks := blocks c @ [r]\<rparr>"
  have wf': "wf_db ?c" by (rule wf_db_append_block [OF wf fresh key body])
  have "b_id r \<notin> b_id ` set (blocks c)" using fresh next_rowid_not_in [of "map b_id (blocks c)"] by simp
  then have "\<forall>b \<in> set (blocks c). b_id b \<noteq> b_id r" by (metis imageI)
  then have "\<forall>r' \<in> canonical_rows c k. fst r' \<noteq> b_id r"
    and "{(b_id b', b_hash b') |b'. b' \<in> set (blocks ?c) \<and> b_height b' = k \<and> b_id b' = b_id r \<and> Canonical = Canonical}
        = (if k = b_height r then {(b_id r, b_hash r)} else {})"
    by (auto simp: canonical_rows_def)
  then show ?thesis
    unfolding canonical_rows_append_status [OF wf'] canonical_rows_append_block [OF wf fresh] by auto
qed

lemma header_row_canonical:
  assumes wf: "wf_db c" and src: "source \<noteq> Some HEADER_ONLY_SOURCE"
    and r: "insert_block_header_row c hdr captured source now = (c', bid)"
  shows "canonical_rows c' k = (if k = as_i64 (h_height hdr) then insert (bid, h_hash hdr) (canonical_rows c k) else canonical_rows c k)"
    and "status_log c' = status_log (append_status c bid Canonical now)"
proof -
  have wb: "wf_blocks (blocks c)" using wf by (simp add: wf_db_def)
  have "canonical_rows c' k = (if k = as_i64 (h_height hdr) then insert (bid, h_hash hdr) (canonical_rows c k) else canonical_rows c k)
      \<and> status_log c' = status_log (append_status c bid Canonical now)"
  proof (rule insert_block_header_row_unfold [OF wb, of hdr captured source now])
    fix b assume b: "b \<in> set (blocks c)" "block_key b = (as_i64 (h_height hdr), h_hash hdr)"
      "insert_block_header_row c hdr captured source now = (append_status c (b_id b) Canonical now, b_id b)"
    then have c': "c' = append_status c (b_id b) Canonical now" "bid = b_id b" using r by auto
    have key: "b_height b = as_i64 (h_height hdr)" "b_hash b = h_hash hdr" using b(2) by (simp_all add: block_key_def)
    have only: "b' \<in> set (blocks c) \<and> b_height b' = k \<and> b_id b' = bid \<longleftrightarrow> b' = b \<and> k = as_i64 (h_height hdr)" for b'
      using block_with_key_unique [OF wf _ b(1), of b'] b(1) key c'(2) by blast
    have "{(b_id b', b_hash b') |b'. b' \<in> set (blocks c) \<and> b_height b' = k \<and> b_id b' = bid \<and> Canonical = Canonical}
        = (if k = as_i64 (h_height hdr) then {(bid, h_hash hdr)} else {})"
      unfolding simp_thms only using key c'(2) by auto
    moreover have "{r' \<in> canonical_rows c k. fst r' \<noteq> bid} = canonical_rows c k - (if k = as_i64 (h_height hdr) then {(bid, h_hash hdr)} else {})"
    proof -
      have "fst r' = bid \<longleftrightarrow> k = as_i64 (h_height hdr) \<and> r' = (bid, h_hash hdr)" if r': "r' \<in> canonical_rows c k" for r'
      proof -
        obtain b' where b': "b' \<in> set (blocks c)" "r' = (b_id b', b_hash b')" "b_height b' = k"
          using r' by (auto simp: canonical_rows_def)
        then show ?thesis using only [of b'] key by auto
      qed
      then show ?thesis by auto
    qed
    ultimately show ?thesis
      unfolding c'(1) canonical_rows_append_status [OF wf] c'(2) [symmetric] by auto
  next
    fix i
    let ?row = "header_row i hdr captured source now"
    assume n: "i = next_rowid (map b_id (blocks c))" "(as_i64 (h_height hdr), h_hash hdr) \<notin> block_key ` set (blocks c)"
      "insert_block_header_row c hdr captured source now = (append_status (c\<lparr>blocks := blocks c @ [?row]\<rparr>) i Canonical now, i)"
    then have c': "c' = append_status (c\<lparr>blocks := blocks c @ [?row]\<rparr>) i Canonical now" "bid = i" using r by auto
    have row: "b_id ?row = i" "b_height ?row = as_i64 (h_height hdr)" "b_hash ?row = h_hash hdr"
      by (simp_all add: header_row_def)
    have "canonical_rows (append_status (c\<lparr>blocks := blocks c @ [?row]\<rparr>) (b_id ?row) Canonical now) k =
      (if k = b_height ?row then insert (b_id ?row, b_hash ?row) (canonical_rows c k) else canonical_rows c k)"
      by (rule canonical_rows_new_block [OF wf]) (use n src in \<open>auto simp: header_row_def block_key_def archived_def\<close>)
    then show ?thesis unfolding c' row by (simp add: append_status_def)
  qed
  then show "canonical_rows c' k = (if k = as_i64 (h_height hdr) then insert (bid, h_hash hdr) (canonical_rows c k) else canonical_rows c k)"
    "status_log c' = status_log (append_status c bid Canonical now)" by auto
qed

end
