(* ===== verification/Samples.thy ===== *)
theory Samples
  imports Canonical
begin

text \<open>
  Concrete blocks, node answers and databases the witnesses of the later theories evaluate on.
\<close>

definition sample_header :: "u64 \<Rightarrow> string \<Rightarrow> block_header_info" where
  "sample_header height hash =
     \<lparr>h_height = height, h_hash = hash, h_prev_hash = ''p'', h_state_root = ''r'', h_tx_root = ''x'',
      h_timestamp = 100, h_miner = ''m'', h_nonce_hex = ''0'', h_difficulty_target = ''f'', h_log_slots = 24,
      h_active_slot_count = 1, h_alloc_counter = 7\<rparr>"

definition sample_output :: output_info where
  "sample_output = \<lparr>out_page = 0, out_lane = 0, out_slot_index = 3, out_amount = 50, out_owner = ''m'', out_creation_id = 9\<rparr>"

definition sample_coinbase :: transaction_info where
  "sample_coinbase =
     \<lparr>tx_position = 0, tx_txid = ''c'', tx_page_count = 1, tx_live_inputs = 0, tx_live_outputs = 1, tx_fee = 0,
      tx_coinbase = True, tx_development_payout = False, tx_epoch_anchor = ''e'', tx_input_owner = None,
      tx_input_sum = ''0'', tx_output_sum = ''50'', tx_page_hashes = [''c''], tx_inputs = [],
      tx_outputs = [sample_output]\<rparr>"

definition sample_retained :: retained_block_info where
  "sample_retained =
     \<lparr>rb_proof_class = ''B25 / m22'', rb_logical_transactions = 1, rb_user_pages = 0, rb_live_inputs = 0,
      rb_live_outputs = 1, rb_reward = 50, rb_total_fees = ''0'', rb_block_bytes = 10,
      rb_transactions = [sample_coinbase]\<rparr>"

definition sample_details :: "u64 \<Rightarrow> string \<Rightarrow> block_details_info" where
  "sample_details height hash = \<lparr>d_header = sample_header height hash, d_retained = Some sample_retained\<rparr>"

definition pruned_details :: "u64 \<Rightarrow> string \<Rightarrow> block_details_info" where
  "pruned_details height hash = \<lparr>d_header = sample_header height hash, d_retained = None\<rparr>"

definition sample_db :: db where
  "sample_db = stored empty_db (store_block empty_db (sample_details 5 ''A'') ''details'' ''t1'')"

text \<open>
  A small wire format: height, identity and kind of a block (0 without transactions, 1 with a
  coinbase, 2 with a coinbase and one spend); "compression" reverses the bytes.
\<close>

definition sample_cb_page :: page where
  "sample_cb_page = \<lparr>pg_txid = [99], pg_epoch_anchor = [101], pg_validity_bitmap = 0, pg_live_inputs = [],
     pg_live_outputs = [(0, \<lparr>co_slot_index = 3, co_amount = 50, co_owner = [109]\<rparr>)]\<rparr>"

definition sample_spend_page :: page where
  "sample_spend_page = \<lparr>pg_txid = [100], pg_epoch_anchor = [101], pg_validity_bitmap = 3,
     pg_live_inputs = [(0, \<lparr>ci_slot_index = 3, ci_amount = 50, ci_creation_id = 4\<rparr>)],
     pg_live_outputs = [(0, \<lparr>co_slot_index = 4, co_amount = 40, co_owner = [110]\<rparr>)]\<rparr>"

definition sample_group :: spend_group where
  "sample_group = \<lparr>gr_start_page = 1, gr_page_count = 1, gr_logical_txid = [100], gr_live_inputs = 1,
     gr_live_outputs = 1, gr_fee = 10, gr_epoch_anchor = [101], gr_input_owner = [109], gr_input_sum = 50,
     gr_output_sum = 40\<rparr>"

definition sample_block :: "u8 \<Rightarrow> u8 \<Rightarrow> u8 \<Rightarrow> chain_block" where
  "sample_block height tag kind =
     \<lparr>bk_header = \<lparr>ch_height = ucast height, ch_alloc_counter = 9, ch_tx_root = [7], ch_rest = [tag]\<rparr>,
      bk_transactions = (if kind = 0 then [] else if kind = 1 then [sample_cb_page] else [sample_cb_page, sample_spend_page])\<rparr>"

definition sample_lib :: chain_lib where
  "sample_lib =
     \<lparr>block_from_bytes = (\<lambda>bs. case bs of
          [height, tag, kind] \<Rightarrow> if kind \<le> 2 then Inr (sample_block height tag kind) else bail ''malformed'' | _ \<Rightarrow> bail ''malformed''),
      block_to_bytes = (\<lambda>b. [ucast (ch_height (bk_header b)), hd (ch_rest (bk_header b)), of_nat (length (bk_transactions b))]),
      block_id = ch_rest,
      compute_tx_root = (\<lambda>pages. Inr [7]),
      validate_page_stream = (\<lambda>pages. Inr \<lparr>ps_has_development_payout = False, ps_page_count = of_nat (length pages - 1),
         ps_live_inputs = of_nat (length pages - 1), ps_live_outputs = of_nat (length pages - 1),
         ps_groups = (if length pages = 2 then [sample_group] else []), ps_proof_class = B25\<rparr>),
      compute_logical_txids = (\<lambda>pages. Inr (map pg_txid pages)),
      user_body_start = (\<lambda>s i. i), user_logical_index = (\<lambda>s i. Suc i), coinbase_creation_id = (\<lambda>h. 2 ^ 63 + h),
      chain_v2_active = (\<lambda>h. 210537 \<le> h), to_bech32 = map (char_of \<circ> unat), hex_encode = map (char_of \<circ> unat),
      max_block_bytes = 100, contract_bit = 1, terminal_bit = 2,
      zlib_compress = (\<lambda>bs. Inr (rev bs)), zlib_decompress = (\<lambda>bs. Inr (rev bs))\<rparr>"

text \<open>A node that answers with one block at height 5, with or without its body, and no raw bytes.\<close>

definition sample_node :: "string \<Rightarrow> block_details_info option \<Rightarrow> node" where
  "sample_node hash details =
     \<lparr>block_count = Inr 5, get_block_header = (\<lambda>h. Inr (if h = 5 then Some (sample_header 5 hash) else None)),
      get_block_details = (\<lambda>h. Inr (if h = 5 then details else None)), get_block_raw = (\<lambda>h. Inr None),
      get_slot = (\<lambda>i. bail ''no slot''), get_slots_by_owner = (\<lambda>a. Inr []), get_state_map = bail ''no map''\<rparr>"

lemmas sample_defs = sample_header_def sample_output_def sample_coinbase_def sample_retained_def sample_details_def
  pruned_details_def sample_db_def sample_node_def sample_lib_def sample_block_def sample_cb_page_def sample_spend_page_def sample_group_def

lemma inr_projr: "\<not> isl r \<Longrightarrow> r = Inr (projr r)"
  by (cases r) simp_all

lemma inr_pair: "\<not> isl r \<Longrightarrow> r = Inr (fst (projr r), snd (projr r))"
  by (cases r) simp_all

lemma trusted_sample: "trusted_log sample_db"
  by code_simp

end
