(* ===== verification/Reorg.thy ===== *)
theory Reorg
  imports Samples
begin

text \<open>
  Reorgs. What storing a block, recording a gap and re-checking a height do to the chain this
  archive calls canonical, and the contract of the operations of a poll cycle: they keep the
  invariant, only add evidence, and never create a header-only block.
\<close>

section \<open>Operations of a poll cycle\<close>

definition key_sig :: "block_row \<Rightarrow> (int \<times> string) \<times> bool" where
  "key_sig b = (block_key b, archived b)"

definition header_only_keys :: "db \<Rightarrow> (int \<times> string) set" where
  "header_only_keys c = {k. (k, False) \<in> key_sig ` set (blocks c)}"

lemma no_header_only_keys: "no_header_only c h \<longleftrightarrow> (as_i64 (h_height h), h_hash h) \<notin> header_only_keys c"
  by (auto simp: no_header_only_def header_only_keys_def key_sig_def image_iff)

definition step_ok :: "db \<Rightarrow> db \<Rightarrow> bool" where
  "step_ok c c' = (wf_db c' \<and> evidence_le c c' \<and> header_only_keys c' \<subseteq> header_only_keys c)"

lemma step_ok_refl: "wf_db c \<Longrightarrow> step_ok c c"
  by (simp add: step_ok_def)

lemma step_ok_trans: "step_ok a b \<Longrightarrow> step_ok b c \<Longrightarrow> step_ok a c"
  by (auto simp: step_ok_def intro: evidence_trans)

lemma step_ok_wf: "step_ok c c' \<Longrightarrow> wf_db c'"
  by (simp add: step_ok_def)

lemma step_ok_no_header: "step_ok c c' \<Longrightarrow> no_header_only c h \<Longrightarrow> no_header_only c' h"
  by (auto simp: step_ok_def no_header_only_keys)

locale body_operation = archive_operation +
  assumes adds_no_headers: "wf_db c \<Longrightarrow> pre a c \<Longrightarrow> header_only_keys (step a c) \<subseteq> header_only_keys c"
begin

lemma ok: "wf_db c \<Longrightarrow> pre a c \<Longrightarrow> step_ok c (step a c)"
  by (simp add: step_ok_def keeps_wf keeps_evidence adds_no_headers)

end

interpretation b_set_state: body_operation "\<lambda>(key, value) c. set_state c key value" "\<lambda>_ _. True"
  by unfold_locales (auto simp: header_only_keys_def set_state_def)

interpretation b_record_gap: body_operation
  "\<lambda>(height, hash, now, note) c. record_gap c height hash now note" "\<lambda>_ _. True"
  by unfold_locales (auto simp: header_only_keys_def record_gap_def)

interpretation b_resolve_gap: body_operation
  "\<lambda>(height, now, resolution) c. resolve_gap c height now resolution" "\<lambda>_ _. True"
  by unfold_locales (auto simp: header_only_keys_def resolve_gap_def)

interpretation b_mark_orphaned: body_operation
  "\<lambda>(bid, now) c. mark_orphaned c bid now" "\<lambda>(bid, now) c. has_block c bid"
  by unfold_locales (auto simp: header_only_keys_def mark_orphaned_def)

interpretation b_mark_body_recovered: body_operation
  "\<lambda>(bid, body_source) c. mark_body_recovered c bid body_source"
  "\<lambda>(bid, body_source) c. archived_block c bid \<and> body_source \<noteq> HEADER_ONLY_SOURCE"
  by unfold_locales
    (auto simp: mark_body_recovered_def header_only_keys_def key_sig_def in_update_where archived_def block_key_def
      split: if_splits)

interpretation b_insert_transactions: body_operation
  "\<lambda>(bid, retained) c. insert_transactions c bid retained" "\<lambda>(bid, retained) c. archived_block c bid"
proof unfold_locales
  fix a :: "int \<times> retained_block_info" and c
  obtain bid retained where a: "a = (bid, retained)" by (cases a)
  have "blocks (foldl (\<lambda>c tx. insert_transaction bid tx c) c txs) = blocks c" for txs c
    by (induction txs arbitrary: c) auto
  then have "blocks (insert_transactions c bid retained)
      = update_where (\<lambda>b. b_id b = bid) (body_columns retained) (blocks c)"
    by (simp add: insert_transactions_def)
  then show "header_only_keys ((\<lambda>(bid, retained) c. insert_transactions c bid retained) a c) \<subseteq> header_only_keys c"
    by (simp add: a header_only_keys_def image_update_where key_sig_def body_columns_def archived_def block_key_def)
qed

interpretation b_set_contract_flags: body_operation
  "\<lambda>(height, hash, flags) c. set_contract_flags c height hash flags" "\<lambda>_ _. True"
  by unfold_locales
    (simp add: set_contract_flags_def Let_def header_only_keys_def image_update_where key_sig_def archived_def
      block_key_def split: option.splits prod.splits)

interpretation b_record_contract_flags: body_operation
  "\<lambda>(lib, height, hash, raw) c. record_contract_flags lib c height hash raw" "\<lambda>_ _. True"
proof unfold_locales
  fix a :: "chain_lib \<times> u64 \<times> string \<times> bytes option" and c assume wf: "wf_db c"
  obtain lib height hash raw where a: "a = (lib, height, hash, raw)" by (cases a)
  have "step_ok c (record_contract_flags lib c height hash raw)"
    using b_set_contract_flags.ok [OF wf, of "(height, hash, f)" for f] step_ok_refl [OF wf]
    by (simp add: record_contract_flags_def split: option.splits sum.splits)
  then show "wf_db ((\<lambda>(lib, height, hash, raw) c. record_contract_flags lib c height hash raw) a c)"
    "evidence_le c ((\<lambda>(lib, height, hash, raw) c. record_contract_flags lib c height hash raw) a c)"
    "header_only_keys ((\<lambda>(lib, height, hash, raw) c. record_contract_flags lib c height hash raw) a c) \<subseteq> header_only_keys c"
    by (simp_all add: a step_ok_def)
qed

lemma block_id_of_has_block: "block_id_of c height hash = Some bid \<Longrightarrow> has_block c bid"
  by (auto simp: block_id_of_def has_block_def find_Some_iff)

interpretation b_store_raw: body_operation
  "\<lambda>(lib, height, hash, bytes, source, now) c. committed c (store_raw lib c height hash bytes source now)" "\<lambda>_ _. True"
proof unfold_locales
  fix a :: "chain_lib \<times> u64 \<times> string \<times> bytes \<times> string \<times> string" and c assume wf: "wf_db c"
  obtain lib height hash bytes source now where a: "a = (lib, height, hash, bytes, source, now)" by (cases a)
  have "step_ok c c'" if "store_raw lib c height hash bytes source now = Inr (c', x)" for c' x
    using that wf block_id_of_has_block [of c height hash]
      op_insert_raw_block.keeps_wf [of c "(i, k, l, d, s, t)" for i k l d s t]
      op_insert_raw_block.keeps_evidence [of c "(i, k, l, d, s, t)" for i k l d s t]
    by (auto simp: store_raw_def and_then_Inr_iff step_ok_def header_only_keys_def insert_raw_block_def
        split: option.splits if_splits)
  then have "step_ok c (committed c (store_raw lib c height hash bytes source now))"
    using wf by (auto simp: committed_def step_ok_refl split: sum.splits)
  then show "wf_db ((\<lambda>(lib, height, hash, bytes, source, now) c. committed c (store_raw lib c height hash bytes source now)) a c)"
    "evidence_le c ((\<lambda>(lib, height, hash, bytes, source, now) c. committed c (store_raw lib c height hash bytes source now)) a c)"
    "header_only_keys ((\<lambda>(lib, height, hash, bytes, source, now) c. committed c (store_raw lib c height hash bytes source now)) a c) \<subseteq> header_only_keys c"
    by (simp_all add: a step_ok_def)
qed

interpretation b_keep_raw: body_operation
  "\<lambda>(lib, cfg, height, hash, raw, src, now) c. keep_raw lib c cfg height hash raw src now" "\<lambda>_ _. True"
proof unfold_locales
  fix a :: "chain_lib \<times> config \<times> u64 \<times> string \<times> bytes option \<times> string \<times> string" and c assume wf: "wf_db c"
  obtain lib cfg height hash raw src now where a: "a = (lib, cfg, height, hash, raw, src, now)" by (cases a)
  have "step_ok c (keep_raw lib c cfg height hash raw src now)"
    using b_store_raw.ok [OF wf, of "(lib, height, hash, b, src, now)" for b] step_ok_refl [OF wf]
    by (simp add: keep_raw_def split: option.splits)
  then show "wf_db ((\<lambda>(lib, cfg, height, hash, raw, src, now) c. keep_raw lib c cfg height hash raw src now) a c)"
    "evidence_le c ((\<lambda>(lib, cfg, height, hash, raw, src, now) c. keep_raw lib c cfg height hash raw src now) a c)"
    "header_only_keys ((\<lambda>(lib, cfg, height, hash, raw, src, now) c. keep_raw lib c cfg height hash raw src now) a c) \<subseteq> header_only_keys c"
    by (simp_all add: a step_ok_def)
qed

section \<open>Writing a block\<close>

lemma header_row_keys:
  assumes wf: "wf_db c" and src: "source \<noteq> Some HEADER_ONLY_SOURCE"
  shows "header_only_keys (fst (insert_block_header_row c h captured source now)) = header_only_keys c"
proof -
  have "wf_blocks (blocks c)" using wf by (simp add: wf_db_def)
  then show ?thesis
    using src by (rule_tac insert_block_header_row_unfold [of c h captured source now])
      (auto simp: header_only_keys_def key_sig_def header_row_def archived_def)
qed

lemma header_row_step_ok:
  assumes "wf_db c" "source \<noteq> Some HEADER_ONLY_SOURCE" "no_header_only c h"
  shows "step_ok c (fst (insert_block_header_row c h captured source now))"
  using insert_block_header_row_ok [OF assms refl] header_row_keys [OF assms(1,2)] by (simp add: step_ok_def)

interpretation b_record_gap_block: body_operation
  "\<lambda>(details, note, now) c. record_gap_block c details note now"
  "\<lambda>(details, note, now) c. no_header_only c (d_header details)"
proof unfold_locales
  fix a :: "block_details_info \<times> string \<times> string" and c assume wf: "wf_db c"
  obtain details msg now where a: "a = (details, msg, now)" by (cases a)
  have "header_only_keys (record_gap c' h x n m) = header_only_keys c'" for c' h x n m
    by (simp add: header_only_keys_def record_gap_def)
  then show "header_only_keys ((\<lambda>(details, note, now) c. record_gap_block c details note now) a c) \<subseteq> header_only_keys c"
    using header_row_keys [OF wf, of None] by (simp add: a record_gap_block_def Let_def)
qed

interpretation b_store_block: body_operation
  "\<lambda>(details, src, now) c. stored c (store_block c details src now)"
  "\<lambda>(details, src, now) c. no_header_only c (d_header details) \<and> src \<noteq> HEADER_ONLY_SOURCE"
proof unfold_locales
  fix a :: "block_details_info \<times> string \<times> string" and c
  assume wf: "wf_db c"
    and pre: "(\<lambda>(details, src, now) c. no_header_only c (d_header details) \<and> src \<noteq> HEADER_ONLY_SOURCE) a c"
  obtain details src now where a: "a = (details, src, now)" by (cases a)
  let ?h = "d_header details"
  have src: "src \<noteq> HEADER_ONLY_SOURCE" and nh: "no_header_only c ?h" using pre by (simp_all add: a)
  have gap: "header_only_keys (resolve_gap c' h n m) = header_only_keys c'" for c' h n m
    by (simp add: header_only_keys_def resolve_gap_def)
  have "step_ok c (stored c (store_block c details src now))"
  proof (cases "d_retained details")
    case None
    then show ?thesis using wf by (simp add: store_block_def Let_def step_ok_refl)
  next
    case (Some retained)
    show ?thesis
    proof (cases "known_canonical c ?h")
      case True
      show ?thesis
      proof (cases "uncaptured_block_id c (h_height ?h) (h_hash ?h)")
        case None
        with Some True wf show ?thesis by (simp add: store_block_def Let_def step_ok_refl)
      next
        case unc: (Some bid)
        have ab: "archived_block c bid" by (rule uncaptured_archived [OF unc])
        let ?c1 = "insert_transactions c bid retained"
        have s1: "step_ok c ?c1" using b_insert_transactions.ok [OF wf, of "(bid, retained)"] ab by simp
        have ab1: "archived_block ?c1 bid" using ab by (simp add: archived_block_def)
        let ?c2 = "mark_body_recovered ?c1 bid src"
        have s2: "step_ok ?c1 ?c2"
          using b_mark_body_recovered.ok [OF step_ok_wf [OF s1], of "(bid, src)"] ab1 src by simp
        have "step_ok ?c2 (resolve_gap ?c2 (h_height ?h) now (''recovered via '' @ src))"
          using b_resolve_gap.ok [OF step_ok_wf [OF s2], of "(h_height ?h, now, ''recovered via '' @ src)"] by simp
        from step_ok_trans [OF step_ok_trans [OF s1 s2] this] show ?thesis
          using Some True unc by (simp add: store_block_def Let_def)
      qed
    next
      case False
      obtain c1 bid where r: "insert_block_header_row c ?h True (Some src) now = (c1, bid)" by fastforce
      have "step_ok c c1" "archived_block c1 bid"
        using insert_block_header_row_ok [OF wf _ nh r [symmetric]] header_row_step_ok [OF wf _ nh, of "Some src" True now] src
        by (simp_all add: r)
      then have "step_ok c (insert_transactions c1 bid retained)"
        using b_insert_transactions.ok [of c1 "(bid, retained)"] step_ok_trans step_ok_wf by fastforce
      then show ?thesis using Some False r by (simp add: store_block_def Let_def)
    qed
  qed
  then show "header_only_keys ((\<lambda>(details, src, now) c. stored c (store_block c details src now)) a c) \<subseteq> header_only_keys c"
    by (simp add: a step_ok_def)
qed

lemma store_with_extras_ok:
  assumes "wf_db c" "no_header_only c (d_header details)" "src \<noteq> HEADER_ONLY_SOURCE"
    and "store_with_extras lib c cfg height details src raw now = Inr c'"
  shows "step_ok c c'"
proof -
  obtain c1 where c1: "store_block c details src now = Inr c1"
    and c': "c' = keep_raw lib (record_contract_flags lib c1 height (h_hash (d_header details)) raw) cfg height
      (h_hash (d_header details)) raw ''node'' now"
    using assms(4) by (auto simp: store_with_extras_def Let_def and_then_Inr_iff)
  have s1: "step_ok c c1" using b_store_block.ok [OF assms(1), of "(details, src, now)"] assms(2,3) c1 by simp
  let ?c2 = "record_contract_flags lib c1 height (h_hash (d_header details)) raw"
  have s2: "step_ok c1 ?c2"
    using b_record_contract_flags.ok [OF step_ok_wf [OF s1], of "(lib, height, h_hash (d_header details), raw)"] by simp
  have "step_ok ?c2 c'"
    using b_keep_raw.ok [OF step_ok_wf [OF s2], of "(lib, cfg, height, h_hash (d_header details), raw, ''node'', now)"]
    by (simp add: c')
  with s1 s2 show ?thesis by (blast intro: step_ok_trans)
qed

section \<open>Which block is canonical afterwards\<close>

lemma trusted_neutral:
  "trusted_log c \<Longrightarrow> same_chain c c' \<Longrightarrow> wf_db c' \<Longrightarrow> trusted_log c'"
  by (simp add: trusted_log_def same_chain_one_canonical same_chain_clock)

lemma same_chain_rows: "same_chain c c' \<Longrightarrow> canonical_rows c' k = canonical_rows c k"
proof -
  assume s: "same_chain c c'"
  have "(i, x) \<in> canonical_rows d k \<longleftrightarrow> (i, k, x) \<in> ikey ` set (blocks d) \<and> is_canonical d i" for d i x
    unfolding in_ikeys by (auto simp: canonical_rows_def)
  then show ?thesis by (auto simp: same_chain_ikeys [OF s] same_chain_status [OF s])
qed

lemma header_row_trusted:
  assumes tr: "trusted_log c" and later: "later_than_all c now" and free: "canonical_at c (h_height h) = {}"
    and src: "source \<noteq> Some HEADER_ONLY_SOURCE" and nh: "no_header_only c h"
    and r: "insert_block_header_row c h captured source now = (c', bid)"
  shows "trusted_log c'" "canonical_rows c' k = (if k = as_i64 (h_height h) then {(bid, h_hash h)} else canonical_rows c k)"
proof -
  have wf: "wf_db c" and one: "one_canonical c" and clk: "clock_forward c" using tr by (auto simp: trusted_log_def)
  have rows: "canonical_rows c' k = (if k = as_i64 (h_height h) then {(bid, h_hash h)} else canonical_rows c k)" for k
    using header_row_canonical(1) [OF wf src r, of k] free by (simp add: canonical_at_def)
  have wf': "wf_db c'" using insert_block_header_row_ok(1) [OF wf src nh r [symmetric]] by simp
  have "one_canonical c'"
    using one unfolding one_canonical_rows [OF wf] one_canonical_rows [OF wf'] rows by auto
  moreover have "clock_forward c'"
    using clock_append_status [OF wf clk later, of bid Canonical] header_row_canonical(2) [OF wf src r]
    by (simp add: clock_forward_def)
  ultimately show "trusted_log c'" using wf' by (simp add: trusted_log_def)
  show "canonical_rows c' k = (if k = as_i64 (h_height h) then {(bid, h_hash h)} else canonical_rows c k)" by (rule rows)
qed

text \<open>Storing a block at a height that has none makes it that height's canonical block.\<close>

definition now_canonical :: "db \<Rightarrow> db \<Rightarrow> u64 \<Rightarrow> string \<Rightarrow> bool" where
  "now_canonical c c' height hash = (\<exists>bid. \<forall>h. canonical_at c' h = (if h = height then {(bid, hash)} else canonical_at c h))"

lemma not_known: "trusted_log c \<Longrightarrow> canonical_at c (h_height h) = {} \<Longrightarrow> \<not> known_canonical c h"
  using by_time.answer_none_iff [of c "h_height h"] by (simp add: known_canonical_def)

lemma store_block_canonical:
  assumes tr: "trusted_log c" and later: "later_than_all c now" and free: "canonical_at c (h_height (d_header d)) = {}"
    and src: "src \<noteq> HEADER_ONLY_SOURCE" and nh: "no_header_only c (d_header d)"
    and r: "store_with_extras lib c cfg height d src raw now = Inr c'"
  shows "trusted_log c'" "now_canonical c c' (h_height (d_header d)) (h_hash (d_header d))"
proof -
  let ?h = "d_header d"
  obtain c1 where c1: "store_block c d src now = Inr c1"
    and c': "c' = keep_raw lib (record_contract_flags lib c1 height (h_hash ?h) raw) cfg height (h_hash ?h) raw ''node'' now"
    using r by (auto simp: store_with_extras_def Let_def and_then_Inr_iff)
  have wf': "wf_db c'"
    using store_with_extras_ok [OF _ nh src r] tr by (simp add: step_ok_def trusted_log_def)
  obtain retained where ret: "d_retained d = Some retained"
    using c1 by (cases "d_retained d") (auto simp: store_block_def Let_def)
  obtain c0 bid where row: "insert_block_header_row c ?h True (Some src) now = (c0, bid)" by fastforce
  have c1': "c1 = insert_transactions c0 bid retained"
    using c1 ret row not_known [OF tr free] by (simp add: store_block_def Let_def)
  have "same_chain c0 c1"
    using n_insert_transactions.neutral [of c0 "(bid, retained)"] by (simp add: c1')
  moreover have "same_chain c1 c'"
    using n_record_contract_flags.neutral [of c1 "(lib, height, h_hash ?h, raw)"]
      n_keep_raw.neutral [of "record_contract_flags lib c1 height (h_hash ?h) raw" "(lib, cfg, height, h_hash ?h, raw, ''node'', now)"]
    by (auto simp: c' intro: same_chain_trans)
  ultimately have same: "same_chain c0 c'" by (rule same_chain_trans)
  note hr = header_row_trusted [OF tr later free _ nh row]
  show "trusted_log c'" using trusted_neutral [OF hr(1) same wf'] src by simp
  have "canonical_at c' h = (if h = h_height ?h then {(bid, h_hash ?h)} else canonical_at c h)" for h
    using hr(2) src same_chain_rows [OF same] by (simp add: canonical_at_def)
  then show "now_canonical c c' (h_height ?h) (h_hash ?h)" by (auto simp: now_canonical_def)
qed

lemma record_gap_block_canonical:
  assumes tr: "trusted_log c" and later: "later_than_all c now" and free: "canonical_at c (h_height (d_header d)) = {}"
    and nh: "no_header_only c (d_header d)"
  shows "trusted_log (record_gap_block c d note now)"
    "now_canonical c (record_gap_block c d note now) (h_height (d_header d)) (h_hash (d_header d))"
proof -
  let ?h = "d_header d"
  obtain c0 bid where row: "insert_block_header_row c ?h False None now = (c0, bid)" by fastforce
  have c': "record_gap_block c d note now = record_gap c0 (h_height ?h) (Some (h_hash ?h)) now note"
    using not_known [OF tr free] row by (simp add: record_gap_block_def Let_def)
  have same: "same_chain c0 (record_gap_block c d note now)"
    using n_record_gap.neutral [of c0 "(h_height ?h, Some (h_hash ?h), now, note)"] by (simp add: c')
  have wf': "wf_db (record_gap_block c d note now)"
    using op_record_gap_block.keeps_wf [of c "(d, note, now)"] tr nh by (simp add: trusted_log_def)
  note hr = header_row_trusted [OF tr later free _ nh row]
  show "trusted_log (record_gap_block c d note now)" using trusted_neutral [OF hr(1) same wf'] by simp
  have "canonical_at (record_gap_block c d note now) h = (if h = h_height ?h then {(bid, h_hash ?h)} else canonical_at c h)" for h
    using hr(2) same_chain_rows [OF same] by (simp add: canonical_at_def)
  then show "now_canonical c (record_gap_block c d note now) (h_height ?h) (h_hash ?h)"
    by (auto simp: now_canonical_def)
qed

section \<open>Re-checking a height\<close>

lemma and_then_Inl_iff: "and_then r f = Inl e \<longleftrightarrow> r = Inl e \<or> (\<exists>x. r = Inr x \<and> f x = Inl e)"
  by (cases r) auto

lemma resolve_body_header:
  "resolve_body lib rpc cfg d msg = Store d' src raw \<Longrightarrow> d_header d' = d_header d \<and> d_retained d' \<noteq> None \<and> src \<noteq> HEADER_ONLY_SOURCE"
  "resolve_body lib rpc cfg d msg = Gap d' reason \<Longrightarrow> d' = d"
  by (auto simp: resolve_body_def HEADER_ONLY_SOURCE_def split: if_splits fallback_outcome.splits)

lemma ingest_store:
  assumes "ingest_height lib c rpc cfg height now = Inr (c', x)" "get_block_details rpc height = Inr (Some d)"
    and "resolve_body lib rpc cfg d ''body already pruned by node on first ingest attempt'' = Store d' src raw"
  obtains raw' c1 where "store_with_extras lib c cfg height d' src raw' now = Inr c1"
    "c' = (if src = ''getblock'' then c1 else if decoder_selfcheck cfg
       then (case raw' of Some bytes \<Rightarrow> selfcheck lib c1 height d' bytes | None \<Rightarrow> c1) else c1)"
  using assms by (auto simp: ingest_height_def Let_def and_then_Inr_iff)

lemma ingest_gap:
  assumes "ingest_height lib c rpc cfg height now = Inr (c', x)" "get_block_details rpc height = Inr (Some d)"
    and "resolve_body lib rpc cfg d ''body already pruned by node on first ingest attempt'' = Gap d' reason"
  shows "c' = record_gap_block c d reason now"
  using assms resolve_body_header(2) [OF assms(3)] by (simp add: ingest_height_def)

lemma store_with_extras_unfold:
  assumes "store_with_extras lib c cfg height d src raw now = Inr c'"
  obtains c1 where "store_block c d src now = Inr c1"
    "c' = keep_raw lib (record_contract_flags lib c1 height (h_hash (d_header d)) raw) cfg height (h_hash (d_header d)) raw ''node'' now"
  using assms by (auto simp: store_with_extras_def Let_def and_then_Inr_iff)

lemma replace_block_ok:
  assumes wf: "wf_db c" and r: "replace_block lib c rpc cfg height new_hash (map_option (\<lambda>d. resolve_body lib rpc cfg d msg) details) t1 t2 = Inr c'"
    and nh: "\<And>d. details = Some d \<Longrightarrow> no_header_only c (d_header d)"
  shows "step_ok c c'"
proof (cases details)
  case None
  then show ?thesis
    using r b_record_gap.ok [OF wf, of "(height, Some new_hash, t1, REORG_NOTE)"] by (simp add: replace_block_def)
next
  case (Some d)
  show ?thesis
  proof (cases "resolve_body lib rpc cfg d msg")
    case (Store d' src raw)
    then obtain raw' where "store_with_extras lib c cfg height d' src raw' t2 = Inr c'"
      using r Some by (auto simp: replace_block_def Let_def)
    from store_with_extras_ok [OF wf _ _ this] show ?thesis
      using nh [OF Some] resolve_body_header(1) [OF Store] by simp
  next
    case (Gap d' reason)
    show ?thesis
      using r Some Gap nh [OF Some] resolve_body_header(2) [OF Gap]
        b_record_gap_block.ok [OF wf, of "(d, reason, t2)"]
      by (auto simp: replace_block_def)
  qed
qed

lemma canonical_answer_block:
  assumes "wf_db c" "canonical_hash_at c height = Some (bid, hash)"
  shows "has_block c bid"
proof -
  obtain b s where "(b, s) \<in> set (canonical_candidates c height)" "bid = b_id b"
    using assms(2) by (auto simp: canonical_hash_at_def dest: latest_in)
  then show ?thesis by (auto simp: canonical_candidates_def has_block_def)
qed

lemma recheck_ok:
  assumes wf: "wf_db c" and r: "recheck_height lib c rpc cfg height t1 t2 = Inr c'"
    and nh: "\<And>d. get_block_details rpc height = Inr (Some d) \<Longrightarrow> no_header_only c (d_header d)"
  shows "step_ok c c'"
proof (cases "c' = c")
  case False
  obtain hdr :: block_header_info and bid hash details where f: "canonical_hash_at c height = Some (bid, hash)"
    "get_block_details rpc height = Inr details"
    "replace_block lib (mark_orphaned c bid t1) rpc cfg height (h_hash hdr)
       (map_option (\<lambda>d. resolve_body lib rpc cfg d REORG_NOTE) details) t1 t2 = Inr c'"
    using r False by (auto simp: recheck_height_def and_then_def Let_def split: option.splits if_splits sum.splits)
  have s1: "step_ok c (mark_orphaned c bid t1)"
    using b_mark_orphaned.ok [OF wf, of "(bid, t1)"] canonical_answer_block [OF wf f(1)] by simp
  have "no_header_only (mark_orphaned c bid t1) (d_header d)" if "details = Some d" for d
    using nh f(2) that step_ok_no_header [OF s1] by simp
  from replace_block_ok [OF step_ok_wf [OF s1] f(3) this] s1 show ?thesis
    by (blast intro: step_ok_trans)
qed (simp add: step_ok_refl wf)

text \<open>The old block is no longer canonical, and the height is free for its replacement.\<close>

lemma orphaned_height:
  assumes tr: "trusted_log c" and later: "later_than_all c now" and at: "canonical_hash_at c height = Some (bid, hash)"
  shows "trusted_log (mark_orphaned c bid now)" "canonical_at (mark_orphaned c bid now) height = {}"
    "h \<noteq> height \<Longrightarrow> canonical_at (mark_orphaned c bid now) h = canonical_at c h"
proof -
  have wf: "wf_db c" using tr by (simp add: trusted_log_def)
  have hb: "has_block c bid" by (rule canonical_answer_block [OF wf at])
  show "trusted_log (mark_orphaned c bid now)"
    using tr op_mark_orphaned.keeps_wf [OF wf, of "(bid, now)"] hb one_canonical_orphaned [OF wf]
      clock_append_status [OF wf _ later]
    by (simp add: trusted_log_def mark_orphaned_def)
  have only: "r = (bid, hash)" if "r \<in> canonical_at c height" for r
    using by_time.unique [OF tr that] by_time.sound [OF tr at] by simp
  show "canonical_at (mark_orphaned c bid now) height = {}"
    using only by (auto simp: canonical_at_def canonical_rows_orphaned [OF wf])
  assume h: "h \<noteq> height"
  have "fst r \<noteq> bid" if r: "r \<in> canonical_at c h" for r
  proof
    assume eq: "fst r = bid"
    obtain b where b: "b \<in> set (blocks c)" "b_height b = as_i64 h" "b_id b = bid"
      using r eq by (auto simp: canonical_at_def canonical_rows_def)
    obtain b' where b': "b' \<in> set (blocks c)" "b_height b' = as_i64 height" "b_id b' = bid"
      using by_time.sound [OF tr at] by (auto simp: canonical_at_def canonical_rows_def)
    have "b = b'" using block_with_key_unique [OF wf b(1) b'(1)] b(3) b'(3) by simp
    with b b' h show False by simp
  qed
  then show "canonical_at (mark_orphaned c bid now) h = canonical_at c h"
    by (auto simp: canonical_at_def canonical_rows_orphaned [OF wf])
qed

lemma later_mark_orphaned: "later_than_all c t1 \<Longrightarrow> t1 < t2 \<Longrightarrow> later_than_all (mark_orphaned c bid t1) t2"
  by (simp add: mark_orphaned_def later_append_status)

lemma recheck_unfold:
  assumes "get_block_header rpc height = Inr (Some hdr)" "canonical_hash_at c height = Some (bid, old)" "old \<noteq> h_hash hdr"
    and "is_header_only c bid = Inr False" "get_block_details rpc height = Inr details"
  shows "recheck_height lib c rpc cfg height t1 t2
    = replace_block lib (mark_orphaned c bid t1) rpc cfg height (h_hash hdr)
       (map_option (\<lambda>d. resolve_body lib rpc cfg d REORG_NOTE) details) t1 t2"
  using assms by (simp add: recheck_height_def Let_def)

section \<open>Properties\<close>

text \<open>
  C8. While the clock never steps back and no height has two canonical blocks, the query every
  writer uses (largest time stamp per block) answers with the block that the status log says is
  canonical, and with nothing exactly when there is none.
\<close>
theorem canonical_query_reads_the_status_log:
  assumes "trusted_log c"
  shows "(canonical_hash_at c height = Some (bid, hash)) = ((bid, hash) \<in> canonical_at c height)
    \<and> (canonical_hash_at c height = None) = (canonical_at c height = {})"
  using by_time.answer_iff [OF assms] by_time.answer_none_iff [OF assms] by blast

lemma canonical_query_reads_the_status_log_witness:
  "(canonical_hash_at sample_db 5 = Some (1, ''A'')) = ((1, ''A'') \<in> canonical_at sample_db 5)
    \<and> (canonical_hash_at sample_db 5 = None) = (canonical_at sample_db 5 = {})"
  by (rule canonical_query_reads_the_status_log [OF trusted_sample])

text \<open>
  C1. When the node reports another block at a height of the archive and its details, the re-check
  makes the node's block the one canonical block of that height, whether its body could still be
  fetched or only a gap could be recorded; no other height changes, the log stays trustworthy, and
  no evidence is lost.
\<close>
theorem recheck_follows_the_node:
  assumes "trusted_log c" "later_than_all c t1" "t1 < t2"
    and "get_block_header rpc height = Inr (Some hdr)" "canonical_hash_at c height = Some (bid, old)" "old \<noteq> h_hash hdr"
    and "is_header_only c bid = Inr False" "get_block_details rpc height = Inr (Some d)" "d_header d = hdr" "h_height hdr = height"
    and "no_header_only c hdr" "recheck_height lib c rpc cfg height t1 t2 = Inr c'"
  shows "(\<exists>bid'. canonical_at c' height = {(bid', h_hash hdr)})
    \<and> {h. canonical_at c' h \<noteq> canonical_at c h} \<subseteq> {height} \<and> trusted_log c' \<and> evidence_le c c'"
proof -
  let ?c1 = "mark_orphaned c bid t1"
  have wf: "wf_db c" using assms(1) by (simp add: trusted_log_def)
  note free = orphaned_height [OF assms(1,2,5)]
  have later: "later_than_all ?c1 t2" by (rule later_mark_orphaned [OF assms(2,3)])
  have s: "step_ok c c'" using recheck_ok [OF wf assms(12)] assms(8,9,11) by simp
  have nh1: "no_header_only ?c1 hdr" using assms(11) by (simp add: no_header_only_def mark_orphaned_def)
  have "trusted_log c' \<and> now_canonical ?c1 c' height (h_hash hdr)"
  proof (cases "resolve_body lib rpc cfg d REORG_NOTE")
    case (Store d' src raw)
    note res = resolve_body_header(1) [OF Store]
    obtain raw' where "store_with_extras lib ?c1 cfg height d' src raw' t2 = Inr c'"
      using assms(12) Store unfolding recheck_unfold [OF assms(4-8)] by (auto simp: replace_block_def Let_def)
    from store_block_canonical [OF free(1) later _ _ _ this] res assms(9,10) free(2) nh1 show ?thesis by simp
  next
    case (Gap d' reason)
    then have "c' = record_gap_block ?c1 d reason t2"
      using assms(12) resolve_body_header(2) [OF Gap] unfolding recheck_unfold [OF assms(4-8)]
      by (simp add: replace_block_def)
    then show ?thesis
      using record_gap_block_canonical [OF free(1) later, of d reason] assms(9,10) free(2) nh1 by simp
  qed
  then show ?thesis
    using s free(3) by (auto simp: now_canonical_def step_ok_def)
qed

definition sample_reorg :: db where
  "sample_reorg = projr (recheck_height sample_lib sample_db (sample_node ''B'' (Some (sample_details 5 ''B''))) default_config 5 ''t2'' ''t3'')"

lemma sample_reorg_runs:
  "recheck_height sample_lib sample_db (sample_node ''B'' (Some (sample_details 5 ''B''))) default_config 5 ''t2'' ''t3'' = Inr sample_reorg"
  unfolding sample_reorg_def by (rule inr_projr) code_simp

lemma sample_later: "later_than_all sample_db ''t2''" "(''t2'' :: string) < ''t3''"
  by code_simp+

lemma sample_node_answers:
  "get_block_header (sample_node hash d) 5 = Inr (Some (sample_header 5 hash))" "get_block_details (sample_node hash d) 5 = Inr d"
  by (simp_all add: sample_node_def)

lemma recheck_follows_the_node_witness:
  "(\<exists>bid'. canonical_at sample_reorg 5 = {(bid', ''B'')})
    \<and> {h. canonical_at sample_reorg h \<noteq> canonical_at sample_db h} \<subseteq> {5} \<and> trusted_log sample_reorg
    \<and> evidence_le sample_db sample_reorg"
proof -
  have a: "canonical_hash_at sample_db 5 = Some (1, ''A'')" "is_header_only sample_db 1 = Inr False"
    "no_header_only sample_db (sample_header 5 ''B'')" by code_simp+
  from recheck_follows_the_node [OF trusted_sample sample_later sample_node_answers(1) a(1) _ a(2) sample_node_answers(2)
    _ _ _ sample_reorg_runs] a(3)
  show ?thesis by (simp add: sample_header_def sample_details_def)
qed

text \<open>
  C26. When the node reports another block at a height but no longer has its details, the re-check
  orphans the old block and records only a gap: the height is left without a canonical block, and no
  later re-check or gap retry changes it again, whatever the node then answers.
\<close>
theorem reorg_without_details_loses_the_height:
  assumes "trusted_log c" "later_than_all c t1"
    and "get_block_header rpc height = Inr (Some hdr)" "canonical_hash_at c height = Some (bid, old)" "old \<noteq> h_hash hdr"
    and "is_header_only c bid = Inr False" "get_block_details rpc height = Inr None"
    and "recheck_height lib c rpc cfg height t1 t2 = Inr c'"
  shows "canonical_at c' height = {} \<and> backfill_gap lib' c' rpc' cfg' height t3 = c'
    \<and> stored c' (recheck_height lib' c' rpc' cfg' height t3 t4) = c'"
proof -
  let ?c1 = "mark_orphaned c bid t1"
  note free = orphaned_height [OF assms(1,2,4)]
  have wf: "wf_db c" using assms(1) by (simp add: trusted_log_def)
  have c': "c' = record_gap ?c1 height (Some (h_hash hdr)) t1 REORG_NOTE"
    using assms(8) unfolding recheck_unfold [OF assms(3-7)] by (simp add: replace_block_def)
  have same: "same_chain ?c1 c'"
    using n_record_gap.neutral [of ?c1 "(height, Some (h_hash hdr), t1, REORG_NOTE)"] by (simp add: c')
  have "wf_db c'" using recheck_ok [OF wf assms(8)] assms(7) by (simp add: step_ok_def)
  then have tr: "trusted_log c'" by (rule trusted_neutral [OF free(1) same])
  have none: "canonical_at c' height = {}" using free(2) same_chain_canonical_at [OF same] by simp
  then have "canonical_hash_at c' height = None" using by_time.answer_none_iff [OF tr] by simp
  with none show ?thesis
    by (auto simp: backfill_gap_def recheck_height_def and_then_def stored_def split: sum.splits option.splits)
qed

definition sample_lost :: db where
  "sample_lost = projr (recheck_height sample_lib sample_db (sample_node ''B'' None) default_config 5 ''t2'' ''t3'')"

lemma reorg_without_details_loses_the_height_witness:
  "canonical_at sample_lost 5 = {}
    \<and> backfill_gap sample_lib sample_lost (sample_node ''B'' (Some (sample_details 5 ''B''))) default_config 5 ''t4'' = sample_lost
    \<and> stored sample_lost (recheck_height sample_lib sample_lost (sample_node ''B'' (Some (sample_details 5 ''B''))) default_config 5 ''t4'' ''t5'')
       = sample_lost"
proof -
  have a: "canonical_hash_at sample_db 5 = Some (1, ''A'')" "is_header_only sample_db 1 = Inr False" by code_simp+
  have r: "recheck_height sample_lib sample_db (sample_node ''B'' None) default_config 5 ''t2'' ''t3'' = Inr sample_lost"
    unfolding sample_lost_def by (rule inr_projr) code_simp
  from reorg_without_details_loses_the_height [OF trusted_sample sample_later(1) sample_node_answers(1) a(1) _ a(2) sample_node_answers(2) r]
  show ?thesis by (simp add: sample_header_def)
qed

text \<open>
  The query goes by the largest time stamp, so an orphaning that is written while the clock
  stands before an earlier entry of the same block is not seen: the query keeps answering with the
  orphaned block although the status log has no canonical block left at the height.
\<close>
theorem early_stamp_hides_the_orphaning:
  assumes "trusted_log c" "canonical_hash_at c height = Some (bid, hash)"
    and "s \<in> set (status_log c)" "s_block_id s = bid" "now < s_observed_at s"
  shows "canonical_hash_at (mark_orphaned c bid now) height = Some (bid, hash) \<and> canonical_at (mark_orphaned c bid now) height = {}"
proof -
  let ?c = "mark_orphaned c bid now"
  let ?new = "\<lparr>s_id = next_rowid (map s_id (status_log c)), s_block_id = bid, s_status = Orphaned, s_observed_at = now\<rparr>"
  have wf: "wf_db c" using assms(1) by (simp add: trusted_log_def)
  have st: "statuses_of ?c i = statuses_of c i @ (if i = bid then [?new] else [])" for i
    by (simp add: statuses_of_def mark_orphaned_def append_status_def)
  have s: "s \<in> set (statuses_of c bid)" using assms(3,4) by (simp add: statuses_of_def)
  have "filter (\<lambda>s. s_status s = Canonical \<and> (\<forall>s2 \<in> set (statuses_of ?c i). s_observed_at s2 \<le> s_observed_at s)) (statuses_of ?c i)
      = filter (\<lambda>s. s_status s = Canonical \<and> (\<forall>s2 \<in> set (statuses_of c i). s_observed_at s2 \<le> s_observed_at s)) (statuses_of c i)" for i
  proof (cases "i = bid")
    case True
    have "now \<le> s_observed_at x" if "\<forall>s2 \<in> set (statuses_of c bid). s_observed_at s2 \<le> s_observed_at x" for x
      using that s assms(5) by (meson less_imp_le order.strict_trans1 order.trans)
    then show ?thesis using True by (auto simp: st intro!: filter_cong)
  qed (simp add: st)
  then have "canonical_candidates ?c height = canonical_candidates c height"
    by (simp add: canonical_candidates_def mark_orphaned_def)
  moreover have "r = (bid, hash)" if "r \<in> canonical_at c height" for r
    using by_time.unique [OF assms(1) that] by_time.sound [OF assms(1,2)] by simp
  ultimately show ?thesis
    using assms(2) by (auto simp: canonical_hash_at_def canonical_at_def canonical_rows_orphaned [OF wf])
qed

lemma early_stamp_hides_the_orphaning_witness:
  "canonical_hash_at (mark_orphaned sample_db 1 ''t0'') 5 = Some (1, ''A'') \<and> canonical_at (mark_orphaned sample_db 1 ''t0'') 5 = {}"
  by (rule early_stamp_hides_the_orphaning [OF trusted_sample, of _ _ _ "hd (status_log sample_db)"]; code_simp)

section \<open>Storing once and twice\<close>

lemma blocks_insert_transactions:
  "blocks (insert_transactions c bid retained) = update_where (\<lambda>b. b_id b = bid) (body_columns retained) (blocks c)"
proof -
  have "blocks (foldl (\<lambda>c tx. insert_transaction bid tx c) c txs) = blocks c" for txs c
    by (induction txs arbitrary: c) auto
  then show ?thesis by (simp add: insert_transactions_def)
qed

lemma store_block_new:
  assumes wf: "wf_db c" and nk: "\<not> known_canonical c (d_header d)"
    and r: "store_block c d src now = Inr c'"
  obtains retained c0 bid where "d_retained d = Some retained"
    "insert_block_header_row c (d_header d) True (Some src) now = (c0, bid)" "c' = insert_transactions c0 bid retained"
proof -
  obtain retained where ret: "d_retained d = Some retained"
    using r by (cases "d_retained d") (auto simp: store_block_def Let_def)
  obtain c0 bid where row: "insert_block_header_row c (d_header d) True (Some src) now = (c0, bid)" by fastforce
  with r nk ret that show thesis by (simp add: store_block_def Let_def)
qed

text \<open>
  Storing a block is idempotent: once a new block is stored at a free height, storing it again,
  under any body source and at any time, changes nothing.
\<close>
theorem storing_twice_is_storing_once:
  assumes "trusted_log c" "later_than_all c now" "canonical_at c (h_height (d_header d)) = {}"
    and "(as_i64 (h_height (d_header d)), h_hash (d_header d)) \<notin> block_key ` set (blocks c)"
    and "src \<noteq> HEADER_ONLY_SOURCE" "store_block c d src now = Inr c'"
  shows "store_block c' d src2 now2 = Inr c'"
proof -
  let ?h = "d_header d"
  have wf: "wf_db c" using assms(1) by (simp add: trusted_log_def)
  have nh: "no_header_only c ?h" using assms(4) unfolding no_header_only_def by (metis imageI)
  obtain retained c0 bid where ret: "d_retained d = Some retained"
    and row: "insert_block_header_row c ?h True (Some src) now = (c0, bid)" and c': "c' = insert_transactions c0 bid retained"
    by (rule store_block_new [OF wf not_known [OF assms(1,3)] assms(6)])
  note hr = header_row_trusted [OF assms(1-3) _ nh row]
  have same: "same_chain c0 c'"
    using n_insert_transactions.neutral [of c0 "(bid, retained)"] by (simp add: c')
  have wf': "wf_db c'"
    using op_store_block.keeps_wf [OF wf, of "(d, src, now)"] nh assms(5,6) by simp
  have tr: "trusted_log c'" using trusted_neutral [OF hr(1) same wf'] assms(5) by simp
  have "canonical_at c' (h_height ?h) = {(bid, h_hash ?h)}"
    using hr(2) assms(5) same_chain_rows [OF same] by (simp add: canonical_at_def)
  then have "canonical_hash_at c' (h_height ?h) = Some (bid, h_hash ?h)"
    using by_time.answer_iff [OF tr] by simp
  then have known: "known_canonical c' ?h" by (simp add: known_canonical_def)
  have captured: "b_body_captured b" if "b \<in> set (blocks c0)" "block_key b = (as_i64 (h_height ?h), h_hash ?h)" for b
  proof (rule insert_block_header_row_unfold [of c ?h True "Some src" now])
    show "wf_blocks (blocks c)" using wf by (simp add: wf_db_def)
  next
    fix b assume "b \<in> set (blocks c)" "block_key b = (as_i64 (h_height ?h), h_hash ?h)"
    then show ?thesis using assms(4) by (metis imageI)
  next
    fix i assume i: "insert_block_header_row c ?h True (Some src) now
        = (append_status (c\<lparr>blocks := blocks c @ [header_row i ?h True (Some src) now]\<rparr>) i Canonical now, i)"
    then have "blocks c0 = blocks c @ [header_row i ?h True (Some src) now]" using row by auto
    then have "b = header_row i ?h True (Some src) now \<or> b \<in> set (blocks c)" using that(1) by auto
    then show ?thesis
    proof
      assume "b \<in> set (blocks c)"
      with that(2) assms(4) show ?thesis by (metis imageI)
    qed (simp add: header_row_def)
  qed
  have "uncaptured_block_id c' (h_height ?h) (h_hash ?h) = None"
    using captured by (auto simp: uncaptured_block_id_def find_None_iff c' blocks_insert_transactions in_update_where
        body_columns_def block_key_def split: if_splits)
  with known ret show ?thesis by (simp add: store_block_def Let_def)
qed

lemma storing_twice_is_storing_once_witness:
  "store_block sample_db (sample_details 5 ''A'') ''getblock'' ''t9'' = Inr sample_db"
proof -
  have s: "store_block empty_db (sample_details 5 ''A'') ''details'' ''t1'' = Inr sample_db"
  proof -
    have "\<not> isl (store_block empty_db (sample_details 5 ''A'') ''details'' ''t1'')" by code_simp
    from inr_projr [OF this] show ?thesis unfolding sample_db_def by (metis stored_simps(1))
  qed
  have "trusted_log empty_db" "later_than_all empty_db ''t1''" by code_simp+
  moreover have "canonical_at empty_db h = {}" for h
    by (simp add: canonical_at_def canonical_rows_def empty_db_def)
  ultimately show ?thesis
    by (rule storing_twice_is_storing_once [OF _ _ _ _ _ s]) (simp_all add: empty_db_def HEADER_ONLY_SOURCE_def)
qed

text \<open>
  Ingesting a height assumes that nothing is recorded there: if the height already holds a
  canonical block (the cycle was cut off before it recorded how far it had come) and the node by then
  reports another one, both blocks are canonical afterwards.
\<close>
theorem ingesting_over_another_block_keeps_both:
  assumes "trusted_log c" "canonical_at c height = {(bid, old)}" "get_block_details rpc height = Inr (Some d)"
    and "h_height (d_header d) = height" "old \<noteq> h_hash (d_header d)"
    and "ingest_height lib c rpc cfg height now = Inr (c', fetched)"
  shows "\<exists>bid'. canonical_at c' height = {(bid, old), (bid', h_hash (d_header d))}"
proof -
  let ?h = "d_header d"
  have wf: "wf_db c" using assms(1) by (simp add: trusted_log_def)
  have "canonical_hash_at c height = Some (bid, old)" using by_time.answer_iff [OF assms(1)] assms(2) by simp
  then have nk: "\<not> known_canonical c ?h" using assms(4,5) by (simp add: known_canonical_def)
  have via: "\<exists>bid'. canonical_at c' height = {(bid, old), (bid', h_hash ?h)}"
    if "insert_block_header_row c ?h captured source now = (c0, i)" "source \<noteq> Some HEADER_ONLY_SOURCE" "same_chain c0 c'"
    for captured source c0 i
    using header_row_canonical(1) [OF wf that(2,1), of "as_i64 height"] assms(2,4) same_chain_rows [OF that(3)]
    by (auto simp: canonical_at_def)
  show ?thesis
  proof (cases "resolve_body lib rpc cfg d ''body already pruned by node on first ingest attempt''")
    case (Store d' src raw)
    note res = resolve_body_header(1) [OF Store]
    obtain raw' c1 where c1: "store_with_extras lib c cfg height d' src raw' now = Inr c1"
      and sc: "same_chain c1 c'"
    proof -
      obtain raw' c1 where r: "store_with_extras lib c cfg height d' src raw' now = Inr c1"
        and c': "c' = (if src = ''getblock'' then c1 else if decoder_selfcheck cfg
            then (case raw' of Some bytes \<Rightarrow> selfcheck lib c1 height d' bytes | None \<Rightarrow> c1) else c1)"
        by (rule ingest_store [OF assms(6,3) Store])
      have "same_chain c1 (selfcheck lib c1 height d' bytes)" for bytes
        using n_set_state.neutral [of c1 "(k, v)" for k v]
        by (auto simp: selfcheck_def increment_mismatch_counter_def Let_def split: sum.splits)
      with r c' that show thesis by (auto split: option.splits)
    qed
    obtain c2 where c2: "store_block c d' src now = Inr c2"
      and c1': "c1 = keep_raw lib (record_contract_flags lib c2 height (h_hash (d_header d')) raw') cfg height (h_hash (d_header d')) raw' ''node'' now"
      using c1 by (auto simp: store_with_extras_def Let_def and_then_Inr_iff)
    obtain retained c0 i where row: "insert_block_header_row c (d_header d') True (Some src) now = (c0, i)"
      and c2': "c2 = insert_transactions c0 i retained"
      by (rule store_block_new [OF wf _ c2]) (use nk res in auto)
    have "same_chain c0 c2" using n_insert_transactions.neutral [of c0 "(i, retained)"] by (simp add: c2')
    moreover have "same_chain c2 c1"
      using n_record_contract_flags.neutral [of c2 "(lib, height, h_hash (d_header d'), raw')"]
        n_keep_raw.neutral [of "record_contract_flags lib c2 height (h_hash (d_header d')) raw'"
          "(lib, cfg, height, h_hash (d_header d'), raw', ''node'', now)"]
      by (auto simp: c1' intro: same_chain_trans)
    ultimately have "same_chain c0 c'" using sc by (blast intro: same_chain_trans)
    with via row res show ?thesis by auto
  next
    case (Gap d' reason)
    note res = resolve_body_header(2) [OF Gap]
    obtain c0 i where row: "insert_block_header_row c ?h False None now = (c0, i)" by fastforce
    have "c' = record_gap c0 (h_height ?h) (Some (h_hash ?h)) now reason"
      using assms(3,6) Gap res nk row by (simp add: ingest_height_def record_gap_block_def Let_def)
    then have "same_chain c0 c'"
      using n_record_gap.neutral [of c0 "(h_height ?h, Some (h_hash ?h), now, reason)"] by simp
    with via row show ?thesis by auto
  qed
qed

lemma ingesting_over_another_block_keeps_both_witness:
  "\<exists>bid'. canonical_at (fst (projr (ingest_height sample_lib sample_db (sample_node ''B'' (Some (sample_details 5 ''B''))) default_config 5 ''t2''))) 5
     = {(1, ''A''), (bid', ''B'')}"
proof -
  have "\<not> isl (ingest_height sample_lib sample_db (sample_node ''B'' (Some (sample_details 5 ''B''))) default_config 5 ''t2'')"
    by code_simp
  note r = inr_pair [OF this]
  have "canonical_hash_at sample_db 5 = Some (1, ''A'')" by code_simp
  then have at: "canonical_at sample_db 5 = {(1, ''A'')}"
    by (rule by_time.answer_is_the_set [OF trusted_sample])
  from ingesting_over_another_block_keeps_both [OF trusted_sample at sample_node_answers(2) _ _ r]
  show ?thesis by (simp add: sample_header_def sample_details_def)
qed

text \<open>
  A block that was first recorded without its body, orphaned, and then becomes canonical again is
  stored with all its transactions, but its row still says that no body was captured.
\<close>
theorem returning_gap_block_stays_marked_as_gap:
  assumes "wf_db c" "b \<in> set (blocks c)" "block_key b = (as_i64 (h_height (d_header d)), h_hash (d_header d))"
    and "\<not> b_body_captured b" "archived b" "\<not> known_canonical c (d_header d)" "d_retained d = Some retained"
    and "store_block c d src now = Inr c'"
  shows "uncaptured_block_id c' (h_height (d_header d)) (h_hash (d_header d)) = Some (b_id b)
    \<and> (\<lambda>tx. (b_id b, uint (tx_position tx))) ` set (rb_transactions retained) \<subseteq> tx_key ` set (transactions c')
    \<and> is_canonical c' (b_id b)"
proof -
  let ?h = "d_header d"
  have wb: "wf_blocks (blocks c)" using assms(1) by (simp add: wf_db_def)
  have c': "c' = insert_transactions (append_status c (b_id b) Canonical now) (b_id b) retained"
  proof (rule insert_block_header_row_unfold [OF wb, of ?h True "Some src" now])
    fix b' assume b': "b' \<in> set (blocks c)" "block_key b' = (as_i64 (h_height ?h), h_hash ?h)"
      "insert_block_header_row c ?h True (Some src) now = (append_status c (b_id b') Canonical now, b_id b')"
    have "inj_on block_key (set (blocks c))" using wb by (simp add: wf_blocks_def distinct_map)
    then have "b' = b" using b'(1,2) assms(2,3) by (metis inj_onD)
    then show ?thesis using assms(6-8) b'(3) by (simp add: store_block_def Let_def)
  next
    assume "(as_i64 (h_height ?h), h_hash ?h) \<notin> block_key ` set (blocks c)"
    with assms(2,3) show ?thesis by (auto simp: image_iff)
  qed
  let ?c1 = "append_status c (b_id b) Canonical now"
  have same: "same_chain ?c1 c'" using n_insert_transactions.neutral [of ?c1 "(b_id b, retained)"] by (simp add: c')
  have canon: "is_canonical c' (b_id b)"
    using same_chain_status [OF same] is_canonical_append [OF assms(1), of "b_id b" Canonical now "b_id b"] by simp
  let ?b = "body_columns retained b"
  have dist: "distinct (map block_key (blocks c'))"
    using wb by (simp add: c' blocks_insert_transactions map_update_where block_key_def body_columns_def wf_blocks_def)
  have in': "?b \<in> set (blocks c')"
    using assms(2) by (auto simp: c' blocks_insert_transactions in_update_where)
  have "find (\<lambda>b. b_height b = as_i64 (h_height ?h) \<and> b_hash b = h_hash ?h \<and> \<not> b_body_captured b \<and> archived b) (blocks c') = Some ?b"
    using assms(3-5) by (intro find_unique [OF dist in']) (auto simp: block_key_def body_columns_def archived_def)
  then have unc: "uncaptured_block_id c' (h_height ?h) (h_hash ?h) = Some (b_id b)"
    by (simp add: uncaptured_block_id_def body_columns_def)
  have grow: "tx_key ` set (transactions c) \<subseteq> tx_key ` set (transactions (insert_transaction bid tx c))
      \<and> (bid, uint (tx_position tx)) \<in> tx_key ` set (transactions (insert_transaction bid tx c))" for c bid tx
  proof -
    let ?key = "\<lambda>t. (t_block_id t, t_position t)"
    let ?txs = "insert_or_ignore ?key (body_tx_row (next_rowid (map t_id (transactions c))) bid tx) (transactions c)"
    have "transactions (insert_transaction bid tx c) = ?txs" by (simp add: insert_transaction_def Let_def)
    moreover obtain x where "x \<in> set ?txs" "?key x = ?key (body_tx_row (next_rowid (map t_id (transactions c))) bid tx)"
      using insert_or_ignore_has_key [of ?key] by blast
    then have "(bid, uint (tx_position tx)) \<in> tx_key ` set ?txs"
      by (auto simp: tx_key_def body_tx_row_def image_iff intro!: bexI [of _ x])
    ultimately show ?thesis using insert_or_ignore_keeps [of "transactions c" ?key] by auto
  qed
  have "tx_key ` set (transactions c) \<union> (\<lambda>tx. (bid, uint (tx_position tx))) ` set txs
      \<subseteq> tx_key ` set (transactions (foldl (\<lambda>c tx. insert_transaction bid tx c) c txs))" for c bid txs
  proof (induction txs arbitrary: c)
    case (Cons tx txs)
    from grow [of c bid tx] Cons.IH [of "insert_transaction bid tx c"] show ?case
      unfolding foldl_Cons list.set image_insert by blast
  qed simp
  then show ?thesis using unc canon by (fastforce simp: c' insert_transactions_def)
qed

text \<open>A database on which the block at height 5 was recorded as a gap and then orphaned for another block.\<close>

definition sample_gone :: db where
  "sample_gone = mark_orphaned (record_gap_block empty_db (pruned_details 5 ''A'') ''pruned'' ''t1'') 1 ''t2''"

definition sample_back :: db where
  "sample_back = projr (store_block sample_gone (sample_details 5 ''A'') ''details'' ''t3'')"

lemma returning_gap_block_stays_marked_as_gap_witness:
  "uncaptured_block_id sample_back 5 ''A'' = Some 1
    \<and> (\<lambda>tx. (1, uint (tx_position tx))) ` set [sample_coinbase] \<subseteq> tx_key ` set (transactions sample_back)
    \<and> is_canonical sample_back 1"
proof -
  let ?b = "hd (blocks sample_gone)"
  have "wf_db sample_gone" "?b \<in> set (blocks sample_gone)" "\<not> b_body_captured ?b" "archived ?b" "b_id ?b = 1"
    "block_key ?b = (as_i64 5, ''A'')" "\<not> known_canonical sample_gone (d_header (sample_details 5 ''A''))"
    "\<not> isl (store_block sample_gone (sample_details 5 ''A'') ''details'' ''t3'')"
    by code_simp+
  note r = this
  have h: "h_height (d_header (sample_details 5 ''A'')) = 5" "h_hash (d_header (sample_details 5 ''A'')) = ''A''"
    "d_retained (sample_details 5 ''A'') = Some sample_retained" "rb_transactions sample_retained = [sample_coinbase]"
    by (simp_all add: sample_details_def sample_header_def sample_retained_def)
  have s: "store_block sample_gone (sample_details 5 ''A'') ''details'' ''t3'' = Inr sample_back"
    unfolding sample_back_def by (rule inr_projr [OF r(8)])
  from returning_gap_block_stays_marked_as_gap [OF r(1-2) _ r(3-4) r(7) h(3) s] r(5,6) h show ?thesis by simp
qed

end
