(* ===== verification/Archive_View.thy ===== *)
theory Archive_View
  imports Reorg
begin

text \<open>
  What the archive itself reports: its first height, the addresses it knows, its picture of the live
  state, what it prunes and what it still misses. The locale \<open>leaves_archive_alone\<close> is the contract of
  an operation below the archive; writing a header-only block and storing a transaction proven by a
  receipt are its interpretations.
\<close>

section \<open>The figures of the archive\<close>

record archive_figures =
  af_first_height :: "u64 option"
  af_addresses :: "string list"
  af_unspent :: "u64 \<Rightarrow> u64 \<Rightarrow> u64 \<Rightarrow> (int \<times> string) list result"
  af_segments :: "u64 \<Rightarrow> u64 \<Rightarrow> (u64 \<times> u64) list result"
  af_creation_ids :: "u64 \<Rightarrow> u64 \<Rightarrow> string list result"
  af_balances :: "(string \<times> u128 \<times> u64) list"
  af_prunable :: "int \<Rightarrow> int list"
  af_missing_raw :: "u64 \<Rightarrow> u64 \<Rightarrow> u64 \<Rightarrow> (u64 \<times> string) list"
  af_missing_seen :: "u64 \<Rightarrow> u64 \<Rightarrow> u64 \<Rightarrow> (u64 \<times> string) list"

definition figures :: "db \<Rightarrow> archive_figures" where
  "figures c =
     \<lparr>af_first_height = archive_first_height c, af_addresses = known_addresses c,
      af_unspent = unspent_recorded_outputs c, af_segments = live_count_per_segment c,
      af_creation_ids = recorded_creation_ids c, af_balances = live_balances c, af_prunable = prunable c,
      af_missing_raw = blocks_missing_raw c, af_missing_seen = blocks_missing_seen c\<rparr>"

section \<open>The contract\<close>

text \<open>
  What lies beside the archive: the archive's block rows and the transactions recorded from bodies
  stay, new inputs and outputs belong to no transaction on record, and new outputs come from receipts.
\<close>

definition beside_archive :: "db \<Rightarrow> db \<Rightarrow> bool" where
  "beside_archive c c' =
     (filter archived (blocks c') = filter archived (blocks c)
      \<and> (\<forall>b \<in> set (blocks c). is_canonical c' (b_id b) = is_canonical c (b_id b))
      \<and> filter recorded (transactions c') = filter recorded (transactions c)
      \<and> on_record c' = on_record c
      \<and> (\<exists>new. inputs c' = inputs c @ new \<and> (\<forall>i \<in> set new. \<forall>h. \<not> on_record c h (i_tx_id i)))
      \<and> (\<exists>new. outputs c' = outputs c @ new
           \<and> (\<forall>out \<in> set new. from_receipt c' (o_tx_id out) \<and> (\<forall>h. \<not> on_record c h (o_tx_id out))))
      \<and> (\<forall>out \<in> set (outputs c). from_receipt c' (o_tx_id out) = from_receipt c (o_tx_id out))
      \<and> state_slots c' = state_slots c \<and> raw_blocks c' = raw_blocks c)"

lemma beside_refl: "beside_archive c c"
  by (simp add: beside_archive_def)

locale leaves_archive_alone =
  fixes step :: "'a \<Rightarrow> db \<Rightarrow> db"
  assumes beside: "wf_db c \<Longrightarrow> beside_archive c (step a c)"
begin

lemma archive_rows: "wf_db c \<Longrightarrow> filter archived (blocks (step a c)) = filter archived (blocks c)"
  and archive_status: "wf_db c \<Longrightarrow> b \<in> set (blocks c) \<Longrightarrow> is_canonical (step a c) (b_id b) = is_canonical c (b_id b)"
  and recorded_rows: "wf_db c \<Longrightarrow> filter recorded (transactions (step a c)) = filter recorded (transactions c)"
  and same_record: "wf_db c \<Longrightarrow> on_record (step a c) = on_record c"
  and new_inputs: "wf_db c \<Longrightarrow> \<exists>new. inputs (step a c) = inputs c @ new \<and> (\<forall>i \<in> set new. \<forall>h. \<not> on_record c h (i_tx_id i))"
  and new_outputs: "wf_db c \<Longrightarrow> \<exists>new. outputs (step a c) = outputs c @ new
    \<and> (\<forall>out \<in> set new. from_receipt (step a c) (o_tx_id out) \<and> (\<forall>h. \<not> on_record c h (o_tx_id out)))"
  and same_receipts: "wf_db c \<Longrightarrow> out \<in> set (outputs c) \<Longrightarrow> from_receipt (step a c) (o_tx_id out) = from_receipt c (o_tx_id out)"
  and same_tables: "wf_db c \<Longrightarrow> state_slots (step a c) = state_slots c \<and> raw_blocks (step a c) = raw_blocks c"
  using beside [of c a] unfolding beside_archive_def by simp_all

lemma same_spent: "wf_db c \<Longrightarrow> spent_by_recorded_input (step a c) h cid = spent_by_recorded_input c h cid"
proof -
  assume wf: "wf_db c"
  obtain new where new: "inputs (step a c) = inputs c @ new" "\<forall>i \<in> set new. \<forall>h. \<not> on_record c h (i_tx_id i)"
    using new_inputs [OF wf] by blast
  then show ?thesis by (auto simp: spent_by_recorded_input_def same_record [OF wf])
qed

lemma same_live: "wf_db c \<Longrightarrow> live_recorded (step a c) h out = live_recorded c h out"
  "wf_db c \<Longrightarrow> live_foreign (step a c) h f = live_foreign c h f"
  by (simp_all add: live_recorded_def live_foreign_def same_spent same_record)

lemma same_live_fun: "wf_db c \<Longrightarrow> live_recorded (step a c) h = live_recorded c h"
  "wf_db c \<Longrightarrow> live_foreign (step a c) h = live_foreign c h"
  by (simp_all add: fun_eq_iff same_live)

lemma outputs_on_record:
  assumes wf: "wf_db c" and P: "\<And>out. P out \<Longrightarrow> \<exists>h. on_record c h (o_tx_id out)"
  shows "filter P (outputs (step a c)) = filter P (outputs c)"
proof -
  obtain new where new: "outputs (step a c) = outputs c @ new" "\<forall>out \<in> set new. \<forall>h. \<not> on_record c h (o_tx_id out)"
    using new_outputs [OF wf] by blast
  then have "filter P new = []" using P by (metis filter_False)
  with new(1) show ?thesis by simp
qed

lemma live_outputs: "wf_db c \<Longrightarrow> filter (live_recorded c h) (outputs (step a c)) = filter (live_recorded c h) (outputs c)"
  by (rule outputs_on_record) (auto simp: live_recorded_def)

lemma archived_rows_where:
  assumes wf: "wf_db c" and P: "\<And>b. P b \<Longrightarrow> archived b"
  shows "filter P (blocks (step a c)) = filter P (blocks c)"
proof -
  have split: "filter P bs = filter P (filter archived bs)" for bs using P by (auto intro: filter_cong)
  show ?thesis unfolding split [of "blocks (step a c)"] split [of "blocks c"] archive_rows [OF wf] ..
qed

lemma archived_where:
  assumes wf: "wf_db c" and P: "\<And>b. Q b \<Longrightarrow> archived b"
    and same: "\<And>b. b \<in> set (blocks c) \<Longrightarrow> archived b \<Longrightarrow> P b = Q b"
    and P': "\<And>b. P b \<Longrightarrow> archived b"
  shows "filter P (blocks (step a c)) = filter Q (blocks c)"
proof -
  have "filter P (blocks (step a c)) = filter P (blocks c)" by (rule archived_rows_where [OF wf P'])
  also have "\<dots> = filter Q (blocks c)" using same P P' by (intro filter_cong) auto
  finally show ?thesis .
qed

lemma same_addresses: "wf_db c \<Longrightarrow> known_addresses (step a c) = known_addresses c"
proof -
  assume wf: "wf_db c"
  obtain new where new: "outputs (step a c) = outputs c @ new" "\<forall>out \<in> set new. from_receipt (step a c) (o_tx_id out)"
    using new_outputs [OF wf] by blast
  have "filter (\<lambda>out. \<not> from_receipt (step a c) (o_tx_id out)) (outputs (step a c))
      = filter (\<lambda>out. \<not> from_receipt c (o_tx_id out)) (outputs c)"
    using new same_receipts [OF wf] by (auto simp: filter_empty_conv intro: filter_cong)
  then show ?thesis by (simp add: known_addresses_def recorded_rows [OF wf] archive_rows [OF wf])
qed

lemma same_figures: "wf_db c \<Longrightarrow> figures (step a c) = figures c"
proof -
  assume wf: "wf_db c"
  have unspent: "filter (\<lambda>out. in_slots lo hi (o_slot_index out) \<and> live_recorded c h out) (outputs (step a c))
      = filter (\<lambda>out. in_slots lo hi (o_slot_index out) \<and> live_recorded c h out) (outputs c)" for lo hi h
    by (rule outputs_on_record [OF wf]) (auto simp: live_recorded_def)
  have ids: "filter (\<lambda>out. in_slots lo hi (o_slot_index out) \<and> on_record c h (o_tx_id out)) (outputs (step a c))
      = filter (\<lambda>out. in_slots lo hi (o_slot_index out) \<and> on_record c h (o_tx_id out)) (outputs c)" for lo hi h
    by (rule outputs_on_record [OF wf]) auto
  have raw: "filter (\<lambda>b. between from to b \<and> b_body_captured b \<and> archived b \<and> \<not> has_raw_block (step a c) (b_id b)
        \<and> is_canonical (step a c) (b_id b)) (blocks (step a c))
      = filter (\<lambda>b. between from to b \<and> b_body_captured b \<and> archived b \<and> \<not> has_raw_block c (b_id b)
        \<and> is_canonical c (b_id b)) (blocks c)" for "from" to
    by (rule archived_where [OF wf]) (use archive_status [OF wf] same_tables [OF wf] in \<open>auto simp: has_raw_block_def\<close>)
  have seen: "filter (\<lambda>b. between from to b \<and> b_tip_seen_at_ms b = None \<and> archived b) (blocks (step a c))
      = filter (\<lambda>b. between from to b \<and> b_tip_seen_at_ms b = None \<and> archived b) (blocks c)" for "from" to
    by (rule archived_rows_where [OF wf]) auto
  have prune: "filter (\<lambda>b. b_timestamp b < cutoff \<and> b_body_captured b \<and> archived b) (blocks (step a c))
      = filter (\<lambda>b. b_timestamp b < cutoff \<and> b_body_captured b \<and> archived b) (blocks c)" for cutoff
    by (rule archived_rows_where [OF wf]) auto
  have amounts: "live_amounts (step a c) = live_amounts c" and segs: "live_segments (step a c) h s = live_segments c h s" for h s
    by (simp_all add: live_amounts_def live_segments_def same_live_fun [OF wf] live_outputs [OF wf] same_tables [OF wf])
  have any: "(\<exists>out \<in> set (outputs (step a c)). live_recorded c h out) \<longleftrightarrow> (\<exists>out \<in> set (outputs c). live_recorded c h out)" for h
    using live_outputs [OF wf, of h] filter_empty_conv [of "live_recorded c h"] by metis
  have counts: "live_count_per_segment (step a c) h s = live_count_per_segment c h s" for h s
    unfolding live_count_per_segment_def same_live_fun [OF wf] any segs ..
  show ?thesis
    by (simp add: figures_def archive_first_height_def archive_rows [OF wf] same_addresses [OF wf] fun_eq_iff
        unspent_recorded_outputs_def same_live [OF wf] unspent counts recorded_creation_ids_def
        same_record [OF wf] ids live_balances_def amounts prunable_def prune blocks_missing_raw_def raw
        blocks_missing_seen_def seen)
qed

lemma run_keeps_figures:
  assumes "\<And>c a. wf_db c \<Longrightarrow> wf_db (step a c)"
  shows "wf_db c \<Longrightarrow> figures (foldl (\<lambda>c a. step a c) c as) = figures c"
  by (induction as arbitrary: c) (auto simp: assms same_figures)

end

section \<open>Header-only blocks\<close>

lemma insert_header_only_cases:
  obtains (same) "committed c (insert_header_only_block c b now) = c"
  | (new) "committed c (insert_header_only_block c b now)
      = append_status (c\<lparr>blocks := blocks c @ [header_only_row (next_rowid (map b_id (blocks c))) b now]\<rparr>)
          (next_rowid (map b_id (blocks c))) Canonical now"
    "\<forall>r \<in> set (blocks c). b_height r \<noteq> as_i64 (ho_height b)"
proof (cases "filter (\<lambda>r. b_height r = as_i64 (ho_height b)) (blocks c) = []")
  case True
  then show thesis by (intro new) (auto simp: insert_header_only_block_def Let_def filter_empty_conv)
next
  case False
  then show thesis
    by (intro same, cases "ho_hash b \<in> set (map b_hash (filter (\<lambda>r. b_height r = as_i64 (ho_height b)) (blocks c)))")
      (simp_all add: insert_header_only_block_def Let_def)
qed

lemma tx_has_block:
  assumes "wf_db c" "t \<in> set (transactions c)"
  obtains b where "block_with_id c (t_block_id t) = Some b" "b \<in> set (blocks c)" "b_id b = t_block_id t" "archived b = recorded t"
proof -
  have "(t_block_id t, recorded t) \<in> block_sigs c" using assms by (simp add: wf_db_def wf_txs_def)
  then obtain b where b: "b \<in> set (blocks c)" "b_id b = t_block_id t" "archived b = recorded t"
    by (auto simp: block_sig_def)
  have "find (\<lambda>b. b_id b = t_block_id t) (blocks c) = Some b"
    using assms(1) b by (intro find_unique [where key = b_id]) (auto simp: wf_db_def wf_blocks_def)
  with b show thesis by (intro that) (auto simp: block_with_id_def)
qed

lemma origin_block: "origin c t = Some (x, b) \<Longrightarrow> b \<in> set (blocks c)"
  by (auto simp: origin_def block_with_id_def find_Some_iff split: option.splits)

lemma beside_header_row:
  assumes wf: "wf_db c" shows "beside_archive c (committed c (insert_header_only_block c b now))"
proof (cases rule: insert_header_only_cases [of c b now])
  case new
  let ?i = "next_rowid (map b_id (blocks c))"
  let ?r = "header_only_row ?i b now"
  let ?c = "c\<lparr>blocks := blocks c @ [?r]\<rparr>"
  let ?c' = "append_status ?c ?i Canonical now"
  have fresh: "b_id x \<noteq> ?i" if "x \<in> set (blocks c)" for x
    using next_rowid_not_in [of "map b_id (blocks c)"] that by force
  have wf1: "wf_db ?c"
    using new(2) by (intro wf_db_append_block [OF wf]) (auto simp: header_only_row_def block_key_def)
  have canon: "is_canonical ?c' (b_id x) = is_canonical c (b_id x)" if "x \<in> set (blocks c)" for x
    using is_canonical_append [OF wf1, of ?i Canonical now] fresh [OF that] by (simp add: is_canonical_def)
  have rest: "transactions ?c' = transactions c" "inputs ?c' = inputs c" "outputs ?c' = outputs c"
    "state_slots ?c' = state_slots c" "raw_blocks ?c' = raw_blocks c" "blocks ?c' = blocks c @ [?r]"
    by (simp_all add: append_status_def)
  have "origin ?c' t = origin c t" for t
  proof (cases "find (\<lambda>x. t_id x = t) (transactions c)")
    case (Some x)
    then have "x \<in> set (transactions c)" by (auto simp: find_Some_iff)
    from tx_has_block [OF wf this] obtain b' where "block_with_id c (t_block_id x) = Some b'" .
    then show ?thesis unfolding origin_def rest by (simp add: Some block_with_id_def rest find_append)
  qed (simp add: origin_def rest)
  then have "on_record ?c' h t = on_record c h t" for h t
    using canon origin_block by (auto simp: on_record_def split: option.splits)
  then have "on_record ?c' = on_record c" by (simp add: fun_eq_iff)
  moreover have "from_receipt ?c' = from_receipt c" by (simp add: fun_eq_iff from_receipt_def rest)
  moreover have "\<not> archived ?r" by (simp add: header_only_row_def archived_def)
  ultimately show ?thesis using canon unfolding new(1) beside_archive_def rest by simp
qed (simp add: beside_refl)

interpretation header_row: leaves_archive_alone "\<lambda>(b, now) c. committed c (insert_header_only_block c b now)"
  by unfold_locales (auto intro: beside_header_row)

section \<open>Transactions proven by receipts\<close>

lemma insert_receipt_outputs_rows:
  "insert_receipt_outputs tx_id idx outs rows = Inr rows' \<Longrightarrow> \<exists>new. rows' = rows @ new \<and> (\<forall>x \<in> set new. o_tx_id x = tx_id)"
proof (induction outs arbitrary: idx rows)
  case (Cons out outs)
  let ?r = "receipt_output_row (next_rowid (map o_rowid rows)) tx_id idx out"
  have "insert_receipt_outputs tx_id (idx + 1) outs (rows @ [?r]) = Inr rows'"
    using Cons.prems by (auto simp: and_then_Inr_iff insert_unique_Inr)
  from Cons.IH [OF this] show ?case by (auto simp: receipt_output_row_def)
qed simp

lemma filter_update_elsewhere:
  "(\<And>r. r \<in> set rows \<Longrightarrow> P r \<Longrightarrow> \<not> Q r) \<Longrightarrow> (\<And>r. P r \<Longrightarrow> Q (f r) = Q r)
    \<Longrightarrow> filter Q (update_where P f rows) = filter Q rows"
  by (induction rows) (auto simp: update_where_def)

lemma find_update_where:
  "(\<And>r. Q (f r) = Q r) \<Longrightarrow> find Q (update_where P f rows) = map_option (\<lambda>r. if P r then f r else r) (find Q rows)"
  by (induction rows) (auto simp: update_where_def)

lemma beside_receipt_rows:
  assumes wf: "wf_db c" and hdr: "(bid, False) \<in> block_sigs c" and ok: "store_receipt_rows c bid tx now = Inr c'"
  shows "beside_archive c c'"
proof (rule store_receipt_rows_Inr [OF ok])
  fix tx_id phs ins outs rcs
  let ?row = "receipt_tx_row tx_id bid tx"
  let ?f = "\<lambda>b. b\<lparr>b_tx_count_total := Some (uint (rt_tx_count tx))\<rparr>"
  let ?bs = "update_where (\<lambda>b. b_id b = bid) ?f (blocks c)"
  assume r: "tx_id = next_rowid (map t_id (transactions c))"
    "insert_all_unique input_key (receipt_input_rows tx_id (rt_inputs tx)) (inputs c) = Inr ins"
    "insert_receipt_outputs tx_id 0 (rt_outputs tx) (outputs c) = Inr outs"
    "c' = c\<lparr>transactions := transactions c @ [?row], page_hashes := phs, inputs := ins, outputs := outs, receipts := rcs, blocks := ?bs\<rparr>"
  have rest: "transactions c' = transactions c @ [?row]" "inputs c' = ins" "outputs c' = outs" "state_slots c' = state_slots c"
    "raw_blocks c' = raw_blocks c" "blocks c' = ?bs" "status_log c' = status_log c"
    by (simp_all add: r(4))
  have fresh: "t_id t \<noteq> tx_id" if "t \<in> set (transactions c)" for t
    using next_rowid_not_in [of "map t_id (transactions c)"] that r(1) by force
  have row: "t_id ?row = tx_id" "\<not> recorded ?row" "t_source ?row = Some RECEIPT_SOURCE"
    by (simp_all add: receipt_tx_row_def recorded_def)
  have not_archived: "\<not> archived b" if "b \<in> set (blocks c)" "b_id b = bid" for b
  proof -
    have "block_sig b = (bid, archived b)" using that(2) by (simp add: block_sig_def)
    then have "(bid, archived b) \<in> block_sigs c" using imageI [OF that(1), of block_sig] by simp
    with block_sig_unique [OF _ this hdr] wf show ?thesis by (simp add: wf_db_def)
  qed
  have rows: "filter archived ?bs = filter archived (blocks c)"
    using not_archived by (intro filter_update_elsewhere) (auto simp: archived_def)
  have canon: "is_canonical c' = is_canonical c" by (simp add: fun_eq_iff is_canonical_def current_status_def rest)
  have none: "\<not> on_record c h tx_id" for h
  proof -
    have "find (\<lambda>t. t_id t = tx_id) (transactions c) = None" using fresh by (auto simp: find_None_iff)
    then show ?thesis by (simp add: on_record_def origin_def)
  qed
  have same: "on_record c' h t = on_record c h t" for h t
  proof (cases "find (\<lambda>x. t_id x = t) (transactions c)")
    case (Some x)
    have "find (\<lambda>b. b_id b = i) ?bs = map_option (\<lambda>b. if b_id b = bid then ?f b else b) (find (\<lambda>b. b_id b = i) (blocks c))" for i
      by (rule find_update_where) simp
    then have "origin c' t = map_option (\<lambda>(x, b). (x, if b_id b = bid then ?f b else b)) (origin c t)"
      by (simp add: origin_def rest Some find_append block_with_id_def option.map_comp o_def)
    then show ?thesis by (auto simp: on_record_def canon split: option.splits)
  next
    case None
    then show ?thesis
      using row by (cases "tx_id = t") (auto simp: on_record_def origin_def rest find_append split: option.splits)
  qed
  obtain new_outs where outs: "outs = outputs c @ new_outs" "\<forall>x \<in> set new_outs. o_tx_id x = tx_id"
    using insert_receipt_outputs_rows [OF r(3)] by blast
  have ins: "ins = inputs c @ receipt_input_rows tx_id (rt_inputs tx)"
    using insert_all_unique_Inr [OF r(2)] by blast
  have in_id: "\<forall>i \<in> set (receipt_input_rows tx_id (rt_inputs tx)). i_tx_id i = tx_id" by (auto simp: receipt_input_rows_def)
  have proven: "from_receipt c' tx_id" using row by (auto simp: from_receipt_def rest)
  have "from_receipt c' (o_tx_id out) = from_receipt c (o_tx_id out)" if "out \<in> set (outputs c)" for out
  proof -
    have "o_tx_id out \<in> t_id ` set (transactions c)"
      using wf that by (force simp: wf_db_def wf_outputs_def tx_sig_def)
    then have "o_tx_id out \<noteq> tx_id" using fresh by fastforce
    then show ?thesis using row by (auto simp: from_receipt_def rest)
  qed
  then show ?thesis
    unfolding beside_archive_def rest canon
    using rows row(2) same none outs ins in_id proven by (auto simp: fun_eq_iff)
qed

lemma beside_receipt_transaction:
  assumes wf: "wf_db c" shows "beside_archive c (committed c (insert_receipt_transaction c bid tx now))"
proof (cases "insert_receipt_transaction c bid tx now")
  case (Inr r)
  obtain c' fresh where r: "r = (c', fresh)" by (cases r)
  note d = insert_receipt_transaction_Inr [OF Inr [unfolded r]]
  show ?thesis
  proof (cases fresh)
    case True
    with d have "(bid, False) \<in> block_sigs c" "store_receipt_rows c bid tx now = Inr c'" by simp_all
    from beside_receipt_rows [OF wf this] show ?thesis by (simp add: Inr r)
  next
    case False
    with d show ?thesis by (simp add: Inr r beside_refl)
  qed
qed (simp add: beside_refl)

interpretation receipt_row: leaves_archive_alone "\<lambda>(bid, tx, now) c. committed c (insert_receipt_transaction c bid tx now)"
  by unfold_locales (auto intro: beside_receipt_transaction)

section \<open>Properties\<close>

text \<open>
  Copying a header below the archive changes none of the archive's own figures: its first height,
  the known addresses, the unspent outputs, the live UTXOs per segment, the recorded creation ids, the
  balances, what pruning takes and what raw bytes and arrival times are still missing.
\<close>
theorem header_rows_leave_the_archive_alone:
  assumes "wf_db c"
  shows "figures (committed c (insert_header_only_block c b now)) = figures c"
  using header_row.same_figures [OF assms, of "(b, now)"] by simp

definition sample_ho :: header_only_block where
  "sample_ho = \<lparr>ho_height = 4, ho_hash = ''p'', ho_prev_hash = ''q'', ho_state_root = ''r'', ho_tx_root = ''x'',
     ho_timestamp = 70, ho_miner = ''z'', ho_nonce_hex = ''0'', ho_difficulty_target = ''f'', ho_log_slots = 24\<rparr>"

lemma wf_sample: "wf_db sample_db"
  using trusted_sample by (simp add: trusted_log_def)

lemma header_rows_leave_the_archive_alone_witness:
  "figures (committed sample_db (insert_header_only_block sample_db sample_ho ''t2'')) = figures sample_db"
  by (rule header_rows_leave_the_archive_alone [OF wf_sample])

text \<open>
  Storing a transaction proven by a receipt changes none of the archive's figures either, whether
  it is stored, on record already, or refused.
\<close>
theorem receipts_leave_the_archive_alone:
  assumes "wf_db c"
  shows "figures (committed c (insert_receipt_transaction c bid tx now)) = figures c"
  using receipt_row.same_figures [OF assms, of "(bid, tx, now)"] by simp

definition sample_receipt_tx :: receipt_transaction where
  "sample_receipt_tx = \<lparr>rt_position = 1, rt_tx_count = 2, rt_txid = ''d'', rt_page_count = 1, rt_fee = 10,
     rt_epoch_anchor = ''e'', rt_input_owner = ''n'', rt_input_sum = ''50'', rt_output_sum = ''40'', rt_contract_flags = 0,
     rt_page_hashes = [''d''],
     rt_inputs = [\<lparr>ri_page = 0, ri_lane = 0, ri_slot_index = 3, ri_amount = 50, ri_creation_id = 9\<rparr>],
     rt_outputs = [\<lparr>ro_page = 0, ro_lane = 0, ro_slot_index = 8, ro_amount = 40, ro_owner = ''o''\<rparr>],
     rt_receipt_hex = ''ab''\<rparr>"

definition sample_below :: db where
  "sample_below = committed sample_db (insert_header_only_block sample_db sample_ho ''t2'')"

lemma wf_below: "wf_db sample_below"
  using op_insert_header_only_block.keeps_wf [OF wf_sample, of "(sample_ho, ''t2'')"] by (simp add: sample_below_def)

lemma receipts_leave_the_archive_alone_witness:
  "figures (committed sample_below (insert_receipt_transaction sample_below 2 sample_receipt_tx ''t3'')) = figures sample_below"
  by (rule receipts_leave_the_archive_alone [OF wf_below])

text \<open>
  Storing a receipt transaction is idempotent and refuses contradictions: once it is stored, the
  same transaction is a no-op, another transaction at its position and another transaction count for
  the block are errors, and so is any receipt for a block that was recorded with its body.
\<close>
theorem receipt_transaction_is_stored_once:
  assumes "wf_db c" "insert_receipt_transaction c bid tx now = Inr (c', True)"
  shows "insert_receipt_transaction c' bid tx now' = Inr (c', False)
    \<and> (\<forall>t. rt_position t = rt_position tx \<and> rt_tx_count t = rt_tx_count tx \<and> rt_txid t \<noteq> rt_txid tx
         \<longrightarrow> isl (insert_receipt_transaction c' bid t now'))
    \<and> (\<forall>t. rt_tx_count t \<noteq> rt_tx_count tx \<longrightarrow> isl (insert_receipt_transaction c' bid t now'))
    \<and> (\<forall>i t. archived_block c' i \<longrightarrow> isl (insert_receipt_transaction c' i t now'))"
proof -
  have hdr: "(bid, False) \<in> block_sigs c" and st: "store_receipt_rows c bid tx now = Inr c'"
    using insert_receipt_transaction_Inr [OF assms(2)] by simp_all
  have wf': "wf_db c'" using store_receipt_rows_ok [OF assms(1) hdr st] ..
  have pos: "rt_position tx \<noteq> 0" "rt_position tx < rt_tx_count tx"
    using assms(2) by (auto simp: insert_receipt_transaction_def and_then_Inr_iff split: if_splits)
  obtain b where b: "block_with_id c bid = Some b" "b_body_source b = Some HEADER_ONLY_SOURCE"
    using assms(2) by (auto simp: insert_receipt_transaction_def and_then_Inr_iff is_header_only_def split: option.splits if_splits)
  show ?thesis
  proof (rule store_receipt_rows_Inr [OF st])
    fix tx_id phs ins outs rcs
    let ?row = "receipt_tx_row tx_id bid tx"
    let ?f = "\<lambda>b. b\<lparr>b_tx_count_total := Some (uint (rt_tx_count tx))\<rparr>"
    assume r: "tx_key ?row \<notin> tx_key ` set (transactions c)"
      "c' = c\<lparr>transactions := transactions c @ [?row], page_hashes := phs, inputs := ins, outputs := outs, receipts := rcs,
         blocks := update_where (\<lambda>b. b_id b = bid) ?f (blocks c)\<rparr>"
    have "block_with_id c' bid = map_option (\<lambda>b. if b_id b = bid then ?f b else b) (block_with_id c bid)"
      by (simp add: r(2) block_with_id_def find_update_where)
    then have block: "block_with_id c' bid = Some (?f b)"
      using b(1) by (auto simp: block_with_id_def find_Some_iff)
    then have ho: "is_header_only c' bid = Inr True" using b(2) by (simp add: is_header_only_def)
    have "find (\<lambda>t. t_block_id t = bid \<and> t_position t = uint (rt_position tx)) (transactions c) = None"
      using r(1) by (auto simp: find_None_iff tx_key_def receipt_tx_row_def image_iff)
    then have found: "find (\<lambda>t. t_block_id t = bid \<and> t_position t = uint (rt_position tx)) (transactions c') = Some ?row"
      by (simp add: r(2) find_append receipt_tx_row_def)
    have other: "isl (insert_receipt_transaction c' i t now')" if "archived_block c' i" for i t
    proof (cases "is_header_only c' i")
      case (Inr x)
      then have "x = False"
        using block_sig_unique [OF _ is_header_only_sig [OF Inr], of True] that wf' by (simp add: archived_block_def wf_db_def)
      with Inr show ?thesis by (simp add: insert_receipt_transaction_def bail_def)
    qed (simp add: insert_receipt_transaction_def)
    have count: "uint (rt_tx_count tx) = uint (rt_tx_count t) \<longleftrightarrow> rt_tx_count t = rt_tx_count tx" for t
      by (auto simp: word_uint_eq_iff)
    show ?thesis
      using pos ho found block other
      by (auto simp: insert_receipt_transaction_def bail_def receipt_tx_row_def not_le count)
  qed
qed

definition sample_proven :: db where
  "sample_proven = fst (projr (insert_receipt_transaction sample_below 2 sample_receipt_tx ''t3''))"

lemma sample_proven_stored: "insert_receipt_transaction sample_below 2 sample_receipt_tx ''t3'' = Inr (sample_proven, True)"
proof -
  have n: "\<not> isl (insert_receipt_transaction sample_below 2 sample_receipt_tx ''t3'')"
    and s: "snd (projr (insert_receipt_transaction sample_below 2 sample_receipt_tx ''t3''))" by code_simp+
  from inr_pair [OF n] s show ?thesis unfolding sample_proven_def by (metis (full_types))
qed

lemma receipt_transaction_is_stored_once_witness:
  "insert_receipt_transaction sample_proven 2 sample_receipt_tx ''t9'' = Inr (sample_proven, False)
    \<and> isl (insert_receipt_transaction sample_proven 2 (sample_receipt_tx\<lparr>rt_txid := ''x''\<rparr>) ''t9'')
    \<and> isl (insert_receipt_transaction sample_proven 2 (sample_receipt_tx\<lparr>rt_tx_count := 3\<rparr>) ''t9'')"
  using receipt_transaction_is_stored_once [OF wf_below sample_proven_stored, of "''t9''"]
  by (auto simp: sample_receipt_tx_def)

end
