(* ===== verification/Headers.thy ===== *)
theory Headers
  imports Archive_View
begin

text \<open>
  The header backfill of \<^verbatim>\<open>permanode/src/indexer.rs\<close>: the node's block headers below the
  archive's first block are copied top down to genesis, in batches, each header checked to be the
  parent of the block above it. A run is driven by the tips the node reports before each batch
  (\<open>tip_once_indexer_current\<close>); a header call is answered per attempt, so its retries are part of the
  model.
\<close>

section \<open>Asking the node\<close>

type_synonym header_source = "u64 \<Rightarrow> nat \<Rightarrow> block_header_info option result"

text \<open>A call is tried five times; \<open>attempt\<close> counts the failures so far.\<close>

fun retry_from :: "nat \<Rightarrow> string \<Rightarrow> (nat \<Rightarrow> 'a result) \<Rightarrow> nat \<Rightarrow> 'a result" where
  "retry_from 0 what ask attempt = bail (what @ '' failed five times'')"
| "retry_from (Suc n) what ask attempt =
     (case ask attempt of
        Inr x \<Rightarrow> Inr x
      | Inl e \<Rightarrow> if attempt < 4 then retry_from n what ask (attempt + 1)
                 else bail (what @ '' failed five times''))"

definition fetch_header :: "header_source \<Rightarrow> u64 \<Rightarrow> block_header_info option result" where
  "fetch_header rpc height = retry_from 5 ''getBlockHeader'' (rpc height) 0"

definition header_only_block_of :: "block_header_info \<Rightarrow> header_only_block" where
  "header_only_block_of h =
     \<lparr>ho_height = h_height h, ho_hash = h_hash h, ho_prev_hash = h_prev_hash h, ho_state_root = h_state_root h,
      ho_tx_root = h_tx_root h, ho_timestamp = h_timestamp h, ho_miner = h_miner h, ho_nonce_hex = h_nonce_hex h,
      ho_difficulty_target = h_difficulty_target h, ho_log_slots = h_log_slots h\<rparr>"

section \<open>One batch\<close>

definition HEADER_BATCH :: u64 where "HEADER_BATCH = 200"
definition FINAL_DEPTH :: u64 where "FINAL_DEPTH = 18"
definition HEADER_BACKFILL_KEY :: string where "HEADER_BACKFILL_KEY = ''header_backfill_next''"

text \<open>The headers of a batch, and the hash the next batch must start with.\<close>

fun read_headers :: "header_source \<Rightarrow> u64 list \<Rightarrow> string \<Rightarrow> (block_header_info list \<times> string) result" where
  "read_headers rpc [] expected_hash = Inr ([], expected_hash)"
| "read_headers rpc (height # rest) expected_hash =
     and_then (fetch_header rpc height) (\<lambda>answer. case answer of
       None \<Rightarrow> if height = 0 then Inr ([], expected_hash) else bail ''the node has no header''
     | Some header \<Rightarrow>
         if h_height header \<noteq> height \<or> h_hash header \<noteq> expected_hash
         then bail ''the node's header is not the parent of the block on record''
         else and_then (read_headers rpc rest (h_prev_hash header)) (\<lambda>(batch, expected).
                Inr (header # batch, expected)))"

fun insert_headers :: "block_header_info list \<Rightarrow> string \<Rightarrow> db \<Rightarrow> db result" where
  "insert_headers [] now c = Inr c"
| "insert_headers (h # hs) now c =
     and_then (insert_header_only_block c (header_only_block_of h) now) (\<lambda>(c, _). insert_headers hs now c)"

definition batch_low :: "u64 \<Rightarrow> u64" where
  "batch_low height = saturating_sub height (HEADER_BATCH - 1)"

definition header_batch :: "header_source \<Rightarrow> db \<Rightarrow> u64 \<Rightarrow> string \<Rightarrow> string \<Rightarrow> (db \<times> string) result" where
  "header_batch rpc c height expected_hash now =
     (let low = batch_low height
      in and_then (read_headers rpc (rev (heights low height)) expected_hash) (\<lambda>(batch, expected).
         and_then (insert_headers batch now c) (\<lambda>c.
           Inr (set_state c HEADER_BACKFILL_KEY (if low = 0 then ''done'' else u64_to_string (low - 1)), expected))))"

section \<open>The run\<close>

datatype backfill_outcome = Done | Stopped failure | Running u64 string | Waiting

definition horizon :: "u64 \<Rightarrow> u64 \<Rightarrow> u64" where
  "horizon tip depth = saturating_sub tip (max depth FINAL_DEPTH + 1)"

fun header_loop :: "header_source \<Rightarrow> u64 \<Rightarrow> (u64 \<Rightarrow> string) \<Rightarrow> u64 list \<Rightarrow> db \<Rightarrow> u64 \<Rightarrow> string \<Rightarrow> db \<times> backfill_outcome" where
  "header_loop rpc depth clk [] c height expected_hash = (c, Running height expected_hash)"
| "header_loop rpc depth clk (tip # tips) c height expected_hash =
     (if height > horizon tip depth then header_loop rpc depth clk tips c height expected_hash
      else case header_batch rpc c height expected_hash (clk height) of
             Inl e \<Rightarrow> (c, Stopped e)
           | Inr (c, expected) \<Rightarrow>
               if batch_low height = 0 then (c, Done)
               else header_loop rpc depth clk tips c (batch_low height - 1) expected)"

definition backfill_headers :: "header_source \<Rightarrow> u64 \<Rightarrow> (u64 \<Rightarrow> string) \<Rightarrow> u64 list \<Rightarrow> db \<Rightarrow> db \<times> backfill_outcome" where
  "backfill_headers rpc depth clk tips c =
     (case archive_first_height c of
        None \<Rightarrow> (c, Waiting)
      | Some archive_first \<Rightarrow>
          if get_state c HEADER_BACKFILL_KEY = Some ''done'' then (c, Done)
          else
            let lowest = (case lowest_recorded_height c of Some h \<Rightarrow> h | None \<Rightarrow> archive_first)
            in if lowest = 0 then (set_state c HEADER_BACKFILL_KEY ''done'', Done)
               else case canonical_link_at c (lowest - 1 + 1) of
                      None \<Rightarrow> (c, Stopped (Failure ''no canonical block to start below''))
                    | Some (_, expected_hash) \<Rightarrow> header_loop rpc depth clk tips c (lowest - 1) expected_hash)"

section \<open>Retries\<close>

lemma retry_first_success:
  "k < 5 \<Longrightarrow> ask k = Inr x \<Longrightarrow> \<forall>i < k. isl (ask i) \<Longrightarrow> retry_from 5 what ask 0 = Inr x"
proof -
  assume k: "k < 5" "ask k = Inr x" "\<forall>i < k. isl (ask i)"
  have "retry_from n what ask a = Inr x" if "a \<le> k" "k < a + n" "\<forall>i. a \<le> i \<and> i < k \<longrightarrow> isl (ask i)" for n a
    using that
  proof (induction n arbitrary: a)
    case (Suc n)
    show ?case
    proof (cases "a = k")
      case False
      then have "isl (ask a)" using Suc.prems by simp
      then obtain e where e: "ask a = Inl e" by (cases "ask a") auto
      have "retry_from n what ask (a + 1) = Inr x" using Suc False by (intro Suc.IH) auto
      with e False Suc.prems(1) k(1) show ?thesis by simp
    qed (simp add: k)
  qed simp
  from this [of 0 5] k show ?thesis by simp
qed

lemma retry_all_fail: "\<forall>i < 5. isl (ask i) \<Longrightarrow> isl (retry_from 5 what ask 0)"
proof -
  assume f: "\<forall>i < 5. isl (ask i)"
  have "isl (retry_from n what ask a)" if "a + n = 5" for n a
    using that
  proof (induction n arbitrary: a)
    case (Suc n)
    then have "isl (ask a)" using f by simp
    with Suc show ?case by (cases "ask a") (simp_all add: bail_def)
  qed (simp add: bail_def)
  from this [of 0 5] show ?thesis by simp
qed

section \<open>Batches are parent-linked\<close>

lemma descending_heights:
  assumes "low \<le> height"
  shows "rev (heights low height) = map (\<lambda>i. height - of_nat i) [0..<Suc (unat height - unat low)]"
proof -
  have le: "unat low \<le> unat height" using assms by (simp add: word_le_nat_alt)
  have len: "length (heights low height) = Suc (unat height - unat low)" using le by (simp add: heights_def del: upt_Suc)
  show ?thesis
  proof (rule nth_equalityI)
    show "length (rev (heights low height)) = length (map (\<lambda>i. height - of_nat i) [0..<Suc (unat height - unat low)])"
      by (simp add: len del: upt_Suc)
    fix i assume "i < length (rev (heights low height))"
    then have i: "i \<le> unat height - unat low" by (simp add: len)
    have "rev (heights low height) ! i = heights low height ! (unat height - unat low - i)"
      using i by (simp add: rev_nth len)
    also have "\<dots> = of_nat (unat low + (unat height - unat low - i))"
      using i le by (simp add: heights_def del: upt_Suc)
    also have "unat low + (unat height - unat low - i) = unat height - i" using i le by simp
    also have "of_nat (unat height - i) = height - of_nat i"
    proof -
      have "i \<le> unat height" using i by simp
      then have "(of_nat (unat height - i) :: u64) = of_nat (unat height) - of_nat i" by (rule of_nat_diff)
      then show ?thesis by simp
    qed
    finally show "rev (heights low height) ! i = map (\<lambda>i. height - of_nat i) [0..<Suc (unat height - unat low)] ! i"
      using i by (simp del: upt_Suc)
  qed
qed

fun linked :: "u64 \<Rightarrow> string \<Rightarrow> block_header_info list \<Rightarrow> string \<Rightarrow> bool" where
  "linked k e [] e' = (e = e')"
| "linked k e (x # xs) e' = (h_height x = k \<and> h_hash x = e \<and> linked (k - 1) (h_prev_hash x) xs e')"

text \<open>Block rows that continue the chain downwards from height \<open>k\<close> and hash \<open>e\<close>.\<close>

fun links :: "u64 \<Rightarrow> string \<Rightarrow> block_row list \<Rightarrow> string \<Rightarrow> bool" where
  "links k e [] e' = (e = e')"
| "links k e (b # bs) e' =
     (b_height b = as_i64 k \<and> b_hash b = e \<and> b_body_source b = Some HEADER_ONLY_SOURCE \<and> links (k - 1) (b_prev_hash b) bs e')"

lemma links_append:
  "links k e xs e' \<Longrightarrow> links (k - of_nat (length xs)) e' ys e'' \<Longrightarrow> links k e (xs @ ys) e''"
  by (induction xs arbitrary: k e) (auto simp: algebra_simps)

lemma map_desc_Cons:
  "map (\<lambda>i. (height :: u64) - of_nat i) [0..<Suc n] = height # map (\<lambda>i. (height - 1) - of_nat i) [0..<n]"
proof -
  have "[0..<Suc n] = 0 # map Suc [0..<n]" by (simp add: map_Suc_upt upt_conv_Cons del: upt_Suc)
  then show ?thesis by (simp add: algebra_simps del: upt_Suc)
qed

lemma read_headers_linked:
  "read_headers rpc (map (\<lambda>i. height - of_nat i) [0..<n]) e = Inr (batch, e') \<Longrightarrow> n \<le> unat height + 1 \<Longrightarrow>
     linked height e batch e' \<and> length batch \<le> n \<and> (n \<le> unat height \<longrightarrow> length batch = n)"
proof (induction n arbitrary: height e batch)
  case (Suc n)
  obtain answer where a: "fetch_header rpc height = Inr answer"
    using Suc.prems(1) unfolding map_desc_Cons by (auto simp: and_then_Inr_iff)
  show ?case
  proof (cases answer)
    case None
    then have "height = 0 \<and> batch = [] \<and> e' = e"
      using Suc.prems(1) unfolding map_desc_Cons by (auto simp: a split: if_splits)
    then show ?thesis using Suc.prems(2) by simp
  next
    case (Some h)
    obtain rest where r: "h_height h = height" "h_hash h = e" "batch = h # rest"
      "read_headers rpc (map (\<lambda>i. (height - 1) - of_nat i) [0..<n]) (h_prev_hash h) = Inr (rest, e')"
      using Suc.prems(1) unfolding map_desc_Cons by (auto simp: a Some and_then_Inr_iff split: if_splits)
    show ?thesis
    proof (cases "n = 0")
      case True
      then show ?thesis using r by simp
    next
      case False
      then have "unat height \<noteq> 0" using Suc.prems(2) by simp
      then have "1 \<le> height" by (simp add: word_le_nat_alt)
      then have u: "unat (height - 1) = unat height - 1" by (simp add: unat_sub)
      from Suc.IH [OF r(4)] Suc.prems(2) \<open>unat height \<noteq> 0\<close> show ?thesis by (simp add: u r)
    qed
  qed
qed simp

lemma as_i64_less: "unat y < 2 ^ 63 \<Longrightarrow> x < y \<Longrightarrow> as_i64 x < as_i64 y"
proof -
  assume y: "unat y < 2 ^ 63" and "x < y"
  then have lt: "unat x < unat y" by (simp only: word_less_nat_alt)
  then have "unat x < 2 ^ 63" using y by (rule less_trans)
  with y lt show ?thesis by (simp only: as_i64_small of_nat_less_iff)
qed

definition all_above :: "db \<Rightarrow> u64 \<Rightarrow> bool" where
  "all_above c k = (\<forall>b \<in> set (blocks c). as_i64 k < b_height b)"

lemma insert_header_above:
  assumes "all_above c (ho_height b)"
  shows "insert_header_only_block c b now
    = Inr (append_status (c\<lparr>blocks := blocks c @ [header_only_row (next_rowid (map b_id (blocks c))) b now]\<rparr>)
        (next_rowid (map b_id (blocks c))) Canonical now, True)"
proof -
  have "filter (\<lambda>r. b_height r = as_i64 (ho_height b)) (blocks c) = []"
    using assms by (auto simp: all_above_def filter_empty_conv)
  then show ?thesis by (simp add: insert_header_only_block_def Let_def)
qed

lemma insert_headers_links:
  "linked k e batch e' \<Longrightarrow> length batch \<le> unat k + 1 \<Longrightarrow> unat k < 2 ^ 63 \<Longrightarrow> all_above c k \<Longrightarrow>
     \<exists>c' new. insert_headers batch now c = Inr c' \<and> blocks c' = blocks c @ new \<and> links k e new e' \<and> length new = length batch"
proof (induction batch arbitrary: k e c)
  case (Cons h hs)
  let ?b = "header_only_block_of h"
  let ?i = "next_rowid (map b_id (blocks c))"
  let ?c = "append_status (c\<lparr>blocks := blocks c @ [header_only_row ?i ?b now]\<rparr>) ?i Canonical now"
  have h: "h_height h = k" "h_hash h = e" "linked (k - 1) (h_prev_hash h) hs e'" using Cons.prems(1) by simp_all
  have ins: "insert_header_only_block c ?b now = Inr (?c, True)"
    using Cons.prems(4) h(1) by (intro insert_header_above) (simp add: header_only_block_of_def)
  have row: "b_height (header_only_row ?i ?b now) = as_i64 k" "b_hash (header_only_row ?i ?b now) = e"
    "b_body_source (header_only_row ?i ?b now) = Some HEADER_ONLY_SOURCE" "b_prev_hash (header_only_row ?i ?b now) = h_prev_hash h"
    using h by (simp_all add: header_only_row_def header_only_block_of_def)
  have bl: "blocks ?c = blocks c @ [header_only_row ?i ?b now]" by simp
  show ?case
  proof (cases "hs = []")
    case True
    then show ?thesis using ins bl row h(3) by (intro exI [of _ ?c] exI [of _ "[header_only_row ?i ?b now]"]) simp
  next
    case False
    then have "0 < length hs" by simp
    then have "unat k \<noteq> 0" using Cons.prems(2) by (simp del: length_greater_0_conv)
    then have "1 \<le> k" by (simp add: word_le_nat_alt)
    then have u: "unat (k - 1) = unat k - 1" by (simp add: unat_sub)
    then have "k - 1 < k" using \<open>unat k \<noteq> 0\<close> by (simp add: word_less_nat_alt)
    then have lt: "as_i64 (k - 1) < as_i64 k" using Cons.prems(3) by (rule as_i64_less [rotated])
    have "all_above ?c (k - 1)" using Cons.prems(4) lt row(1) by (auto simp: all_above_def bl)
    then obtain c' new where "insert_headers hs now ?c = Inr c'" "blocks c' = blocks ?c @ new"
      "links (k - 1) (h_prev_hash h) new e'" "length new = length hs"
      using Cons.IH [OF h(3), of ?c] Cons.prems(2,3) u \<open>unat k \<noteq> 0\<close> by force
    then show ?thesis using ins row by (intro exI [of _ c'] exI [of _ "header_only_row ?i ?b now # new"]) simp
  qed
qed simp

section \<open>A run\<close>

lemma all_above_links:
  assumes "links k e new e'" "unat k < 2 ^ 63" "length new \<le> unat k" "all_above c k" "blocks c' = blocks c @ new"
  shows "all_above c' (k - of_nat (length new))"
  using assms
proof (induction new arbitrary: k e c)
  case Nil
  then show ?case by (simp add: all_above_def)
next
  case (Cons b bs)
  have nz: "unat k \<noteq> 0" using Cons.prems(3) by auto
  then have "1 \<le> k" by (simp add: word_le_nat_alt)
  then have u: "unat (k - 1) = unat k - 1" by (simp add: unat_sub)
  then have "k - 1 < k" using nz by (simp add: word_less_nat_alt)
  then have lt: "as_i64 (k - 1) < as_i64 k" using Cons.prems(2) by (rule as_i64_less [rotated])
  let ?c = "c\<lparr>blocks := blocks c @ [b]\<rparr>"
  have "all_above ?c (k - 1)" using Cons.prems(1,4) lt by (auto simp: all_above_def)
  then have "all_above c' (k - 1 - of_nat (length bs))"
    using Cons.prems u nz by (intro Cons.IH [of "k - 1" "b_prev_hash b" ?c]) auto
  then show ?case by (simp add: algebra_simps)
qed

lemma batch_low_le: "batch_low k \<le> k" "unat (batch_low k) = unat k - 199"
  by (simp_all add: batch_low_def HEADER_BATCH_def unat_saturating_sub word_le_nat_alt)

lemma header_batch_links:
  assumes "header_batch rpc c height e now = Inr (c', e')" "unat height < 2 ^ 63" "all_above c height"
  shows "\<exists>new. blocks c' = blocks c @ new \<and> links height e new e' \<and> length new \<le> unat height + 1
    \<and> (batch_low height \<noteq> 0 \<longrightarrow> height - of_nat (length new) = batch_low height - 1 \<and> length new \<le> unat height)
    \<and> get_state c' HEADER_BACKFILL_KEY = Some (if batch_low height = 0 then ''done'' else u64_to_string (batch_low height - 1))"
proof -
  let ?low = "batch_low height"
  let ?n = "Suc (unat height - unat ?low)"
  obtain batch c1 where r: "read_headers rpc (rev (heights ?low height)) e = Inr (batch, e')" "insert_headers batch now c = Inr c1"
    "c' = set_state c1 HEADER_BACKFILL_KEY (if ?low = 0 then ''done'' else u64_to_string (?low - 1))"
    using assms(1) by (auto simp: header_batch_def Let_def and_then_Inr_iff)
  have l: "linked height e batch e'" "length batch \<le> ?n" "?n \<le> unat height \<Longrightarrow> length batch = ?n"
    using read_headers_linked [OF r(1) [unfolded descending_heights [OF batch_low_le(1)]]] by auto
  have "length batch \<le> unat height + 1" using l(2) by simp
  from insert_headers_links [OF l(1) this assms(2,3), of now] obtain new where
    new: "blocks c1 = blocks c @ new" "links height e new e'" "length new = length batch"
    using r(2) by auto
  have "height - of_nat (length new) = ?low - 1 \<and> length new \<le> unat height" if low: "?low \<noteq> 0"
  proof -
    have pos: "unat ?low \<noteq> 0" using low by (simp add: unat_eq_0)
    then have n: "?n \<le> unat height" using batch_low_le(2) [of height] by linarith
    then have len: "length new = ?n" using l(3) new(3) by simp
    have le: "unat ?low \<le> unat height" using batch_low_le(2) [of height] by linarith
    have "(of_nat (unat height - unat ?low) :: u64) = of_nat (unat height) - of_nat (unat ?low)" using le by (rule of_nat_diff)
    then have "(of_nat ?n :: u64) = height - ?low + 1" by simp
    then show ?thesis using n by (simp add: len algebra_simps)
  qed
  moreover have "length new \<le> unat height + 1" using l(2) new(3) by simp
  ultimately show ?thesis
    using new by (intro exI [of _ new]) (simp add: r(3) set_state_def get_state_def)
qed

lemma header_loop_links:
  "header_loop rpc depth clk tips c height e = (c', out) \<Longrightarrow> unat height < 2 ^ 63 \<Longrightarrow> all_above c height \<Longrightarrow>
     \<exists>new e'. blocks c' = blocks c @ new \<and> links height e new e'"
proof (induction tips arbitrary: c height e)
  case (Cons tip tips)
  show ?case
  proof (cases "height > horizon tip depth")
    case True
    then show ?thesis using Cons by simp
  next
    case False
    show ?thesis
    proof (cases "header_batch rpc c height e (clk height)")
      case (Inl err)
      then have "c' = c" using Cons.prems(1) False by simp
      then show ?thesis by (intro exI [of _ "[]"] exI [of _ e]) simp
    next
      case (Inr r)
      obtain c1 e1 where r: "r = (c1, e1)" by (cases r)
      obtain new where new: "blocks c1 = blocks c @ new" "links height e new e1" "length new \<le> unat height + 1"
        "batch_low height \<noteq> 0 \<longrightarrow> height - of_nat (length new) = batch_low height - 1 \<and> length new \<le> unat height"
        using header_batch_links [OF Inr [unfolded r] Cons.prems(2,3)] by blast
      show ?thesis
      proof (cases "batch_low height = 0")
        case True
        then have "c' = c1" using Cons.prems(1) False Inr r by simp
        then show ?thesis using new by auto
      next
        case low: False
        let ?k = "batch_low height - 1"
        have loop: "header_loop rpc depth clk tips c1 ?k e1 = (c', out)" using Cons.prems(1) False Inr r low by simp
        have "all_above c1 (height - of_nat (length new))"
          using new(4) low by (intro all_above_links [OF new(2) Cons.prems(2) _ Cons.prems(3) new(1)]) simp
        then have above: "all_above c1 ?k" using new(4) low by simp
        have "unat (batch_low height) \<noteq> 0" using low by (simp add: unat_eq_0)
        then have "1 \<le> batch_low height" by (simp add: word_le_nat_alt)
        then have "unat ?k = unat (batch_low height) - 1" by (simp add: unat_sub)
        then have "unat ?k < 2 ^ 63" using batch_low_le(2) [of height] Cons.prems(2) by linarith
        then obtain new' e' where more: "blocks c' = blocks c1 @ new'" "links ?k e1 new' e'"
          using Cons.IH [OF loop _ above] by blast
        have "links height e (new @ new') e'" using links_append [OF new(2)] more(2) new(4) low by simp
        then show ?thesis using more(1) new(1) by (intro exI [of _ "new @ new'"] exI [of _ e']) simp
      qed
    qed
  qed
qed auto

section \<open>Completion\<close>

text \<open>The node serves a parent-linked header at every height up to \<open>k\<close>, within five attempts.\<close>

definition serves_chain :: "header_source \<Rightarrow> (u64 \<Rightarrow> string) \<Rightarrow> u64 \<Rightarrow> bool" where
  "serves_chain rpc hash_at k = (\<forall>h \<le> k. \<exists>hdr. fetch_header rpc h = Inr (Some hdr)
     \<and> h_height hdr = h \<and> h_hash hdr = hash_at h \<and> h_prev_hash hdr = hash_at (h - 1))"

lemma read_headers_serves:
  "serves_chain rpc hash_at k \<Longrightarrow> height \<le> k \<Longrightarrow> n \<le> unat height + 1 \<Longrightarrow>
     \<exists>batch. read_headers rpc (map (\<lambda>i. height - of_nat i) [0..<n]) (hash_at height) = Inr (batch, hash_at (height - of_nat n))
       \<and> length batch = n"
proof (induction n arbitrary: height)
  case (Suc n)
  obtain hdr where hdr: "fetch_header rpc height = Inr (Some hdr)" "h_height hdr = height" "h_hash hdr = hash_at height"
    "h_prev_hash hdr = hash_at (height - 1)"
    using Suc.prems(1,2) by (auto simp: serves_chain_def)
  show ?case
  proof (cases "n = 0")
    case True
    then show ?thesis unfolding map_desc_Cons using hdr by simp
  next
    case False
    then have "unat height \<noteq> 0" using Suc.prems(3) by simp
    then have "1 \<le> height" by (simp add: word_le_nat_alt)
    then have u: "unat (height - 1) = unat height - 1" by (simp add: unat_sub)
    then have "height - 1 \<le> k" using Suc.prems(2) by (simp add: word_le_nat_alt)
    from Suc.IH [OF Suc.prems(1) this] Suc.prems(3) u \<open>unat height \<noteq> 0\<close> obtain batch where
      "read_headers rpc (map (\<lambda>i. (height - 1) - of_nat i) [0..<n]) (hash_at (height - 1)) = Inr (batch, hash_at (height - 1 - of_nat n))"
      "length batch = n" by auto
    then show ?thesis unfolding map_desc_Cons using hdr by (intro exI [of _ "hdr # batch"]) (simp add: algebra_simps)
  qed
qed simp

lemma header_batch_serves:
  assumes "serves_chain rpc hash_at k" "height \<le> k" "unat height < 2 ^ 63" "all_above c height"
  obtains c' new where "header_batch rpc c height (hash_at height) now = Inr (c', hash_at (batch_low height - 1))"
    "blocks c' = blocks c @ new" "length new = Suc (unat height - unat (batch_low height))"
proof -
  let ?low = "batch_low height"
  let ?n = "Suc (unat height - unat ?low)"
  have le: "unat ?low \<le> unat height" using batch_low_le(2) [of height] by linarith
  have "(of_nat (unat height - unat ?low) :: u64) = of_nat (unat height) - of_nat (unat ?low)" using le by (rule of_nat_diff)
  then have hn: "height - of_nat ?n = ?low - 1" by (simp add: algebra_simps)
  have "?n \<le> unat height + 1" by simp
  from read_headers_serves [OF assms(1,2) this] obtain batch where
    b: "read_headers rpc (rev (heights ?low height)) (hash_at height) = Inr (batch, hash_at (?low - 1))" "length batch = ?n"
    unfolding descending_heights [OF batch_low_le(1)] hn by blast
  have l: "linked height (hash_at height) batch (hash_at (?low - 1))"
    using read_headers_linked [OF b(1) [unfolded descending_heights [OF batch_low_le(1)]]] by simp
  have "length batch \<le> unat height + 1" using b(2) by simp
  from insert_headers_links [OF l this assms(3,4), of now] obtain c1 new where
    "insert_headers batch now c = Inr c1" "blocks c1 = blocks c @ new" "length new = ?n" using b(2) by auto
  then show thesis
    using b(1) by (intro that [of "set_state c1 HEADER_BACKFILL_KEY (if ?low = 0 then ''done'' else u64_to_string (?low - 1))" new])
      (auto simp: header_batch_def Let_def set_state_def)
qed

lemma header_loop_completes:
  assumes "serves_chain rpc hash_at k" "\<forall>tip \<in> set tips. k \<le> horizon tip depth"
  shows "height \<le> k \<Longrightarrow> unat height < 2 ^ 63 \<Longrightarrow> all_above c height \<Longrightarrow> unat height div 200 < length tips \<Longrightarrow>
    \<exists>c' new. header_loop rpc depth clk tips c height (hash_at height) = (c', Done) \<and> blocks c' = blocks c @ new
      \<and> length new = unat height + 1"
  using assms(2)
proof (induction tips arbitrary: height c)
  case (Cons tip tips)
  have "height \<le> horizon tip depth" using Cons.prems(1,5) by (auto intro: order.trans)
  then have final: "\<not> height > horizon tip depth" by simp
  obtain c1 new where b: "header_batch rpc c height (hash_at height) (clk height) = Inr (c1, hash_at (batch_low height - 1))"
    "blocks c1 = blocks c @ new" "length new = Suc (unat height - unat (batch_low height))"
    by (rule header_batch_serves [OF assms(1) Cons.prems(1,2,3)])
  obtain new' where n': "blocks c1 = blocks c @ new'" "links height (hash_at height) new' (hash_at (batch_low height - 1))"
    "length new' \<le> unat height + 1"
    "batch_low height \<noteq> 0 \<longrightarrow> height - of_nat (length new') = batch_low height - 1 \<and> length new' \<le> unat height"
    using header_batch_links [OF b(1) Cons.prems(2,3)] by blast
  show ?case
  proof (cases "batch_low height = 0")
    case True
    then show ?thesis using final b by auto
  next
    case low: False
    let ?k = "batch_low height - 1"
    have pos: "unat (batch_low height) \<noteq> 0" using low by (simp add: unat_eq_0)
    then have "1 \<le> batch_low height" by (simp add: word_le_nat_alt)
    then have "unat ?k = unat (batch_low height) - 1" by (simp add: unat_sub)
    then have uk: "unat ?k = unat height - 200" "200 \<le> unat height" using batch_low_le(2) [of height] pos by linarith+
    have "?k \<le> k" using uk Cons.prems(1) by (simp add: word_le_nat_alt)
    moreover have "unat ?k < 2 ^ 63" using uk Cons.prems(2) by linarith
    moreover have "all_above c1 ?k"
      using n'(4) low all_above_links [OF n'(2) Cons.prems(2) _ Cons.prems(3) n'(1)] by simp
    moreover have "unat ?k div 200 < length tips" using Cons.prems(4) uk by (simp add: div_if [of "unat height" 200])
    ultimately obtain c' more where "header_loop rpc depth clk tips c1 ?k (hash_at ?k) = (c', Done)" "blocks c' = blocks c1 @ more"
      "length more = unat ?k + 1"
      using Cons.IH Cons.prems(5) by (metis list.set_intros(2))
    then show ?thesis
      using final b low uk batch_low_le(2) [of height] pos by (intro exI [of _ c'] exI [of _ "new @ more"]) simp
  qed
qed simp

section \<open>The archive does not notice\<close>

interpretation state_entry: leaves_archive_alone "\<lambda>(k, v) c. set_state c k v"
  by unfold_locales
    (auto simp: beside_archive_def set_state_def is_canonical_def current_status_def on_record_def origin_def
      block_with_id_def from_receipt_def fun_eq_iff split: option.splits)

definition kept :: "db \<Rightarrow> db \<Rightarrow> bool" where
  "kept c c' = (wf_db c' \<and> evidence_le c c' \<and> figures c' = figures c)"

lemma kept_refl: "wf_db c \<Longrightarrow> kept c c"
  by (simp add: kept_def)

lemma kept_trans: "kept a b \<Longrightarrow> kept b c \<Longrightarrow> kept a c"
  by (auto simp: kept_def intro: evidence_trans)

lemma kept_set_state: "wf_db c \<Longrightarrow> kept c (set_state c k v)"
  using op_set_state.keeps_wf [of c "(k, v)"] op_set_state.keeps_evidence [of c "(k, v)"] state_entry.same_figures [of c "(k, v)"]
  by (simp add: kept_def)

lemma kept_header: "wf_db c \<Longrightarrow> insert_header_only_block c b now = Inr (c', x) \<Longrightarrow> kept c c'"
  using op_insert_header_only_block.keeps_wf [of c "(b, now)"] op_insert_header_only_block.keeps_evidence [of c "(b, now)"]
    header_row.same_figures [of c "(b, now)"]
  by (simp add: kept_def)

lemma kept_headers: "wf_db c \<Longrightarrow> insert_headers hs now c = Inr c' \<Longrightarrow> kept c c'"
proof (induction hs arbitrary: c)
  case (Cons h hs)
  then obtain c1 x where c1: "insert_header_only_block c (header_only_block_of h) now = Inr (c1, x)" "insert_headers hs now c1 = Inr c'"
    by (auto simp: and_then_Inr_iff)
  have "kept c c1" by (rule kept_header [OF Cons.prems(1) c1(1)])
  with Cons.IH [OF _ c1(2)] show ?case by (auto simp: kept_def intro: evidence_trans)
qed (simp add: kept_refl)

lemma kept_batch: "wf_db c \<Longrightarrow> header_batch rpc c height e now = Inr (c', e') \<Longrightarrow> kept c c'"
proof -
  assume wf: "wf_db c" and r: "header_batch rpc c height e now = Inr (c', e')"
  then obtain batch c1 v where "insert_headers batch now c = Inr c1" "c' = set_state c1 HEADER_BACKFILL_KEY v"
    by (auto simp: header_batch_def Let_def and_then_Inr_iff)
  with kept_headers [OF wf] kept_set_state [of c1] show ?thesis by (metis kept_def kept_trans)
qed

lemma kept_loop: "wf_db c \<Longrightarrow> header_loop rpc depth clk tips c height e = (c', out) \<Longrightarrow> kept c c'"
proof (induction tips arbitrary: c height e)
  case (Cons tip tips)
  show ?case
  proof (cases "height > horizon tip depth")
    case False
    show ?thesis
    proof (cases "header_batch rpc c height e (clk height)")
      case (Inr r)
      obtain c1 e1 where r: "r = (c1, e1)" by (cases r)
      have k: "kept c c1" by (rule kept_batch [OF Cons.prems(1) Inr [unfolded r]])
      then have "wf_db c1" by (simp add: kept_def)
      with Cons.IH [of c1] k Cons.prems(2) False Inr r show ?thesis
        by (auto split: if_splits intro: kept_trans)
    qed (use Cons.prems False kept_refl in auto)
  qed (use Cons in auto)
qed (auto simp: kept_refl)

lemma waits_for_finality:
  "\<forall>tip \<in> set tips. horizon tip depth < height \<Longrightarrow> header_loop rpc depth clk tips c height e = (c, Running height e)"
  by (induction tips) auto

section \<open>Properties\<close>

definition heights_in_range :: "db \<Rightarrow> bool" where
  "heights_in_range c = (\<forall>b \<in> set (blocks c). 0 \<le> b_height b \<and> b_height b < 2 ^ 63)"

lemma lowest_row:
  assumes "heights_in_range c" "lowest_recorded_height c = Some l"
  shows "unat l < 2 ^ 63" "\<forall>b \<in> set (blocks c). as_i64 l \<le> b_height b"
proof -
  let ?hs = "b_height ` set (blocks c)"
  have ne: "?hs \<noteq> {}" and l: "l = as_u64 (Min ?hs)"
    using assms(2) by (auto simp: lowest_recorded_height_def min_option_def split: if_splits)
  have "Min ?hs \<in> ?hs" using ne by (intro Min_in) auto
  then have m: "0 \<le> Min ?hs" "Min ?hs < 2 ^ 63" using assms(1) by (auto simp: heights_in_range_def)
  then have u: "uint l = Min ?hs" by (simp add: l as_u64_def uint_word_of_int_eq take_bit_int_eq_self)
  then have "int (unat l) < 2 ^ 63" using m by simp
  then show small: "unat l < 2 ^ 63" by (metis of_nat_less_iff of_nat_numeral of_nat_power)
  have "as_i64 l = Min ?hs" using as_i64_small [OF small] u by simp
  then show "\<forall>b \<in> set (blocks c). as_i64 l \<le> b_height b" by simp
qed

text \<open>
  C11. Whatever the node answers, a run of the header backfill only appends header-only rows that form
  one chain: each is the parent of the row before it, the first the parent of the lowest block on
  record; nothing is written before that parent is final; and the archive's figures, its invariant and
  its evidence are kept.
\<close>
theorem backfilled_headers_are_parent_linked:
  assumes "wf_db c" "heights_in_range c" "lowest_recorded_height c = Some lowest" "0 < lowest"
    and "backfill_headers rpc depth clk tips c = (c', out)"
  shows "(\<exists>new e. blocks c' = blocks c @ new \<and> links (lowest - 1) (snd (the (canonical_link_at c lowest))) new e)
    \<and> ((\<forall>tip \<in> set tips. horizon tip depth < lowest - 1) \<longrightarrow> blocks c' = blocks c)
    \<and> figures c' = figures c \<and> wf_db c' \<and> evidence_le c c'"
proof -
  let ?e = "snd (the (canonical_link_at c lowest))"
  have "c' = c \<or> header_loop rpc depth clk tips c (lowest - 1) ?e = (c', out)"
    using assms(3-5) by (auto simp: backfill_headers_def Let_def split: option.splits if_splits)
  then show ?thesis
  proof
    assume "c' = c"
    then show ?thesis using assms(1) by (intro conjI exI [of _ "[]"] exI [of _ ?e]) simp_all
  next
    assume loop: "header_loop rpc depth clk tips c (lowest - 1) ?e = (c', out)"
    have "1 \<le> lowest" using assms(4) by (simp add: word_less_nat_alt word_le_nat_alt)
    then have "lowest - 1 < lowest" using assms(4) by (simp add: word_less_nat_alt unat_sub)
    note low = lowest_row [OF assms(2,3)]
    have "as_i64 (lowest - 1) < as_i64 lowest" by (rule as_i64_less [OF low(1) \<open>lowest - 1 < lowest\<close>])
    then have above: "all_above c (lowest - 1)" using low(2) by (auto simp: all_above_def)
    have small: "unat (lowest - 1) < 2 ^ 63"
      using low(1) \<open>lowest - 1 < lowest\<close> by (simp add: word_less_nat_alt)
    have "kept c c'" by (rule kept_loop [OF assms(1) loop])
    then show ?thesis
      using header_loop_links [OF loop small above] waits_for_finality [of tips depth "lowest - 1" rpc clk c ?e] loop
      by (auto simp: kept_def)
  qed
qed

text \<open>A node whose first answer at every height fails, and whose headers are those below the sample block.\<close>

definition sample_hash_at :: "u64 \<Rightarrow> string" where
  "sample_hash_at h = (if h = 4 then ''p'' else u64_to_string h)"

definition sample_source :: header_source where
  "sample_source h n = (if n = 0 then bail ''timeout''
     else Inr (Some ((sample_header h (sample_hash_at h))\<lparr>h_prev_hash := sample_hash_at (h - 1)\<rparr>)))"

lemma sample_source_serves: "serves_chain sample_source sample_hash_at k"
proof -
  have "fetch_header sample_source h = Inr (Some ((sample_header h (sample_hash_at h))\<lparr>h_prev_hash := sample_hash_at (h - 1)\<rparr>))" for h
    unfolding fetch_header_def by (rule retry_first_success [of 1]) (simp_all add: sample_source_def bail_def)
  then show ?thesis by (simp add: serves_chain_def sample_header_def)
qed

lemma sample_lowest: "heights_in_range sample_db" "lowest_recorded_height sample_db = Some 5"
  "canonical_link_at sample_db 5 = Some (''A'', ''p'')" "archive_first_height sample_db = Some 5"
  "get_state sample_db HEADER_BACKFILL_KEY = None"
  by code_simp+

lemma backfilled_headers_are_parent_linked_witness:
  "(\<exists>new e. blocks (fst (backfill_headers sample_source 30 (\<lambda>h. ''t2'') [100] sample_db)) = blocks sample_db @ new
      \<and> links (5 - 1) ''p'' new e)
    \<and> figures (fst (backfill_headers sample_source 30 (\<lambda>h. ''t2'') [100] sample_db)) = figures sample_db"
  using backfilled_headers_are_parent_linked [OF wf_sample sample_lowest(1,2) _ prod.collapse [symmetric], of sample_source 30 "\<lambda>h. ''t2''" "[100]"]
    sample_lowest(3) by simp

lemma links_cover:
  "links k e new e' \<Longrightarrow> length new = unat k + 1 \<Longrightarrow> h \<le> k \<Longrightarrow> \<exists>b \<in> set new. b_height b = as_i64 h"
proof (induction new arbitrary: k e)
  case (Cons b bs)
  show ?case
  proof (cases "h = k")
    case False
    then have "h < k" using Cons.prems(3) by simp
    then have "1 \<le> k" by (simp add: word_less_nat_alt word_le_nat_alt)
    then have "unat (k - 1) = unat k - 1" by (simp add: unat_sub)
    with Cons \<open>h < k\<close> have "\<exists>b \<in> set bs. b_height b = as_i64 h"
      by (intro Cons.IH [of "k - 1" "b_prev_hash b"]) (auto simp: word_less_nat_alt word_le_nat_alt)
    then show ?thesis by auto
  qed (use Cons in simp)
qed simp

text \<open>
  C12. The backfill finishes: if the node serves the chain below the lowest block on record, each header
  within five attempts, and reports a final tip at least once per started batch of 200 headers, the run
  ends, and every height from genesis up to the archive is on record.
\<close>
theorem header_backfill_completes:
  assumes "archive_first_height c \<noteq> None" "get_state c HEADER_BACKFILL_KEY \<noteq> Some ''done''"
    and "heights_in_range c" "lowest_recorded_height c = Some lowest" "0 < lowest"
    and "canonical_link_at c lowest = Some (top_hash, hash_at (lowest - 1))" "serves_chain rpc hash_at (lowest - 1)"
    and "\<forall>tip \<in> set tips. lowest - 1 \<le> horizon tip depth" "unat (lowest - 1) div 200 < length tips"
  shows "\<exists>c'. backfill_headers rpc depth clk tips c = (c', Done)
    \<and> {h. h < lowest} \<subseteq> {h. \<exists>b \<in> set (blocks c'). b_height b = as_i64 h \<and> b_body_source b = Some HEADER_ONLY_SOURCE}"
proof -
  have "1 \<le> lowest" using assms(5) by (simp add: word_less_nat_alt word_le_nat_alt)
  then have lt: "lowest - 1 < lowest" using assms(5) by (simp add: word_less_nat_alt unat_sub)
  note low = lowest_row [OF assms(3,4)]
  have "as_i64 (lowest - 1) < as_i64 lowest" by (rule as_i64_less [OF low(1) lt])
  then have above: "all_above c (lowest - 1)" using low(2) by (auto simp: all_above_def)
  have small: "unat (lowest - 1) < 2 ^ 63" using low(1) lt by (simp add: word_less_nat_alt)
  obtain c' new where run: "header_loop rpc depth clk tips c (lowest - 1) (hash_at (lowest - 1)) = (c', Done)"
    "blocks c' = blocks c @ new" "length new = unat (lowest - 1) + 1"
    using header_loop_completes [OF assms(7,8) order.refl small above assms(9)] by blast
  obtain new' e' where l: "blocks c' = blocks c @ new'" "links (lowest - 1) (hash_at (lowest - 1)) new' e'"
    using header_loop_links [OF run(1) small above] by blast
  have "new' = new" using run(2) l(1) by simp
  have src: "links k e bs e'' \<Longrightarrow> b \<in> set bs \<Longrightarrow> b_body_source b = Some HEADER_ONLY_SOURCE" for k e bs e'' b
    by (induction bs arbitrary: k e) auto
  have "\<exists>b \<in> set new. b_height b = as_i64 h \<and> b_body_source b = Some HEADER_ONLY_SOURCE" if "h < lowest" for h
  proof -
    have "h \<le> lowest - 1" using that \<open>1 \<le> lowest\<close> by (simp add: word_less_nat_alt word_le_nat_alt unat_sub)
    with links_cover [OF l(2)] run(3) \<open>new' = new\<close> src [OF l(2)] show ?thesis by blast
  qed
  then have cover: "{h. h < lowest} \<subseteq> {h. \<exists>b \<in> set (blocks c'). b_height b = as_i64 h \<and> b_body_source b = Some HEADER_ONLY_SOURCE}"
    using run(2) by auto
  have "backfill_headers rpc depth clk tips c = (c', Done)"
    using assms(1,2,4-6) run(1) by (auto simp: backfill_headers_def Let_def)
  with cover show ?thesis by blast
qed

lemma header_backfill_completes_witness:
  "\<exists>c'. backfill_headers sample_source 30 (\<lambda>h. ''t2'') [100] sample_db = (c', Done)
    \<and> {h. h < 5} \<subseteq> {h. \<exists>b \<in> set (blocks c'). b_height b = as_i64 h \<and> b_body_source b = Some HEADER_ONLY_SOURCE}"
proof (rule header_backfill_completes [where hash_at = sample_hash_at])
  show "\<forall>tip \<in> set [100]. 5 - 1 \<le> horizon tip 30" by (simp add: horizon_def saturating_sub_def FINAL_DEPTH_def)
qed (use sample_lowest in \<open>simp_all add: sample_source_serves sample_hash_at_def\<close>)

end
