(* ===== verification/Live_State.thy ===== *)
theory Live_State
  imports Headers
begin

text \<open>
  The live-state sweep of \<^verbatim>\<open>permanode/src/indexer.rs\<close>: the segments whose live-UTXO count differs
  from the node's state map are read slot by slot, the recorded history is reconciled with what was
  found, and every address's balance is derived from the result. The sweep runs beside the indexer:
  what the other threads commit while a segment is read is a function of the model (\<open>sw_meanwhile\<close>),
  and so are the clock and the node's answers.
\<close>

section \<open>Waiting for the indexer\<close>

definition processed_height :: "db \<Rightarrow> u64" where
  "processed_height c =
     (case get_state c ''last_processed_height'' of
        None \<Rightarrow> 0
      | Some s \<Rightarrow> (case parse_u64 s of Some h \<Rightarrow> h | None \<Rightarrow> 0))"

text \<open>
  A waiting loop sees one pair per turn: the node's tip and the processed height, or the processed
  height and whether the time limit is over. \<open>None\<close>: still waiting when the observations end.
\<close>

fun tip_once_indexer_current :: "(u64 result \<times> u64) list \<Rightarrow> u64 result option" where
  "tip_once_indexer_current [] = None"
| "tip_once_indexer_current ((answer, processed) # rest) =
     (case answer of
        Inl e \<Rightarrow> Some (Inl e)
      | Inr tip \<Rightarrow> if processed + 1 \<ge> tip then Some (Inr tip) else tip_once_indexer_current rest)"

fun wait_for_indexer :: "u64 \<Rightarrow> (u64 \<times> bool) list \<Rightarrow> unit result option" where
  "wait_for_indexer height [] = None"
| "wait_for_indexer height ((processed, late) # rest) =
     (if processed < height
      then if late then Some (bail ''the indexer is behind the node'') else wait_for_indexer height rest
      else Some (Inr ()))"

record map_attempt =
  ma_tip :: "u64 result"
  ma_waits :: "(u64 \<times> bool) list"
  ma_map :: "state_map_info result"
  ma_tip_after :: "u64 result"

fun state_map_within :: "nat \<Rightarrow> map_attempt list \<Rightarrow> (u64 \<times> state_map_info) result option" where
  "state_map_within 0 as = Some (bail ''the chain kept moving while reading the state map'')"
| "state_map_within (Suc n) [] = None"
| "state_map_within (Suc n) (a # as) =
     (case ma_tip a of
        Inl e \<Rightarrow> Some (Inl e)
      | Inr tip \<Rightarrow>
          (case wait_for_indexer tip (ma_waits a) of
             None \<Rightarrow> None
           | Some (Inl e) \<Rightarrow> Some (Inl e)
           | Some (Inr _) \<Rightarrow>
               (case ma_map a of
                  Inl e \<Rightarrow> Some (Inl e)
                | Inr m \<Rightarrow>
                    (case ma_tip_after a of
                       Inl e \<Rightarrow> Some (Inl e)
                     | Inr after \<Rightarrow> if after = tip then Some (Inr (tip, m)) else state_map_within n as))))"

definition consistent_state_map :: "map_attempt list \<Rightarrow> (u64 \<times> state_map_info) result option" where
  "consistent_state_map as = state_map_within 10 as"

section \<open>Throttled calls\<close>

text \<open>Instants and intervals in nanoseconds; \<open>wait\<close> returns when the call goes out.\<close>

record throttle =
  tr_interval :: nat
  tr_next :: nat

definition throttle_new :: "nat \<Rightarrow> nat \<Rightarrow> throttle" where
  "throttle_new interval now = \<lparr>tr_interval = interval, tr_next = now\<rparr>"

definition throttle_wait :: "throttle \<Rightarrow> nat \<Rightarrow> throttle \<times> nat" where
  "throttle_wait tr now = (tr\<lparr>tr_next := max (tr_next tr) now + tr_interval tr\<rparr>, max (tr_next tr) now)"

text \<open>The times of a run of calls, each made some time after the call before went out.\<close>

fun throttled :: "throttle \<Rightarrow> nat \<Rightarrow> nat list \<Rightarrow> nat list" where
  "throttled tr now [] = []"
| "throttled tr now (busy # rest) =
     (let (tr', at) = throttle_wait tr now in at # throttled tr' (at + busy) rest)"

section \<open>Comparing the segments\<close>

definition count_of :: "(u64 \<times> u64) list \<Rightarrow> u64 \<Rightarrow> u64" where
  "count_of own seg = (case map_of own seg of Some n \<Rightarrow> n | None \<Rightarrow> 0)"

definition node_count :: "state_map_info \<Rightarrow> u64 \<Rightarrow> u64" where
  "node_count m seg = (if unat seg < length (live_counts m) then live_counts m ! unat seg else 0)"

definition segment_bound :: "state_map_info \<Rightarrow> (u64 \<times> u64) list \<Rightarrow> u64" where
  "segment_bound m own =
     max (of_nat (length (live_counts m))) (if own = [] then 0 else Max (fst ` set own) + 1)"

definition differing_segments :: "db \<Rightarrow> state_map_info \<Rightarrow> u64 \<Rightarrow> (u64 \<times> u64 \<times> u64) list result" where
  "differing_segments c m height =
     and_then (live_count_per_segment c height (bucket_capacity m)) (\<lambda>own.
       Inr (filter (\<lambda>(seg, node, mine). node \<noteq> mine)
         (map (\<lambda>seg. (seg, node_count m seg, count_of own seg))
           (map of_nat [0..<unat (segment_bound m own)]))))"

section \<open>Reading a segment\<close>

type_synonym slot_source = "u64 \<Rightarrow> nat \<Rightarrow> slot_info result"

definition slot_range :: "u64 \<Rightarrow> u64 \<Rightarrow> u64 list" where
  "slot_range lo hi = map of_nat [unat lo..<unat hi]"

definition state_slot_of :: "u64 \<Rightarrow> slot_info \<Rightarrow> state_slot" where
  "state_slot_of idx slot =
     \<lparr>ss_slot_index = idx, ss_creation_id = u64_to_string (sl_creation_id slot), ss_owner = sl_owner slot,
      ss_amount = sl_value slot\<rparr>"

fun read_segment :: "slot_source \<Rightarrow> (u64 \<Rightarrow> u64 result) \<Rightarrow> u64 list \<Rightarrow> state_slot list result" where
  "read_segment ask pause [] = Inr []"
| "read_segment ask pause (idx # rest) =
     and_then (if idx mod 2048 = 0 then pause idx else Inr 0) (\<lambda>_.
       and_then (retry_from 5 ''getSlot'' (ask idx) 0) (\<lambda>slot.
         and_then (read_segment ask pause rest) (\<lambda>live.
           Inr (if sl_empty slot then live else state_slot_of idx slot # live))))"

section \<open>Reconciling a segment\<close>

definition sweep_segment :: "db \<Rightarrow> u64 \<Rightarrow> u64 \<Rightarrow> u64 \<Rightarrow> state_slot list \<Rightarrow> string \<Rightarrow> db result" where
  "sweep_segment c segment segment_size start_height live now =
     (let lo = segment * segment_size; hi = (segment + 1) * segment_size
      in and_then (recorded_creation_ids c lo hi) (\<lambda>recorded_ids.
           let known = filter (\<lambda>s. ss_creation_id s \<in> set recorded_ids) live;
               foreign = filter (\<lambda>s. ss_creation_id s \<notin> set recorded_ids) live;
               live_ids = ss_creation_id ` (set known \<union> set foreign)
           in and_then (unmark_live_outputs (replace_state_slots c segment foreign start_height now) lo hi live_ids)
                (\<lambda>(c, back). and_then (unspent_recorded_outputs c start_height lo hi) (\<lambda>rows.
                  let gone = map fst (filter (\<lambda>(i, cid). cid \<notin> live_ids) rows)
                  in Inr (if gone = [] then c else mark_spent_in_gap c gone now)))))"

section \<open>A run\<close>

record sweep_world =
  sw_maps :: "map_attempt list"
  sw_start :: "u64 \<Rightarrow> u64 result"
  sw_pause :: "u64 \<Rightarrow> u64 result"
  sw_slot :: slot_source
  sw_meanwhile :: "u64 \<Rightarrow> db \<Rightarrow> db"
  sw_clock :: "u64 \<Rightarrow> string"
  sw_end :: string
  sw_check :: "map_attempt list"

fun sweep_segments :: "sweep_world \<Rightarrow> u64 \<Rightarrow> u64 list \<Rightarrow> db \<Rightarrow> db \<times> failure option" where
  "sweep_segments w segment_size [] c = (c, None)"
| "sweep_segments w segment_size (segment # rest) c =
     (case sw_start w segment of
        Inl e \<Rightarrow> (c, Some e)
      | Inr start_height \<Rightarrow>
          (case read_segment (sw_slot w) (sw_pause w)
                  (slot_range (segment * segment_size) ((segment + 1) * segment_size)) of
             Inl e \<Rightarrow> (sw_meanwhile w segment c, Some e)
           | Inr live \<Rightarrow>
               (case sweep_segment (sw_meanwhile w segment c) segment segment_size start_height live (sw_clock w segment) of
                  Inl e \<Rightarrow> (sw_meanwhile w segment c, Some e)
                | Inr c' \<Rightarrow> sweep_segments w segment_size rest c')))"

definition cache_balances :: "(string \<times> u128 \<times> u64) list \<Rightarrow> string \<Rightarrow> db \<Rightarrow> db" where
  "cache_balances entries now c =
     foldl (\<lambda>c (address, total, count). upsert_address_balance_cache c address (decimal (unat total)) (as_i64 count) now)
       c entries"

definition sweep_balances :: "db \<Rightarrow> string \<Rightarrow> db \<times> (string \<times> u128 \<times> u64) list" where
  "sweep_balances c now =
     (let c = fst (clear_spent_in_gap_with_recorded_spend c);
          entries = live_balances c;
          c = cache_balances entries now c
      in (c\<lparr>indexer_state := (indexer_state c)(''slot_scan_low'' := None, ''slot_scan_high'' := None)\<rparr>, entries))"

definition scan_live_state :: "sweep_world \<Rightarrow> db \<Rightarrow> db \<times> nat result option" where
  "scan_live_state w c =
     (case consistent_state_map (sw_maps w) of
        None \<Rightarrow> (c, None)
      | Some (Inl e) \<Rightarrow> (c, Some (Inl e))
      | Some (Inr (height, m)) \<Rightarrow>
          (case differing_segments c m height of
             Inl e \<Rightarrow> (c, Some (Inl e))
           | Inr differing \<Rightarrow>
               (case sweep_segments w (bucket_capacity m) (map fst differing) c of
                  (c, Some e) \<Rightarrow> (c, Some (Inl e))
                | (c, None) \<Rightarrow>
                    (case sweep_balances c (sw_end w) of (c, entries) \<Rightarrow>
                       (case consistent_state_map (sw_check w) of
                          None \<Rightarrow> (c, None)
                        | Some (Inl e) \<Rightarrow> (c, Some (Inl e))
                        | Some (Inr (check_height, check_map)) \<Rightarrow>
                            (case differing_segments c check_map check_height of
                               Inl e \<Rightarrow> (c, Some (Inl e))
                             | Inr still \<Rightarrow>
                                 (if still = [] then fst (zero_balance_cache_except c (fst ` set entries) (sw_end w)) else c,
                                  Some (Inr (length entries)))))))))"

section \<open>Refreshing the cache from the node\<close>

definition fresh_balance :: "node \<Rightarrow> string \<Rightarrow> (string \<times> u128 \<times> u64) option" where
  "fresh_balance rpc address =
     (case get_slots_by_owner rpc address of
        Inl _ \<Rightarrow> None
      | Inr slots \<Rightarrow>
          let live = filter (\<lambda>s. \<not> sl_empty s) slots
          in Some (address, sum_list (map (\<lambda>s. ucast (sl_value s)) live), of_nat (length live)))"

definition refresh_known_address_balances :: "node \<Rightarrow> db \<Rightarrow> string \<Rightarrow> db \<times> nat" where
  "refresh_known_address_balances rpc c now =
     (let fresh = List.map_filter (fresh_balance rpc) (known_addresses c)
      in (cache_balances fresh now c, length fresh))"

section \<open>What a sweep reads and keeps\<close>

text \<open>The sweep changes flags of outputs, its own slots and the balance cache, never the history.\<close>

definition same_history :: "db \<Rightarrow> db \<Rightarrow> bool" where
  "same_history c c' = (blocks c' = blocks c \<and> status_log c' = status_log c \<and> transactions c' = transactions c
     \<and> inputs c' = inputs c \<and> map output_identity (outputs c') = map output_identity (outputs c))"

lemma same_history_refl [simp]: "same_history c c"
  by (simp add: same_history_def)

lemma same_history_trans: "same_history a b \<Longrightarrow> same_history b c \<Longrightarrow> same_history a c"
  by (simp add: same_history_def)

lemma same_history_facts:
  assumes "same_history c c'"
  shows "origin c' = origin c" "on_record c' = on_record c" "spent_by_recorded_input c' = spent_by_recorded_input c"
    "live_recorded c' = live_recorded c" "live_foreign c' = live_foreign c" "from_receipt c' = from_receipt c"
proof -
  show a: "origin c' = origin c"
    using assms by (simp add: fun_eq_iff origin_def same_history_def block_with_id_def cong: option.case_cong)
  have can: "is_canonical c' = is_canonical c"
    using assms by (intro ext) (simp add: is_canonical_def current_status_def same_history_def)
  show b: "on_record c' = on_record c" by (intro ext) (simp add: on_record_def a can cong: option.case_cong)
  show d: "spent_by_recorded_input c' = spent_by_recorded_input c"
    using assms by (intro ext) (simp add: spent_by_recorded_input_def b same_history_def)
  show "live_recorded c' = live_recorded c" "live_foreign c' = live_foreign c"
    by (intro ext, simp add: live_recorded_def live_foreign_def b d)+
  show "from_receipt c' = from_receipt c"
    using assms by (intro ext) (simp add: from_receipt_def same_history_def)
qed

lemma on_record_creation_id:
  assumes "wf_db c" "out \<in> set (outputs c)" "on_record c h (o_tx_id out)"
  shows "o_creation_id out \<noteq> None"
proof -
  obtain t where t: "find (\<lambda>t. t_id t = o_tx_id out) (transactions c) = Some t" "recorded t"
    using assms(3) by (auto simp: on_record_def origin_def split: option.splits)
  have "(o_tx_id out, o_creation_id out \<noteq> None) \<in> tx_sigs c"
    using assms(1,2) by (auto simp: wf_db_def wf_outputs_def)
  then obtain x where x: "x \<in> set (transactions c)" "t_id x = o_tx_id out" "recorded x = (o_creation_id out \<noteq> None)"
    by (auto simp: tx_sig_def)
  have "t \<in> set (transactions c)" "t_id t = o_tx_id out" using t(1) by (auto simp: find_Some_iff)
  then have "t = x" using assms(1) x by (auto simp: wf_db_def wf_txs_def distinct_map inj_on_def)
  with t(2) x(3) show ?thesis by simp
qed

lemma body_creation_id:
  assumes "wf_db c" "out \<in> set (outputs c)" "\<not> from_receipt c (o_tx_id out)"
  shows "o_creation_id out \<noteq> None"
proof -
  have "(o_tx_id out, o_creation_id out \<noteq> None) \<in> tx_sigs c"
    using assms(1,2) by (auto simp: wf_db_def wf_outputs_def)
  then show ?thesis using assms(3) by (auto simp: tx_sig_def from_receipt_def recorded_def)
qed

lemma text_column_Inr:
  "(\<And>r. r \<in> set rows \<Longrightarrow> snd r \<noteq> None) \<Longrightarrow> text_column rows = Inr (map (\<lambda>(i, t). (i, the t)) rows)"
  by (auto simp: text_column_def)

text \<open>Updating row after row by key is one update of the rows with those keys.\<close>

lemma foldl_update_where:
  assumes "\<And>r. key (f r) = key r" "\<And>r. f (f r) = f r"
  shows "foldl (\<lambda>rows x. update_where (\<lambda>r. key r = k x) f rows) rows xs = update_where (\<lambda>r. key r \<in> k ` set xs) f rows"
proof (induction xs rule: rev_induct)
  case (snoc x xs)
  then show ?case by (auto simp: update_where_def assms)
qed (simp add: update_where_def)

lemma foldl_update_selected:
  assumes "distinct (map key rows)" "\<And>r. key (f r) = key r" "\<And>r. f (f r) = f r"
    and "k ` set xs = key ` {r \<in> set rows. Q r}"
  shows "foldl (\<lambda>rows x. update_where (\<lambda>r. key r = k x) f rows) rows xs = update_where Q f rows"
  unfolding foldl_update_where [of key f k, OF assms(2,3)] assms(4)
  using assms(1) by (auto simp: update_where_def distinct_map inj_on_def)

lemma foldl_insert_or_replace:
  assumes "distinct (map (\<lambda>x. key (f x)) xs)"
  shows "foldl (\<lambda>rows x. insert_or_replace key (f x) rows) rows xs
    = filter (\<lambda>r. key r \<notin> (\<lambda>x. key (f x)) ` set xs) rows @ map f xs"
  using assms
proof (induction xs rule: rev_induct)
  case (snoc x xs)
  then have "\<forall>y \<in> set xs. key (f y) \<noteq> key (f x)" by (force simp: image_iff)
  then have "filter (\<lambda>r. key r \<noteq> key (f x)) (map f xs) = map f xs" by (intro filter_True) auto
  with snoc show ?case by (auto simp: insert_or_replace_def intro: filter_cong)
qed simp

section \<open>One segment reconciled\<close>

text \<open>The outputs after a read: a live one loses its mark, an unspent one that is gone gets one.\<close>

definition reconciled :: "db \<Rightarrow> u64 \<Rightarrow> u64 \<Rightarrow> int \<Rightarrow> string set \<Rightarrow> string \<Rightarrow> output_row \<Rightarrow> output_row" where
  "reconciled c lo hi height live_ids now out =
     (if in_slots lo hi (o_slot_index out) then
        if the (o_creation_id out) \<in> live_ids
        then if o_spent_in_gap out \<and> \<not> from_receipt c (o_tx_id out) then unmark out else out
        else if live_recorded c height out then out\<lparr>o_spent_in_gap := True, o_spent_in_gap_at := Some now\<rparr> else out
      else out)"

lemma reconciled_identity: "output_identity (reconciled c lo hi h ids now out) = output_identity out"
  by (simp add: reconciled_def unmark_def output_identity_def)

definition in_range_ids :: "db \<Rightarrow> u64 \<Rightarrow> u64 \<Rightarrow> string set" where
  "in_range_ids c lo hi = (the \<circ> o_creation_id) ` {out \<in> set (outputs c). in_slots lo hi (o_slot_index out) \<and> on_record c (2 ^ 63 - 1) (o_tx_id out)}"

lemma recorded_ids:
  assumes "wf_db c"
  shows "\<exists>ids. recorded_creation_ids c lo hi = Inr ids \<and> set ids = in_range_ids c lo hi"
proof -
  let ?rows = "map (\<lambda>out. (o_rowid out, o_creation_id out))
        (filter (\<lambda>out. in_slots lo hi (o_slot_index out) \<and> on_record c (2 ^ 63 - 1) (o_tx_id out)) (outputs c))"
  have "text_column ?rows = Inr (map (\<lambda>(i, t). (i, the t)) ?rows)"
    by (rule text_column_Inr) (use on_record_creation_id [OF assms] in force)
  then show ?thesis by (simp add: recorded_creation_ids_def in_range_ids_def image_image o_def)
qed

lemma unmark_rows:
  assumes "wf_db c"
  shows "\<exists>n. unmark_live_outputs c lo hi ids = Inr (c\<lparr>outputs := update_where (\<lambda>out. o_spent_in_gap out
      \<and> in_slots lo hi (o_slot_index out) \<and> \<not> from_receipt c (o_tx_id out) \<and> the (o_creation_id out) \<in> ids) unmark (outputs c)\<rparr>, n)"
proof -
  let ?Q = "\<lambda>out. o_spent_in_gap out \<and> in_slots lo hi (o_slot_index out) \<and> \<not> from_receipt c (o_tx_id out)"
  let ?R = "\<lambda>out. the (o_creation_id out) \<in> ids"
  let ?rows = "map (\<lambda>out. (o_rowid out, o_creation_id out)) (filter ?Q (outputs c))"
  have tc: "text_column ?rows = Inr (map (\<lambda>(i, t). (i, the t)) ?rows)"
    by (rule text_column_Inr) (use body_creation_id [OF assms] in force)
  have sel: "filter (\<lambda>(i, cid). cid \<in> ids) (map (\<lambda>(i, t). (i, the t)) ?rows)
      = map (\<lambda>out. (o_rowid out, the (o_creation_id out))) (filter (\<lambda>out. ?R out \<and> ?Q out) (outputs c))"
    by (simp add: filter_map o_def case_prod_beta conj_ac)
  have keys: "fst ` set (map (\<lambda>out. (o_rowid out, the (o_creation_id out))) (filter (\<lambda>out. ?R out \<and> ?Q out) (outputs c)))
      = o_rowid ` {out \<in> set (outputs c). ?R out \<and> ?Q out}" by (auto simp: image_image)
  have rowids: "distinct (map o_rowid (outputs c))" using assms by (simp add: wf_db_def wf_outputs_def)
  show ?thesis
    unfolding unmark_live_outputs_def tc and_then_simps sel Let_def
    by (subst foldl_update_selected [OF rowids _ _ keys]) (simp_all add: unmark_def conj_ac)
qed

lemma mark_rows:
  assumes "wf_db c"
  shows "\<exists>rows. unspent_recorded_outputs c height lo hi = Inr rows
    \<and> (let gone = map fst (filter (\<lambda>(i, cid). cid \<notin> ids) rows)
       in if gone = [] then c else mark_spent_in_gap c gone now)
      = c\<lparr>outputs := update_where (\<lambda>out. in_slots lo hi (o_slot_index out) \<and> live_recorded c (as_i64 height) out
            \<and> the (o_creation_id out) \<notin> ids) (\<lambda>out. out\<lparr>o_spent_in_gap := True, o_spent_in_gap_at := Some now\<rparr>) (outputs c)\<rparr>"
proof -
  let ?Q = "\<lambda>out. in_slots lo hi (o_slot_index out) \<and> live_recorded c (as_i64 height) out"
  let ?R = "\<lambda>out. the (o_creation_id out) \<notin> ids"
  let ?rows = "map (\<lambda>out. (o_rowid out, o_creation_id out)) (filter ?Q (outputs c))"
  have tc: "text_column ?rows = Inr (map (\<lambda>(i, t). (i, the t)) ?rows)"
    by (rule text_column_Inr) (use on_record_creation_id [OF assms] in \<open>force simp: live_recorded_def\<close>)
  have keys: "id ` set (map fst (filter (\<lambda>(i, cid). cid \<notin> ids) (map (\<lambda>(i, t). (i, the t)) ?rows)))
      = o_rowid ` {out \<in> set (outputs c). in_slots lo hi (o_slot_index out) \<and> live_recorded c (as_i64 height) out \<and> ?R out}"
    (is "id ` set ?gone = _") by (force simp: image_iff)
  have rowids: "distinct (map o_rowid (outputs c))" using assms by (simp add: wf_db_def wf_outputs_def)
  have marked: "mark_spent_in_gap c ?gone now = c\<lparr>outputs := update_where (\<lambda>out. in_slots lo hi (o_slot_index out)
      \<and> live_recorded c (as_i64 height) out \<and> ?R out) (\<lambda>out. out\<lparr>o_spent_in_gap := True, o_spent_in_gap_at := Some now\<rparr>) (outputs c)\<rparr>"
    unfolding mark_spent_in_gap_def
    by (subst foldl_update_selected [OF rowids _ _ keys, unfolded id_apply]) simp_all
  have "(if ?gone = [] then c else mark_spent_in_gap c ?gone now) = mark_spent_in_gap c ?gone now"
    by (cases ?gone) (simp_all add: mark_spent_in_gap_def)
  from trans [OF this marked] show ?thesis
    unfolding unspent_recorded_outputs_def tc Let_def by (intro exI conjI) (rule refl, assumption)
qed

definition foreign_slots :: "db \<Rightarrow> u64 \<Rightarrow> u64 \<Rightarrow> state_slot list \<Rightarrow> state_slot list" where
  "foreign_slots c lo hi live = filter (\<lambda>s. ss_creation_id s \<notin> in_range_ids c lo hi) live"

definition reconciled_db :: "db \<Rightarrow> u64 \<Rightarrow> u64 \<Rightarrow> u64 \<Rightarrow> u64 \<Rightarrow> state_slot list \<Rightarrow> string \<Rightarrow> db" where
  "reconciled_db c segment lo hi height live now =
     c\<lparr>outputs := map (reconciled c lo hi (as_i64 height) (ss_creation_id ` set live) now) (outputs c),
       state_slots := filter (\<lambda>f. f_slot_index f \<notin> (as_i64 \<circ> ss_slot_index) ` set (foreign_slots c lo hi live))
            (filter (\<lambda>f. f_segment f \<noteq> as_i64 segment) (state_slots c))
          @ map (state_slot_row_of segment height now) (foreign_slots c lo hi live)\<rparr>"

lemma distinct_slot_rows:
  "distinct (map ss_slot_index live) \<Longrightarrow> distinct (map (\<lambda>s. f_slot_index (state_slot_row_of segment height now s)) (filter P live))"
  by (auto simp: state_slot_row_of_def distinct_map distinct_map_filter inj_on_def)

lemma sweep_segment_result:
  assumes wf: "wf_db c" and slots: "distinct (map ss_slot_index live)"
  shows "sweep_segment c segment sz height live now
    = Inr (reconciled_db c segment (segment * sz) ((segment + 1) * sz) height live now)"
proof -
  let ?lo = "segment * sz" and ?hi = "(segment + 1) * sz"
  let ?ids = "ss_creation_id ` set live"
  obtain ids where ids: "recorded_creation_ids c ?lo ?hi = Inr ids" "set ids = in_range_ids c ?lo ?hi"
    using recorded_ids [OF wf] by blast
  define c1 where "c1 = replace_state_slots c segment (foreign_slots c ?lo ?hi live) height now"
  have all_ids: "ss_creation_id ` ({s \<in> set live. ss_creation_id s \<in> in_range_ids c ?lo ?hi} \<union> set (foreign_slots c ?lo ?hi live)) = ?ids"
    "ss_creation_id ` ({s \<in> set live. ss_creation_id s \<in> S} \<union> {s \<in> set live. ss_creation_id s \<notin> S}) = ?ids" for S
    by (auto simp: foreign_slots_def)
  have wf1: "wf_db c1"
    using op_replace_state_slots.keeps_wf [OF wf, of "(segment, foreign_slots c ?lo ?hi live, height, now)"] by (simp add: c1_def)
  have hist1: "same_history c c1" by (simp add: c1_def replace_state_slots_def same_history_def)
  obtain n c2 where um: "unmark_live_outputs c1 ?lo ?hi ?ids = Inr (c2, n)" and c2: "c2 = c1\<lparr>outputs := update_where (\<lambda>out. o_spent_in_gap out
      \<and> in_slots ?lo ?hi (o_slot_index out) \<and> \<not> from_receipt c1 (o_tx_id out) \<and> the (o_creation_id out) \<in> ?ids) unmark (outputs c1)\<rparr>"
    using unmark_rows [OF wf1, of ?lo ?hi ?ids] by blast
  have wf2: "wf_db c2"
    using op_unmark_live_outputs.keeps_wf [OF wf1, of "(?lo, ?hi, ?ids)"] by (simp add: um)
  have hist2: "same_history c c2"
    using hist1 by (simp add: c2 same_history_def map_update_where unmark_def output_identity_def)
  obtain rows where rows: "unspent_recorded_outputs c2 height ?lo ?hi = Inr rows"
    "(let gone = map fst (filter (\<lambda>(i, cid). cid \<notin> ?ids) rows) in if gone = [] then c2 else mark_spent_in_gap c2 gone now)
      = c2\<lparr>outputs := update_where (\<lambda>out. in_slots ?lo ?hi (o_slot_index out) \<and> live_recorded c2 (as_i64 height) out
          \<and> the (o_creation_id out) \<notin> ?ids) (\<lambda>out. out\<lparr>o_spent_in_gap := True, o_spent_in_gap_at := Some now\<rparr>) (outputs c2)\<rparr>"
    using mark_rows [OF wf2, of height ?lo ?hi ?ids now] by blast
  have outs: "update_where (\<lambda>out. in_slots ?lo ?hi (o_slot_index out) \<and> live_recorded c2 (as_i64 height) out
          \<and> the (o_creation_id out) \<notin> ?ids) (\<lambda>out. out\<lparr>o_spent_in_gap := True, o_spent_in_gap_at := Some now\<rparr>) (outputs c2)
      = map (reconciled c ?lo ?hi (as_i64 height) ?ids now) (outputs c)"
    unfolding same_history_facts [OF hist1] same_history_facts [OF hist2]
    unfolding c2 same_history_facts [OF hist1]
    by (auto simp: update_where_def reconciled_def unmark_def c1_def replace_state_slots_def)
  have "state_slots c1 = state_slots (reconciled_db c segment ?lo ?hi height live now)"
    using distinct_slot_rows [OF slots, of segment height now]
    by (simp add: c1_def replace_state_slots_def foreign_slots_def foldl_insert_or_replace reconciled_db_def
        state_slot_row_of_def o_def)
  then have "c2\<lparr>outputs := map (reconciled c ?lo ?hi (as_i64 height) ?ids now) (outputs c)\<rparr>
      = reconciled_db c segment ?lo ?hi height live now"
    by (simp add: c2 c1_def replace_state_slots_def reconciled_db_def)
  with rows outs show ?thesis
    by (simp add: sweep_segment_def Let_def ids foreign_slots_def [symmetric] c1_def [symmetric] all_ids um split: if_splits)
qed

section \<open>The picture of a segment\<close>

definition in_segment :: "u64 \<Rightarrow> u64 \<Rightarrow> int \<Rightarrow> bool" where
  "in_segment sz segment slot = (as_u64 (sql_div slot (as_i64 sz)) = segment)"

text \<open>The creation ids this permanode counts in a segment.\<close>

definition segment_coins :: "db \<Rightarrow> u64 \<Rightarrow> u64 \<Rightarrow> u64 \<Rightarrow> string list" where
  "segment_coins c height sz segment =
     map (the \<circ> o_creation_id)
       (filter (\<lambda>out. live_recorded c (as_i64 height) out \<and> in_segment sz segment (o_slot_index out)) (outputs c))
     @ map f_creation_id
       (filter (\<lambda>f. live_foreign c (as_i64 height) f \<and> as_u64 (f_segment f) = segment) (state_slots c))"

lemma count_map_filter: "count_list (map f (filter P xs)) y = length (filter (\<lambda>x. P x \<and> f x = y) xs)"
  by (induction xs) auto

lemma count_segments: "count_list (live_segments c height sz) segment = length (segment_coins c height sz segment)"
  by (simp add: live_segments_def segment_coins_def count_map_filter in_segment_def)

lemma count_of_segments:
  assumes "live_count_per_segment c height sz = Inr own"
  shows "count_of own segment = of_nat (length (segment_coins c height sz segment))"
proof -
  let ?segs = "live_segments c height sz"
  have own: "own = map (\<lambda>s. (s, of_nat (count_list ?segs s))) (remdups ?segs)"
    using assms by (auto simp: live_count_per_segment_def Let_def split: if_splits)
  show ?thesis
  proof (cases "segment \<in> set ?segs")
    case True
    then have "map_of own segment = Some (of_nat (count_list ?segs segment))"
      by (simp add: own map_of_map_restrict o_def)
    then show ?thesis by (simp add: count_of_def count_segments)
  next
    case False
    then have "map_of own segment = None" by (auto simp: own map_of_eq_None_iff)
    moreover have "length (segment_coins c height sz segment) = 0" using False by (simp add: count_segments [symmetric] count_list_0_iff)
    ultimately show ?thesis by (simp add: count_of_def)
  qed
qed

text \<open>Slot numbers are not negative, and the sweep's own slots lie in the segment of their row.\<close>

definition slots_at_home :: "u64 \<Rightarrow> db \<Rightarrow> bool" where
  "slots_at_home sz c \<longleftrightarrow>
     (\<forall>out \<in> set (outputs c). 0 \<le> o_slot_index out \<and> o_slot_index out < 2 ^ 63)
     \<and> (\<forall>f \<in> set (state_slots c). 0 \<le> f_slot_index f \<and> f_slot_index f < 2 ^ 63
          \<and> f_segment f = f_slot_index f div int (unat sz))"

lemma segment_bounds:
  assumes "(unat segment + 1) * unat sz < 2 ^ 63"
  shows "unat (segment * sz) = unat segment * unat sz" "0 < unat sz \<Longrightarrow> unat ((segment + 1) * sz) = (unat segment + 1) * unat sz"
    and "as_i64 (segment * sz) = int (unat segment * unat sz)"
    and "0 < unat sz \<Longrightarrow> as_i64 ((segment + 1) * sz) = int ((unat segment + 1) * unat sz)"
proof -
  have le: "unat segment * unat sz \<le> (unat segment + 1) * unat sz" by simp
  then have lt: "unat segment * unat sz < 2 ^ 63" using assms by linarith
  then show a: "unat (segment * sz) = unat segment * unat sz" by (intro unat_mult_bound) simp
  show "as_i64 (segment * sz) = int (unat segment * unat sz)" using lt by (simp add: as_i64_small a)
  assume sz: "0 < unat sz"
  then have "(unat segment + 1) * 1 \<le> (unat segment + 1) * unat sz" by (intro mult_le_mono2) simp
  from le_less_trans [OF this assms] have "unat segment + 1 < 2 ^ 63" by simp
  then have s: "unat (segment + 1) = unat segment + 1" by (subst unat_add_bound) simp_all
  show b: "unat ((segment + 1) * sz) = (unat segment + 1) * unat sz"
    using assms by (subst unat_mult_bound) (simp_all add: s)
  show "as_i64 ((segment + 1) * sz) = int ((unat segment + 1) * unat sz)"
    using assms by (simp add: as_i64_small b)
qed

lemma as_u64_nat_eq: "0 \<le> k \<Longrightarrow> k < 2 ^ 63 \<Longrightarrow> as_u64 k = s \<longleftrightarrow> k = int (unat s)"
proof -
  assume k: "0 \<le> k" "k < 2 ^ 63"
  then have "uint (as_u64 k) = k" by (simp add: as_u64_def uint_word_of_int_eq take_bit_int_eq_self)
  then show ?thesis by (metis uint_nat word_uint_eq_iff)
qed

lemma div_range_iff: "0 < (z :: int) \<Longrightarrow> x div z = k \<longleftrightarrow> k * z \<le> x \<and> x < (k + 1) * z"
proof
  assume z: "0 < z" and "x div z = k"
  then have "k * z + x mod z = x" using div_mult_mod_eq [of x z] by simp
  then show "k * z \<le> x \<and> x < (k + 1) * z"
    using pos_mod_sign [OF z, of x] pos_mod_bound [OF z, of x] unfolding distrib_right mult_1 by linarith
next
  assume "0 < z" "k * z \<le> x \<and> x < (k + 1) * z"
  then show "x div z = k" by (intro int_div_pos_eq [of x z k "x - z * k"]) (simp_all add: algebra_simps)
qed

lemma in_segment_iff:
  assumes "(unat segment + 1) * unat sz < 2 ^ 63" "0 < unat sz" "0 \<le> slot" "slot < 2 ^ 63"
  shows "in_segment sz segment slot \<longleftrightarrow> in_slots (segment * sz) ((segment + 1) * sz) slot"
    and "slot div int (unat sz) = int (unat segment) \<longleftrightarrow> in_slots (segment * sz) ((segment + 1) * sz) slot"
proof -
  have "unat sz \<le> (unat segment + 1) * unat sz" by simp
  then have small: "unat sz < 2 ^ 63" using assms(1) by linarith
  define z where "z = int (unat sz)"
  have z: "0 < z" "int (unat sz) = z" using assms(2) by (simp_all add: z_def del: of_nat_unat)
  have d: "slot div int (unat sz) \<le> slot" "0 \<le> slot div int (unat sz)"
    using assms(3) z(1) zdiv_mono2 [of slot 1 z] unfolding z(2) by (simp_all add: pos_imp_zdiv_nonneg_iff)
  have "in_segment sz segment slot \<longleftrightarrow> as_u64 (slot div int (unat sz)) = segment"
    using assms(2,3) by (simp add: in_segment_def sql_div_def as_i64_small [OF small])
  also have "\<dots> \<longleftrightarrow> slot div int (unat sz) = int (unat segment)"
    by (rule as_u64_nat_eq) (use d assms(4) in linarith)+
  finally have a: "in_segment sz segment slot \<longleftrightarrow> slot div int (unat sz) = int (unat segment)" .
  show b: "slot div int (unat sz) = int (unat segment) \<longleftrightarrow> in_slots (segment * sz) ((segment + 1) * sz) slot"
    unfolding in_slots_def segment_bounds(3) [OF assms(1)] segment_bounds(4) [OF assms(1,2)] z(2)
    using div_range_iff [OF z(1), of slot "int (unat segment)"] by (simp add: z_def distrib_right add.commute)
  show "in_segment sz segment slot \<longleftrightarrow> in_slots (segment * sz) ((segment + 1) * sz) slot" using a b by simp
qed

section \<open>The node's coins\<close>

text \<open>
  \<open>node_slots\<close> is the node's state: what \<open>getSlot\<close> answers for each slot. The history fits it when the
  blocks on record reach no further, no recorded input spends a live coin, and creation ids are unique.
\<close>

definition node_live :: "(u64 \<Rightarrow> slot_info) \<Rightarrow> u64 \<Rightarrow> u64 \<Rightarrow> state_slot list" where
  "node_live node_slots lo hi = map (\<lambda>i. state_slot_of i (node_slots i)) (filter (\<lambda>i. \<not> sl_empty (node_slots i)) (slot_range lo hi))"

definition segment_live :: "(u64 \<Rightarrow> slot_info) \<Rightarrow> u64 \<Rightarrow> u64 \<Rightarrow> state_slot list" where
  "segment_live node_slots sz segment = node_live node_slots (segment * sz) ((segment + 1) * sz)"

definition coin_at :: "(u64 \<Rightarrow> slot_info) \<Rightarrow> u64 \<Rightarrow> bool" where
  "coin_at node_slots i = (\<not> sl_empty (node_slots i))"

definition history_fits :: "db \<Rightarrow> u64 \<Rightarrow> (u64 \<Rightarrow> slot_info) \<Rightarrow> bool" where
  "history_fits c height node_slots \<longleftrightarrow>
     (\<forall>b \<in> set (blocks c). b_height b \<le> as_i64 height)
     \<and> distinct (map o_creation_id (filter (\<lambda>out. on_record c (as_i64 height) (o_tx_id out)) (outputs c)))
     \<and> (\<forall>i. coin_at node_slots i \<longrightarrow>
          \<not> spent_by_recorded_input c (as_i64 height) (Some (u64_to_string (sl_creation_id (node_slots i)))))
     \<and> inj_on (\<lambda>i. sl_creation_id (node_slots i)) {i. coin_at node_slots i}"

lemma unat_below: "m < unat (hi :: u64) \<Longrightarrow> unat (of_nat m :: u64) = m"
proof -
  assume "m < unat hi"
  from less_trans [OF this unat_u64_bound] have "m < 2 ^ 64" by simp
  then show ?thesis unfolding unat_of_nat by (simp add: take_bit_nat_eq_self)
qed

lemma slot_range_set: "set (slot_range lo hi) = {i. lo \<le> i \<and> i < hi}"
proof (rule set_eqI)
  fix i show "i \<in> set (slot_range lo hi) \<longleftrightarrow> i \<in> {i. lo \<le> i \<and> i < hi}"
    by (auto simp: slot_range_def word_le_nat_alt word_less_nat_alt unat_below [of _ hi] intro: image_eqI [of _ _ "unat i"])
qed

lemma slot_range_distinct: "distinct (slot_range lo hi)"
proof -
  have "inj_on (of_nat :: nat \<Rightarrow> u64) {unat lo..<unat hi}"
    by (rule inj_on_inverseI [of _ unat]) (simp add: unat_below [of _ hi])
  then show ?thesis by (simp add: slot_range_def distinct_map)
qed

lemma same_identity_columns:
  assumes "map output_identity outs' = map output_identity outs"
  shows "map o_creation_id (filter (\<lambda>out. P (o_tx_id out)) outs') = map o_creation_id (filter (\<lambda>out. P (o_tx_id out)) outs)"
    and "map o_slot_index outs' = map o_slot_index outs"
proof -
  have cols: "map (\<lambda>out. (o_tx_id out, o_creation_id out)) outs' = map (\<lambda>out. (o_tx_id out, o_creation_id out)) outs"
    using arg_cong [OF assms, of "map (\<lambda>(i, t, x, p, l, s, a, w, cid). (t, cid))"] by (simp add: output_identity_def o_def)
  have e: "map o_creation_id (filter (\<lambda>out. P (o_tx_id out)) xs)
      = map snd (filter (\<lambda>(t, cid). P t) (map (\<lambda>out. (o_tx_id out, o_creation_id out)) xs))" for xs
    by (simp add: filter_map o_def)
  show "map o_creation_id (filter (\<lambda>out. P (o_tx_id out)) outs') = map o_creation_id (filter (\<lambda>out. P (o_tx_id out)) outs)"
    unfolding e [of outs'] e [of outs] cols ..
  show "map o_slot_index outs' = map o_slot_index outs"
    using arg_cong [OF assms, of "map (\<lambda>(i, t, x, p, l, s, a, w, cid). s)"] by (simp add: output_identity_def o_def)
qed

lemma same_history_fits:
  assumes "same_history c c'" "history_fits c height node_slots"
  shows "history_fits c' height node_slots"
proof -
  have h: "map output_identity (outputs c') = map output_identity (outputs c)" "blocks c' = blocks c"
    using assms(1) by (simp_all add: same_history_def)
  show ?thesis
    using assms(2) unfolding history_fits_def same_history_facts [OF assms(1)] h(2)
      same_identity_columns(1) [OF h(1), of "on_record c (as_i64 height)"] .
qed

section \<open>A segment after its read\<close>

lemma on_record_not_receipt:
  assumes "wf_db c" "on_record c h tx" shows "\<not> from_receipt c tx"
proof -
  obtain t where t: "find (\<lambda>t. t_id t = tx) (transactions c) = Some t" "recorded t"
    using assms(2) by (auto simp: on_record_def origin_def split: option.splits)
  then have "t \<in> set (transactions c)" "t_id t = tx" by (auto simp: find_Some_iff)
  with assms(1) t(2) show ?thesis
    by (auto simp: from_receipt_def wf_db_def wf_txs_def distinct_map inj_on_def recorded_def)
qed

lemma on_record_top:
  assumes "\<forall>b \<in> set (blocks c). b_height b \<le> as_i64 height"
  shows "on_record c (2 ^ 63 - 1) tx = on_record c (as_i64 height) tx"
proof -
  have "as_i64 height < 2 ^ 63" using sint_lt [of height] by (simp add: as_i64_def)
  then have "b_height b \<le> 2 ^ 63 - 1 \<longleftrightarrow> b_height b \<le> as_i64 height" if "origin c tx = Some (t, b)" for t b
    using assms origin_block [OF that] by force
  then show ?thesis by (auto simp: on_record_def split: option.splits)
qed

lemma segment_live_facts:
  assumes "history_fits c height node_slots"
  shows "distinct (map ss_slot_index (segment_live node_slots sz segment))"
    and "distinct (map ss_creation_id (segment_live node_slots sz segment))"
    and "s \<in> set (segment_live node_slots sz segment) \<Longrightarrow> segment * sz \<le> ss_slot_index s \<and> ss_slot_index s < (segment + 1) * sz"
    and "s \<in> set (segment_live node_slots sz segment) \<Longrightarrow> \<not> spent_by_recorded_input c (as_i64 height) (Some (ss_creation_id s))"
proof -
  let ?r = "filter (\<lambda>i. \<not> sl_empty (node_slots i)) (slot_range (segment * sz) ((segment + 1) * sz))"
  have live: "segment_live node_slots sz segment = map (\<lambda>i. state_slot_of i (node_slots i)) ?r"
    by (simp add: segment_live_def node_live_def)
  have dist: "distinct ?r" using slot_range_distinct by simp
  show "distinct (map ss_slot_index (segment_live node_slots sz segment))"
    using dist by (simp add: live o_def state_slot_of_def)
  have "inj_on (\<lambda>i. sl_creation_id (node_slots i)) (set ?r)"
    using assms by (auto simp: history_fits_def coin_at_def intro: inj_on_subset)
  then have "inj_on (\<lambda>i. u64_to_string (sl_creation_id (node_slots i))) (set ?r)" by (simp add: inj_on_def)
  with dist show "distinct (map ss_creation_id (segment_live node_slots sz segment))"
    by (simp add: live o_def state_slot_of_def distinct_map)
  assume "s \<in> set (segment_live node_slots sz segment)"
  then obtain i where i: "i \<in> set (slot_range (segment * sz) ((segment + 1) * sz))" "coin_at node_slots i"
    "s = state_slot_of i (node_slots i)" by (auto simp: live coin_at_def)
  then show "segment * sz \<le> ss_slot_index s \<and> ss_slot_index s < (segment + 1) * sz"
    by (simp add: slot_range_set state_slot_of_def)
  show "\<not> spent_by_recorded_input c (as_i64 height) (Some (ss_creation_id s))"
    using assms i by (simp add: history_fits_def state_slot_of_def)
qed

lemma reconciled_live:
  assumes wf: "wf_db c" and fits: "history_fits c height node_slots" and out: "out \<in> set (outputs c)"
    and ids: "ids = ss_creation_id ` set (segment_live node_slots sz segment)"
    and lo: "in_slots lo hi (o_slot_index out)"
  shows "live_recorded c (as_i64 height) (reconciled c lo hi (as_i64 height) ids now out)
    \<longleftrightarrow> on_record c (as_i64 height) (o_tx_id out) \<and> the (o_creation_id out) \<in> ids"
proof (cases "the (o_creation_id out) \<in> ids")
  case True
  have "\<not> spent_by_recorded_input c (as_i64 height) (o_creation_id out)"
    if rec: "on_record c (as_i64 height) (o_tx_id out)"
  proof -
    obtain cid where cid: "o_creation_id out = Some cid" using on_record_creation_id [OF wf out rec] by blast
    with True obtain s where "s \<in> set (segment_live node_slots sz segment)" "ss_creation_id s = cid"
      unfolding ids by auto
    with segment_live_facts(4) [OF fits] cid show ?thesis by metis
  qed
  with True lo on_record_not_receipt [OF wf] show ?thesis
    by (auto simp: reconciled_def live_recorded_def unmark_def)
next
  case False
  with lo show ?thesis by (auto simp: reconciled_def live_recorded_def)
qed

definition after_read :: "db \<Rightarrow> (u64 \<Rightarrow> slot_info) \<Rightarrow> u64 \<Rightarrow> u64 \<Rightarrow> u64 \<Rightarrow> string \<Rightarrow> db" where
  "after_read c node_slots sz segment height now =
     reconciled_db c segment (segment * sz) ((segment + 1) * sz) height (segment_live node_slots sz segment) now"

lemma after_read_history: "same_history c (after_read c node_slots sz segment height now)"
  by (simp add: after_read_def reconciled_db_def same_history_def o_def reconciled_identity)

lemma slots_at_home_outputs:
  "map output_identity (outputs c') = map output_identity (outputs c) \<Longrightarrow> out \<in> set (outputs c') \<Longrightarrow> slots_at_home sz c
    \<Longrightarrow> 0 \<le> o_slot_index out \<and> o_slot_index out < 2 ^ 63"
proof -
  assume h: "map output_identity (outputs c') = map output_identity (outputs c)" "out \<in> set (outputs c')" "slots_at_home sz c"
  have "o_slot_index out \<in> set (map o_slot_index (outputs c))"
    using h(2) unfolding same_identity_columns(2) [OF h(1), symmetric] by simp
  with h(3) show ?thesis by (auto simp: slots_at_home_def)
qed

lemma foreign_rows_at_home:
  assumes fits: "history_fits c height node_slots" and sz: "0 < unat sz" and top: "(unat segment + 1) * unat sz < 2 ^ 63"
    and s: "s \<in> set (segment_live node_slots sz segment)"
  shows "0 \<le> as_i64 (ss_slot_index s) \<and> as_i64 (ss_slot_index s) < 2 ^ 63
    \<and> in_slots (segment * sz) ((segment + 1) * sz) (as_i64 (ss_slot_index s))
    \<and> as_i64 segment = as_i64 (ss_slot_index s) div int (unat sz)" (is "?a \<and> ?b \<and> ?c \<and> ?d")
proof -
  let ?i = "unat (ss_slot_index s)"
  have i: "unat segment * unat sz \<le> ?i" "?i < (unat segment + 1) * unat sz"
    using segment_live_facts(3) [OF fits s] by (simp_all add: word_le_nat_alt word_less_nat_alt segment_bounds(1) [OF top] segment_bounds(2) [OF top sz])
  have small: "?i < 2 ^ 63" using less_trans [OF i(2) top] .
  note idx = as_i64_small [OF small]
  have a: ?a by (simp add: idx)
  have "int ?i < int (2 ^ 63)" using small by (simp only: of_nat_less_iff)
  then have b: ?b unfolding idx by simp
  have c: ?c unfolding in_slots_def idx segment_bounds(3) [OF top] segment_bounds(4) [OF top sz] using i by (simp only: of_nat_le_iff of_nat_less_iff)
  have "unat segment * 1 \<le> unat segment * unat sz" using sz by (intro mult_le_mono2) simp
  then have "unat segment < 2 ^ 63" using i small by linarith
  then have ?d using in_segment_iff(2) [OF top sz a b] c by (simp add: as_i64_small)
  with a b c show ?thesis by simp
qed

lemma after_read_at_home:
  assumes fits: "history_fits c height node_slots" and home: "slots_at_home sz c"
    and sz: "0 < unat sz" and top: "(unat segment + 1) * unat sz < 2 ^ 63"
  shows "slots_at_home sz (after_read c node_slots sz segment height now)"
  unfolding slots_at_home_def
proof (intro conjI ballI)
  let ?c = "after_read c node_slots sz segment height now"
  fix out assume "out \<in> set (outputs ?c)"
  with after_read_history [of c node_slots sz segment height now] home
  have "0 \<le> o_slot_index out \<and> o_slot_index out < 2 ^ 63"
    by (intro slots_at_home_outputs) (simp_all add: same_history_def)
  then show "0 \<le> o_slot_index out" "o_slot_index out < 2 ^ 63" by simp_all
next
  let ?c = "after_read c node_slots sz segment height now"
  fix f assume "f \<in> set (state_slots ?c)"
  then consider "f \<in> set (state_slots c)"
    | s where "s \<in> set (segment_live node_slots sz segment)" "f = state_slot_row_of segment height now s"
    by (auto simp: after_read_def reconciled_db_def foreign_slots_def)
  then have "0 \<le> f_slot_index f \<and> f_slot_index f < 2 ^ 63 \<and> f_segment f = f_slot_index f div int (unat sz)"
  proof cases
    case 1
    with home show ?thesis by (auto simp: slots_at_home_def)
  next
    case 2
    with foreign_rows_at_home [OF fits sz top 2(1)] show ?thesis by (simp add: state_slot_row_of_def)
  qed
  then show "0 \<le> f_slot_index f" "f_slot_index f < 2 ^ 63" "f_segment f = f_slot_index f div int (unat sz)" by simp_all
qed

lemma distinct_the: "distinct (map f xs) \<Longrightarrow> (\<And>x. x \<in> set xs \<Longrightarrow> f x \<noteq> None) \<Longrightarrow> distinct (map (the \<circ> f) xs)"
proof (induction xs)
  case (Cons x xs)
  have "the (f x) \<noteq> the (f y)" if y: "y \<in> set xs" for y
  proof -
    have "f x \<noteq> f y" using Cons.prems(1) y by auto
    moreover have "f x \<noteq> None" "f y \<noteq> None" using Cons.prems(2) y by simp_all
    ultimately show ?thesis by (metis option.exhaust_sel)
  qed
  with Cons show ?case by (auto simp: image_iff)
qed simp

lemma coins_of_read_segment:
  assumes wf: "wf_db c" and fits: "history_fits c height node_slots" and home: "slots_at_home sz c"
    and sz: "0 < unat sz" and top: "(unat segment + 1) * unat sz < 2 ^ 63"
  shows "distinct (segment_coins (after_read c node_slots sz segment height now) height sz segment)"
    and "set (segment_coins (after_read c node_slots sz segment height now) height sz segment)
       = ss_creation_id ` set (segment_live node_slots sz segment)"
proof -
  let ?lo = "segment * sz" and ?hi = "(segment + 1) * sz" and ?H = "as_i64 height"
  define live where "live = segment_live node_slots sz segment"
  define ids where "ids = ss_creation_id ` set live"
  define g where "g = reconciled c ?lo ?hi ?H ids now"
  define c' where "c' = after_read c node_slots sz segment height now"
  have hist: "same_history c c'" by (simp add: c'_def after_read_history)
  note facts = segment_live_facts [OF fits, where sz = sz and segment = segment, folded live_def]
  have outs: "outputs c' = map g (outputs c)" by (simp add: c'_def after_read_def reconciled_db_def live_def ids_def g_def)
  have slot: "o_slot_index (g out) = o_slot_index out" "o_creation_id (g out) = o_creation_id out" for out
    by (simp_all add: g_def reconciled_def unmark_def)
  let ?Q = "\<lambda>out. on_record c ?H (o_tx_id out) \<and> in_slots ?lo ?hi (o_slot_index out) \<and> the (o_creation_id out) \<in> ids"
  have Q: "live_recorded c ?H (g out) \<and> in_segment sz segment (o_slot_index out) \<longleftrightarrow> ?Q out" if out: "out \<in> set (outputs c)" for out
  proof -
    have "in_segment sz segment (o_slot_index out) = in_slots ?lo ?hi (o_slot_index out)"
      using home out by (intro in_segment_iff(1) [OF top sz]) (auto simp: slots_at_home_def)
    with reconciled_live [OF wf fits out, of ids sz segment ?lo ?hi now] show ?thesis
      by (auto simp: g_def ids_def live_def)
  qed
  have rec: "map (the \<circ> o_creation_id) (filter (\<lambda>out. live_recorded c' ?H out \<and> in_segment sz segment (o_slot_index out)) (outputs c'))
      = map (the \<circ> o_creation_id) (filter ?Q (outputs c))"
    unfolding outs same_history_facts [OF hist] by (simp add: filter_map o_def slot Q cong: filter_cong)
  have seg_small: "unat segment < 2 ^ 63"
  proof -
    have "(unat segment + 1) * 1 \<le> (unat segment + 1) * unat sz" using sz by (intro mult_le_mono2) simp
    from le_less_trans [OF this top] show ?thesis by simp
  qed
  have old: "as_u64 (f_segment f) \<noteq> segment" if "f \<in> set (state_slots c)" "f_segment f \<noteq> as_i64 segment" for f
  proof -
    have f: "0 \<le> f_slot_index f" "f_slot_index f < 2 ^ 63" "f_segment f = f_slot_index f div int (unat sz)"
      using home that(1) by (auto simp: slots_at_home_def)
    define z where "z = int (unat sz)"
    have z: "0 < z" using sz by (simp add: z_def del: of_nat_unat)
    have "f_segment f \<le> f_slot_index f" "0 \<le> f_segment f"
      using f(1) zdiv_mono2 [of "f_slot_index f" 1 z] z unfolding f(3) z_def [symmetric] by (simp_all add: pos_imp_zdiv_nonneg_iff)
    with f(2) that(2) show ?thesis by (simp add: as_u64_nat_eq as_i64_small [OF seg_small])
  qed
  have foreign: "map f_creation_id (filter (\<lambda>f. live_foreign c' ?H f \<and> as_u64 (f_segment f) = segment) (state_slots c'))
      = map ss_creation_id (foreign_slots c ?lo ?hi live)"
  proof -
    have "filter (\<lambda>f. live_foreign c ?H f \<and> as_u64 (f_segment f) = segment)
        (filter P (filter (\<lambda>f. f_segment f \<noteq> as_i64 segment) (state_slots c))) = []" for P
      by (simp add: filter_empty_conv) (use old in blast)
    moreover have "filter (\<lambda>f. live_foreign c ?H f \<and> as_u64 (f_segment f) = segment)
        (map (state_slot_row_of segment height now) (foreign_slots c ?lo ?hi live))
        = map (state_slot_row_of segment height now) (foreign_slots c ?lo ?hi live)"
      by (rule filter_True) (use facts(4) in \<open>auto simp: foreign_slots_def live_foreign_def state_slot_row_of_def\<close>)
    moreover have "state_slots c' = filter (\<lambda>f. f_slot_index f \<notin> (as_i64 \<circ> ss_slot_index) ` set (foreign_slots c ?lo ?hi live))
            (filter (\<lambda>f. f_segment f \<noteq> as_i64 segment) (state_slots c))
          @ map (state_slot_row_of segment height now) (foreign_slots c ?lo ?hi live)"
      by (simp add: c'_def after_read_def reconciled_db_def live_def)
    ultimately show ?thesis
      unfolding same_history_facts [OF hist] by (simp only: filter_append) (simp add: o_def state_slot_row_of_def)
  qed
  have coins: "segment_coins c' height sz segment
      = map (the \<circ> o_creation_id) (filter ?Q (outputs c)) @ map ss_creation_id (foreign_slots c ?lo ?hi live)"
    unfolding segment_coins_def rec foreign ..
  have on_ids: "in_range_ids c ?lo ?hi = (the \<circ> o_creation_id) ` {out \<in> set (outputs c). in_slots ?lo ?hi (o_slot_index out) \<and> on_record c ?H (o_tx_id out)}"
  proof -
    have "on_record c (2 ^ 63 - 1) tx = on_record c ?H tx" for tx
      using fits unfolding history_fits_def by (intro on_record_top) blast
    then show ?thesis unfolding in_range_ids_def by blast
  qed
  have left: "set (map (the \<circ> o_creation_id) (filter ?Q (outputs c))) = ids \<inter> in_range_ids c ?lo ?hi"
    unfolding on_ids by auto
  have right: "set (map ss_creation_id (foreign_slots c ?lo ?hi live)) = ids - in_range_ids c ?lo ?hi"
    by (auto simp: foreign_slots_def ids_def)
  show "set (segment_coins (after_read c node_slots sz segment height now) height sz segment)
       = ss_creation_id ` set (segment_live node_slots sz segment)"
    unfolding c'_def [symmetric] coins set_append left right ids_def [symmetric] live_def [symmetric] by blast
  have "distinct (map o_creation_id (filter (\<lambda>out. on_record c ?H (o_tx_id out)) (outputs c)))"
    using fits by (simp add: history_fits_def)
  from distinct_map_filter [OF this, of "\<lambda>out. in_slots ?lo ?hi (o_slot_index out) \<and> the (o_creation_id out) \<in> ids"]
  have inj: "distinct (map o_creation_id (filter ?Q (outputs c)))" by (simp add: conj_ac)
  have "distinct (map (the \<circ> o_creation_id) (filter ?Q (outputs c)))"
    by (rule distinct_the [OF inj]) (use on_record_creation_id [OF wf] in auto)
  moreover have "distinct (map ss_creation_id (foreign_slots c ?lo ?hi live))"
    using facts(2) by (simp add: foreign_slots_def distinct_map_filter)
  ultimately show "distinct (segment_coins (after_read c node_slots sz segment height now) height sz segment)"
    unfolding c'_def [symmetric] coins distinct_append left right by blast
qed

lemma coins_elsewhere:
  assumes fits: "history_fits c height node_slots" and home: "slots_at_home sz c"
    and sz: "0 < unat sz" and top: "(unat segment + 1) * unat sz < 2 ^ 63" and other: "other \<noteq> segment"
  shows "segment_coins (after_read c node_slots sz segment height now) height sz other = segment_coins c height sz other"
proof -
  let ?lo = "segment * sz" and ?hi = "(segment + 1) * sz" and ?H = "as_i64 height"
  define live where "live = segment_live node_slots sz segment"
  define g where "g = reconciled c ?lo ?hi ?H (ss_creation_id ` set live) now"
  define c' where "c' = after_read c node_slots sz segment height now"
  have hist: "same_history c c'" by (simp add: c'_def after_read_history)
  have outs: "outputs c' = map g (outputs c)" by (simp add: c'_def after_read_def reconciled_db_def live_def g_def)
  have slot: "o_slot_index (g out) = o_slot_index out" "o_creation_id (g out) = o_creation_id out" for out
    by (simp_all add: g_def reconciled_def unmark_def)
  have same: "live_recorded c ?H (g out) \<and> in_segment sz other (o_slot_index out)
      \<longleftrightarrow> live_recorded c ?H out \<and> in_segment sz other (o_slot_index out)" if out: "out \<in> set (outputs c)" for out
  proof -
    have "in_segment sz segment (o_slot_index out) = in_slots ?lo ?hi (o_slot_index out)"
      using home out by (intro in_segment_iff(1) [OF top sz]) (auto simp: slots_at_home_def)
    then have "in_segment sz other (o_slot_index out) \<Longrightarrow> g out = out"
      using other by (auto simp: g_def reconciled_def in_segment_def)
    then show ?thesis by auto
  qed
  have rec: "map (the \<circ> o_creation_id) (filter (\<lambda>out. live_recorded c' ?H out \<and> in_segment sz other (o_slot_index out)) (outputs c'))
      = map (the \<circ> o_creation_id) (filter (\<lambda>out. live_recorded c ?H out \<and> in_segment sz other (o_slot_index out)) (outputs c))"
    unfolding outs same_history_facts [OF hist] by (simp add: filter_map o_def slot same cong: filter_cong)
  have kept: "f_segment f \<noteq> as_i64 segment \<and> f_slot_index f \<notin> (as_i64 \<circ> ss_slot_index) ` set (foreign_slots c ?lo ?hi live)"
    if f: "f \<in> set (state_slots c)" "as_u64 (f_segment f) = other" for f
  proof -
    have seg: "f_segment f \<noteq> as_i64 segment" using f(2) other by auto
    have at: "0 \<le> f_slot_index f" "f_slot_index f < 2 ^ 63" "f_segment f = f_slot_index f div int (unat sz)"
      using home f(1) by (auto simp: slots_at_home_def)
    have "f_slot_index f \<noteq> as_i64 (ss_slot_index s)" if s: "s \<in> set live" for s
      using foreign_rows_at_home [OF fits sz top s [unfolded live_def]] at seg by metis
    with seg show ?thesis by (auto simp: foreign_slots_def)
  qed
  have slots': "state_slots c' = filter (\<lambda>f. f_slot_index f \<notin> (as_i64 \<circ> ss_slot_index) ` set (foreign_slots c ?lo ?hi live))
            (filter (\<lambda>f. f_segment f \<noteq> as_i64 segment) (state_slots c))
          @ map (state_slot_row_of segment height now) (foreign_slots c ?lo ?hi live)"
    by (simp add: c'_def after_read_def reconciled_db_def live_def)
  have "filter (\<lambda>f. live_foreign c ?H f \<and> as_u64 (f_segment f) = other)
      (map (state_slot_row_of segment height now) xs) = []" for xs
    using other by (auto simp: filter_empty_conv state_slot_row_of_def)
  moreover have "filter (\<lambda>f. live_foreign c ?H f \<and> as_u64 (f_segment f) = other)
      (filter (\<lambda>f. f_slot_index f \<notin> (as_i64 \<circ> ss_slot_index) ` set (foreign_slots c ?lo ?hi live))
        (filter (\<lambda>f. f_segment f \<noteq> as_i64 segment) (state_slots c)))
      = filter (\<lambda>f. live_foreign c ?H f \<and> as_u64 (f_segment f) = other) (state_slots c)"
    unfolding filter_filter by (rule filter_cong [OF refl]) (use kept in blast)
  ultimately have "filter (\<lambda>f. live_foreign c' ?H f \<and> as_u64 (f_segment f) = other) (state_slots c')
      = filter (\<lambda>f. live_foreign c ?H f \<and> as_u64 (f_segment f) = other) (state_slots c)"
    unfolding same_history_facts [OF hist] slots' filter_append by simp
  then show ?thesis unfolding c'_def [symmetric] segment_coins_def rec by simp
qed

lemma reconciled_db_wf:
  assumes "wf_db c" "distinct (map ss_slot_index live)"
  shows "wf_db (reconciled_db c segment lo hi height live now)"
proof -
  let ?foreign = "foreign_slots c lo hi live"
  let ?c1 = "replace_state_slots c segment ?foreign height now"
  have wf1: "wf_db ?c1"
    using op_replace_state_slots.keeps_wf [OF assms(1), of "(segment, ?foreign, height, now)"] by simp
  let ?outs = "map (reconciled c lo hi (as_i64 height) (ss_creation_id ` set live) now) (outputs c)"
  have "wf_db (?c1\<lparr>outputs := ?outs\<rparr>)"
    by (rule wf_db_same_outputs [OF wf1]) (simp add: replace_state_slots_def o_def reconciled_identity)
  moreover have "state_slots ?c1 = state_slots (reconciled_db c segment lo hi height live now)"
    using distinct_slot_rows [OF assms(2), of segment height now]
    by (simp add: replace_state_slots_def foreign_slots_def foldl_insert_or_replace reconciled_db_def state_slot_row_of_def o_def)
  then have "reconciled_db c segment lo hi height live now = ?c1\<lparr>outputs := ?outs\<rparr>"
    by (intro db.equality) (simp_all add: reconciled_db_def replace_state_slots_def)
  ultimately show ?thesis by simp
qed

lemma after_read_wf:
  "wf_db c \<Longrightarrow> history_fits c height node_slots \<Longrightarrow> wf_db (after_read c node_slots sz segment height now)"
  unfolding after_read_def by (intro reconciled_db_wf segment_live_facts(1))

section \<open>A run over the differing segments\<close>

text \<open>
  A quiet run: the node stays at \<open>height\<close>, answers every slot within five attempts, and nothing else
  is committed meanwhile.
\<close>

definition quiet :: "sweep_world \<Rightarrow> (u64 \<Rightarrow> slot_info) \<Rightarrow> u64 \<Rightarrow> bool" where
  "quiet w node_slots height \<longleftrightarrow>
     (\<forall>s. sw_start w s = Inr height) \<and> (\<forall>i. \<not> isl (sw_pause w i))
     \<and> (\<forall>i. \<exists>k < 5. sw_slot w i k = Inr (node_slots i) \<and> (\<forall>j < k. isl (sw_slot w i j)))
     \<and> (\<forall>s c. sw_meanwhile w s c = c)"

lemma read_segment_quiet:
  assumes "quiet w node_slots height"
  shows "read_segment (sw_slot w) (sw_pause w) idxs
    = Inr (map (\<lambda>i. state_slot_of i (node_slots i)) (filter (\<lambda>i. \<not> sl_empty (node_slots i)) idxs))"
proof (induction idxs)
  case (Cons i idxs)
  obtain p where p: "sw_pause w i = Inr p"
    using assms by (cases "sw_pause w i") (auto simp: quiet_def dest: spec [of _ i])
  obtain k where k: "k < 5" "sw_slot w i k = Inr (node_slots i)" "\<forall>j < k. isl (sw_slot w i j)"
    using assms unfolding quiet_def by blast
  from retry_first_success [OF k] have "retry_from 5 ''getSlot'' (sw_slot w i) 0 = Inr (node_slots i)" .
  with Cons p show ?case by simp
qed simp

lemma read_segment_live:
  "quiet w node_slots height \<Longrightarrow>
    read_segment (sw_slot w) (sw_pause w) (slot_range (segment * sz) ((segment + 1) * sz)) = Inr (segment_live node_slots sz segment)"
  by (simp add: read_segment_quiet segment_live_def node_live_def)

definition coins_match :: "db \<Rightarrow> u64 \<Rightarrow> (u64 \<Rightarrow> slot_info) \<Rightarrow> u64 \<Rightarrow> u64 \<Rightarrow> bool" where
  "coins_match c height node_slots sz segment \<longleftrightarrow>
     distinct (segment_coins c height sz segment)
     \<and> set (segment_coins c height sz segment) = ss_creation_id ` set (segment_live node_slots sz segment)"

lemma coins_match_count:
  assumes "coins_match c height node_slots sz segment" "history_fits c height node_slots"
  shows "length (segment_coins c height sz segment) = length (segment_live node_slots sz segment)"
proof -
  have "length (segment_coins c height sz segment) = card (ss_creation_id ` set (segment_live node_slots sz segment))"
    using assms(1) by (metis coins_match_def distinct_card)
  also have "\<dots> = length (segment_live node_slots sz segment)"
    using distinct_card [OF segment_live_facts(2) [OF assms(2)], of sz segment] by simp
  finally show ?thesis .
qed

lemma sweep_segments_quiet:
  assumes "quiet w node_slots height" "0 < unat sz"
  shows "wf_db c \<Longrightarrow> history_fits c height node_slots \<Longrightarrow> slots_at_home sz c \<Longrightarrow> distinct segs
    \<Longrightarrow> \<forall>s \<in> set segs. (unat s + 1) * unat sz < 2 ^ 63
    \<Longrightarrow> \<exists>c'. sweep_segments w sz segs c = (c', None) \<and> wf_db c' \<and> same_history c c' \<and> slots_at_home sz c'
      \<and> (\<forall>s \<in> set segs. coins_match c' height node_slots sz s)
      \<and> (\<forall>s. s \<notin> set segs \<longrightarrow> segment_coins c' height sz s = segment_coins c height sz s)"
proof (induction segs arbitrary: c)
  case (Cons segment segs)
  let ?c1 = "after_read c node_slots sz segment height (sw_clock w segment)"
  have top: "(unat segment + 1) * unat sz < 2 ^ 63" using Cons.prems(5) by simp
  have step: "sweep_segment c segment sz height (segment_live node_slots sz segment) (sw_clock w segment) = Inr ?c1"
    unfolding after_read_def by (rule sweep_segment_result [OF Cons.prems(1) segment_live_facts(1) [OF Cons.prems(2)]])
  have fits1: "history_fits ?c1 height node_slots" by (rule same_history_fits [OF after_read_history Cons.prems(2)])
  obtain c' where c': "sweep_segments w sz segs ?c1 = (c', None)" "wf_db c'" "same_history ?c1 c'" "slots_at_home sz c'"
    "\<forall>s \<in> set segs. coins_match c' height node_slots sz s"
    "\<forall>s. s \<notin> set segs \<longrightarrow> segment_coins c' height sz s = segment_coins ?c1 height sz s"
    using Cons.IH [OF after_read_wf [OF Cons.prems(1,2)] fits1 after_read_at_home [OF Cons.prems(2,3) assms(2) top]] Cons.prems(4,5)
    by auto
  have matched: "coins_match ?c1 height node_slots sz segment"
    unfolding coins_match_def using coins_of_read_segment [OF Cons.prems(1-3) assms(2) top] by blast
  show ?case
  proof (intro exI conjI)
    show "sweep_segments w sz (segment # segs) c = (c', None)"
      using assms(1) c'(1) step by (simp add: quiet_def read_segment_live [OF assms(1)])
    show "wf_db c'" "slots_at_home sz c'" by (fact c')+
    show "same_history c c'" by (rule same_history_trans [OF after_read_history c'(3)])
    show "\<forall>s \<in> set (segment # segs). coins_match c' height node_slots sz s"
      using c'(5,6) Cons.prems(4) matched by (auto simp: coins_match_def)
    show "\<forall>s. s \<notin> set (segment # segs) \<longrightarrow> segment_coins c' height sz s = segment_coins c height sz s"
      using c'(6) coins_elsewhere [OF Cons.prems(2,3) assms(2) top] by simp
  qed
qed (simp add: exI)

text \<open>What a run does to the number of coins in each segment decides what differs afterwards.\<close>

lemma live_segments_set: "segment \<in> set (live_segments c height sz) \<longleftrightarrow> segment_coins c height sz segment \<noteq> []"
  using count_segments [of c height sz segment] by (metis count_list_0_iff length_0_conv)

lemma live_count_Inr: "0 < unat sz \<Longrightarrow> live_count_per_segment c height sz
    = Inr (map (\<lambda>s. (s, of_nat (count_list (live_segments c height sz) s))) (remdups (live_segments c height sz)))"
  by (auto simp: live_count_per_segment_def Let_def)

lemma segment_bound_iff:
  assumes "own = map (\<lambda>s. (s, f s)) (remdups segs)" "segment \<in> set segs" "unat (segment_bound m own) < 2 ^ 63"
    and "\<forall>s \<in> set segs. unat s < 2 ^ 63"
  shows "segment < segment_bound m own"
proof -
  have fst: "fst ` set own = set segs" by (auto simp: assms(1) image_image)
  have "segment \<le> Max (set segs)" using assms(2) by simp
  moreover have "Max (set segs) \<in> set segs" using assms(2) by (intro Max_in) auto
  then have "unat (Max (set segs)) < 2 ^ 63" using assms(4) by blast
  then have "Max (set segs) < Max (set segs) + 1" by (simp add: word_less_nat_alt unat_add_bound)
  moreover have "Max (set segs) + 1 \<le> segment_bound m own"
    using assms(2) fst by (auto simp: segment_bound_def)
  ultimately show ?thesis by order
qed

lemma live_segments_small:
  assumes "slots_at_home sz c" "0 < unat sz" "unat sz < 2 ^ 63" "s \<in> set (live_segments c height sz)"
  shows "unat s < 2 ^ 63"
proof -
  define z where "z = int (unat sz)"
  have z: "0 < z" "as_i64 sz = z" using assms(2) as_i64_small [OF assms(3)] by (simp_all add: z_def del: of_nat_unat)
  have small: "unat (as_u64 (x div z)) < 2 ^ 63" if x: "0 \<le> x" "x < 2 ^ 63" for x
  proof -
    have d: "0 \<le> x div z" "x div z < 2 ^ 63"
      using x z(1) zdiv_mono2 [of x 1 z] by (simp_all add: pos_imp_zdiv_nonneg_iff)
    have "x div z = int (unat (as_u64 (x div z)))" using as_u64_nat_eq [OF d] by blast
    with d(2) have "int (unat (as_u64 (x div z))) < int (2 ^ 63)" by simp
    then show ?thesis by (simp only: of_nat_less_iff)
  qed
  have "sql_div x z = x div z" if "0 \<le> x" for x using that z(1) by (simp add: sql_div_def)
  with assms(1,4) small show ?thesis
    by (auto simp: live_segments_def z(2) slots_at_home_def z_def [symmetric] simp del: of_nat_unat)
qed

lemma segment_bound_le:
  assumes "0 < unat sz" "live_count_per_segment c height sz = Inr own"
    and "\<And>s. segment_coins c height sz s \<noteq> [] \<Longrightarrow> s < b" "of_nat (length (live_counts m)) \<le> b"
  shows "segment_bound m own \<le> b"
proof (cases "own = []")
  case False
  have own: "fst ` set own = set (live_segments c height sz)"
    using assms(2) by (auto simp: live_count_Inr [OF assms(1)] image_image)
  then have "Max (fst ` set own) \<in> set (live_segments c height sz)" using False by (metis Max_in List.finite_set finite_imageI image_is_empty set_empty)
  then have lt: "Max (fst ` set own) < b" using assms(3) by (simp add: live_segments_set)
  then have "Max (fst ` set own) + 1 \<le> b" by (rule inc_le)
  with False assms(4) show ?thesis by (simp add: segment_bound_def)
qed (use assms(4) in \<open>simp add: segment_bound_def\<close>)

lemma differing_segments_Inr:
  assumes "live_count_per_segment c height (bucket_capacity m) = Inr own"
  shows "\<exists>d. differing_segments c m height = Inr d \<and> distinct (map fst d)
    \<and> set (map fst d) = {s. s < segment_bound m own
         \<and> node_count m s \<noteq> of_nat (length (segment_coins c height (bucket_capacity m) s))}"
proof -
  let ?segs = "map of_nat [0..<unat (segment_bound m own)] :: u64 list"
  have segs: "?segs = slot_range 0 (segment_bound m own)" by (simp add: slot_range_def)
  have f: "map fst (filter P (map (\<lambda>s. (s, g s)) xs)) = filter (\<lambda>s. P (s, g s)) xs" for P g and xs :: "u64 list"
    by (simp add: filter_map o_def)
  show ?thesis
    unfolding differing_segments_def assms and_then_simps segs f
    by (auto simp: f slot_range_distinct slot_range_set count_of_segments [OF assms] image_iff)
qed

text \<open>
  C4. A quiet run of the sweep brings this permanode's picture of the live state to the node's: every
  differing segment is read, afterwards it holds exactly the node's coins, and no segment differs.
\<close>
theorem sweep_matches_the_node:
  assumes wf: "wf_db c" and fits: "history_fits c height node_slots" and home: "slots_at_home (bucket_capacity m) c"
    and quiet: "quiet w node_slots height" and sz: "0 < unat (bucket_capacity m)" "unat (bucket_capacity m) < 2 ^ 63"
    and own: "live_count_per_segment c height (bucket_capacity m) = Inr own"
    and slots: "unat (segment_bound m own) * unat (bucket_capacity m) < 2 ^ 63"
    and counts: "\<forall>s. s < segment_bound m own \<longrightarrow> node_count m s = of_nat (length (segment_live node_slots (bucket_capacity m) s))"
    and d: "differing_segments c m height = Inr d"
  shows "\<exists>c'. sweep_segments w (bucket_capacity m) (map fst d) c = (c', None)
    \<and> differing_segments c' m height = Inr [] \<and> wf_db c' \<and> same_history c c' \<and> slots_at_home (bucket_capacity m) c'
    \<and> (\<forall>s \<in> fst ` set d. coins_match c' height node_slots (bucket_capacity m) s)"
proof -
  let ?sz = "bucket_capacity m" and ?b = "segment_bound m own"
  have swept: "distinct (map fst d)"
      "set (map fst d) = {s. s < ?b \<and> node_count m s \<noteq> of_nat (length (segment_coins c height ?sz s))}"
    using differing_segments_Inr [OF own] d by auto
  have top: "(unat s + 1) * unat ?sz < 2 ^ 63" if "s < ?b" for s
  proof -
    have "(unat s + 1) * unat ?sz \<le> unat ?b * unat ?sz" using that by (intro mult_le_mono1) (simp add: word_less_nat_alt)
    with slots show ?thesis by linarith
  qed
  have range: "\<forall>s \<in> set (map fst d). (unat s + 1) * unat ?sz < 2 ^ 63" unfolding swept(2) using top by blast
  obtain c' where c': "sweep_segments w ?sz (map fst d) c = (c', None)" "wf_db c'" "same_history c c'" "slots_at_home ?sz c'"
    "\<forall>s \<in> set (map fst d). coins_match c' height node_slots ?sz s"
    "\<forall>s. s \<notin> set (map fst d) \<longrightarrow> segment_coins c' height ?sz s = segment_coins c height ?sz s"
    using sweep_segments_quiet [OF quiet sz(1) wf fits home swept(1) range] by blast
  have fits': "history_fits c' height node_slots" by (rule same_history_fits [OF c'(3) fits])
  have count: "node_count m s = of_nat (length (segment_coins c' height ?sz s))" if s: "s < ?b" for s
  proof (cases "s \<in> set (map fst d)")
    case True
    with c'(5) have "coins_match c' height node_slots ?sz s" by blast
    from coins_match_count [OF this fits'] counts s show ?thesis by simp
  next
    case False
    then have "node_count m s = of_nat (length (segment_coins c height ?sz s))" using swept(2) s by auto
    with c'(6) False show ?thesis by simp
  qed
  have b_small: "unat ?b < 2 ^ 63"
  proof -
    have "unat ?b * 1 \<le> unat ?b * unat ?sz" using sz(1) by (intro mult_le_mono2) simp
    with slots show ?thesis by linarith
  qed
  have inside: "s < ?b" if "segment_coins c' height ?sz s \<noteq> []" for s
  proof (cases "s \<in> set (map fst d)")
    case False
    then have "s \<in> set (live_segments c height ?sz)" using that c'(6) by (simp add: live_segments_set)
    then show ?thesis
      using segment_bound_iff [where segs = "live_segments c height ?sz" and m = m and own = own] own b_small
        live_segments_small [OF home sz] by (auto simp: live_count_Inr [OF sz(1)])
  qed (use swept(2) in auto)
  obtain own' where own': "live_count_per_segment c' height ?sz = Inr own'" using live_count_Inr [OF sz(1)] by blast
  have bound: "segment_bound m own' \<le> ?b"
    by (rule segment_bound_le [OF sz(1) own' inside]) (simp_all add: segment_bound_def)
  obtain d' where d': "differing_segments c' m height = Inr d'"
      "set (map fst d') = {s. s < segment_bound m own' \<and> node_count m s \<noteq> of_nat (length (segment_coins c' height ?sz s))}"
    using differing_segments_Inr [OF own'] by blast
  have "set (map fst d') = {}" unfolding d'(2) using count order.strict_trans2 [OF _ bound] by auto
  then have "d' = []" by (simp only: set_empty map_is_Nil_conv)
  with d' c' show ?thesis by (intro exI [of _ c']) auto
qed

section \<open>Whatever the node answers\<close>

lemma read_segment_slots:
  "read_segment ask pause idxs = Inr live \<Longrightarrow> subseq (map ss_slot_index live) idxs"
proof (induction idxs arbitrary: live)
  case (Cons i idxs)
  then show ?case by (auto simp: and_then_Inr_iff state_slot_of_def split: if_splits)
qed simp

lemma subseq_distinct_slots: "subseq xs ys \<Longrightarrow> distinct ys \<Longrightarrow> distinct xs"
proof (induction rule: list_emb.induct)
  case (list_emb_Cons2 x y xs ys)
  then show ?case by (auto dest: list_emb_set)
qed simp_all

lemma swept_segment:
  assumes "wf_db c" "read_segment ask pause (slot_range lo hi) = Inr live" "sweep_segment c segment sz height live now = Inr c'"
  shows "wf_db c' \<and> evidence_le c c' \<and> same_history c c'"
proof -
  have slots: "distinct (map ss_slot_index live)"
    using subseq_distinct_slots [OF read_segment_slots [OF assms(2)] slot_range_distinct] .
  then have "c' = reconciled_db c segment (segment * sz) ((segment + 1) * sz) height live now"
    using assms(1,3) by (simp add: sweep_segment_result)
  with reconciled_db_wf [OF assms(1) slots] show ?thesis
    by (simp add: reconciled_db_def same_history_def evidence_le_def o_def reconciled_identity)
qed

lemma sweep_segments_keep:
  assumes others: "\<And>s c. wf_db c \<Longrightarrow> wf_db (sw_meanwhile w s c) \<and> evidence_le c (sw_meanwhile w s c)"
  shows "wf_db c \<Longrightarrow> sweep_segments w sz segs c = (c', out) \<Longrightarrow> wf_db c' \<and> evidence_le c c'"
proof (induction segs arbitrary: c)
  case (Cons segment segs)
  let ?c1 = "sw_meanwhile w segment c"
  have o: "wf_db ?c1" "evidence_le c ?c1" using others [OF Cons.prems(1)] by simp_all
  show ?case
  proof (cases "\<exists>h live c2. sw_start w segment = Inr h
      \<and> read_segment (sw_slot w) (sw_pause w) (slot_range (segment * sz) ((segment + 1) * sz)) = Inr live
      \<and> sweep_segment ?c1 segment sz h live (sw_clock w segment) = Inr c2")
    case True
    then obtain h live c2 where s: "sw_start w segment = Inr h"
      "read_segment (sw_slot w) (sw_pause w) (slot_range (segment * sz) ((segment + 1) * sz)) = Inr live"
      "sweep_segment ?c1 segment sz h live (sw_clock w segment) = Inr c2" by blast
    with Cons.prems(2) have rest: "sweep_segments w sz segs c2 = (c', out)" by simp
    have two: "wf_db c2" "evidence_le ?c1 c2" using swept_segment [OF o(1) s(2,3)] by simp_all
    show ?thesis
      using Cons.IH [OF two(1) rest] evidence_trans [OF o(2) evidence_trans [OF two(2)]] by blast
  next
    case False
    then have "c' = c \<or> c' = ?c1" using Cons.prems(2) by (auto split: sum.splits)
    with o Cons.prems(1) show ?thesis by auto
  qed
qed simp

lemma cache_balances_keep: "wf_db c \<Longrightarrow> wf_db (cache_balances entries now c) \<and> evidence_le c (cache_balances entries now c)"
proof (induction entries arbitrary: c)
  case (Cons e entries)
  obtain address total count where e: "e = (address, total, count)" by (cases e)
  let ?c1 = "upsert_address_balance_cache c address (decimal (unat total)) (as_i64 count) now"
  have one: "wf_db ?c1" "evidence_le c ?c1"
    using op_upsert_balance.keeps_wf [OF Cons.prems, of "(address, decimal (unat total), as_i64 count, now)"]
      op_upsert_balance.keeps_evidence [OF Cons.prems, of "(address, decimal (unat total), as_i64 count, now)"] by simp_all
  from Cons.IH [OF one(1)] one(2) show ?case by (auto simp: cache_balances_def e intro: evidence_trans)
qed (simp add: cache_balances_def)

lemma zero_balance_keep:
  "wf_db c \<Longrightarrow> wf_db (fst (zero_balance_cache_except c keep now)) \<and> evidence_le c (fst (zero_balance_cache_except c keep now))"
proof -
  have "wf_db c \<Longrightarrow> wf_db (foldl (\<lambda>c a. upsert_address_balance_cache c a ''0'' 0 now) c as)
      \<and> evidence_le c (foldl (\<lambda>c a. upsert_address_balance_cache c a ''0'' 0 now) c as)" for as
  proof (induction as arbitrary: c)
    case (Cons a as)
    have one: "wf_db (upsert_address_balance_cache c a ''0'' 0 now)" "evidence_le c (upsert_address_balance_cache c a ''0'' 0 now)"
      using op_upsert_balance.keeps_wf [OF Cons.prems, of "(a, ''0'', 0, now)"]
        op_upsert_balance.keeps_evidence [OF Cons.prems, of "(a, ''0'', 0, now)"] by simp_all
    from Cons.IH [OF one(1)] one(2) show ?case by (auto intro: evidence_trans)
  qed simp
  then show "wf_db c \<Longrightarrow> ?thesis" by (simp add: zero_balance_cache_except_def Let_def)
qed

lemma sweep_balances_keep:
  assumes "wf_db c" shows "wf_db (fst (sweep_balances c now)) \<and> evidence_le c (fst (sweep_balances c now))"
proof -
  let ?c1 = "fst (clear_spent_in_gap_with_recorded_spend c)"
  have one: "wf_db ?c1" "evidence_le c ?c1"
    using op_clear_spent_in_gap.keeps_wf [OF assms] op_clear_spent_in_gap.keeps_evidence [OF assms] by simp_all
  let ?c2 = "cache_balances (live_balances ?c1) now ?c1"
  have two: "wf_db ?c2" "evidence_le c ?c2"
    using cache_balances_keep [OF one(1)] evidence_trans [OF one(2)] by simp_all
  have "wf_db (?c2\<lparr>indexer_state := s\<rparr>) \<and> evidence_le c (?c2\<lparr>indexer_state := s\<rparr>)" for s
    using two by (simp add: wf_db_def evidence_le_def)
  then show ?thesis by (simp add: sweep_balances_def Let_def)
qed

text \<open>
  The sweep never damages the archive: whatever the node answers, and whenever it stops answering,
  it keeps the database invariant and all evidence, as long as the other threads do.
\<close>
theorem sweep_keeps_the_archive:
  assumes "wf_db c" "\<And>s c. wf_db c \<Longrightarrow> wf_db (sw_meanwhile w s c) \<and> evidence_le c (sw_meanwhile w s c)"
  shows "wf_db (fst (scan_live_state w c)) \<and> evidence_le c (fst (scan_live_state w c))"
proof -
  have swept: "wf_db c' \<and> evidence_le c c'" if "sweep_segments w sz segs c = (c', out)" for sz segs c' out
    by (rule sweep_segments_keep [OF assms(2) assms(1) that])
  have ended: "wf_db c' \<and> evidence_le c c'" if "sweep_balances c1 now = (c', entries)" "wf_db c1" "evidence_le c c1"
    for c1 now c' entries
    using sweep_balances_keep [OF that(2), of now] that by (auto intro: evidence_trans)
  have zeroed: "evidence_le c (fst (zero_balance_cache_except c1 keep now))" if "wf_db c1" "evidence_le c c1" for c1 keep now
    using zero_balance_keep [OF that(1), of keep now] that(2) by (auto intro: evidence_trans)
  show ?thesis
    unfolding scan_live_state_def
    by (auto simp: assms(1) zero_balance_keep dest!: swept ended intro: zeroed split: option.splits sum.splits prod.splits)
qed

section \<open>The cached balances\<close>

text \<open>An entry of the picture is in the cache.\<close>

definition balance_cached :: "db \<Rightarrow> string \<times> u128 \<times> u64 \<Rightarrow> bool" where
  "balance_cached c entry =
     (\<exists>r \<in> set (balances c). a_address r = fst entry \<and> a_balance r = decimal (unat (fst (snd entry)))
        \<and> a_utxo_count r = as_i64 (snd (snd entry)))"

lemma upserted_rows:
  "set (balances (upsert_address_balance_cache c a b n now))
    = insert \<lparr>a_address = a, a_balance = b, a_utxo_count = n, a_fetched_at = now\<rparr> {r \<in> set (balances c). a_address r \<noteq> a}"
  by (auto simp: upsert_address_balance_cache_def Let_def in_update_where image_iff split: if_splits)

lemma cached_rows:
  assumes "distinct (map fst entries)"
  shows "set (balances (cache_balances entries now c))
    = (\<lambda>(a, amount, n). \<lparr>a_address = a, a_balance = decimal (unat amount), a_utxo_count = as_i64 n, a_fetched_at = now\<rparr>) ` set entries
      \<union> {r \<in> set (balances c). a_address r \<notin> fst ` set entries}"
  using assms
proof (induction entries arbitrary: c)
  case (Cons e entries)
  obtain a amount n where e: "e = (a, amount, n)" by (cases e)
  have "a \<noteq> fst x" if "x \<in> set entries" for x using Cons.prems that by (auto simp: e)
  with Cons show ?case by (auto simp: cache_balances_def e upserted_rows)
qed (simp add: cache_balances_def)

lemma zeroed_rows:
  "set (balances (foldl (\<lambda>c a. upsert_address_balance_cache c a ''0'' 0 now) c as))
    = (\<lambda>a. \<lparr>a_address = a, a_balance = ''0'', a_utxo_count = 0, a_fetched_at = now\<rparr>) ` set as
      \<union> {r \<in> set (balances c). a_address r \<notin> set as}"
  by (induction as arbitrary: c) (auto simp: upserted_rows)

lemma live_balances_addresses: "distinct (map fst (live_balances c))"
  by (simp add: live_balances_def o_def)

lemma upsert_tables: "\<exists>rows. upsert_address_balance_cache c a b n now = c\<lparr>balances := rows\<rparr>"
  by (auto simp: upsert_address_balance_cache_def Let_def)

lemma cache_balances_tables: "\<exists>rows. cache_balances entries now c = c\<lparr>balances := rows\<rparr>"
proof (induction entries arbitrary: c)
  case (Cons e entries)
  obtain r1 where "upsert_address_balance_cache c (fst e) (decimal (unat (fst (snd e)))) (as_i64 (snd (snd e))) now = c\<lparr>balances := r1\<rparr>"
    using upsert_tables by blast
  with Cons [of "c\<lparr>balances := r1\<rparr>"] show ?case by (simp add: cache_balances_def case_prod_beta)
next
  case Nil
  show ?case by (rule exI [of _ "balances c"]) (simp add: cache_balances_def)
qed

lemma zeroed_tables: "\<exists>rows. foldl (\<lambda>c a. upsert_address_balance_cache c a ''0'' 0 now) c as = c\<lparr>balances := rows\<rparr>"
proof (induction as arbitrary: c)
  case (Cons a as)
  obtain r1 where "upsert_address_balance_cache c a ''0'' 0 now = c\<lparr>balances := r1\<rparr>" using upsert_tables by blast
  with Cons [of "c\<lparr>balances := r1\<rparr>"] show ?case by simp
next
  case Nil
  show ?case by (rule exI [of _ "balances c"]) simp
qed

lemma live_balances_beside_cache:
  "live_balances (c\<lparr>balances := rows\<rparr>) = live_balances c" "live_balances (c\<lparr>indexer_state := st\<rparr>) = live_balances c"
proof -
  have a: "same_history c (c\<lparr>balances := rows\<rparr>)" and b: "same_history c (c\<lparr>indexer_state := st\<rparr>)" by (simp_all add: same_history_def)
  show "live_balances (c\<lparr>balances := rows\<rparr>) = live_balances c" "live_balances (c\<lparr>indexer_state := st\<rparr>) = live_balances c"
    unfolding live_balances_def live_amounts_def same_history_facts [OF a] same_history_facts [OF b] by simp_all
qed

text \<open>
  The cache follows the picture: after the end of a run whose check finds no difference, every
  address of the picture has its balance and UTXO count in the cache, and no other address has a UTXO
  there.
\<close>
theorem sweep_caches_the_picture:
  assumes "sweep_balances c now = (c1, entries)" "c2 = fst (zero_balance_cache_except c1 (fst ` set entries) now)"
  shows "live_balances c2 = entries \<and> list_all (balance_cached c2) entries
    \<and> a_address ` {r \<in> set (balances c2). 0 < a_utxo_count r} \<subseteq> fst ` set entries"
proof -
  define b where "b = fst (clear_spent_in_gap_with_recorded_spend c)"
  obtain r1 where r1: "cache_balances (live_balances b) now b = b\<lparr>balances := r1\<rparr>" using cache_balances_tables by blast
  have e: "entries = live_balances b" using assms(1) by (simp add: sweep_balances_def b_def Let_def)
  have c1: "live_balances c1 = live_balances b" "balances c1 = r1"
    using assms(1) r1 by (auto simp: sweep_balances_def b_def [symmetric] Let_def live_balances_beside_cache)
  let ?stale = "filter (\<lambda>a. a \<notin> fst ` set entries) (map a_address (filter (\<lambda>r. 0 < a_utxo_count r) (balances c1)))"
  have c2: "c2 = foldl (\<lambda>c a. upsert_address_balance_cache c a ''0'' 0 now) c1 ?stale"
    by (simp add: assms(2) zero_balance_cache_except_def Let_def)
  have "live_balances c2 = live_balances c1"
    using zeroed_tables [of now c1 ?stale] by (auto simp: c2 live_balances_beside_cache)
  moreover have rows: "set (balances c1) = (\<lambda>(a, amount, n). \<lparr>a_address = a, a_balance = decimal (unat amount),
        a_utxo_count = as_i64 n, a_fetched_at = now\<rparr>) ` set entries \<union> {r \<in> set (balances b). a_address r \<notin> fst ` set entries}"
    using cached_rows [OF live_balances_addresses, of b now b] by (simp add: c1 r1 e)
  have "list_all (balance_cached c2) entries"
    unfolding list_all_iff balance_cached_def c2 zeroed_rows rows by (force simp: image_iff)
  moreover have "a_address ` {r \<in> set (balances c2). 0 < a_utxo_count r} \<subseteq> fst ` set entries"
    unfolding c2 zeroed_rows by (auto simp: image_iff)
  ultimately show ?thesis by (simp add: c1 e)
qed

section \<open>A concrete sweep\<close>

text \<open>
  Segments of four slots: the coinbase output recorded in slot 3 is gone, and slot 5 holds a coin of
  which there is no record.
\<close>

definition sample_slots :: "u64 \<Rightarrow> slot_info" where
  "sample_slots i = \<lparr>sl_slot_index = i, sl_value = 7, sl_creation_id = 77, sl_owner = ''w'', sl_empty = (i \<noteq> 5)\<rparr>"

definition sample_map :: state_map_info where
  "sample_map = \<lparr>sm_log_slots = 3, bucket_capacity = 4, live_counts = [0, 1]\<rparr>"

definition sample_attempt :: map_attempt where
  "sample_attempt = \<lparr>ma_tip = Inr 5, ma_waits = [(5, False)], ma_map = Inr sample_map, ma_tip_after = Inr 5\<rparr>"

definition sample_world :: sweep_world where
  "sample_world = \<lparr>sw_maps = [sample_attempt], sw_start = (\<lambda>s. Inr 5), sw_pause = (\<lambda>i. Inr 5), sw_slot = (\<lambda>i k. Inr (sample_slots i)),
     sw_meanwhile = (\<lambda>s c. c), sw_clock = (\<lambda>s. ''t8''), sw_end = ''t9'', sw_check = [sample_attempt]\<rparr>"

lemma sample_quiet: "quiet sample_world sample_slots 5"
  by (auto simp: quiet_def sample_world_def intro: exI [of _ 0])

lemma sample_fits: "history_fits sample_db 5 sample_slots"
proof -
  have "list_all (\<lambda>b. b_height b \<le> as_i64 5) (blocks sample_db)"
    "distinct (map o_creation_id (filter (\<lambda>out. on_record sample_db (as_i64 5) (o_tx_id out)) (outputs sample_db)))"
    "inputs sample_db = []" by code_simp+
  then show ?thesis
    by (auto simp: history_fits_def coin_at_def sample_slots_def inj_on_def spent_by_recorded_input_def list_all_iff)
qed

lemma sample_home: "slots_at_home 4 sample_db" by code_simp

lemma sample_own: "live_count_per_segment sample_db 5 4 = Inr [(0, 1)]" by code_simp

lemma sample_differing: "differing_segments sample_db sample_map 5 = Inr [(0, 0, 1), (1, 1, 0)]" by code_simp

lemma sample_counts: "s < 2 \<Longrightarrow> node_count sample_map s = of_nat (length (segment_live sample_slots 4 s))"
proof -
  assume "s < 2"
  then have "unat s = 0 \<or> unat s = 1" by (auto simp: word_less_nat_alt)
  then have "s = 0 \<or> s = 1" by (simp add: word_unat_eq_iff)
  moreover have "node_count sample_map 0 = of_nat (length (segment_live sample_slots 4 0))"
    "node_count sample_map 1 = of_nat (length (segment_live sample_slots 4 1))" by code_simp+
  ultimately show ?thesis by auto
qed

lemma sweep_matches_the_node_witness:
  "\<exists>c'. sweep_segments sample_world 4 [0, 1] sample_db = (c', None) \<and> differing_segments c' sample_map 5 = Inr []
    \<and> coins_match c' 5 sample_slots 4 0 \<and> coins_match c' 5 sample_slots 4 1"
proof -
  have sz: "bucket_capacity sample_map = 4" "segment_bound sample_map [(0, 1)] = 2"
    by (simp_all add: sample_map_def segment_bound_def)
  show ?thesis
    using sweep_matches_the_node [where m = sample_map, unfolded sz(1), OF wf_sample sample_fits sample_home sample_quiet _ _
        sample_own _ _ sample_differing] sample_counts by (auto simp: sz(2))
qed

lemma sweep_keeps_the_archive_witness:
  "wf_db (fst (scan_live_state sample_world sample_db)) \<and> evidence_le sample_db (fst (scan_live_state sample_world sample_db))"
  by (rule sweep_keeps_the_archive [OF wf_sample]) (simp add: sample_world_def)

lemma sweep_caches_the_picture_witness:
  "live_balances (fst (zero_balance_cache_except (fst (sweep_balances sample_db ''t9'')) (fst ` set (snd (sweep_balances sample_db ''t9''))) ''t9''))
    = snd (sweep_balances sample_db ''t9'')"
  by (rule conjunct1 [OF sweep_caches_the_picture [OF surjective_pairing refl]])

section \<open>One height, one call per interval\<close>

lemma wait_reaches: "wait_for_indexer height obs = Some (Inr u) \<Longrightarrow> \<exists>p late. (p, late) \<in> set obs \<and> height \<le> p"
  by (induction height obs rule: wait_for_indexer.induct) (auto simp: not_less split: if_splits)

lemma consistent_state_map_is_of_one_height:
  "consistent_state_map as = Some (Inr (height, m)) \<Longrightarrow>
     \<exists>a \<in> set as. ma_tip a = Inr height \<and> ma_map a = Inr m \<and> ma_tip_after a = Inr height
       \<and> (\<exists>p late. (p, late) \<in> set (ma_waits a) \<and> height \<le> p)"
proof -
  have "state_map_within n as = Some (Inr (height, m)) \<Longrightarrow>
     \<exists>a \<in> set as. ma_tip a = Inr height \<and> ma_map a = Inr m \<and> ma_tip_after a = Inr height
       \<and> (\<exists>p late. (p, late) \<in> set (ma_waits a) \<and> height \<le> p)" for n
  proof (induction n as rule: state_map_within.induct)
    case (3 n a as)
    show ?case
    proof (cases "ma_tip a = Inr height \<and> ma_map a = Inr m \<and> ma_tip_after a = Inr height
        \<and> wait_for_indexer height (ma_waits a) = Some (Inr ())")
      case True
      then show ?thesis using wait_reaches by auto
    next
      case False
      with 3 show ?thesis by (auto split: sum.splits option.splits if_splits)
    qed
  qed (simp_all add: bail_def)
  then show "consistent_state_map as = Some (Inr (height, m)) \<Longrightarrow> ?thesis" by (simp add: consistent_state_map_def)
qed

text \<open>
  However fast the caller is, two throttled calls never go out less than one interval apart.
\<close>
theorem throttled_calls_are_spaced:
  "successively (\<lambda>a b. a + tr_interval tr \<le> b) (throttled tr now busy)"
proof (induction busy arbitrary: tr now)
  case (Cons b rest)
  let ?at = "max (tr_next tr) now"
  let ?tr = "tr\<lparr>tr_next := ?at + tr_interval tr\<rparr>"
  have "throttled ?tr (?at + b) rest = [] \<or> ?at + tr_interval tr \<le> hd (throttled ?tr (?at + b) rest)"
    by (cases rest) (simp_all add: throttle_wait_def)
  with Cons [of ?tr "?at + b"] show ?case by (auto simp: throttle_wait_def successively_Cons)
qed simp

end
