(* ===== verification/Import.thy ===== *)
theory Import
  imports Live_State
begin

text \<open>
  Filling gaps from another permanode (\<^verbatim>\<open>permanode/src/import.rs\<close>): the check of an offered body,
  reading a recorded body back out of a database, and the loops that offer every open gap and every
  block without raw bytes to a source (a database copy or the peers). The Merkle root over transaction
  ids and hex decoding belong to other crates: \<open>tree_lib\<close> holds them.
\<close>

section \<open>Checking an offered body\<close>

record tree_lib =
  root_from_hashes :: "bytes list \<Rightarrow> bytes"
  hex_decode :: "string \<Rightarrow> bytes option"

definition amounts_out :: "transaction_info \<Rightarrow> u64" where
  "amounts_out t = sum_list (map out_amount (tx_outputs t))"

definition amounts_in :: "transaction_info \<Rightarrow> u64" where
  "amounts_in t = sum_list (map in_amount (tx_inputs t))"

definition check_transaction :: "tree_lib \<Rightarrow> nat \<Rightarrow> transaction_info \<Rightarrow> bytes result" where
  "check_transaction tree i t =
     (if unat (tx_position t) \<noteq> i then bail ''transaction at another position''
      else case hex_decode tree (tx_txid t) of
        None \<Rightarrow> bail ''txid is not 32 bytes of hex''
      | Some txid \<Rightarrow>
          if length txid \<noteq> 32 then bail ''txid is not 32 bytes of hex''
          else if length (tx_page_hashes t) \<noteq> unat (tx_page_count t) then bail ''page hashes''
          else if unat (tx_live_inputs t) \<noteq> length (tx_inputs t) \<or> unat (tx_live_outputs t) \<noteq> length (tx_outputs t)
          then bail ''live input/output counts do not match its lists''
          else if u64_to_string (amounts_out t) \<noteq> tx_output_sum t then bail ''outputs sum''
          else if u64_to_string (amounts_in t) \<noteq> tx_input_sum t then bail ''inputs sum''
          else if \<not> tx_coinbase t \<and> \<not> tx_development_payout t \<and> amounts_in t \<noteq> amounts_out t + tx_fee t
          then bail ''inputs != outputs + fee''
          else Inr txid)"

fun check_transactions :: "tree_lib \<Rightarrow> nat \<Rightarrow> transaction_info list \<Rightarrow> bytes list result" where
  "check_transactions tree i [] = Inr []"
| "check_transactions tree i (t # ts) =
     and_then (check_transaction tree i t) (\<lambda>txid.
     and_then (check_transactions tree (Suc i) ts) (\<lambda>txids. Inr (txid # txids)))"

definition totals_match :: "retained_block_info \<Rightarrow> bool" where
  "totals_match body =
     (let txs = rb_transactions body
      in unat (rb_logical_transactions body) = length txs
         \<and> rb_live_inputs body = sum_list (map tx_live_inputs txs)
         \<and> rb_live_outputs body = sum_list (map tx_live_outputs txs)
         \<and> rb_user_pages body
           = sum_list (map tx_page_count (filter (\<lambda>t. \<not> tx_coinbase t \<and> \<not> tx_development_payout t) txs)))"

definition check_body :: "tree_lib \<Rightarrow> chain_lib \<Rightarrow> retained_block_info \<Rightarrow> string \<Rightarrow> unit result" where
  "check_body tree lib body tx_root =
     (let txs = rb_transactions body
      in if txs = [] then bail ''no transactions''
         else if length txs > 256 then bail ''a block holds at most 256 transactions''
         else if \<not> tx_coinbase (hd txs) then bail ''first transaction is not the coinbase''
         else and_then (check_transactions tree 0 txs) (\<lambda>txids.
           if hex_encode lib (root_from_hashes tree txids) \<noteq> tx_root then bail ''the transactions rebuild another tx_root''
           else if u64_to_string (sum_list (map tx_fee (filter (\<lambda>t. \<not> tx_coinbase t) txs))) \<noteq> rb_total_fees body
           then bail ''fees sum''
           else if amounts_out (hd txs) \<noteq> rb_reward body then bail ''coinbase outputs sum''
           else if \<not> totals_match body then bail ''block totals do not match its transactions''
           else Inr ()))"

section \<open>Reading a recorded body\<close>

fun read_inputs :: "input_row list \<Rightarrow> input_info list result" where
  "read_inputs [] = Inr []"
| "read_inputs (r # rs) =
     (case parse_u64 (i_creation_id r) of
        None \<Rightarrow> bail ''Query is not read-only''
      | Some cid \<Rightarrow> and_then (read_inputs rs) (\<lambda>ins.
          Inr (\<lparr>in_page = word_of_int (i_page r), in_lane = word_of_int (i_lane r), in_slot_index = as_u64 (i_slot_index r),
                in_amount = as_u64 (i_amount r), in_creation_id = cid\<rparr> # ins)))"

fun read_outputs :: "output_row list \<Rightarrow> output_info list result" where
  "read_outputs [] = Inr []"
| "read_outputs (r # rs) =
     (case o_creation_id r of
        None \<Rightarrow> bail ''Invalid column type Null''
      | Some s \<Rightarrow>
         (case parse_u64 s of
            None \<Rightarrow> bail ''Query is not read-only''
          | Some cid \<Rightarrow> and_then (read_outputs rs) (\<lambda>outs.
              Inr (\<lparr>out_page = word_of_int (o_page r), out_lane = word_of_int (o_lane r), out_slot_index = as_u64 (o_slot_index r),
                    out_amount = as_u64 (o_amount r), out_owner = o_owner r, out_creation_id = cid\<rparr> # outs))))"

definition read_transaction :: "db \<Rightarrow> tx_row \<Rightarrow> transaction_info result" where
  "read_transaction source t =
     (let hashes = map p_page_hash (sort_key p_idx (filter (\<lambda>p. p_tx_id p = t_id t) (page_hashes source)))
      in and_then (read_inputs (sort_key i_idx (filter (\<lambda>i. i_tx_id i = t_id t) (inputs source)))) (\<lambda>ins.
         and_then (read_outputs (sort_key o_idx (filter (\<lambda>out. o_tx_id out = t_id t) (outputs source)))) (\<lambda>outs.
           Inr \<lparr>tx_position = word_of_int (t_position t), tx_txid = t_txid t, tx_page_count = word_of_int (t_page_count t),
                tx_live_inputs = of_nat (length ins), tx_live_outputs = of_nat (length outs), tx_fee = as_u64 (t_fee t),
                tx_coinbase = t_coinbase t, tx_development_payout = t_development_payout t,
                tx_epoch_anchor = t_epoch_anchor t, tx_input_owner = t_input_owner t, tx_input_sum = t_input_sum t,
                tx_output_sum = t_output_sum t, tx_page_hashes = hashes, tx_inputs = ins, tx_outputs = outs\<rparr>)))"

fun read_transactions :: "db \<Rightarrow> tx_row list \<Rightarrow> transaction_info list result" where
  "read_transactions source [] = Inr []"
| "read_transactions source (t # ts) =
     and_then (read_transaction source t) (\<lambda>tx. and_then (read_transactions source ts) (\<lambda>txs. Inr (tx # txs)))"

definition body_of :: "string \<Rightarrow> int \<Rightarrow> string \<Rightarrow> transaction_info list \<Rightarrow> retained_block_info" where
  "body_of proof_class reward total_fees txs =
     \<lparr>rb_proof_class = proof_class, rb_logical_transactions = of_nat (length txs),
      rb_user_pages = sum_list (map tx_page_count (filter (\<lambda>t. \<not> tx_coinbase t \<and> \<not> tx_development_payout t) txs)),
      rb_live_inputs = sum_list (map tx_live_inputs txs), rb_live_outputs = sum_list (map tx_live_outputs txs),
      rb_reward = as_u64 reward, rb_total_fees = total_fees, rb_block_bytes = 0, rb_transactions = txs\<rparr>"

definition body_from_db :: "db \<Rightarrow> u64 \<Rightarrow> string \<Rightarrow> retained_block_info option result" where
  "body_from_db source height hash =
     (case find (\<lambda>b. b_height b = as_i64 height \<and> b_hash b = hash \<and> b_body_captured b) (blocks source) of
        None \<Rightarrow> Inr None
      | Some b \<Rightarrow>
         (case (b_proof_class b, b_reward b, b_total_fees b) of
            (Some proof_class, Some reward, Some total_fees) \<Rightarrow>
              and_then (read_transactions source (sort_key t_position (filter (\<lambda>t. t_block_id t = b_id b) (transactions source))))
                (\<lambda>txs. Inr (Some (body_of proof_class reward total_fees txs)))
          | _ \<Rightarrow> bail ''block row is marked captured but has no body fields''))"

section \<open>Filling gaps\<close>

datatype offer = Raw bytes | Body retained_block_info

datatype fill_outcome = Skipped | Imported | Not_In_Source | Turned_Down

text \<open>One open gap, given what the source offers for it.\<close>

definition take_body :: "chain_lib \<Rightarrow> db \<Rightarrow> u64 \<Rightarrow> string \<Rightarrow> int \<Rightarrow> retained_block_info \<Rightarrow> bytes option
    \<Rightarrow> string \<Rightarrow> string \<Rightarrow> bool \<Rightarrow> string \<Rightarrow> db result" where
  "take_body lib c height hash bid body raw body_source resolution keep now =
     (let c = mark_body_recovered (insert_transactions c bid body) bid body_source
      in and_then
           (case raw of
              None \<Rightarrow> Inr c
            | Some bytes \<Rightarrow>
                let c = record_contract_flags lib c height hash (Some bytes)
                in if keep then and_then (store_raw lib c height hash bytes body_source now) (\<lambda>(c, _). Inr c) else Inr c)
           (\<lambda>c. Inr (resolve_gap c height now resolution)))"

definition offered_body :: "chain_lib \<Rightarrow> u64 \<Rightarrow> string \<Rightarrow> offer \<Rightarrow> (retained_block_info \<times> bytes option) result" where
  "offered_body lib height hash off =
     (case off of
        Body body \<Rightarrow> Inr (body, None)
      | Raw bytes \<Rightarrow> and_then (decode_retained_block lib bytes height hash) (\<lambda>body. Inr (body, Some bytes)))"

definition fill_gap :: "tree_lib \<Rightarrow> chain_lib \<Rightarrow> string \<Rightarrow> string \<Rightarrow> bool \<Rightarrow> ('s \<Rightarrow> u64 \<Rightarrow> string \<Rightarrow> 's \<times> offer option result)
    \<Rightarrow> string \<Rightarrow> u64 \<Rightarrow> db \<Rightarrow> 's \<Rightarrow> 's \<times> (db \<times> fill_outcome) result" where
  "fill_gap tree lib body_source resolution keep find_offer now height c s =
     (case canonical_hash_at c height of
        None \<Rightarrow> (s, Inr (c, Skipped))
      | Some (_, hash) \<Rightarrow>
         (case uncaptured_block_id c height hash of
            None \<Rightarrow> (s, Inr (c, Skipped))
          | Some bid \<Rightarrow>
             (case block_with_id c bid of
                None \<Rightarrow> (s, bail ''Query returned no rows'')
              | Some b \<Rightarrow>
                 (case find_offer s height hash of
                    (s, Inl _) \<Rightarrow> (s, Inr (c, Turned_Down))
                  | (s, Inr None) \<Rightarrow> (s, Inr (c, Not_In_Source))
                  | (s, Inr (Some off)) \<Rightarrow>
                      (s, case offered_body lib height hash off of
                            Inl _ \<Rightarrow> Inr (c, Turned_Down)
                          | Inr (body, raw) \<Rightarrow>
                             (case check_body tree lib body (b_tx_root b) of
                                Inl _ \<Rightarrow> Inr (c, Turned_Down)
                              | Inr _ \<Rightarrow>
                                  and_then (take_body lib c height hash bid body raw body_source resolution keep now)
                                    (\<lambda>c. Inr (c, Imported))))))))"

record import_report =
  ir_gaps :: nat
  ir_imported :: nat
  ir_not_in_source :: nat
  ir_rejected :: nat
  ir_flags_cleared :: nat

definition count_outcome :: "fill_outcome \<Rightarrow> import_report \<Rightarrow> import_report" where
  "count_outcome out r =
     (case out of
        Skipped \<Rightarrow> r
      | Imported \<Rightarrow> r\<lparr>ir_imported := ir_imported r + 1\<rparr>
      | Not_In_Source \<Rightarrow> r\<lparr>ir_not_in_source := ir_not_in_source r + 1\<rparr>
      | Turned_Down \<Rightarrow> r\<lparr>ir_rejected := ir_rejected r + 1\<rparr>)"

fun fill_gap_loop :: "tree_lib \<Rightarrow> chain_lib \<Rightarrow> string \<Rightarrow> string \<Rightarrow> bool \<Rightarrow> ('s \<Rightarrow> u64 \<Rightarrow> string \<Rightarrow> 's \<times> offer option result)
    \<Rightarrow> (u64 \<Rightarrow> string) \<Rightarrow> u64 list \<Rightarrow> db \<Rightarrow> 's \<Rightarrow> import_report \<Rightarrow> db \<times> 's \<times> import_report result" where
  "fill_gap_loop tree lib body_source resolution keep find_offer clk [] c s r = (c, s, Inr r)"
| "fill_gap_loop tree lib body_source resolution keep find_offer clk (height # rest) c s r =
     (case fill_gap tree lib body_source resolution keep find_offer (clk height) height c s of
        (s, Inl e) \<Rightarrow> (c, s, Inl e)
      | (s, Inr (c, out)) \<Rightarrow>
          fill_gap_loop tree lib body_source resolution keep find_offer clk rest c s (count_outcome out r))"

definition fill_gaps :: "tree_lib \<Rightarrow> chain_lib \<Rightarrow> nat \<Rightarrow> string \<Rightarrow> string \<Rightarrow> bool
    \<Rightarrow> ('s \<Rightarrow> u64 \<Rightarrow> string \<Rightarrow> 's \<times> offer option result) \<Rightarrow> (u64 \<Rightarrow> string) \<Rightarrow> string \<Rightarrow> db \<Rightarrow> 's
    \<Rightarrow> db \<times> 's \<times> import_report result" where
  "fill_gaps tree lib limit body_source resolution keep find_offer clk now c s =
     (let open_gaps = open_gap_heights c 0;
          start = \<lparr>ir_gaps = length open_gaps, ir_imported = 0, ir_not_in_source = 0, ir_rejected = 0, ir_flags_cleared = 0\<rparr>
      in case fill_gap_loop tree lib body_source resolution keep find_offer clk (take limit open_gaps) c s start of
           (c, s, Inl e) \<Rightarrow> (c, s, Inl e)
         | (c, s, Inr r) \<Rightarrow>
             (case clear_spent_in_gap_with_recorded_spend c of (c, n) \<Rightarrow>
                (fst (resolve_gaps_with_bodies c now), s, Inr (r\<lparr>ir_flags_cleared := n\<rparr>))))"

section \<open>Offers from a database copy\<close>

text \<open>\<open>import_bodies\<close>: raw bytes where the copy added them, else the recorded body; an error of the copy rejects the offer.\<close>

definition offer_from_db :: "chain_lib \<Rightarrow> bool \<Rightarrow> db \<Rightarrow> u64 \<Rightarrow> string \<Rightarrow> offer option result" where
  "offer_from_db lib source_has_raw source height hash =
     and_then (if source_has_raw then load_raw lib source height hash else Inr None) (\<lambda>added. case added of
       Some bytes \<Rightarrow> Inr (Some (Raw bytes))
     | None \<Rightarrow> and_then (body_from_db source height hash) (\<lambda>body. Inr (map_option Body body)))"

definition import_bodies :: "tree_lib \<Rightarrow> chain_lib \<Rightarrow> string \<Rightarrow> bool \<Rightarrow> bool \<Rightarrow> db \<Rightarrow> (u64 \<Rightarrow> string) \<Rightarrow> string \<Rightarrow> db
    \<Rightarrow> db \<times> import_report result" where
  "import_bodies tree lib source_name source_has_raw keep source clk now c =
     (case fill_gaps tree lib (length (open_gap_heights c 0)) ''import'' (''recovered via import from '' @ source_name) keep
             (\<lambda>s height hash. (s, offer_from_db lib source_has_raw source height hash)) clk now c () of
        (c, _, r) \<Rightarrow> (c, r))"

section \<open>Filling raw bytes\<close>

record raw_report =
  rr_missing :: nat
  rr_kept :: nat
  rr_not_in_source :: nat
  rr_rejected :: nat

fun fill_raw_loop :: "chain_lib \<Rightarrow> string \<Rightarrow> ('s \<Rightarrow> u64 \<Rightarrow> string \<Rightarrow> 's \<times> bytes option result) \<Rightarrow> (u64 \<Rightarrow> string)
    \<Rightarrow> (u64 \<times> string) list \<Rightarrow> db \<Rightarrow> 's \<Rightarrow> raw_report \<Rightarrow> db \<times> 's \<times> raw_report result" where
  "fill_raw_loop lib source find_raw clk [] c s r = (c, s, Inr r)"
| "fill_raw_loop lib source find_raw clk ((height, hash) # rest) c s r =
     (case find_raw s height hash of
        (s, Inr None) \<Rightarrow> fill_raw_loop lib source find_raw clk rest c s (r\<lparr>rr_not_in_source := rr_not_in_source r + 1\<rparr>)
      | (s, Inl _) \<Rightarrow> fill_raw_loop lib source find_raw clk rest c s (r\<lparr>rr_rejected := rr_rejected r + 1\<rparr>)
      | (s, Inr (Some bytes)) \<Rightarrow>
          (case verify_raw lib bytes height hash of
             Inl _ \<Rightarrow> fill_raw_loop lib source find_raw clk rest c s (r\<lparr>rr_rejected := rr_rejected r + 1\<rparr>)
           | Inr _ \<Rightarrow>
               (case store_raw lib c height hash bytes source (clk height) of
                  Inl e \<Rightarrow> (c, s, Inl e)
                | Inr (c, added) \<Rightarrow>
                    fill_raw_loop lib source find_raw clk rest c s (if added then r\<lparr>rr_kept := rr_kept r + 1\<rparr> else r))))"

definition fill_raw :: "chain_lib \<Rightarrow> string \<Rightarrow> ('s \<Rightarrow> u64 \<Rightarrow> string \<Rightarrow> 's \<times> bytes option result) \<Rightarrow> (u64 \<Rightarrow> string)
    \<Rightarrow> (u64 \<times> string) list \<Rightarrow> db \<Rightarrow> 's \<Rightarrow> db \<times> 's \<times> raw_report result" where
  "fill_raw lib source find_raw clk candidates c s =
     fill_raw_loop lib source find_raw clk candidates c s
       \<lparr>rr_missing = length candidates, rr_kept = 0, rr_not_in_source = 0, rr_rejected = 0\<rparr>"

definition import_raw :: "chain_lib \<Rightarrow> bool \<Rightarrow> db \<Rightarrow> (u64 \<Rightarrow> string) \<Rightarrow> db \<Rightarrow> db \<times> raw_report result" where
  "import_raw lib source_has_raw source clk c =
     (if \<not> source_has_raw then (c, Inr \<lparr>rr_missing = 0, rr_kept = 0, rr_not_in_source = 0, rr_rejected = 0\<rparr>)
      else case fill_raw lib ''import'' (\<lambda>s height hash. (s, load_raw lib source height hash)) clk
                  (blocks_missing_raw c 0 (- 1) (- 1)) c () of
             (c, _, r) \<Rightarrow> (c, r))"

section \<open>Peers\<close>

text \<open>
  An HTTP answer is no connection, or a status code with a body that could be read (\<open>Some\<close>) or not.
  A peer is what it answers under each path.
\<close>

datatype 'a http = No_Connection | Response nat "'a option"

record peer =
  pr_status_raw_from :: "u64 option http"
  pr_status_seen_from :: "u64 option http"
  pr_body :: "u64 \<Rightarrow> string \<Rightarrow> retained_block_info http"
  pr_raw :: "u64 \<Rightarrow> string \<Rightarrow> bytes http"
  pr_seen :: "u64 \<Rightarrow> u64 \<Rightarrow> (u64 \<times> string \<times> int) list http"
  pr_proof :: "u64 list \<Rightarrow> (u64 \<times> string \<times> string) list http"

datatype peer_error = Unreachable | Bad failure

definition fetched :: "string \<Rightarrow> 'a http \<Rightarrow> peer_error + 'a option" where
  "fetched what answer =
     (case answer of
        No_Connection \<Rightarrow> Inl Unreachable
      | Response status content \<Rightarrow>
          if status = 200 then (case content of Some x \<Rightarrow> Inr (Some x) | None \<Rightarrow> Inl (Bad (Failure (''unreadable '' @ what))))
          else if status = 404 then Inr None
          else Inl Unreachable)"

definition fetch_peer_raw :: "peer \<Rightarrow> u64 \<Rightarrow> string \<Rightarrow> peer_error + bytes option" where
  "fetch_peer_raw p height hash = fetched ''raw bytes'' (pr_raw p height hash)"

definition fetch_peer_body :: "peer \<Rightarrow> u64 \<Rightarrow> string \<Rightarrow> peer_error + retained_block_info option" where
  "fetch_peer_body p height hash = fetched ''body'' (pr_body p height hash)"

definition fetch_peer_offer :: "peer \<Rightarrow> u64 \<Rightarrow> string \<Rightarrow> peer_error + offer option" where
  "fetch_peer_offer p height hash =
     (case fetch_peer_raw p height hash of
        Inl e \<Rightarrow> Inl e
      | Inr (Some bytes) \<Rightarrow> Inr (Some (Raw bytes))
      | Inr None \<Rightarrow> (case fetch_peer_body p height hash of Inl e \<Rightarrow> Inl e | Inr body \<Rightarrow> Inr (map_option Body body)))"

text \<open>The peers in turn, without those that were unreachable; the first answer counts.\<close>

fun ask_peers :: "(peer \<Rightarrow> peer_error + 'a option) \<Rightarrow> (string \<times> peer) list \<Rightarrow> string list \<Rightarrow> string list \<times> 'a option result" where
  "ask_peers fetch [] unreachable = (unreachable, Inr None)"
| "ask_peers fetch ((url, p) # rest) unreachable =
     (if url \<in> set unreachable then ask_peers fetch rest unreachable
      else case fetch p of
        Inr (Some x) \<Rightarrow> (unreachable, Inr (Some x))
      | Inr None \<Rightarrow> ask_peers fetch rest unreachable
      | Inl Unreachable \<Rightarrow> ask_peers fetch rest (unreachable @ [url])
      | Inl (Bad e) \<Rightarrow> (unreachable, Inl e))"

definition fill_from_peers :: "tree_lib \<Rightarrow> chain_lib \<Rightarrow> (string \<times> peer) list \<Rightarrow> nat \<Rightarrow> bool \<Rightarrow> (u64 \<Rightarrow> string) \<Rightarrow> string \<Rightarrow> db
    \<Rightarrow> db \<times> string list \<times> import_report result" where
  "fill_from_peers tree lib peers limit keep clk now c =
     fill_gaps tree lib limit ''peer'' ''recovered from a peer permanode'' keep
       (\<lambda>unreachable height hash. ask_peers (\<lambda>p. fetch_peer_offer p height hash) peers unreachable) clk now c []"

text \<open>A status answer other than 200, or one that cannot be read, is an error of the call.\<close>

definition status_field :: "u64 option http \<Rightarrow> u64 option result" where
  "status_field answer =
     (case answer of
        Response status (Some field) \<Rightarrow> if status = 200 then Inr field else bail ''HTTP status''
      | _ \<Rightarrow> bail ''no status'')"

fun raw_from_peers :: "(string \<times> peer) list \<Rightarrow> u64 option \<Rightarrow> string list \<Rightarrow> u64 option \<times> string list" where
  "raw_from_peers [] lowest unreachable = (lowest, unreachable)"
| "raw_from_peers ((url, p) # rest) lowest unreachable =
     (case status_field (pr_status_raw_from p) of
        Inr (Some h) \<Rightarrow> raw_from_peers rest (Some (case lowest of None \<Rightarrow> h | Some f \<Rightarrow> min f h)) unreachable
      | Inr None \<Rightarrow> raw_from_peers rest lowest unreachable
      | Inl _ \<Rightarrow> raw_from_peers rest lowest (unreachable @ [url]))"

definition fill_raw_from_peers :: "chain_lib \<Rightarrow> (string \<times> peer) list \<Rightarrow> u64 \<Rightarrow> u64 \<Rightarrow> (u64 \<Rightarrow> string) \<Rightarrow> db
    \<Rightarrow> db \<times> string list \<times> raw_report result" where
  "fill_raw_from_peers lib peers below limit clk c =
     (case raw_from_peers peers None [] of (lowest, unreachable) \<Rightarrow>
        (case lowest of
           None \<Rightarrow> (c, unreachable, Inr \<lparr>rr_missing = 0, rr_kept = 0, rr_not_in_source = 0, rr_rejected = 0\<rparr>)
         | Some start \<Rightarrow>
             if \<not> start < below then (c, unreachable, Inr \<lparr>rr_missing = 0, rr_kept = 0, rr_not_in_source = 0, rr_rejected = 0\<rparr>)
             else fill_raw lib ''peer'' (\<lambda>u height hash. ask_peers (\<lambda>p. fetch_peer_raw p height hash) peers u) clk
                    (blocks_missing_raw c start (below - 1) limit) c unreachable))"

section \<open>Arrival times and proof classes\<close>

fun adopt_seen :: "(u64 \<times> string \<times> int) list \<Rightarrow> db \<Rightarrow> nat \<Rightarrow> db \<times> nat" where
  "adopt_seen [] c n = (c, n)"
| "adopt_seen ((height, hash, at_ms) # rows) c n =
     (case adopt_tip_seen c height hash at_ms of (c, adopted) \<Rightarrow> adopt_seen rows c (if adopted then n + 1 else n))"

fun fill_seen_from_peers :: "peer list \<Rightarrow> u64 \<Rightarrow> db \<Rightarrow> nat \<Rightarrow> db \<times> nat result" where
  "fill_seen_from_peers [] tip c n = (c, Inr n)"
| "fill_seen_from_peers (p # ps) tip c n =
     (case status_field (pr_status_seen_from p) of
        Inr (Some start) \<Rightarrow>
          (case blocks_missing_seen c start tip 2000 of
             [] \<Rightarrow> fill_seen_from_peers ps tip c n
           | missing \<Rightarrow>
               (case pr_seen p (fst (hd missing)) (fst (last missing)) of
                  No_Connection \<Rightarrow> fill_seen_from_peers ps tip c n
                | Response status rows \<Rightarrow>
                    if status \<noteq> 200 then fill_seen_from_peers ps tip c n
                    else case rows of
                      None \<Rightarrow> (c, bail ''unreadable rows'')
                    | Some rows \<Rightarrow> (case adopt_seen rows c n of (c, n) \<Rightarrow> fill_seen_from_peers ps tip c n)))
      | _ \<Rightarrow> fill_seen_from_peers ps tip c n)"

fun adopt_proofs :: "(u64 \<times> string \<times> string) list \<Rightarrow> db \<Rightarrow> nat \<Rightarrow> db \<times> nat" where
  "adopt_proofs [] c n = (c, n)"
| "adopt_proofs ((height, hash, cls) # rows) c n =
     (case adopt_proof_class c height hash cls of (c, adopted) \<Rightarrow> adopt_proofs rows c (if adopted then n + 1 else n))"

fun fill_proof_from_peers :: "peer list \<Rightarrow> u64 \<Rightarrow> db \<Rightarrow> nat \<Rightarrow> db \<times> nat result" where
  "fill_proof_from_peers [] start c n = (c, Inr n)"
| "fill_proof_from_peers (p # ps) start c n =
     (case blocks_missing_proof_class c start 200 of
        [] \<Rightarrow> (c, Inr n)
      | missing \<Rightarrow>
          (case pr_proof p missing of
             No_Connection \<Rightarrow> fill_proof_from_peers ps start c n
           | Response status rows \<Rightarrow>
               if status \<noteq> 200 then fill_proof_from_peers ps start c n
               else case rows of
                 None \<Rightarrow> (c, bail ''unreadable rows'')
               | Some rows \<Rightarrow> (case adopt_proofs rows c n of (c, n) \<Rightarrow> fill_proof_from_peers ps start c n)))"

end
