(* ===== verification/Serve.thy ===== *)
theory Serve
  imports Emission_Contract Import
begin

text \<open>
  The API server of \<^verbatim>\<open>permanode/src/serve.rs\<close>: the checks on what a client asks for, the peer
  endpoint, and the figures computed from the node's permanent headers with their caches. Requests and
  JSON are the HTTP framework's; a handler is the function from the request to the status and content.
\<close>

section \<open>Entity tags and input shapes\<close>

definition fnv_step :: "u64 \<Rightarrow> u8 \<Rightarrow> u64" where
  "fnv_step h b = xor h (ucast b) * 0x100000001b3"

definition fnv1a :: "bytes \<Rightarrow> u64" where
  "fnv1a bs = foldl fnv_step 0xcbf29ce484222325 bs"

definition hex_digit :: "nat \<Rightarrow> char" where
  "hex_digit d = (if d < 10 then char_of (48 + d) else char_of (87 + d))"

definition hex16 :: "u64 \<Rightarrow> string" where
  "hex16 n = map (\<lambda>i. hex_digit (unat (and (drop_bit (4 * i) n) 15))) (rev [0..<16])"

definition etag_of :: "bytes \<Rightarrow> string" where
  "etag_of bs = [char_of (34 :: nat)] @ hex16 (fnv1a bs) @ [char_of (34 :: nat)]"

definition is_upper :: "char \<Rightarrow> bool" where
  "is_upper c = (65 \<le> (of_char c :: nat) \<and> (of_char c :: nat) \<le> 90)"

definition is_lower :: "char \<Rightarrow> bool" where
  "is_lower c = (97 \<le> (of_char c :: nat) \<and> (of_char c :: nat) \<le> 122)"

definition is_hex64 :: "string \<Rightarrow> bool" where
  "is_hex64 s = (length s = 64 \<and> list_all (\<lambda>b. is_hexdigit b \<and> \<not> is_upper b) s)"

definition is_address :: "string \<Rightarrow> bool" where
  "is_address s = (take 2 s = ''o1'' \<and> 50 \<le> length s \<and> length s \<le> 100 \<and> list_all (\<lambda>b. is_lower b \<or> is_digit b) s)"

section \<open>The peer endpoint\<close>

definition PEER_SEEN_MAX :: u64 where "PEER_SEEN_MAX = 20000"
definition PEER_PROOF_MAX :: nat where "PEER_PROOF_MAX = 500"

definition peer_hash_ok :: "string \<Rightarrow> bool" where
  "peer_hash_ok hash = (length hash = 64 \<and> list_all is_hexdigit hash)"

definition peer_body :: "db \<Rightarrow> u64 \<Rightarrow> string \<Rightarrow> retained_block_info http" where
  "peer_body c height hash =
     (if \<not> peer_hash_ok hash then Response 400 None
      else case body_from_db c height (map ascii_lower hash) of
             Inr (Some body) \<Rightarrow> Response 200 (Some body)
           | Inr None \<Rightarrow> Response 404 None
           | Inl _ \<Rightarrow> Response 500 None)"

definition peer_raw :: "chain_lib \<Rightarrow> db \<Rightarrow> u64 \<Rightarrow> string \<Rightarrow> bytes http" where
  "peer_raw lib c height hash =
     (if \<not> peer_hash_ok hash then Response 400 None
      else case load_raw lib c height (map ascii_lower hash) of
             Inr (Some bytes) \<Rightarrow> Response 200 (Some bytes)
           | Inr None \<Rightarrow> Response 404 None
           | Inl _ \<Rightarrow> Response 500 None)"

definition peer_seen :: "db \<Rightarrow> u64 \<Rightarrow> u64 \<Rightarrow> (u64 \<times> string \<times> int) list http" where
  "peer_seen c from to =
     (if to < from then Response 400 None
      else Response 200 (Some (seen_in_range c from (min to (saturating_add from PEER_SEEN_MAX)) (PEER_SEEN_MAX * 2))))"

fun split_commas :: "string \<Rightarrow> string list" where
  "split_commas [] = [[]]"
| "split_commas (c # cs) =
     (if c = CHR '','' then [] # split_commas cs
      else case split_commas cs of p # ps \<Rightarrow> (c # p) # ps | [] \<Rightarrow> [[c]])"

fun parse_all :: "string list \<Rightarrow> u64 list option" where
  "parse_all [] = Some []"
| "parse_all (s # ss) =
     (case parse_u64 s of None \<Rightarrow> None | Some n \<Rightarrow> map_option (\<lambda>ns. n # ns) (parse_all ss))"

definition peer_proof :: "db \<Rightarrow> string \<Rightarrow> (u64 \<times> string \<times> string) list http" where
  "peer_proof c query =
     (case parse_all (filter (\<lambda>s. s \<noteq> []) (split_commas query)) of
        None \<Rightarrow> Response 400 None
      | Some hs \<Rightarrow> if length hs > PEER_PROOF_MAX then Response 400 None else Response 200 (Some (proof_classes_at c hs)))"

record peer_status_info =
  ps_tip :: "int option"
  ps_archive_from :: "int option"
  ps_open_gaps :: nat
  ps_raw_from :: "u64 option"
  ps_raw_blocks :: u64
  ps_seen_from :: "u64 option"

definition max_option :: "int list \<Rightarrow> int option" where
  "max_option xs = (case xs of [] \<Rightarrow> None | x # rest \<Rightarrow> Some (fold max rest x))"

definition peer_status :: "db \<Rightarrow> peer_status_info" where
  "peer_status c =
     (let captured = map b_height (filter b_body_captured (blocks c)); raw = raw_coverage c
      in \<lparr>ps_tip = max_option captured, ps_archive_from = min_option captured,
          ps_open_gaps = length (filter (\<lambda>g. g_resolved_at g = None) (gaps c)),
          ps_raw_from = rc_from_height raw, ps_raw_blocks = rc_blocks raw, ps_seen_from = seen_from c\<rparr>)"

text \<open>A permanode as its peers see it: the client joins the heights it asks about with commas.\<close>

fun join_commas :: "string list \<Rightarrow> string" where
  "join_commas [] = []"
| "join_commas [s] = s"
| "join_commas (s # ss) = s @ '','' @ join_commas ss"

definition served_by :: "chain_lib \<Rightarrow> db \<Rightarrow> peer" where
  "served_by lib c =
     \<lparr>pr_status_raw_from = Response 200 (Some (ps_raw_from (peer_status c))),
      pr_status_seen_from = Response 200 (Some (ps_seen_from (peer_status c))),
      pr_body = peer_body c, pr_raw = peer_raw lib c, pr_seen = peer_seen c,
      pr_proof = (\<lambda>hs. peer_proof c (join_commas (map u64_to_string hs)))\<rparr>"

section \<open>Expansion heights\<close>

definition header_log_slots :: "node \<Rightarrow> u64 \<Rightarrow> u32 option" where
  "header_log_slots rpc h = (case get_block_header rpc h of Inr (Some header) \<Rightarrow> Some (h_log_slots header) | _ \<Rightarrow> None)"

text \<open>The binary search for the first height at which the state had reached \<open>level\<close>.\<close>

function search_level :: "(u64 \<Rightarrow> u32 option) \<Rightarrow> u32 \<Rightarrow> u64 \<Rightarrow> u64 \<Rightarrow> u64 option" where
  "search_level log_slots level a b =
     (if a < b then
        let mid = a + (b - a) div 2
        in case log_slots mid of
             None \<Rightarrow> None
           | Some l \<Rightarrow> if l \<ge> level then search_level log_slots level a mid else search_level log_slots level (mid + 1) b
      else Some a)"
  by pat_completeness auto

lemma unat_mid:
  assumes "a < b"
  shows "unat (a + (b - a) div 2 :: u64) = unat a + (unat b - unat a) div 2"
    "unat (a + (b - a) div 2 + 1 :: u64) = unat a + (unat b - unat a) div 2 + 1"
proof -
  have lt: "unat a < unat b" using assms by (simp add: word_less_nat_alt)
  then have half: "unat ((b - a) div 2) = (unat b - unat a) div 2" by (simp add: unat_div unat_sub_bound)
  have "unat a + (unat b - unat a) div 2 + 1 \<le> unat b" using lt by linarith
  then have bound: "unat a + (unat b - unat a) div 2 + 1 < 2 ^ 64" by (rule le_less_trans) simp
  then show mid: "unat (a + (b - a) div 2) = unat a + (unat b - unat a) div 2" by (simp add: unat_add_bound half)
  show "unat (a + (b - a) div 2 + 1) = unat a + (unat b - unat a) div 2 + 1"
    using bound unfolding mid [symmetric] by (intro trans [OF unat_add_bound]) simp_all
qed

termination search_level
proof (relation "measure (\<lambda>(f, l, a, b). unat b - unat a)", goal_cases)
  case (2 f level a b mid l)
  then show ?case by (simp add: unat_mid word_less_nat_alt)
next
  case (3 f level a b mid l)
  then show ?case unfolding 3(2) by (simp add: unat_mid(2) word_less_nat_alt)
qed simp

fun expansion_levels :: "(u64 \<Rightarrow> u32 option) \<Rightarrow> u64 \<Rightarrow> u32 list \<Rightarrow> u64 \<Rightarrow> u64 list option" where
  "expansion_levels log_slots tip [] lo = Some []"
| "expansion_levels log_slots tip (level # levels) lo =
     (case search_level log_slots level lo tip of
        None \<Rightarrow> None
      | Some a \<Rightarrow> map_option (\<lambda>hs. a # hs) (expansion_levels log_slots tip levels a))"

definition levels_up_to :: "u32 \<Rightarrow> u32 list" where
  "levels_up_to current = map of_nat [unat LOG_SLOTS_GENESIS + 1..<unat current + 1]"

type_synonym expansion_cache = "(u32 \<times> u64 list) option"

definition expansion_heights :: "node \<Rightarrow> expansion_cache \<Rightarrow> u32 \<Rightarrow> u64 \<Rightarrow> expansion_cache \<times> u64 list option" where
  "expansion_heights rpc cache current_log_slots tip =
     (let fresh = (case expansion_levels (header_log_slots rpc) tip (levels_up_to current_log_slots) 1 of
            None \<Rightarrow> (cache, None)
          | Some hs \<Rightarrow> (Some (current_log_slots, hs), Some hs))
      in case cache of
           None \<Rightarrow> fresh
         | Some (cached_for, hs) \<Rightarrow> if cached_for = current_log_slots then (cache, Some hs) else fresh)"

section \<open>Protocol and reward schedule\<close>

record protocol_info =
  pi_version :: string
  pi_active :: bool
  pi_activation_height :: u64
  pi_blocks_until_activation :: u64
  pi_activation_eta_unix :: "u64 option"
  pi_target_block_time_seconds :: u64

definition protocol_info :: "u64 \<Rightarrow> u64 \<Rightarrow> protocol_info" where
  "protocol_info tip tip_timestamp =
     (let active = v2_active tip
      in \<lparr>pi_version = (if active then ''v2'' else ''v1.1''), pi_active = active,
          pi_activation_height = V2_ACTIVATION_HEIGHT,
          pi_blocks_until_activation = saturating_sub V2_ACTIVATION_HEIGHT tip,
          pi_activation_eta_unix = (if active then None else Some (tip_timestamp + target_seconds_between tip V2_ACTIVATION_HEIGHT)),
          pi_target_block_time_seconds = block_time_at (tip + 1)\<rparr>)"

record reward_tier =
  tr_tier :: nat
  tr_first_height :: u64
  tr_last_height :: "u64 option"
  tr_reward :: u64
  tr_interval_total :: "u128 option"
  tr_issued_at_end :: "u128 option"
  tr_status :: string
  tr_eta_unix :: "u64 option"

record v2_schedule =
  vs_interval_blocks :: u64
  vs_tiers :: "reward_tier list"
  vs_current_tier :: "nat option"
  vs_next_reduction_height :: "u64 option"
  vs_blocks_to_next_reduction :: "u64 option"
  vs_next_reduction_eta_unix :: "u64 option"
  vs_next_reward :: "u64 option"
  vs_interval_progress_bps :: "u64 option"
  vs_legacy_issued :: u128
  vs_legacy_reward :: u64
  vs_issued_since_activation :: u128
  vs_eight_interval_total :: u128
  vs_tail_height :: u64
  vs_tail_reward :: u64
  vs_unpaid_legacy_share :: u128

definition eta :: "u64 \<Rightarrow> u64 \<Rightarrow> u64 \<Rightarrow> u64 option" where
  "eta tip tip_timestamp height =
     (if height > tip then Some (tip_timestamp + target_seconds_between tip height) else None)"

definition reward_tier_at :: "u64 \<Rightarrow> u64 \<Rightarrow> u64 list \<Rightarrow> nat \<Rightarrow> reward_tier" where
  "reward_tier_at tip tip_timestamp expansions tier =
     (let n = length V2_REWARDS_MICRONOID; first = v2_tier_first_height tier;
          last_height = (if tier + 1 < n then Some (v2_tier_first_height (tier + 1) - 1) else None);
          reward = V2_REWARDS_MICRONOID ! tier
      in \<lparr>tr_tier = tier, tr_first_height = first, tr_last_height = last_height, tr_reward = reward,
          tr_interval_total = map_option (\<lambda>_. ucast reward * ucast V2_REWARD_INTERVAL_BLOCKS) last_height,
          tr_issued_at_end = map_option (\<lambda>l. emitted_up_to l expansions) last_height,
          tr_status = (case v2_tier tip of
             Some c \<Rightarrow> if tier < c then ''done'' else if tier = c then ''current'' else ''upcoming''
           | None \<Rightarrow> ''upcoming''),
          tr_eta_unix = eta tip tip_timestamp first\<rparr>)"

definition next_reduction :: "u64 \<Rightarrow> u64 option" where
  "next_reduction tip =
     (case v2_tier tip of
        None \<Rightarrow> Some V2_ACTIVATION_HEIGHT
      | Some c \<Rightarrow> if c + 1 < length V2_REWARDS_MICRONOID then Some (v2_tier_first_height (c + 1)) else None)"

definition v2_schedule_of :: "u64 \<Rightarrow> u64 \<Rightarrow> u64 list \<Rightarrow> v2_schedule" where
  "v2_schedule_of tip tip_timestamp expansions =
     (let n = length V2_REWARDS_MICRONOID;
          current_tier = v2_tier tip;
          last_legacy = V2_ACTIVATION_HEIGHT - 1;
          legacy_log_slots = LOG_SLOTS_GENESIS + of_nat (length (filter (\<lambda>h. h \<le> last_legacy) expansions));
          unpaid_blocks = last_legacy - (last_legacy div BLOCKS_PER_DAY) * BLOCKS_PER_DAY;
          legacy_issued = emitted_up_to last_legacy expansions
      in \<lparr>vs_interval_blocks = V2_REWARD_INTERVAL_BLOCKS,
          vs_tiers = map (reward_tier_at tip tip_timestamp expansions) [0..<n],
          vs_current_tier = current_tier,
          vs_next_reduction_height = next_reduction tip,
          vs_blocks_to_next_reduction = map_option (\<lambda>h. saturating_sub h tip) (next_reduction tip),
          vs_next_reduction_eta_unix = Option.bind (next_reduction tip) (eta tip tip_timestamp),
          vs_next_reward = map_option (\<lambda>h. block_reward_at h legacy_log_slots) (next_reduction tip),
          vs_interval_progress_bps =
            (case current_tier of
               Some c \<Rightarrow> if c + 1 < n then Some ((tip + 1 - v2_tier_first_height c) * 10000 div V2_REWARD_INTERVAL_BLOCKS) else None
             | None \<Rightarrow> None),
          vs_legacy_issued = legacy_issued,
          vs_legacy_reward = block_reward legacy_log_slots,
          vs_issued_since_activation = (if v2_active tip then emitted_up_to tip expansions - legacy_issued else 0),
          vs_eight_interval_total =
            sum_list (map (\<lambda>r. ucast r * ucast V2_REWARD_INTERVAL_BLOCKS) (take (n - 1) V2_REWARDS_MICRONOID)),
          vs_tail_height = v2_tier_first_height (n - 1),
          vs_tail_reward = V2_REWARDS_MICRONOID ! (n - 1),
          vs_unpaid_legacy_share = 2 * ucast (block_reward legacy_log_slots div 20) * ucast unpaid_blocks\<rparr>)"

section \<open>The expansion window\<close>

record window_header =
  wh_height :: u64
  wh_active_slot_count :: u64
  wh_qualifies :: bool

definition EXPANSION_WINDOW :: u64 where "EXPANSION_WINDOW = 18"
definition CONSENSUS_FINALITY_DEPTH :: u64 where "CONSENSUS_FINALITY_DEPTH = 18"

fun window_headers :: "node \<Rightarrow> u64 \<Rightarrow> u64 list \<Rightarrow> window_header list result" where
  "window_headers rpc capacity [] = Inr []"
| "window_headers rpc capacity (h # hs) =
     and_then (get_block_header rpc h) (\<lambda>answer.
     and_then (window_headers rpc capacity hs) (\<lambda>rest.
       Inr (case answer of
              None \<Rightarrow> rest
            | Some header \<Rightarrow>
                \<lparr>wh_height = h, wh_active_slot_count = h_active_slot_count header,
                 wh_qualifies = (saturating_mul (h_active_slot_count header) 4 \<ge> saturating_mul capacity 3)\<rparr> # rest)))"

definition finalized_heights :: "u64 \<Rightarrow> u64 list" where
  "finalized_heights tip =
     (if tip < CONSENSUS_FINALITY_DEPTH then []
      else let end_height = tip - CONSENSUS_FINALITY_DEPTH
           in if end_height < EXPANSION_WINDOW - 1 then []
              else heights (end_height - (EXPANSION_WINDOW - 1)) end_height)"

definition finalized_window :: "node \<Rightarrow> (u64 \<times> window_header list) option \<Rightarrow> u64 \<Rightarrow> u64
    \<Rightarrow> (u64 \<times> window_header list) option \<times> window_header list result" where
  "finalized_window rpc cache tip capacity =
     (let fresh = (case window_headers rpc capacity (finalized_heights tip) of
            Inl e \<Rightarrow> (cache, Inl e)
          | Inr window \<Rightarrow> (Some (tip, window), Inr window))
      in case cache of
           None \<Rightarrow> fresh
         | Some (cached_tip, window) \<Rightarrow> if cached_tip = tip then (cache, Inr window) else fresh)"

section \<open>The sampled history\<close>

record header_sample =
  hs_height :: u64
  hs_active_slot_count :: u64
  hs_alloc_counter :: u64

record state_history =
  sh_step :: u64
  sh_points :: "header_sample list"

definition HISTORY_STEP :: u64 where "HISTORY_STEP = 512"
definition HISTORY_MAX_POINTS :: nat where "HISTORY_MAX_POINTS = 2400"

function coarsen :: "u64 \<Rightarrow> u64 \<Rightarrow> header_sample list \<Rightarrow> u64 \<times> header_sample list" where
  "coarsen tip step points =
     (if unat (tip div step) > HISTORY_MAX_POINTS
      then coarsen tip (step * 2) (filter (\<lambda>p. hs_height p mod (step * 2) = 0) points)
      else (step, points))"
  by pat_completeness auto

termination coarsen
proof (relation "measure (\<lambda>(tip, step, points). unat (tip div step))", goal_cases)
  case (2 tip step points)
  then have big: "2400 < unat tip div unat step" by (simp add: HISTORY_MAX_POINTS_def unat_div)
  then have "unat step \<noteq> 0" by (intro notI) simp
  moreover have "unat step * 2400 < 2 ^ 64"
  proof -
    have "unat step * 2400 \<le> unat step * (unat tip div unat step)" using big by simp
    also have "\<dots> \<le> unat tip" by simp
    finally show ?thesis by (rule le_less_trans) simp
  qed
  ultimately have "unat (step * 2) = unat step * 2" by (intro unat_mult_bound [THEN trans]) simp_all
  then show ?case using big by (simp add: unat_div div_mult2_eq)
qed simp

declare search_level.simps [simp del] coarsen.simps [simp del]

lemma coarsen_more: "unat (tip div step) > HISTORY_MAX_POINTS
    \<Longrightarrow> coarsen tip step ps = coarsen tip (step * 2) (filter (\<lambda>p. hs_height p mod (step * 2) = 0) ps)"
  by (subst coarsen.simps) simp

lemma coarsen_done: "\<not> unat (tip div step) > HISTORY_MAX_POINTS \<Longrightarrow> coarsen tip step ps = (step, ps)"
  by (subst coarsen.simps) simp

text \<open>The walk over the headers: it ends at the tip, at the first height without a header, or with an error.\<close>

partial_function (option) walk :: "node \<Rightarrow> u64 \<Rightarrow> u64 \<Rightarrow> u64 \<Rightarrow> header_sample list
    \<Rightarrow> (header_sample list \<times> failure option) option" where
  "walk rpc tip step at points =
     (if at \<le> tip then
        (case get_block_header rpc at of
           Inl e \<Rightarrow> Some (points, Some e)
         | Inr None \<Rightarrow> Some (points, None)
         | Inr (Some header) \<Rightarrow>
             walk rpc tip step (at + step)
               (points @ [\<lparr>hs_height = at, hs_active_slot_count = h_active_slot_count header,
                           hs_alloc_counter = h_alloc_counter header\<rparr>]))
      else Some (points, None))"

definition sampled_state_history :: "node \<Rightarrow> state_history \<Rightarrow> u64
    \<Rightarrow> (state_history \<times> (u64 \<times> header_sample list) result) option" where
  "sampled_state_history rpc cache tip =
     (let step = if sh_step cache = 0 then HISTORY_STEP else sh_step cache
      in case coarsen tip step (sh_points cache) of
           (step, points) \<Rightarrow>
             (let at = (if points = [] then 0 else hs_height (last points) + step)
              in map_option (\<lambda>(points, failed).
                   (\<lparr>sh_step = step, sh_points = points\<rparr>,
                    case failed of Some e \<Rightarrow> Inl e | None \<Rightarrow> Inr (step, points)))
                 (walk rpc tip step at points)))"

definition user_mints :: "header_sample \<Rightarrow> u64" where
  "user_mints s = saturating_sub (hs_alloc_counter s)
     (hs_height s + 2 * development_payout_blocks_up_to (hs_height s))"

end
