(* ===== verification/Body_Roundtrip.thy ===== *)
theory Body_Roundtrip
  imports Import
begin

text \<open>
  A body that was stored is read back as it was: what one permanode recorded is what it hands to
  another. The lemmas follow the nesting of the tables: page hashes, inputs and outputs of a
  transaction, a transaction, the transactions of a block.
\<close>

section \<open>Lists by index\<close>

lemma sort_key_enumerated: "map f xs = map int [a..<b] \<Longrightarrow> sort_key f xs = xs"
proof (rule sort_key_id_if_sorted)
  assume "map f xs = map int [a..<b]"
  moreover have "sorted (map int [a..<b])" by (simp add: sorted_iff_nth_mono)
  ultimately show "sorted (map f xs)" by simp
qed

lemma filter_none: "(\<And>x. x \<in> set xs \<Longrightarrow> \<not> P x) \<Longrightarrow> filter P xs = []"
  by (simp add: filter_empty_conv)

lemma inserted_page_hashes:
  assumes "\<And>r. r \<in> set rows \<Longrightarrow> p_tx_id r = tx_id \<Longrightarrow> p_idx r < int idx"
  shows "\<exists>new. insert_page_hashes tx_id idx hs rows = rows @ new \<and> map p_idx new = map int [idx..<idx + length hs]
    \<and> (\<forall>r \<in> set new. p_tx_id r = tx_id) \<and> map p_page_hash new = hs"
  using assms
proof (induction "hs" arbitrary: idx rows)
  case (Cons h "hs")
  define r where "r = body_page_row tx_id idx h"
  have r: "p_idx r = int idx" "p_tx_id r = tx_id" by (simp_all add: r_def body_page_row_def)
  have "page_hash_key r \<notin> page_hash_key ` set rows" using Cons.prems r by (force simp: page_hash_key_def)
  then have ins: "insert_or_ignore page_hash_key r rows = rows @ [r]" by (simp add: insert_or_ignore_def)
  have later: "p_idx x < int (Suc idx)" if "x \<in> set (rows @ [r])" "p_tx_id x = tx_id" for x
    using that Cons.prems [of x] r by (cases "x = r") simp_all
  obtain new where new: "insert_page_hashes tx_id (Suc idx) hs (rows @ [r]) = (rows @ [r]) @ new"
    "map p_idx new = map int [Suc idx..<Suc idx + length hs]" "\<forall>r \<in> set new. p_tx_id r = tx_id" "map p_page_hash new = hs"
    using Cons.IH [OF later] by blast
  have idxs: "map int [idx..<idx + length (h # hs)] = int idx # map int [Suc idx..<Suc idx + length hs]"
    by (simp add: upt_conv_Cons del: upt_Suc)
  have "map p_page_hash (r # new) = (h # hs)" using new(4) by (simp add: r_def body_page_row_def)
  then show ?case
    unfolding idxs insert_page_hashes.simps r_def [symmetric] ins new(1)
    by (intro exI [of _ "r # new"]) (simp add: r new(2,3) del: upt_Suc)
qed simp

lemma inserted_inputs:
  assumes "\<And>r. r \<in> set rows \<Longrightarrow> i_tx_id r = tx_id \<Longrightarrow> i_idx r < int idx"
  shows "\<exists>new. insert_inputs tx_id idx is rows = rows @ new \<and> map i_idx new = map int [idx..<idx + length is]
    \<and> (\<forall>r \<in> set new. i_tx_id r = tx_id) \<and> read_inputs new = Inr is"
  using assms
proof (induction "is" arbitrary: idx rows)
  case (Cons i "is")
  define r where "r = body_input_row tx_id idx i"
  have r: "i_idx r = int idx" "i_tx_id r = tx_id" by (simp_all add: r_def body_input_row_def)
  have "input_key r \<notin> input_key ` set rows" using Cons.prems r by (force simp: input_key_def)
  then have ins: "insert_or_ignore input_key r rows = rows @ [r]" by (simp add: insert_or_ignore_def)
  have later: "i_idx x < int (Suc idx)" if "x \<in> set (rows @ [r])" "i_tx_id x = tx_id" for x
    using that Cons.prems [of x] r by (cases "x = r") simp_all
  obtain new where new: "insert_inputs tx_id (Suc idx) is (rows @ [r]) = (rows @ [r]) @ new"
    "map i_idx new = map int [Suc idx..<Suc idx + length is]" "\<forall>r \<in> set new. i_tx_id r = tx_id" "read_inputs new = Inr is"
    using Cons.IH [OF later] by blast
  have idxs: "map int [idx..<idx + length (i # is)] = int idx # map int [Suc idx..<Suc idx + length is]"
    by (simp add: upt_conv_Cons del: upt_Suc)
  have "read_inputs (r # new) = Inr (i # is)" using new(4) by (simp add: r_def body_input_row_def)
  then show ?case
    unfolding idxs insert_inputs.simps r_def [symmetric] ins new(1)
    by (intro exI [of _ "r # new"]) (simp add: r new(2,3) del: upt_Suc)
qed simp

lemma inserted_outputs:
  assumes "\<And>r. r \<in> set rows \<Longrightarrow> o_tx_id r = tx_id \<Longrightarrow> o_idx r < int idx"
  shows "\<exists>new. insert_outputs tx_id idx outs rows = rows @ new \<and> map o_idx new = map int [idx..<idx + length outs]
    \<and> (\<forall>r \<in> set new. o_tx_id r = tx_id) \<and> read_outputs new = Inr outs"
  using assms
proof (induction "outs" arbitrary: idx rows)
  case (Cons out "outs")
  define r where "r = body_output_row (next_rowid (map o_rowid rows)) tx_id idx out"
  have r: "o_idx r = int idx" "o_tx_id r = tx_id" by (simp_all add: r_def body_output_row_def)
  have "output_key r \<notin> output_key ` set rows" using Cons.prems r by (force simp: output_key_def)
  then have ins: "insert_or_ignore output_key r rows = rows @ [r]" by (simp add: insert_or_ignore_def)
  have later: "o_idx x < int (Suc idx)" if "x \<in> set (rows @ [r])" "o_tx_id x = tx_id" for x
    using that Cons.prems [of x] r by (cases "x = r") simp_all
  obtain new where new: "insert_outputs tx_id (Suc idx) outs (rows @ [r]) = (rows @ [r]) @ new"
    "map o_idx new = map int [Suc idx..<Suc idx + length outs]" "\<forall>r \<in> set new. o_tx_id r = tx_id" "read_outputs new = Inr outs"
    using Cons.IH [OF later] by blast
  have idxs: "map int [idx..<idx + length (out # outs)] = int idx # map int [Suc idx..<Suc idx + length outs]"
    by (simp add: upt_conv_Cons del: upt_Suc)
  have "read_outputs (r # new) = Inr (out # outs)" using new(4) by (simp add: r_def body_output_row_def)
  then show ?case
    unfolding idxs insert_outputs.simps r_def [symmetric] ins new(1)
    by (intro exI [of _ "r # new"]) (simp add: r new(2,3) del: upt_Suc)
qed simp

section \<open>One transaction\<close>

text \<open>The lists of a transaction have the lengths its counts say.\<close>

definition counted :: "transaction_info \<Rightarrow> bool" where
  "counted t \<longleftrightarrow> unat (tx_live_inputs t) = length (tx_inputs t) \<and> unat (tx_live_outputs t) = length (tx_outputs t)"

text \<open>The children of every transaction on record belong to a transaction on record.\<close>

definition no_strays :: "db \<Rightarrow> bool" where
  "no_strays c \<longleftrightarrow>
     p_tx_id ` set (page_hashes c) \<subseteq> t_id ` set (transactions c) \<and> i_tx_id ` set (inputs c) \<subseteq> t_id ` set (transactions c)
     \<and> o_tx_id ` set (outputs c) \<subseteq> t_id ` set (transactions c)"

lemma wf_no_strays: "wf_db c \<Longrightarrow> no_strays c"
  by (force simp: wf_db_def wf_pages_def wf_inputs_def wf_outputs_def no_strays_def fst_tx_sigs tx_sig_def image_iff)

lemma insert_transaction_reads:
  assumes "no_strays c" "\<And>t. t \<in> set (transactions c) \<Longrightarrow> t_block_id t = bid \<Longrightarrow> t_position t \<noteq> uint (tx_position tx)"
    and "counted tx"
  shows "\<exists>t. transactions (insert_transaction bid tx c) = transactions c @ [t] \<and> t_block_id t = bid
    \<and> t_position t = uint (tx_position tx) \<and> read_transaction (insert_transaction bid tx c) t = Inr tx
    \<and> no_strays (insert_transaction bid tx c)
    \<and> (\<forall>x \<in> set (transactions c). read_transaction (insert_transaction bid tx c) x = read_transaction c x)"
proof -
  define tx_id where "tx_id = next_rowid (map t_id (transactions c))"
  define t where "t = body_tx_row tx_id bid tx"
  have fresh: "tx_id \<notin> t_id ` set (transactions c)" unfolding tx_id_def using next_rowid_not_in [of "map t_id (transactions c)"] by simp
  have "(bid, uint (tx_position tx)) \<notin> (\<lambda>t. (t_block_id t, t_position t)) ` set (transactions c)"
    using assms(2) by (metis (no_types, lifting) imageE prod.inject)
  then have txs: "insert_or_ignore (\<lambda>t. (t_block_id t, t_position t)) t (transactions c) = transactions c @ [t]"
    by (simp add: insert_or_ignore_def t_def body_tx_row_def)
  have "find (at_position bid (tx_position tx)) (transactions c) = None"
    using assms(2) by (auto simp: find_None_iff at_position_def)
  then have found: "find (at_position bid (tx_position tx)) (transactions c @ [t]) = Some t"
    by (simp add: find_append at_position_def t_def body_tx_row_def)
  have id: "t_id t = tx_id" by (simp add: t_def body_tx_row_def)
  obtain ps where ps: "insert_page_hashes tx_id 0 (tx_page_hashes tx) (page_hashes c) = page_hashes c @ ps"
    "map p_idx ps = map int [0..<length (tx_page_hashes tx)]" "\<forall>r \<in> set ps. p_tx_id r = tx_id" "map p_page_hash ps = tx_page_hashes tx"
    using inserted_page_hashes [of "page_hashes c" tx_id 0 "tx_page_hashes tx"] assms(1) fresh by (force simp: no_strays_def)
  obtain ins where ins: "insert_inputs tx_id 0 (tx_inputs tx) (inputs c) = inputs c @ ins"
    "map i_idx ins = map int [0..<length (tx_inputs tx)]" "\<forall>r \<in> set ins. i_tx_id r = tx_id" "read_inputs ins = Inr (tx_inputs tx)"
    using inserted_inputs [of "inputs c" tx_id 0 "tx_inputs tx"] assms(1) fresh by (force simp: no_strays_def)
  obtain outs where outs: "insert_outputs tx_id 0 (tx_outputs tx) (outputs c) = outputs c @ outs"
    "map o_idx outs = map int [0..<length (tx_outputs tx)]" "\<forall>r \<in> set outs. o_tx_id r = tx_id" "read_outputs outs = Inr (tx_outputs tx)"
    using inserted_outputs [of "outputs c" tx_id 0 "tx_outputs tx"] assms(1) fresh by (force simp: no_strays_def)
  have c': "insert_transaction bid tx c = c\<lparr>transactions := transactions c @ [t], page_hashes := page_hashes c @ ps,
      inputs := inputs c @ ins, outputs := outputs c @ outs\<rparr>" (is "_ = ?c'")
    by (simp add: insert_transaction_def Let_def tx_id_def [symmetric] t_def [symmetric] txs found id ps(1) ins(1) outs(1))
  have old: "filter (\<lambda>p. p_tx_id p = tx_id) (page_hashes c) = []" "filter (\<lambda>i. i_tx_id i = tx_id) (inputs c) = []"
    "filter (\<lambda>out. o_tx_id out = tx_id) (outputs c) = []"
    using assms(1) fresh by (force simp: no_strays_def filter_empty_conv)+
  have mine: "filter (\<lambda>p. p_tx_id p = tx_id) ps = ps" "filter (\<lambda>i. i_tx_id i = tx_id) ins = ins"
    "filter (\<lambda>out. o_tx_id out = tx_id) outs = outs"
    using ps(3) ins(3) outs(3) by simp_all
  have "of_nat (length (tx_inputs tx)) = tx_live_inputs tx" "of_nat (length (tx_outputs tx)) = tx_live_outputs tx"
    using assms(3) by (simp_all add: counted_def word_unat_eq_iff [symmetric]) (metis of_nat_of_unat)+
  then have "read_transaction ?c' t = Inr tx"
    unfolding read_transaction_def id
    by (simp add: old mine sort_key_enumerated [OF ps(2)] sort_key_enumerated [OF ins(2)] sort_key_enumerated [OF outs(2)]
        ps(4) ins(4) outs(4)) (simp add: t_def body_tx_row_def)
  moreover have "read_transaction ?c' x = read_transaction c x" if "x \<in> set (transactions c)" for x
  proof -
    have "t_id x \<noteq> tx_id" using that fresh by auto
    then have "filter (\<lambda>p. p_tx_id p = t_id x) ps = []" "filter (\<lambda>i. i_tx_id i = t_id x) ins = []"
      "filter (\<lambda>out. o_tx_id out = t_id x) outs = []"
      using ps(3) ins(3) outs(3) by (auto simp: filter_empty_conv)
    then show ?thesis by (simp add: read_transaction_def)
  qed
  moreover have "no_strays ?c'"
    using assms(1) ps(3) ins(3) outs(3) id by (auto simp: no_strays_def)
  ultimately show ?thesis unfolding c' by (intro exI [of _ t]) (simp add: t_def body_tx_row_def)
qed

section \<open>The transactions of a block\<close>

lemma read_transactions_append:
  "read_transactions c (ts @ us) = and_then (read_transactions c ts) (\<lambda>xs. and_then (read_transactions c us) (\<lambda>ys. Inr (xs @ ys)))"
proof (induction ts)
  case Nil
  show ?case by (cases "read_transactions c us") simp_all
next
  case (Cons t ts)
  then show ?case by (cases "read_transaction c t"; cases "read_transactions c ts"; cases "read_transactions c us") simp_all
qed

lemma read_transactions_cong:
  "(\<And>t. t \<in> set ts \<Longrightarrow> read_transaction c' t = read_transaction c t) \<Longrightarrow> read_transactions c' ts = read_transactions c ts"
  by (induction ts) simp_all

lemma insert_all_reads:
  assumes "no_strays c" "\<And>t. t \<in> set (transactions c) \<Longrightarrow> t_block_id t \<noteq> bid"
    and "distinct (map tx_position txs)" "\<And>tx. tx \<in> set txs \<Longrightarrow> counted tx"
  shows "\<exists>ts. transactions (foldl (\<lambda>c tx. insert_transaction bid tx c) c txs) = transactions c @ ts
    \<and> map t_position ts = map (\<lambda>tx. uint (tx_position tx)) txs \<and> (\<forall>t \<in> set ts. t_block_id t = bid)
    \<and> read_transactions (foldl (\<lambda>c tx. insert_transaction bid tx c) c txs) ts = Inr txs
    \<and> no_strays (foldl (\<lambda>c tx. insert_transaction bid tx c) c txs)"
  using assms(3,4)
proof (induction txs rule: rev_induct)
  case Nil
  with assms(1) show ?case by simp
next
  case (snoc tx txs)
  let ?c = "foldl (\<lambda>c tx. insert_transaction bid tx c) c txs"
  obtain ts where ts: "transactions ?c = transactions c @ ts" "map t_position ts = map (\<lambda>tx. uint (tx_position tx)) txs"
    "\<forall>t \<in> set ts. t_block_id t = bid" "read_transactions ?c ts = Inr txs" "no_strays ?c"
    using snoc by auto
  have "t_position t \<noteq> uint (tx_position tx)" if "t \<in> set (transactions ?c)" "t_block_id t = bid" for t
  proof -
    have "t \<in> set ts" using that assms(2) ts(1) by auto
    then have "t_position t \<in> set (map (\<lambda>tx. uint (tx_position tx)) txs)" unfolding ts(2) [symmetric] by simp
    then obtain txa where txa: "txa \<in> set txs" "t_position t = uint (tx_position txa)" by auto
    have "tx_position txa \<noteq> tx_position tx" using imageI [OF txa(1), of tx_position] snoc.prems(1) by auto
    with txa(2) show ?thesis by (simp add: word_uint_eq_iff)
  qed
  then obtain t where t: "transactions (insert_transaction bid tx ?c) = transactions ?c @ [t]" "t_block_id t = bid"
    "t_position t = uint (tx_position tx)" "read_transaction (insert_transaction bid tx ?c) t = Inr tx"
    "no_strays (insert_transaction bid tx ?c)"
    "\<forall>x \<in> set (transactions ?c). read_transaction (insert_transaction bid tx ?c) x = read_transaction ?c x"
    using insert_transaction_reads [OF ts(5), of bid tx] snoc.prems(2) by auto
  have "read_transactions (insert_transaction bid tx ?c) ts = Inr txs"
    using read_transactions_cong [of ts "insert_transaction bid tx ?c" ?c] t(6) ts(1,4) by simp
  then show ?case
    using ts t by (intro exI [of _ "ts @ [t]"]) (simp add: read_transactions_append)
qed

section \<open>Operations beside the body\<close>

text \<open>The columns a body is read from.\<close>

definition tx_content :: "tx_row \<Rightarrow> tx_row" where "tx_content t = t\<lparr>t_contract_flags := 0\<rparr>"

definition block_content :: "block_row \<Rightarrow> int \<times> int \<times> string \<times> string \<times> bool \<times> string option \<times> int option \<times> string option" where
  "block_content b = (b_id b, b_height b, b_hash b, b_tx_root b, b_body_captured b, b_proof_class b, b_reward b, b_total_fees b)"

definition same_bodies :: "db \<Rightarrow> db \<Rightarrow> bool" where
  "same_bodies c c' \<longleftrightarrow>
     map tx_content (transactions c') = map tx_content (transactions c) \<and> map block_content (blocks c') = map block_content (blocks c)
     \<and> page_hashes c' = page_hashes c \<and> inputs c' = inputs c \<and> outputs c' = outputs c"

lemma map_sort_key: "map g (sort_key (\<lambda>x. f (g x)) xs) = sort_key f (map g xs)"
proof (induction xs)
  case (Cons x xs)
  have "map g (insort_key (\<lambda>x. f (g x)) x ys) = insort_key f (g x) (map g ys)" for x ys by (induction ys) simp_all
  with Cons show ?case by simp
qed simp

lemma map_find: "map_option g (find (\<lambda>x. P (g x)) xs) = find P (map g xs)"
  by (induction xs) simp_all

lemma read_transaction_content: "read_transaction c (tx_content t) = read_transaction c t"
  by (simp add: read_transaction_def tx_content_def Let_def)

lemma read_transactions_content: "read_transactions c (map tx_content ts) = read_transactions c ts"
  by (induction ts) (simp_all add: read_transaction_content)

lemma read_block_transactions:
  "read_transactions c (sort_key t_position (filter (\<lambda>t. t_block_id t = bid) ts))
    = read_transactions c (sort_key t_position (filter (\<lambda>t. t_block_id t = bid) (map tx_content ts)))"
proof -
  have "sort_key t_position (filter (\<lambda>t. t_block_id t = bid) (map tx_content ts))
      = map tx_content (sort_key (\<lambda>t. t_position (tx_content t)) (filter (\<lambda>t. t_block_id (tx_content t) = bid) ts))"
    by (simp add: map_sort_key filter_map o_def)
  also have "\<dots> = map tx_content (sort_key t_position (filter (\<lambda>t. t_block_id t = bid) ts))" by (simp add: tx_content_def)
  finally show ?thesis by (simp add: read_transactions_content)
qed

definition body_columns_of :: "int \<times> int \<times> string \<times> string \<times> bool \<times> string option \<times> int option \<times> string option \<Rightarrow> int \<times> string option \<times> int option \<times> string option" where
  "body_columns_of bc = (case bc of (i, h, ha, r, cap, p, rew, f) \<Rightarrow> (i, p, rew, f))"

lemma body_from_db_content:
  "body_from_db c height hash =
     (case map_option body_columns_of (find (\<lambda>(i, h, ha, r, cap, p, rew, f). h = as_i64 height \<and> ha = hash \<and> cap) (map block_content (blocks c))) of
        None \<Rightarrow> Inr None
      | Some (bid, Some proof_class, Some reward, Some total_fees) \<Rightarrow>
          and_then (read_transactions c (sort_key t_position (filter (\<lambda>t. t_block_id t = bid) (map tx_content (transactions c)))))
            (\<lambda>txs. Inr (Some (body_of proof_class reward total_fees txs)))
      | Some _ \<Rightarrow> bail ''block row is marked captured but has no body fields'')"
proof -
  have "find (\<lambda>(i, h, ha, r, cap, p, rew, f). h = as_i64 height \<and> ha = hash \<and> cap) (map block_content (blocks c))
      = map_option block_content (find (\<lambda>b. b_height b = as_i64 height \<and> b_hash b = hash \<and> b_body_captured b) (blocks c))"
    by (simp add: map_find [symmetric] block_content_def)
  then show ?thesis
    by (auto simp: body_from_db_def read_block_transactions [symmetric] body_columns_of_def block_content_def split: option.splits)
qed

lemma same_bodies_read: "same_bodies c c' \<Longrightarrow> body_from_db c' height hash = body_from_db c height hash"
proof -
  assume s: "same_bodies c c'"
  then have "read_transaction c' t = read_transaction c t" for t by (simp add: same_bodies_def read_transaction_def)
  then have reads: "read_transactions c' = read_transactions c" by (intro ext read_transactions_cong)
  have tables: "map tx_content (transactions c') = map tx_content (transactions c)" "map block_content (blocks c') = map block_content (blocks c)"
    using s by (simp_all add: same_bodies_def)
  show ?thesis unfolding body_from_db_content reads tables ..
qed

section \<open>What keeps the recorded bodies\<close>

text \<open>An operation beside the bodies: what was recorded reads the same afterwards.\<close>

locale keeps_bodies =
  fixes step :: "'a \<Rightarrow> db \<Rightarrow> db"
  assumes same: "same_bodies c (step a c)"
begin

lemma reads_same: "body_from_db (step a c) height hash = body_from_db c height hash"
  by (rule same_bodies_read [OF same])

lemma reads_same_after_all: "body_from_db (foldl (\<lambda>c a. step a c) c as) height hash = body_from_db c height hash"
  by (induction as arbitrary: c) (simp_all add: reads_same)

end

lemma same_bodies_refl: "same_bodies c c" by (simp add: same_bodies_def)

lemma set_flags_content: "map tx_content (foldl (\<lambda>txs pf. set_flag bid pf txs) txs flags) = map tx_content txs"
  by (induction flags arbitrary: txs) (simp_all add: set_flag_def map_update_where tx_content_def)

interpretation kb_flags: keeps_bodies "\<lambda>(lib, height, hash, raw) c. record_contract_flags lib c height hash raw"
  by unfold_locales
    (auto simp: record_contract_flags_def set_contract_flags_def Let_def same_bodies_def set_flags_content map_update_where
      tx_content_def block_content_def split: option.splits sum.splits)

interpretation kb_raw: keeps_bodies "\<lambda>(lib, height, hash, bytes, source, now) c. committed c (store_raw lib c height hash bytes source now)"
proof unfold_locales
  fix a :: "chain_lib \<times> u64 \<times> string \<times> bytes \<times> string \<times> string" and c
  obtain lib height hash bytes source now where a: "a = (lib, height, hash, bytes, source, now)" by (cases a)
  have "same_bodies c (committed c (store_raw lib c height hash bytes source now))"
  proof (cases "store_raw lib c height hash bytes source now")
    case (Inr r)
    then show ?thesis
      by (auto simp: store_raw_def and_then_Inr_iff insert_raw_block_def same_bodies_def split: option.splits if_splits)
  qed (simp add: same_bodies_refl)
  then show "same_bodies c ((\<lambda>(lib, height, hash, bytes, source, now) c. committed c (store_raw lib c height hash bytes source now)) a c)"
    by (simp add: a)
qed

interpretation kb_resolve: keeps_bodies "\<lambda>(height, now, resolution) c. resolve_gap c height now resolution"
  by unfold_locales (auto simp: resolve_gap_def same_bodies_def)

interpretation kb_orphan: keeps_bodies "\<lambda>(bid, now) c. mark_orphaned c bid now"
  by unfold_locales (auto simp: mark_orphaned_def append_status_def same_bodies_def)

interpretation kb_seen: keeps_bodies "\<lambda>(height, hash, at_ms) c. fst (adopt_tip_seen c height hash at_ms)"
  by unfold_locales (auto simp: adopt_tip_seen_def Let_def same_bodies_def map_update_where block_content_def split: if_splits)

section \<open>What a passed check says\<close>

lemma checked_transactions:
  "check_transactions tree i txs = Inr ids \<Longrightarrow>
     map (\<lambda>t. uint (tx_position t)) txs = map int [i..<i + length txs] \<and> (\<forall>t \<in> set txs. counted t)"
proof (induction txs arbitrary: i ids)
  case (Cons t txs)
  obtain a as where "check_transaction tree i t = Inr a" "check_transactions tree (Suc i) txs = Inr as"
    using Cons.prems by (auto simp: and_then_Inr_iff)
  moreover from this(1) have "unat (tx_position t) = i" "counted t"
    by (auto simp: check_transaction_def counted_def split: if_splits option.splits)
  ultimately show ?case using Cons.IH [of "Suc i" as] by (auto simp: upt_conv_Cons simp del: upt_Suc)
qed simp

lemma checked_body:
  assumes "check_body tree lib body root = Inr u"
  shows "map (\<lambda>t. uint (tx_position t)) (rb_transactions body) = map int [0..<length (rb_transactions body)]"
    and "distinct (map tx_position (rb_transactions body))" "\<forall>t \<in> set (rb_transactions body). counted t" "totals_match body"
proof -
  obtain ids where ids: "check_transactions tree 0 (rb_transactions body) = Inr ids" and t: "totals_match body"
    using assms by (auto simp: check_body_def Let_def and_then_Inr_iff split: if_splits)
  from checked_transactions [OF ids]
  show pos: "map (\<lambda>t. uint (tx_position t)) (rb_transactions body) = map int [0..<length (rb_transactions body)]"
    and "\<forall>t \<in> set (rb_transactions body). counted t" by simp_all
  have "distinct (map uint (map tx_position (rb_transactions body)))" using pos by (simp add: o_def distinct_map)
  then show "distinct (map tx_position (rb_transactions body))" by (simp only: distinct_map)
  show "totals_match body" by (fact t)
qed

lemma body_of_checked:
  "totals_match body \<Longrightarrow> body_of (rb_proof_class body) (as_i64 (rb_reward body)) (rb_total_fees body) (rb_transactions body)
    = body\<lparr>rb_block_bytes := 0\<rparr>"
proof -
  assume t: "totals_match body"
  then have "rb_logical_transactions body = of_nat (length (rb_transactions body))"
    by (simp add: totals_match_def Let_def) (metis of_nat_of_unat)
  with t show ?thesis by (simp add: body_of_def totals_match_def Let_def)
qed

section \<open>A body written and read\<close>

lemma body_written:
  assumes wf: "wf_db c" and b: "b \<in> set (blocks c)" "b_id b = bid" "b_height b = as_i64 height" "b_hash b = hash"
    and none: "\<And>t. t \<in> set (transactions c) \<Longrightarrow> t_block_id t \<noteq> bid" and cls: "b_proof_class b = None"
    and check: "check_body tree lib body root = Inr u"
  shows "body_from_db (mark_body_recovered (insert_transactions c bid body) bid source) height hash
    = Inr (Some (body\<lparr>rb_block_bytes := 0\<rparr>))"
proof -
  let ?txs = "rb_transactions body"
  let ?rows = "update_where (\<lambda>b. b_id b = bid) (body_columns body) (blocks c)"
  let ?c0 = "c\<lparr>blocks := ?rows\<rparr>"
  define c1 where "c1 = mark_body_recovered (insert_transactions c bid body) bid source"
  have strays: "no_strays ?c0" using wf_no_strays [OF wf] by (simp add: no_strays_def)
  obtain ts where ts: "transactions (insert_transactions c bid body) = transactions c @ ts"
    "map t_position ts = map (\<lambda>tx. uint (tx_position tx)) ?txs" "\<forall>t \<in> set ts. t_block_id t = bid"
    "read_transactions (insert_transactions c bid body) ts = Inr ?txs"
    using insert_all_reads [OF strays _ checked_body(2) [OF check], of bid] none checked_body(3) [OF check]
    by (auto simp: insert_transactions_def)
  have tables: "transactions c1 = transactions c @ ts" "page_hashes c1 = page_hashes (insert_transactions c bid body)"
    "inputs c1 = inputs (insert_transactions c bid body)" "outputs c1 = outputs (insert_transactions c bid body)"
    using ts(1) by (simp_all add: c1_def mark_body_recovered_def)
  have "read_transaction c1 t = read_transaction (insert_transactions c bid body) t" for t
    by (simp add: read_transaction_def tables)
  then have read: "read_transactions c1 ts = Inr ?txs" using ts(4) read_transactions_cong [of ts c1 "insert_transactions c bid body"] by simp
  have "filter (\<lambda>t. t_block_id t = bid) (transactions c @ ts) = ts" using none ts(3) by (simp add: filter_empty_conv)
  moreover have "sort_key t_position ts = ts"
    using sort_key_enumerated [of t_position ts 0 "length ?txs"] ts(2) checked_body(1) [OF check] by simp
  ultimately have sorted: "sort_key t_position (filter (\<lambda>t. t_block_id t = bid) (transactions c1)) = ts" by (simp add: tables)
  let ?new = "\<lambda>b. (body_columns body b)\<lparr>b_body_captured := True, b_body_source := Some source\<rparr>"
  have blocks1: "blocks c1 = update_where (\<lambda>b. b_id b = bid) ?new (blocks c)"
    by (auto simp: c1_def mark_body_recovered_def blocks_insert_transactions update_where_def body_columns_def)
  have keys: "distinct (map block_key (blocks c1))"
    using wf by (simp add: blocks1 map_update_where body_columns_def block_key_def wf_db_def wf_blocks_def)
  have new: "?new b \<in> set (blocks c1)" using b(1,2) by (auto simp: blocks1 in_update_where)
  have found: "find (\<lambda>b. b_height b = as_i64 height \<and> b_hash b = hash \<and> b_body_captured b) (blocks c1) = Some (?new b)"
    by (rule find_unique [OF keys new]) (use b(3,4) in \<open>simp_all add: block_key_def body_columns_def\<close>)
  have "body_from_db c1 height hash = Inr (Some (body_of (rb_proof_class body) (as_i64 (rb_reward body)) (rb_total_fees body) ?txs))"
    using sorted read b(2) cls by (simp add: body_from_db_def found body_columns_def)
  then show ?thesis unfolding c1_def body_of_checked [OF checked_body(4) [OF check]] .
qed

end
