(* ===== verification/Fill_Gaps.thy ===== *)
theory Fill_Gaps
  imports Body_Roundtrip
begin

text \<open>
  What filling gaps achieves: a stored body reads back as it was, an offered body is taken only when it
  fits the header on record, what one permanode hands over is what the next hands on, and whatever the
  sources offer the archive keeps its invariant and its evidence. The raw block archive returns the
  bytes that were stored.
\<close>

section \<open>Storing and reading a block\<close>

lemma stored_reads_back:
  assumes wf: "wf_db c" and new: "(as_i64 (h_height (d_header d)), h_hash (d_header d)) \<notin> block_key ` set (blocks c)"
    and unknown: "\<not> known_canonical c (d_header d)" and body: "d_retained d = Some body"
    and check: "check_body tree lib body root = Inr u" and store: "store_block c d source now = Inr c'"
    and src: "source \<noteq> HEADER_ONLY_SOURCE"
  shows "body_from_db c' (h_height (d_header d)) (h_hash (d_header d)) = Inr (Some (body\<lparr>rb_block_bytes := 0\<rparr>))"
proof -
  let ?h = "d_header d"
  obtain c0 bid where row: "insert_block_header_row c ?h True (Some source) now = (c0, bid)" "c' = insert_transactions c0 bid body"
    by (rule store_block_new [OF wf unknown store]) (use body in auto)
  have wb: "wf_blocks (blocks c)" using wf by (simp add: wf_db_def)
  let ?b = "header_row bid ?h True (Some source) now"
  have "bid = next_rowid (map b_id (blocks c)) \<and> c0 = append_status (c\<lparr>blocks := blocks c @ [?b]\<rparr>) bid Canonical now"
  proof (rule insert_block_header_row_unfold [OF wb, of ?h True "Some source" now])
    fix b assume "b \<in> set (blocks c)" "block_key b = (as_i64 (h_height ?h), h_hash ?h)"
    with new show ?thesis by (metis imageI)
  next
    fix i assume "i = next_rowid (map b_id (blocks c))" "insert_block_header_row c ?h True (Some source) now
      = (append_status (c\<lparr>blocks := blocks c @ [header_row i ?h True (Some source) now]\<rparr>) i Canonical now, i)"
    with row(1) show ?thesis by (metis prod.inject)
  qed
  then have r: "bid = next_rowid (map b_id (blocks c))" "c0 = append_status (c\<lparr>blocks := blocks c @ [?b]\<rparr>) bid Canonical now"
    by simp_all
  have "bid \<notin> b_id ` set (blocks c)" unfolding r(1) using next_rowid_not_in [of "map b_id (blocks c)"] by simp
  then have none: "t_block_id t \<noteq> bid" if "t \<in> set (transactions c0)" for t
    using wf that by (auto simp: r(2) append_status_def wf_db_def wf_txs_def block_sig_def image_iff)
  have "no_header_only c ?h" unfolding no_header_only_def using new by (metis imageI)
  then have wf0: "wf_db c0" using insert_block_header_row_ok(1) [OF wf, of "Some source" ?h _ True now] src row(1) by auto
  have b: "?b \<in> set (blocks c0)" "b_id ?b = bid" "b_height ?b = as_i64 (h_height ?h)" "b_hash ?b = h_hash ?h" "b_proof_class ?b = None"
    by (simp_all add: r(2) header_row_def)
  have "x\<lparr>b_body_captured := True, b_body_source := Some source\<rparr> = x" if x: "x \<in> set (blocks c')" "b_id x = bid" for x
  proof -
    obtain y where y: "y \<in> set (blocks c0)" "x = (if b_id y = bid then body_columns body y else y)"
      using x(1) by (auto simp: row(2) blocks_insert_transactions in_update_where)
    then have "b_id y = bid" using x(2) by (auto split: if_splits)
    with y(1) \<open>bid \<notin> _\<close> have "y = ?b" by (auto simp: r(2))
    with y(2) show ?thesis by (simp add: body_columns_def header_row_def)
  qed
  then have "update_where (\<lambda>b. b_id b = bid) (\<lambda>b. b\<lparr>b_body_captured := True, b_body_source := Some source\<rparr>) (blocks c') = blocks c'"
    by (auto simp: update_where_def intro: map_idI)
  then have "mark_body_recovered c' bid source = c'" by (simp add: mark_body_recovered_def)
  then show ?thesis
    using body_written [OF wf0 b(1-4) none b(5) check, of source] by (simp add: row(2))
qed

text \<open>The block is a plain gap: nothing of a body was recorded for it.\<close>

definition plain_gap :: "db \<Rightarrow> int \<Rightarrow> bool" where
  "plain_gap c bid \<longleftrightarrow> list_all (\<lambda>t. t_block_id t \<noteq> bid) (transactions c)
     \<and> list_all (\<lambda>b. b_id b = bid \<longrightarrow> b_proof_class b = None) (blocks c)"

section \<open>A concrete gap\<close>

definition sample_tree :: tree_lib where
  "sample_tree = \<lparr>root_from_hashes = (\<lambda>txids. [120]), hex_decode = (\<lambda>s. Some (replicate 32 0))\<rparr>"

lemma sample_body_fits: "check_body sample_tree sample_lib sample_retained ''x'' = Inr ()"
  by code_simp

definition sample_gap :: db where
  "sample_gap = record_gap_block sample_db (pruned_details 6 ''B'') ''body pruned'' ''t2''"

definition sample_theirs :: db where
  "sample_theirs = stored sample_db (store_block sample_db (sample_details 6 ''B'') ''details'' ''t2'')"

lemma wf_sample_gap: "wf_db sample_gap"
proof -
  have "no_header_only sample_db (d_header (pruned_details 6 ''B''))" by code_simp
  then show ?thesis
    using op_record_gap_block.keeps_wf [OF wf_sample, of "(pruned_details 6 ''B'', ''body pruned'', ''t2'')"]
    by (simp add: sample_gap_def)
qed

lemma sample_theirs: "store_block sample_db (sample_details 6 ''B'') ''details'' ''t2'' = Inr sample_theirs"
  by (simp add: sample_theirs_def store_block_def sample_details_def Let_def)

lemma sample_new: "(as_i64 (h_height (d_header (sample_details 6 ''B''))), h_hash (d_header (sample_details 6 ''B''))) \<notin> block_key ` set (blocks sample_db)"
  "\<not> known_canonical sample_db (d_header (sample_details 6 ''B''))" "d_retained (sample_details 6 ''B'') = Some sample_retained"
  by code_simp+

lemma sample_gap_facts: "canonical_hash_at sample_gap 6 = Some (2, ''B'')" "uncaptured_block_id sample_gap 6 ''B'' = Some 2"
  "plain_gap sample_gap 2" "map_option b_tx_root (block_with_id sample_gap 2) = Some ''x''"
  by code_simp+
text \<open>The gap at height 6, filled with a body as it was offered.\<close>

definition sample_run :: "retained_block_info \<Rightarrow> unit \<times> (db \<times> fill_outcome) result" where
  "sample_run body = fill_gap sample_tree sample_lib ''peer'' ''recovered'' False
     (\<lambda>s h ha. (s, Inr (Some (Body body)))) ''t3'' 6 sample_gap ()"

definition sample_filled :: "retained_block_info \<Rightarrow> db" where
  "sample_filled body = fst (projr (snd (sample_run body)))"

lemma sample_runs: "sample_run sample_retained = ((), Inr (sample_filled sample_retained, Imported))"
  "sample_run (sample_retained\<lparr>rb_block_bytes := 0\<rparr>) = ((), Inr (sample_filled (sample_retained\<lparr>rb_block_bytes := 0\<rparr>), Imported))"
proof -
  have run: "sample_run body = ((), Inr (sample_filled body, Imported))"
    if "\<not> isl (snd (sample_run body))" "snd (projr (snd (sample_run body))) = Imported" for body
    using that inr_pair [of "snd (sample_run body)"] by (intro prod_eqI) (simp_all add: sample_filled_def)
  show "sample_run sample_retained = ((), Inr (sample_filled sample_retained, Imported))"
    by (rule run) code_simp+
  show "sample_run (sample_retained\<lparr>rb_block_bytes := 0\<rparr>) = ((), Inr (sample_filled (sample_retained\<lparr>rb_block_bytes := 0\<rparr>), Imported))"
    by (rule run) code_simp+
qed

lemma sample_travels:
  "body_from_db sample_theirs 6 ''B'' = Inr (Some (sample_retained\<lparr>rb_block_bytes := 0\<rparr>))"
  "fill_gap sample_tree sample_lib ''peer'' ''recovered'' False (\<lambda>s h ha. (s, offer_from_db sample_lib False sample_theirs h ha)) ''t3'' 6
     sample_gap () = ((), Inr (sample_filled (sample_retained\<lparr>rb_block_bytes := 0\<rparr>), Imported))"
proof -
  show b: "body_from_db sample_theirs 6 ''B'' = Inr (Some (sample_retained\<lparr>rb_block_bytes := 0\<rparr>))"
    using stored_reads_back [OF wf_sample sample_new sample_body_fits sample_theirs]
    by (simp add: sample_details_def sample_header_def HEADER_ONLY_SOURCE_def)
  then have "offer_from_db sample_lib False sample_theirs 6 ''B'' = Inr (Some (Body (sample_retained\<lparr>rb_block_bytes := 0\<rparr>)))"
    by (simp add: offer_from_db_def)
  then show "fill_gap sample_tree sample_lib ''peer'' ''recovered'' False (\<lambda>s h ha. (s, offer_from_db sample_lib False sample_theirs h ha)) ''t3'' 6
     sample_gap () = ((), Inr (sample_filled (sample_retained\<lparr>rb_block_bytes := 0\<rparr>), Imported))"
    using sample_runs(2) by (simp add: sample_run_def fill_gap_def sample_gap_facts(1,2) cong: option.case_cong)
qed

text \<open>
  C10. A block stored with its body is read back with every field of it, except the wire length, which
  is not recorded: the tables hold the whole body.
\<close>
theorem stored_body_reads_back:
  assumes "wf_db c" "(as_i64 (h_height (d_header d)), h_hash (d_header d)) \<notin> block_key ` set (blocks c)"
    and "\<not> known_canonical c (d_header d)" "d_retained d = Some body" "check_body tree lib body root = Inr u"
    and "store_block c d source now = Inr c'" "source \<noteq> HEADER_ONLY_SOURCE"
  shows "body_from_db c' (h_height (d_header d)) (h_hash (d_header d)) = Inr (Some (body\<lparr>rb_block_bytes := 0\<rparr>))"
  by (rule stored_reads_back [OF assms])

theorem stored_body_reads_back_witness:
  "body_from_db sample_theirs 6 ''B'' = Inr (Some (sample_retained\<lparr>rb_block_bytes := 0\<rparr>))"
  using stored_body_reads_back [OF wf_sample sample_new sample_body_fits sample_theirs]
  by (simp add: sample_details_def sample_header_def HEADER_ONLY_SOURCE_def)

section \<open>Filling a gap\<close>

lemma fill_gap_imports:
  assumes "fill_gap tree lib source resolution keep find_offer now height c s = (s', Inr (c', Imported))"
  obtains i hash bid b off body raw where "canonical_hash_at c height = Some (i, hash)" "uncaptured_block_id c height hash = Some bid"
    "block_with_id c bid = Some b" "find_offer s height hash = (s', Inr (Some off))"
    "offered_body lib height hash off = Inr (body, raw)" "check_body tree lib body (b_tx_root b) = Inr ()"
    "take_body lib c height hash bid body raw source resolution keep now = Inr c'"
  using assms
  by (auto simp: fill_gap_def and_then_Inr_iff split: option.splits prod.splits sum.splits)

lemma fill_gap_leaves:
  "fill_gap tree lib source resolution keep find_offer now height c s = (s', Inr (c', out)) \<Longrightarrow> out = Imported \<or> c' = c"
  by (auto simp: fill_gap_def and_then_Inr_iff split: option.splits prod.splits sum.splits)

text \<open>Taking a body over is writing it, with operations around it that keep the bodies.\<close>

lemma take_body_steps:
  assumes "take_body lib c height hash bid body raw source resolution keep now = Inr c'"
  obtains c1 c2 where "c1 = mark_body_recovered (insert_transactions c bid body) bid source"
    "c2 = c1 \<or> (\<exists>bytes. c2 = record_contract_flags lib c1 height hash (Some bytes))
      \<or> (\<exists>bytes. c2 = committed (record_contract_flags lib c1 height hash (Some bytes))
           (store_raw lib (record_contract_flags lib c1 height hash (Some bytes)) height hash bytes source now))"
    "c' = resolve_gap c2 height now resolution"
proof -
  let ?c1 = "mark_body_recovered (insert_transactions c bid body) bid source"
  show thesis
  proof (cases raw)
    case None
    with assms show thesis by (intro that [of ?c1 ?c1]) (simp_all add: take_body_def Let_def)
  next
    case (Some bytes)
    let ?c2 = "record_contract_flags lib ?c1 height hash (Some bytes)"
    show thesis
    proof (cases keep)
      case True
      with assms Some obtain c2 x where "store_raw lib ?c2 height hash bytes source now = Inr (c2, x)" "c' = resolve_gap c2 height now resolution"
        by (auto simp: take_body_def Let_def and_then_Inr_iff)
      then have "c2 = committed ?c2 (store_raw lib ?c2 height hash bytes source now)" by simp
      with \<open>c' = _\<close> show thesis by (intro that [of ?c1 c2]) blast+
    next
      case False
      with assms Some show thesis by (intro that [of ?c1 ?c2]) (auto simp: take_body_def Let_def)
    qed
  qed
qed

lemma take_body_reads:
  assumes "take_body lib c height hash bid body raw source resolution keep now = Inr c'"
  shows "body_from_db c' h ha = body_from_db (mark_body_recovered (insert_transactions c bid body) bid source) h ha"
proof (rule take_body_steps [OF assms])
  fix c1 c2
  assume c: "c1 = mark_body_recovered (insert_transactions c bid body) bid source"
    "c2 = c1 \<or> (\<exists>bytes. c2 = record_contract_flags lib c1 height hash (Some bytes))
      \<or> (\<exists>bytes. c2 = committed (record_contract_flags lib c1 height hash (Some bytes))
           (store_raw lib (record_contract_flags lib c1 height hash (Some bytes)) height hash bytes source now))"
    "c' = resolve_gap c2 height now resolution"
  have flags: "body_from_db (record_contract_flags lib x height hash r) h ha = body_from_db x h ha" for x r
    using kb_flags.reads_same [of "(lib, height, hash, r)" x] by simp
  have raw: "body_from_db (committed x (store_raw lib x height hash bytes source now)) h ha = body_from_db x h ha" for x bytes
    using kb_raw.reads_same [of "(lib, height, hash, bytes, source, now)" x] by simp
  have "body_from_db c' h ha = body_from_db c2 h ha"
    using kb_resolve.reads_same [of "(height, now, resolution)" c2] by (simp add: c(3))
  also have "\<dots> = body_from_db c1 h ha" using c(2) by (auto simp: flags raw)
  finally show ?thesis by (simp add: c(1))
qed

lemma uncaptured_row:
  assumes "wf_db c" "uncaptured_block_id c height hash = Some bid" "block_with_id c bid = Some b"
  shows "b \<in> set (blocks c)" "b_id b = bid" "b_height b = as_i64 height" "b_hash b = hash"
proof -
  obtain x where "find (\<lambda>b. b_height b = as_i64 height \<and> b_hash b = hash \<and> \<not> b_body_captured b \<and> archived b) (blocks c) = Some x"
    "b_id x = bid" using assms(2) by (auto simp: uncaptured_block_id_def)
  then have x: "x \<in> set (blocks c)" "b_id x = bid" "b_height x = as_i64 height" "b_hash x = hash" by (auto simp: find_Some_iff)
  have b: "b \<in> set (blocks c)" "b_id b = bid" using assms(3) by (auto simp: block_with_id_def find_Some_iff)
  have "b = x" using assms(1) b x(1,2) by (auto simp: wf_db_def wf_blocks_def distinct_map inj_on_def)
  with b x show "b \<in> set (blocks c)" "b_id b = bid" "b_height b = as_i64 height" "b_hash b = hash" by simp_all
qed

lemma imported_reads_back:
  assumes wf: "wf_db c" and run: "fill_gap tree lib source resolution keep find_offer now height c s = (s', Inr (c', Imported))"
    and hash: "canonical_hash_at c height = Some (i, hash)" and bid: "uncaptured_block_id c height hash = Some bid"
    and plain: "plain_gap c bid"
  obtains b off body raw where "block_with_id c bid = Some b" "find_offer s height hash = (s', Inr (Some off))"
    "offered_body lib height hash off = Inr (body, raw)" "check_body tree lib body (b_tx_root b) = Inr ()"
    "body_from_db c' height hash = Inr (Some (body\<lparr>rb_block_bytes := 0\<rparr>))"
proof -
  obtain b off body raw where r: "block_with_id c bid = Some b" "find_offer s height hash = (s', Inr (Some off))"
    "offered_body lib height hash off = Inr (body, raw)" "check_body tree lib body (b_tx_root b) = Inr ()"
    "take_body lib c height hash bid body raw source resolution keep now = Inr c'"
    by (rule fill_gap_imports [OF run]) (use hash bid in auto)
  note b = uncaptured_row [OF wf bid r(1)]
  have "b_proof_class b = None" "t \<in> set (transactions c) \<Longrightarrow> t_block_id t \<noteq> bid" for t
    using plain b(1,2) by (auto simp: plain_gap_def list_all_iff)
  with body_written [OF wf b _ _ r(4), of source] take_body_reads [OF r(5), of height hash]
  have "body_from_db c' height hash = Inr (Some (body\<lparr>rb_block_bytes := 0\<rparr>))" by simp
  with r(1-4) show thesis by (rule that)
qed

lemma resolved_rows:
  "filter (\<lambda>g. g_height g = k \<and> g_resolved_at g = None) (update_where (\<lambda>g. g_height g = k \<and> g_resolved_at g = None)
     (\<lambda>g. g\<lparr>g_resolved_at := Some now, g_resolution := Some resolution\<rparr>) gs) = []"
  by (induction gs) (simp_all add: update_where_def)

lemma no_open_row: "filter (\<lambda>g. g_height g = k \<and> g_resolved_at g = None) gs = [] \<Longrightarrow> k \<notin> g_height ` {g \<in> set gs. g_resolved_at g = None}"
  by (induction gs) (auto split: if_splits)

lemma resolve_closes: "as_i64 height \<notin> g_height ` {g \<in> set (gaps (resolve_gap c height now resolution)). g_resolved_at g = None}"
  by (rule no_open_row) (simp add: resolve_gap_def resolved_rows)

text \<open>
  C9. A gap is filled only with a body that fits the header on record, and then completely: the body
  read back passes the check against the block's own \<open>tx_root\<close>, and the gap entry is closed.
\<close>
theorem imported_body_fits_the_header:
  assumes wf: "wf_db c" and run: "fill_gap tree lib source resolution keep find_offer now height c s = (s', Inr (c', Imported))"
    and hash: "canonical_hash_at c height = Some (i, hash)" and bid: "uncaptured_block_id c height hash = Some bid"
    and plain: "plain_gap c bid" and b: "block_with_id c bid = Some b"
  shows "(\<exists>body. body_from_db c' height hash = Inr (Some body) \<and> check_body tree lib body (b_tx_root b) = Inr ())
    \<and> as_i64 height \<notin> g_height ` {g \<in> set (gaps c'). g_resolved_at g = None}"
proof
  show "\<exists>body. body_from_db c' height hash = Inr (Some body) \<and> check_body tree lib body (b_tx_root b) = Inr ()"
  proof (rule imported_reads_back [OF wf run hash bid plain])
    fix b' body assume "block_with_id c bid = Some b'" "check_body tree lib body (b_tx_root b') = Inr ()"
      "body_from_db c' height hash = Inr (Some (body\<lparr>rb_block_bytes := 0\<rparr>))"
    moreover have "totals_match (body\<lparr>rb_block_bytes := 0\<rparr>) = totals_match body" by (simp add: totals_match_def Let_def)
    then have "check_body tree lib (body\<lparr>rb_block_bytes := 0\<rparr>) root = check_body tree lib body root" for root
      by (simp add: check_body_def Let_def)
    ultimately show ?thesis using b by (intro exI [of _ "body\<lparr>rb_block_bytes := 0\<rparr>"]) simp
  qed
  obtain c2 where "c' = resolve_gap c2 height now resolution"
    by (rule fill_gap_imports [OF run], erule take_body_steps) (rule that)
  then show "as_i64 height \<notin> g_height ` {g \<in> set (gaps c'). g_resolved_at g = None}"
    using resolve_closes by simp
qed

theorem imported_body_fits_the_header_witness:
  "(\<exists>body. body_from_db (sample_filled sample_retained) 6 ''B'' = Inr (Some body) \<and> check_body sample_tree sample_lib body ''x'' = Inr ())
   \<and> as_i64 6 \<notin> g_height ` {g \<in> set (gaps (sample_filled sample_retained)). g_resolved_at g = None}"
proof -
  obtain b where "block_with_id sample_gap 2 = Some b" "b_tx_root b = ''x''" using sample_gap_facts(4) by auto
  with imported_body_fits_the_header [OF wf_sample_gap sample_runs(1) [unfolded sample_run_def] sample_gap_facts(1-3)] show ?thesis by auto
qed

text \<open>
  A body travels unchanged: what one permanode's database hands over for a gap is, once imported,
  exactly what the importing permanode hands on.
\<close>
theorem bodies_travel_unchanged:
  assumes wf: "wf_db c" and hash: "canonical_hash_at c height = Some (i, hash)"
    and bid: "uncaptured_block_id c height hash = Some bid" and plain: "plain_gap c bid"
    and theirs: "body_from_db theirs height hash = Inr (Some body)"
    and run: "fill_gap tree lib source resolution keep (\<lambda>s h ha. (s, offer_from_db lib False theirs h ha)) now height c s
      = (s', Inr (c', Imported))"
  shows "body_from_db c' height hash = Inr (Some body)"
proof (rule imported_reads_back [OF wf run hash bid plain])
  fix off body' raw
  assume off: "(s, offer_from_db lib False theirs height hash) = (s', Inr (Some off))"
    and body': "offered_body lib height hash off = Inr (body', raw)"
    and read: "body_from_db c' height hash = Inr (Some (body'\<lparr>rb_block_bytes := 0\<rparr>))"
  have "body' = body" using off body' theirs by (auto simp: offer_from_db_def offered_body_def)
  moreover have "rb_block_bytes body = 0"
    using theirs by (auto simp: body_from_db_def body_of_def and_then_Inr_iff split: option.splits)
  then have "body\<lparr>rb_block_bytes := 0\<rparr> = body" by simp
  ultimately show ?thesis using read by simp
qed

theorem bodies_travel_unchanged_witness:
  "body_from_db (sample_filled (sample_retained\<lparr>rb_block_bytes := 0\<rparr>)) 6 ''B'' = body_from_db sample_theirs 6 ''B''"
  using bodies_travel_unchanged [OF wf_sample_gap sample_gap_facts(1-3) sample_travels] sample_travels(1) by simp

section \<open>Whatever is offered\<close>

lemma take_body_ok:
  assumes wf: "wf_db c" and ab: "archived_block c bid" and src: "source \<noteq> HEADER_ONLY_SOURCE"
    and t: "take_body lib c height hash bid body raw source resolution keep now = Inr c'"
  shows "step_ok c c'"
proof (rule take_body_steps [OF t])
  fix c1 c2
  assume c: "c1 = mark_body_recovered (insert_transactions c bid body) bid source"
    "c2 = c1 \<or> (\<exists>bytes. c2 = record_contract_flags lib c1 height hash (Some bytes))
      \<or> (\<exists>bytes. c2 = committed (record_contract_flags lib c1 height hash (Some bytes))
           (store_raw lib (record_contract_flags lib c1 height hash (Some bytes)) height hash bytes source now))"
    "c' = resolve_gap c2 height now resolution"
  let ?c0 = "insert_transactions c bid body"
  have s0: "step_ok c ?c0" using b_insert_transactions.ok [OF wf, of "(bid, body)"] ab by simp
  have "archived_block ?c0 bid" using ab by (simp add: archived_block_def)
  then have "step_ok ?c0 c1"
    using b_mark_body_recovered.ok [OF step_ok_wf [OF s0], of "(bid, source)"] src by (simp add: c(1))
  with s0 have s1: "step_ok c c1" by (rule step_ok_trans)
  have flags: "step_ok c1 (record_contract_flags lib c1 height hash r)" for r
    using b_record_contract_flags.ok [OF step_ok_wf [OF s1], of "(lib, height, hash, r)"] by simp
  have raw: "step_ok x (committed x (store_raw lib x height hash bytes source now))" if "wf_db x" for x bytes
    using b_store_raw.ok [OF that, of "(lib, height, hash, bytes, source, now)"] by simp
  have "step_ok c1 c2"
    using c(2) step_ok_refl [OF step_ok_wf [OF s1]] flags step_ok_trans [OF flags raw [OF step_ok_wf [OF flags]]] by auto
  with s1 have s2: "step_ok c c2" by (rule step_ok_trans)
  have "step_ok c2 c'" using b_resolve_gap.ok [OF step_ok_wf [OF s2], of "(height, now, resolution)"] by (simp add: c(3))
  with s2 show ?thesis by (rule step_ok_trans)
qed

lemma fill_gap_ok:
  assumes "wf_db c" "source \<noteq> HEADER_ONLY_SOURCE"
    and "fill_gap tree lib source resolution keep find_offer now height c s = (s', Inr (c', out))"
  shows "step_ok c c'"
proof (cases "out = Imported")
  case True
  show ?thesis
    by (rule fill_gap_imports [OF assms(3) [unfolded True]])
      (use take_body_ok [OF assms(1) uncaptured_archived assms(2)] in blast)
next
  case False
  with fill_gap_leaves [OF assms(3)] assms(1) show ?thesis by (simp add: step_ok_refl)
qed

lemma fill_gap_loop_ok:
  "wf_db c \<Longrightarrow> source \<noteq> HEADER_ONLY_SOURCE \<Longrightarrow>
     step_ok c (fst (fill_gap_loop tree lib source resolution keep find_offer clk hs c s r))"
proof (induction hs arbitrary: c s r)
  case (Cons h hs)
  obtain s' res where f: "fill_gap tree lib source resolution keep find_offer (clk h) h c s = (s', res)" by fastforce
  show ?case
  proof (cases res)
    case (Inr x)
    obtain c' out where x: "x = (c', out)" by (cases x)
    from f Inr x have "fill_gap tree lib source resolution keep find_offer (clk h) h c s = (s', Inr (c', out))" by simp
    from fill_gap_ok [OF Cons.prems this] have s: "step_ok c c'" .
    from step_ok_trans [OF s Cons.IH [OF step_ok_wf [OF s] Cons.prems(2)]] f Inr x show ?thesis by simp
  qed (simp add: f step_ok_refl Cons.prems)
qed (simp add: step_ok_refl)

text \<open>
  Whatever a source or a peer offers, and wherever the run ends, filling gaps keeps the database
  invariant and all evidence.
\<close>
theorem filling_gaps_keeps_the_archive:
  assumes "wf_db c" "source \<noteq> HEADER_ONLY_SOURCE"
  shows "wf_db (fst (fill_gaps tree lib limit source resolution keep find_offer clk now c s))
    \<and> evidence_le c (fst (fill_gaps tree lib limit source resolution keep find_offer clk now c s))"
proof -
  let ?start = "\<lparr>ir_gaps = length (open_gap_heights c 0), ir_imported = 0, ir_not_in_source = 0, ir_rejected = 0, ir_flags_cleared = 0\<rparr>"
  obtain c1 s1 r where l: "fill_gap_loop tree lib source resolution keep find_offer clk (take limit (open_gap_heights c 0)) c s ?start = (c1, s1, r)"
    by (metis prod_cases3)
  have one: "wf_db c1" "evidence_le c c1"
    using fill_gap_loop_ok [OF assms, of tree lib resolution keep find_offer clk "take limit (open_gap_heights c 0)" s ?start]
    by (simp_all add: l step_ok_def)
  define c2 where "c2 = fst (clear_spent_in_gap_with_recorded_spend c1)"
  have two: "wf_db c2" "evidence_le c1 c2"
    using op_clear_spent_in_gap.keeps_wf [OF one(1)] op_clear_spent_in_gap.keeps_evidence [OF one(1)] by (simp_all add: c2_def)
  define c3 where "c3 = fst (resolve_gaps_with_bodies c2 now)"
  have three: "wf_db c3" "evidence_le c2 c3"
    using op_resolve_gaps_with_bodies.keeps_wf [OF two(1), of now] op_resolve_gaps_with_bodies.keeps_evidence [OF two(1), of now]
    by (simp_all add: c3_def)
  have "fst (fill_gaps tree lib limit source resolution keep find_offer clk now c s) \<in> {c1, c3}"
    by (auto simp: fill_gaps_def Let_def l c2_def c3_def split: sum.splits prod.splits)
  with one three evidence_trans [OF one(2) evidence_trans [OF two(2) three(2)]] show ?thesis by auto
qed

theorem filling_gaps_keeps_the_archive_witness:
  "wf_db (fst (fill_gaps sample_tree sample_lib 10 ''peer'' ''recovered'' True (\<lambda>s h ha. (s, Inr (Some (Body sample_retained))))
      (\<lambda>h. ''t3'') ''t4'' sample_gap ()))
   \<and> evidence_le sample_gap (fst (fill_gaps sample_tree sample_lib 10 ''peer'' ''recovered'' True
      (\<lambda>s h ha. (s, Inr (Some (Body sample_retained)))) (\<lambda>h. ''t3'') ''t4'' sample_gap ()))"
  by (rule filling_gaps_keeps_the_archive [OF wf_sample_gap]) (simp add: HEADER_ONLY_SOURCE_def)

section \<open>The raw block archive\<close>

lemma singleton_list: "distinct xs \<Longrightarrow> set xs = {x} \<Longrightarrow> xs = [x]"
proof (cases xs)
  case (Cons y ys)
  assume "distinct xs" "set xs = {x}"
  with Cons show ?thesis by (cases ys) auto
qed simp

text \<open>
  The raw archive gives back what it was given: bytes that were stored load as exactly those bytes,
  if decompressing undoes compressing and no block is longer than a 63-bit count.
\<close>
theorem stored_raw_bytes_load:
  assumes wf: "wf_db c" and store: "store_raw lib c height hash bytes source now = Inr (c', True)"
    and zlib: "zlib_compress lib bytes = Inr packed" "zlib_decompress lib packed = Inr bytes"
    and small: "max_block_bytes lib < 2 ^ 63"
  shows "load_raw lib c' height hash = Inr (Some bytes)"
proof -
  obtain bid where bid: "block_id_of c height hash = Some bid" "\<not> has_raw_block c bid" "verify_raw lib bytes height hash = Inr ()"
    and c': "c' = insert_raw_block c bid CODEC (of_nat (length bytes)) packed source now"
    using store zlib(1) by (auto simp: store_raw_def and_then_Inr_iff split: option.splits if_splits)
  let ?P = "\<lambda>b. b_height b = as_i64 height \<and> b_hash b = hash"
  obtain b where "find ?P (blocks c) = Some b" and id: "b_id b = bid" using bid(1) by (auto simp: block_id_of_def)
  then have b: "b \<in> set (blocks c)" "?P b" by (auto simp: find_Some_iff)
  have unique: "x = b" if "x \<in> set (blocks c)" "?P x" for x
    using wf that b by (auto simp: wf_db_def wf_blocks_def distinct_map inj_on_def block_key_def)
  let ?w = "\<lparr>w_block_id = bid, w_codec = CODEC, w_raw_len = as_i64 (of_nat (length bytes)), w_data = packed, w_source = source,
      w_stored_at = now\<rparr>"
  have rows: "raw_blocks c' = raw_blocks c @ [?w]" "blocks c' = blocks c"
    using bid(2) by (auto simp: c' insert_raw_block_def insert_or_ignore_def has_raw_block_def)
  have none: "filter (\<lambda>x. b_id x = w_block_id w \<and> ?P x) (blocks c) = []" if "w \<in> set (raw_blocks c)" for w
    using that bid(2) unique id by (auto simp: filter_empty_conv has_raw_block_def)
  have "distinct (blocks c)" using wf by (auto simp: wf_db_def wf_blocks_def distinct_map)
  then have one: "filter (\<lambda>x. b_id x = bid \<and> ?P x) (blocks c) = [b]"
  proof -
    have "x \<in> set (filter (\<lambda>x. b_id x = bid \<and> ?P x) (blocks c)) \<longleftrightarrow> x = b" for x
      using b id unique [of x] by (simp only: set_filter mem_Collect_eq) blast
    then have "set (filter (\<lambda>x. b_id x = bid \<and> ?P x) (blocks c)) = {b}" by blast
    moreover have "distinct (filter (\<lambda>x. b_id x = bid \<and> ?P x) (blocks c))" using \<open>distinct (blocks c)\<close> by simp
    ultimately show ?thesis by (intro singleton_list)
  qed
  have len: "length bytes \<le> max_block_bytes lib"
    using bid(3) by (auto simp: verify_raw_def split: if_splits)
  with small have "length bytes < 2 ^ 64" by simp
  then have n: "unat (of_nat (length bytes) :: u64) = length bytes" unfolding unat_of_nat by (simp add: take_bit_nat_eq_self)
  have empty: "concat (map (\<lambda>w. map (\<lambda>b. (w, b)) (filter (\<lambda>x. b_id x = w_block_id w \<and> ?P x) (blocks c))) (raw_blocks c)) = []"
    using none by simp
  have "raw_block c' height hash = Some (CODEC, of_nat (length bytes), packed)"
    unfolding raw_block_def rows map_append concat_append empty append_Nil by (simp add: one)
  then show ?thesis
    using len bid(3) zlib(2) n by (simp add: load_raw_def decompress_def)
qed

theorem stored_raw_bytes_load_witness:
  "load_raw sample_lib (fst (projr (store_raw sample_lib sample_db 5 ''A'' [5, 65, 1] ''details'' ''t2''))) 5 ''A'' = Inr (Some [5, 65, 1])"
proof -
  let ?r = "store_raw sample_lib sample_db 5 ''A'' [5, 65, 1] ''details'' ''t2''"
  have "\<not> isl ?r" "snd (projr ?r)" by code_simp+
  then have "?r = Inr (fst (projr ?r), True)" using inr_pair [of ?r] by simp
  then show ?thesis by (rule stored_raw_bytes_load [OF wf_sample]) (simp_all add: sample_lib_def)
qed

text \<open>
  C27. The check of raw bytes does not cover a missing body: an encoding of just the header passes as the
  block, whatever \<open>tx_root\<close> the header carries, is kept, and then keeps the real bytes out.
\<close>
theorem stripped_bytes_displace_the_block:
  assumes "block_from_bytes lib stripped = Inr \<lparr>bk_header = hdr, bk_transactions = []\<rparr>"
    and "block_to_bytes lib \<lparr>bk_header = hdr, bk_transactions = []\<rparr> = stripped"
    and "ch_height hdr = height" "hex_encode lib (block_id lib hdr) = hash" "length stripped \<le> max_block_bytes lib"
    and "zlib_compress lib stripped = Inr packed" "block_id_of c height hash = Some bid" "\<not> has_raw_block c bid"
  shows "verify_raw lib stripped height hash = Inr ()
    \<and> (\<exists>c'. store_raw lib c height hash stripped source now = Inr (c', True)
         \<and> store_raw lib c' height hash bytes source' now' = Inr (c', False))"
proof -
  have v: "verify_raw lib stripped height hash = Inr ()"
    using assms(1-5) by (simp add: verify_raw_def decode_bound_block_def)
  let ?c = "insert_raw_block c bid CODEC (of_nat (length stripped)) packed source now"
  have s: "store_raw lib c height hash stripped source now = Inr (?c, True)"
    using assms(6-8) v by (simp add: store_raw_def)
  have "block_id_of ?c height hash = Some bid" "has_raw_block ?c bid"
    using assms(7,8) by (auto simp: insert_raw_block_def block_id_of_def has_raw_block_def insert_or_ignore_def)
  then have "store_raw lib ?c height hash bytes source' now' = Inr (?c, False)" by (simp add: store_raw_def)
  with v s show ?thesis by blast
qed

theorem stripped_bytes_displace_the_block_witness:
  "verify_raw sample_lib [5, 65, 0] 5 ''A'' = Inr ()
   \<and> (\<exists>c'. store_raw sample_lib sample_db 5 ''A'' [5, 65, 0] ''peer'' ''t2'' = Inr (c', True)
        \<and> store_raw sample_lib c' 5 ''A'' [5, 65, 1] ''details'' ''t3'' = Inr (c', False))"
proof -
  have "block_id_of sample_db 5 ''A'' = Some 1" "\<not> has_raw_block sample_db 1" "char_of (65::nat) = CHR ''A''" by code_simp+
  then show ?thesis
    by (intro stripped_bytes_displace_the_block [where hdr = "bk_header (sample_block 5 65 0)" and packed = "[0, 65, 5]" and bid = 1])
      (simp_all add: sample_lib_def sample_block_def)
qed

end
