(* ===== verification/Serve_Spec.thy ===== *)
theory Serve_Spec
  imports Serve Fill_Gaps
begin

text \<open>
  What the API server's figures rest on: the binary search rebuilds the state size of every block, the
  history served from the cache is the history a fresh walk would give, and the peer endpoint offers
  what a copy of the database would.
\<close>

section \<open>Expansion heights\<close>

text \<open>The permanent headers: every height up to the tip has one, and the state never shrinks.\<close>

definition headers_served :: "node \<Rightarrow> (u64 \<Rightarrow> u32) \<Rightarrow> u64 \<Rightarrow> bool" where
  "headers_served rpc size_at tip \<longleftrightarrow>
     (\<forall>h. 1 \<le> h \<and> h \<le> tip \<longrightarrow> header_log_slots rpc h = Some (size_at h))
     \<and> (\<forall>h h'. 1 \<le> h \<and> h \<le> h' \<and> h' \<le> tip \<longrightarrow> size_at h \<le> size_at h')"

lemma mid_between:
  assumes "a < b"
  shows "a \<le> a + (b - a) div 2" "a + (b - a) div 2 < b" "a + (b - a) div 2 + 1 \<le> (b :: u64)"
  using assms by (simp_all add: word_less_nat_alt word_le_nat_alt unat_mid)

lemma search_level_finds:
  assumes served: "headers_served rpc size_at tip"
  shows "1 \<le> a \<Longrightarrow> a \<le> b \<Longrightarrow> b \<le> tip \<Longrightarrow> level \<le> size_at b
    \<Longrightarrow> \<exists>r. search_level (header_log_slots rpc) level a b = Some r \<and> a \<le> r \<and> r \<le> b \<and> level \<le> size_at r
          \<and> (\<forall>h. a \<le> h \<and> h < r \<longrightarrow> size_at h < level)"
proof (induction "header_log_slots rpc" level a b rule: search_level.induct)
  case (1 level a b)
  show ?case
  proof (cases "a < b")
    case True
    let ?mid = "a + (b - a) div 2"
    note m = mid_between [OF True]
    have mid: "header_log_slots rpc ?mid = Some (size_at ?mid)"
    proof -
      have "1 \<le> ?mid" "?mid \<le> tip" using order.trans [OF "1.prems"(1) m(1)] order.trans [OF less_imp_le [OF m(2)] "1.prems"(3)] by simp_all
      with served show ?thesis by (auto simp: headers_served_def)
    qed
    show ?thesis
    proof (cases "level \<le> size_at ?mid")
      case lower: True
      have "\<exists>r. search_level (header_log_slots rpc) level a ?mid = Some r \<and> a \<le> r \<and> r \<le> ?mid \<and> level \<le> size_at r
          \<and> (\<forall>h. a \<le> h \<and> h < r \<longrightarrow> size_at h < level)"
        by (rule "1.hyps"(1) [OF True refl mid lower]) (use "1.prems" m lower in auto)
      then obtain r where r: "search_level (header_log_slots rpc) level a ?mid = Some r" "a \<le> r" "r \<le> ?mid" "level \<le> size_at r"
          "\<forall>h. a \<le> h \<and> h < r \<longrightarrow> size_at h < level" by blast
      moreover have "search_level (header_log_slots rpc) level a b = search_level (header_log_slots rpc) level a ?mid"
        using True mid lower by (subst search_level.simps) (simp add: Let_def)
      ultimately show ?thesis using m by (intro exI [of _ r]) auto
    next
      case upper: False
      have "\<exists>r. search_level (header_log_slots rpc) level (?mid + 1) b = Some r \<and> ?mid + 1 \<le> r \<and> r \<le> b \<and> level \<le> size_at r
          \<and> (\<forall>h. ?mid + 1 \<le> h \<and> h < r \<longrightarrow> size_at h < level)"
      proof (rule "1.hyps"(2) [OF True refl mid upper])
        show "1 \<le> ?mid + 1" using "1.prems" True by (simp add: word_le_nat_alt unat_mid)
      qed (use "1.prems" m in auto)
      then obtain r where r: "search_level (header_log_slots rpc) level (?mid + 1) b = Some r" "?mid + 1 \<le> r" "r \<le> b"
          "level \<le> size_at r" "\<forall>h. ?mid + 1 \<le> h \<and> h < r \<longrightarrow> size_at h < level" by blast
      have "size_at h < level" if "a \<le> h" "h < r" for h
      proof (cases "?mid + 1 \<le> h")
        case True
        with r(5) that show ?thesis by blast
      next
        case False
        then have "h \<le> ?mid" using True by (simp add: word_le_nat_alt word_less_nat_alt unat_mid not_le)
        then have "size_at h \<le> size_at ?mid"
          using served "1.prems" m that(1) unfolding headers_served_def by (meson order.strict_implies_order order.trans)
        with upper show ?thesis by simp
      qed
      moreover have "search_level (header_log_slots rpc) level a b = search_level (header_log_slots rpc) level (?mid + 1) b"
        using True mid upper by (subst search_level.simps) (simp add: Let_def)
      moreover have "a \<le> r" using m r(2) True by (simp add: word_le_nat_alt unat_mid)
      ultimately show ?thesis using r(1,3,4) by (intro exI [of _ r]) simp
    qed
  next
    case False
    with "1.prems" have "a = b" by simp
    with "1.prems" show ?thesis by (subst search_level.simps) auto
  qed
qed

text \<open>The heights for the levels above a size are sorted and count, at every height, how far the state has grown.\<close>

lemma expansion_levels_count:
  assumes served: "headers_served rpc size_at tip"
  shows "1 \<le> lo \<Longrightarrow> lo \<le> tip \<Longrightarrow> n + k = unat (size_at tip) \<Longrightarrow> (\<forall>h. 1 \<le> h \<and> h < lo \<longrightarrow> unat (size_at h) \<le> n)
    \<Longrightarrow> \<exists>hs. expansion_levels (header_log_slots rpc) tip (map of_nat [n + 1..<n + k + 1]) lo = Some hs
          \<and> sorted (map unat hs) \<and> list_all (\<lambda>e. lo \<le> e) hs
          \<and> (\<forall>h. 1 \<le> h \<and> h \<le> tip \<longrightarrow> n + length (filter (\<lambda>e. e \<le> h) hs) = max n (unat (size_at h)))"
proof (induction k arbitrary: n lo)
  case 0
  then show ?case
    using served by (auto simp: headers_served_def word_le_nat_alt max_def intro!: le_antisym)
next
  case (Suc k)
  let ?level = "of_nat (n + 1) :: u32"
  have small: "n + 1 < 2 ^ 32" proof -
    have "n + 1 \<le> unat (size_at tip)" using Suc.prems(3) by simp
    also have "\<dots> < 2 ^ LENGTH(32)" by (rule unsigned_less)
    finally show ?thesis by simp
  qed
  then have level: "unat ?level = n + 1" unfolding unat_of_nat by (simp add: take_bit_nat_eq_self)
  have "?level \<le> size_at tip" using Suc.prems(3) level by (simp add: word_le_nat_alt)
  from search_level_finds [OF served Suc.prems(1,2) order_refl this]
  obtain r where r: "search_level (header_log_slots rpc) ?level lo tip = Some r" "lo \<le> r" "r \<le> tip" "?level \<le> size_at r"
      "\<forall>h. lo \<le> h \<and> h < r \<longrightarrow> size_at h < ?level" by blast
  have below: "unat (size_at h) \<le> n" if "1 \<le> h" "h < r" for h
  proof (cases "lo \<le> h")
    case True
    with r(5) that(2) have "size_at h < ?level" by blast
    then have "unat (size_at h) < n + 1" unfolding word_less_nat_alt level .
    then show ?thesis by simp
  qed (use Suc.prems(4) that in auto)
  have "1 \<le> r" using Suc.prems(1) r(2) by simp
  have "(n + 1) + k = unat (size_at tip)" using Suc.prems(3) by simp
  from Suc.IH [OF \<open>1 \<le> r\<close> r(3) this] below
  obtain hs where hs: "expansion_levels (header_log_slots rpc) tip (map of_nat [n + 1 + 1..<n + 1 + k + 1]) r = Some hs"
      "sorted (map unat hs)" "list_all (\<lambda>e. r \<le> e) hs"
      "\<forall>h. 1 \<le> h \<and> h \<le> tip \<longrightarrow> n + 1 + length (filter (\<lambda>e. e \<le> h) hs) = max (n + 1) (unat (size_at h))"
    by (metis le_Suc_eq Suc_eq_plus1)
  have "[n + 1..<n + Suc k + 1] = (n + 1) # [n + 1 + 1..<n + 1 + k + 1]" by (simp add: upt_conv_Cons)
  then have "expansion_levels (header_log_slots rpc) tip (map of_nat [n + 1..<n + Suc k + 1]) lo = Some (r # hs)"
    using r(1) hs(1) by simp
  moreover have "sorted (map unat (r # hs))" using hs(2,3) by (auto simp: list_all_iff word_le_nat_alt)
  moreover have "list_all (\<lambda>e. lo \<le> e) (r # hs)" using hs(3) r(2) by (auto simp: list_all_iff)
  moreover have "n + length (filter (\<lambda>e. e \<le> h) (r # hs)) = max n (unat (size_at h))" if h: "1 \<le> h" "h \<le> tip" for h
  proof (cases "r \<le> h")
    case True
    then have "size_at r \<le> size_at h" using served h \<open>1 \<le> r\<close> by (auto simp: headers_served_def)
    with r(4) have "n + 1 \<le> unat (size_at h)" using level by (simp add: word_le_nat_alt)
    with hs(4) h True show ?thesis by (auto simp: max_def)
  next
    case False
    then have "filter (\<lambda>e. e \<le> h) hs = []" using hs(3) by (auto simp: list_all_iff filter_empty_conv)
    with False below [OF h(1)] show ?thesis by (simp add: max_def not_le)
  qed
  ultimately show ?case by (intro exI [of _ "r # hs"]) blast
qed

text \<open>
  C29. The binary search over the headers rebuilds the history of the state: counted at any height,
  the expansion heights it finds give back the state size in that block's header, which is what the
  emission total is computed from.
\<close>
theorem expansion_heights_rebuild_the_state_size:
  assumes served: "headers_served rpc size_at tip" and "1 \<le> tip" and genesis: "LOG_SLOTS_GENESIS \<le> size_at 1"
    and stale: "\<forall>hs. cache \<noteq> Some (size_at tip, hs)"
  shows "\<exists>hs. expansion_heights rpc cache (size_at tip) tip = (Some (size_at tip, hs), Some hs)
    \<and> expansion_history hs \<and> (\<forall>k. 1 \<le> k \<and> k \<le> unat tip \<longrightarrow> log_slots_at hs k = size_at (of_nat k))"
proof -
  let ?n = "unat LOG_SLOTS_GENESIS"
  have le: "size_at 1 \<le> size_at h" if "1 \<le> h" "h \<le> tip" for h using served that by (auto simp: headers_served_def)
  have grown: "?n \<le> unat (size_at h)" if "1 \<le> h" "h \<le> tip" for h
    using le [OF that] genesis by (simp add: word_le_nat_alt)
  obtain k where k: "?n + k = unat (size_at tip)" using grown [OF \<open>1 \<le> tip\<close> order_refl] le_Suc_ex by metis
  have "\<forall>h. 1 \<le> h \<and> h < (1 :: u64) \<longrightarrow> unat (size_at h) \<le> ?n" by auto
  from expansion_levels_count [OF served order_refl \<open>1 \<le> tip\<close> k this]
  obtain hs where hs: "expansion_levels (header_log_slots rpc) tip (levels_up_to (size_at tip)) 1 = Some hs"
      "sorted (map unat hs)" "list_all (\<lambda>e. 1 \<le> e) hs"
      "\<forall>h. 1 \<le> h \<and> h \<le> tip \<longrightarrow> ?n + length (filter (\<lambda>e. e \<le> h) hs) = max ?n (unat (size_at h))"
    unfolding levels_up_to_def k [symmetric] by blast
  have "log_slots_at hs j = size_at (of_nat j)" if j: "1 \<le> j" "j \<le> unat tip" for j
  proof -
    have "j < 2 ^ 64" using j(2) by (rule le_less_trans) simp
    then have u: "unat (of_nat j :: u64) = j" unfolding unat_of_nat by (simp add: take_bit_nat_eq_self)
    then have h: "1 \<le> (of_nat j :: u64)" "(of_nat j :: u64) \<le> tip" using j by (simp_all add: word_le_nat_alt)
    have "filter (\<lambda>e. unat e \<le> j) hs = filter (\<lambda>e. e \<le> of_nat j) hs" by (simp add: word_le_nat_alt u)
    then have "?n + length (filter (\<lambda>e. unat e \<le> j) hs) = unat (size_at (of_nat j))"
      using hs(4) h grown [OF h] by (simp add: max_absorb2)
    then have "(of_nat (?n + length (filter (\<lambda>e. unat e \<le> j) hs)) :: u32) = size_at (of_nat j)" by simp
    then show ?thesis by (simp add: log_slots_at_def)
  qed
  moreover have "expansion_heights rpc cache (size_at tip) tip = (Some (size_at tip, hs), Some hs)"
    using stale hs(1) by (cases cache) (auto simp: expansion_heights_def Let_def)
  moreover have "expansion_history hs" using hs(2,3) by (auto simp: expansion_history_def list_all_iff word_le_nat_alt)
  ultimately show ?thesis by blast
qed

definition sample_size :: "u64 \<Rightarrow> u32" where
  "sample_size h = (if h < 5 then 24 else 26)"

definition sample_headers :: node where
  "sample_headers = (sample_node ''A'' None)\<lparr>get_block_header := (\<lambda>h. Inr (Some ((sample_header h ''A'')\<lparr>h_log_slots := sample_size h\<rparr>)))\<rparr>"

theorem expansion_heights_rebuild_the_state_size_witness:
  "\<exists>hs. expansion_heights sample_headers (Some (25, [3])) 26 9 = (Some (26, hs), Some hs)
    \<and> log_slots_at hs 4 = 24 \<and> log_slots_at hs 5 = 26"
proof -
  have "headers_served sample_headers sample_size 9"
    by (auto simp: headers_served_def header_log_slots_def sample_headers_def sample_header_def sample_size_def)
  moreover have "sample_size 9 = 26" "LOG_SLOTS_GENESIS \<le> sample_size 1" by (simp_all add: sample_size_def LOG_SLOTS_GENESIS_def)
  ultimately obtain hs where hs: "expansion_heights sample_headers (Some (25, [3])) 26 9 = (Some (26, hs), Some hs)"
      "\<forall>k. 1 \<le> k \<and> k \<le> unat (9 :: u64) \<longrightarrow> log_slots_at hs k = sample_size (of_nat k)"
    using expansion_heights_rebuild_the_state_size [of sample_headers sample_size 9 "Some (25, [3])"] by auto
  have "log_slots_at hs 4 = sample_size (of_nat 4)" "log_slots_at hs 5 = sample_size (of_nat 5)" using hs(2) by simp_all
  with hs(1) show ?thesis by (auto simp: sample_size_def)
qed

section \<open>The sampled history\<close>

definition sample_at :: "(u64 \<Rightarrow> block_header_info) \<Rightarrow> u64 \<Rightarrow> header_sample" where
  "sample_at hdr h = \<lparr>hs_height = h, hs_active_slot_count = h_active_slot_count (hdr h), hs_alloc_counter = h_alloc_counter (hdr h)\<rparr>"

definition chain_served :: "node \<Rightarrow> (u64 \<Rightarrow> block_header_info) \<Rightarrow> u64 \<Rightarrow> bool" where
  "chain_served rpc hdr tip \<longleftrightarrow> (\<forall>h. h \<le> tip \<longrightarrow> get_block_header rpc h = Inr (Some (hdr h)))"

definition grid :: "(u64 \<Rightarrow> block_header_info) \<Rightarrow> nat \<Rightarrow> nat \<Rightarrow> nat \<Rightarrow> header_sample list" where
  "grid hdr s i j = map (\<lambda>k. sample_at hdr (of_nat (k * s))) [i..<j]"

text \<open>Every \<open>step\<close>-th header from genesis up to the tip, as one walk over all of them would give.\<close>

definition full_walk :: "(u64 \<Rightarrow> block_header_info) \<Rightarrow> u64 \<Rightarrow> u64 \<Rightarrow> header_sample list" where
  "full_walk hdr step tip = grid hdr (unat step) 0 (Suc (unat tip div unat step))"

lemma grid_step: "i < j \<Longrightarrow> grid hdr s i j = sample_at hdr (of_nat (i * s)) # grid hdr s (Suc i) j"
  by (simp add: grid_def upt_conv_Cons)

lemma grid_append: "i \<le> j \<Longrightarrow> j \<le> k \<Longrightarrow> grid hdr s i j @ grid hdr s j k = grid hdr s i k"
  using upt_add_eq_append [of i j "k - j"] by (simp add: grid_def flip: map_append)

lemma unat_of_nat_u64: "n < 2 ^ 64 \<Longrightarrow> unat (of_nat n :: u64) = n"
  unfolding unat_of_nat by (simp add: take_bit_nat_eq_self)

lemma walk_fills:
  assumes served: "chain_served rpc hdr tip" and s: "0 < unat step" "unat tip + unat step < 2 ^ 64"
  shows "j \<le> Suc (unat tip div unat step) \<Longrightarrow> walk rpc tip step (of_nat (j * unat step)) points
    = Some (points @ grid hdr (unat step) j (Suc (unat tip div unat step)), None)"
proof (induction "Suc (unat tip div unat step) - j" arbitrary: j points)
  case 0
  then have j: "j = Suc (unat tip div unat step)" by simp
  have "j * unat step = unat tip div unat step * unat step + unat step" by (simp add: j)
  moreover have "unat tip < j * unat step" using s(1) by (simp add: j dividend_less_div_times)
  moreover have "unat tip div unat step * unat step \<le> unat tip" by simp
  ultimately have "unat (of_nat (j * unat step) :: u64) = j * unat step" "unat tip < j * unat step"
    using s(2) by (simp_all only: unat_of_nat_u64)
  then show ?case by (subst walk.simps) (simp add: word_le_nat_alt j grid_def)
next
  case (Suc n)
  then have j: "j \<le> unat tip div unat step" by simp
  then have "j * unat step \<le> unat tip" using s(1) by (simp add: less_eq_div_iff_mult_less_eq)
  moreover from this have u: "unat (of_nat (j * unat step) :: u64) = j * unat step"
    using s(2) by (intro unat_of_nat_u64) linarith
  ultimately have le: "of_nat (j * unat step) \<le> tip" by (simp only: word_le_nat_alt)
  let ?points = "points @ [sample_at hdr (of_nat (j * unat step))]"
  have "walk rpc tip step (of_nat (j * unat step)) points = walk rpc tip step (of_nat (j * unat step) + step) ?points"
    using served le by (subst walk.simps) (simp add: chain_served_def sample_at_def del: of_nat_mult)
  also have "(of_nat (j * unat step) + step :: u64) = of_nat (Suc j * unat step)" by simp
  also have "walk rpc tip step (of_nat (Suc j * unat step)) ?points
      = Some (?points @ grid hdr (unat step) (Suc j) (Suc (unat tip div unat step)), None)"
    by (rule Suc.hyps(1)) (use Suc.hyps(2) j in simp_all)
  finally show ?case using j by (simp add: grid_step del: of_nat_mult)
qed

lemma coarsen_step:
  fixes tip step :: u64
  assumes "0 < unat step" "unat (tip div step) > HISTORY_MAX_POINTS"
  shows "unat (step * 2) = 2 * unat step" "2 * unat step \<le> unat tip"
proof -
  have big: "2400 < unat tip div unat step" using assms(2) by (simp add: HISTORY_MAX_POINTS_def unat_div)
  have "unat step * 2400 \<le> unat step * (unat tip div unat step)" using big by simp
  also have "\<dots> \<le> unat tip" by simp
  finally show le: "2 * unat step \<le> unat tip" by simp
  also have "\<dots> < 2 ^ LENGTH(64)" by (rule unsigned_less)
  finally show "unat (step * 2) = 2 * unat step" by (intro trans [OF unat_mult_bound]) simp_all
qed

lemma every_other: "filter (\<lambda>k. even k) [0..<Suc n] = map (\<lambda>k. 2 * k) [0..<Suc (n div 2)]"
  by (induction n) auto

text \<open>Coarsening keeps every other point: the points of the coarser walk.\<close>

lemma coarsen_full:
  "0 < unat step \<Longrightarrow> points = [] \<or> points = full_walk hdr step t \<Longrightarrow>
    \<exists>step'. coarsen tip step points = (step', if points = [] then [] else full_walk hdr step' t)
      \<and> 0 < unat step' \<and> (step' = step \<or> unat step' \<le> unat tip) \<and> unat (tip div step') \<le> HISTORY_MAX_POINTS
      \<and> (\<forall>ps. fst (coarsen tip step ps) = step')"
proof (induction tip step points rule: coarsen.induct)
  case (1 tip step points)
  show ?case
  proof (cases "unat (tip div step) > HISTORY_MAX_POINTS")
    case False
    then show ?thesis using "1.prems" by (auto simp: coarsen_done)
  next
    case True
    note u = coarsen_step [OF "1.prems"(1) True]
    let ?points = "filter (\<lambda>p. hs_height p mod (step * 2) = 0) points"
    have half: "?points = [] \<or> ?points = full_walk hdr (step * 2) t" "points \<noteq> [] \<longrightarrow> ?points \<noteq> []"
    proof -
      have f: "filter (\<lambda>p. hs_height p mod (step * 2) = 0) (full_walk hdr step t) = full_walk hdr (step * 2) t"
      proof -
        have "of_nat (k * unat step) mod (step * 2) = 0 \<longleftrightarrow> even k" if k: "k \<le> unat t div unat step" for k
        proof -
          have "k * unat step \<le> unat t" using k "1.prems"(1) by (simp add: less_eq_div_iff_mult_less_eq)
          also have "unat t < 2 ^ LENGTH(64)" by (rule unsigned_less)
          finally have "unat (of_nat (k * unat step) :: u64) = k * unat step" by (intro unat_of_nat_u64) simp
          then have "unat (of_nat (k * unat step) mod (step * 2)) = (k * unat step) mod (2 * unat step)"
            by (simp only: unat_mod u(1))
          also have "\<dots> = (k mod 2) * unat step" by (simp add: mult_mod_left)
          finally show ?thesis using "1.prems"(1) by (metis even_iff_mod_2_eq_zero mult_eq_0_iff less_irrefl unsigned_0 unat_eq_zero)
        qed
        then have "filter (\<lambda>k. hs_height (sample_at hdr (of_nat (k * unat step))) mod (step * 2) = 0) [0..<Suc (unat t div unat step)]
            = filter even [0..<Suc (unat t div unat step)]"
          by (intro filter_cong refl) (simp only: set_upt atLeastLessThan_iff less_Suc_eq_le sample_at_def header_sample.simps)
        then have "filter (\<lambda>p. hs_height p mod (step * 2) = 0) (full_walk hdr step t)
            = map (\<lambda>k. sample_at hdr (of_nat (k * unat step))) (filter even [0..<Suc (unat t div unat step)])"
          by (simp only: full_walk_def grid_def filter_map o_def)
        also have "\<dots> = full_walk hdr (step * 2) t"
          unfolding every_other by (simp add: full_walk_def grid_def u(1) div_mult2_eq mult.commute mult.left_commute del: upt_Suc)
        finally show ?thesis .
      qed
      have "full_walk hdr (step * 2) t \<noteq> []" by (simp add: full_walk_def grid_def)
      with f "1.prems"(2) show "?points = [] \<or> ?points = full_walk hdr (step * 2) t" "points \<noteq> [] \<longrightarrow> ?points \<noteq> []" by auto
    qed
    have "0 < unat (step * 2)" using u "1.prems"(1) by simp
    from "1.IH" [OF True this half(1)] obtain step' where s: "coarsen tip (step * 2) ?points = (step', if ?points = [] then [] else full_walk hdr step' t)"
        "0 < unat step'" "step' = step * 2 \<or> unat step' \<le> unat tip" "unat (tip div step') \<le> HISTORY_MAX_POINTS"
        "\<forall>ps. fst (coarsen tip (step * 2) ps) = step'" by blast
    with s half(2) u coarsen_more [OF True] show ?thesis by (intro exI [of _ step']) auto
  qed
qed

lemma coarsen_ignores_points: "fst (coarsen tip step ps) = fst (coarsen tip step qs)"
proof (induction tip step ps arbitrary: qs rule: coarsen.induct)
  case (1 tip step ps)
  show ?case
  proof (cases "unat (tip div step) > HISTORY_MAX_POINTS")
    case True
    show ?thesis unfolding coarsen_more [OF True] by (rule "1.IH" [OF True])
  qed (simp add: coarsen_done)
qed

lemma coarsen_later: "t \<le> tip \<Longrightarrow> fst (coarsen tip (fst (coarsen t step ps)) qs) = fst (coarsen tip step qs)"
proof (induction t step ps arbitrary: qs rule: coarsen.induct)
  case (1 t step ps)
  show ?case
  proof (cases "unat (t div step) > HISTORY_MAX_POINTS")
    case True
    have "unat (t div step) \<le> unat (tip div step)"
      using "1.prems" by (simp add: unat_div word_le_nat_alt div_le_mono)
    with True have "coarsen tip step qs = coarsen tip (step * 2) (filter (\<lambda>p. hs_height p mod (step * 2) = 0) qs)"
      by (intro coarsen_more) simp
    moreover have "coarsen t step ps = coarsen t (step * 2) (filter (\<lambda>p. hs_height p mod (step * 2) = 0) ps)"
      by (rule coarsen_more [OF True])
    ultimately show ?thesis using "1.IH" [OF True "1.prems"] coarsen_ignores_points by metis
  qed (simp add: coarsen_done)
qed

text \<open>The cache after a request at tip \<open>t\<close>, as one request with an empty cache leaves it.\<close>

definition step_at_tip :: "u64 \<Rightarrow> u64" where
  "step_at_tip t = fst (coarsen t HISTORY_STEP [])"

definition cache_at :: "(u64 \<Rightarrow> block_header_info) \<Rightarrow> u64 \<Rightarrow> state_history" where
  "cache_at hdr t = \<lparr>sh_step = step_at_tip t, sh_points = full_walk hdr (step_at_tip t) t\<rparr>"

lemma step_at_tip_props:
  "0 < unat (step_at_tip t)" "unat t < 2 ^ 63 \<Longrightarrow> unat (step_at_tip t) < 2 ^ 63" "unat (t div step_at_tip t) \<le> HISTORY_MAX_POINTS"
proof -
  have "0 < unat HISTORY_STEP" by (simp add: HISTORY_STEP_def)
  from coarsen_full [OF this disjI1 [OF refl], of t]
  obtain s where s: "coarsen t HISTORY_STEP [] = (s, [])" "0 < unat s" "s = HISTORY_STEP \<or> unat s \<le> unat t" "unat (t div s) \<le> HISTORY_MAX_POINTS"
    by auto
  then have "step_at_tip t = s" by (simp add: step_at_tip_def)
  with s show "0 < unat (step_at_tip t)" "unat (t div step_at_tip t) \<le> HISTORY_MAX_POINTS"
    "unat t < 2 ^ 63 \<Longrightarrow> unat (step_at_tip t) < 2 ^ 63"
    by (auto simp: HISTORY_STEP_def)
qed

lemma last_of_walk: "full_walk hdr step t \<noteq> []" "hs_height (last (full_walk hdr step t)) = of_nat (unat t div unat step * unat step)"
  by (simp_all add: full_walk_def grid_def sample_at_def)

text \<open>A request at \<open>tip\<close>, with the cache empty or left by a request at an earlier tip.\<close>

lemma sampled_result:
  assumes served: "chain_served rpc hdr tip" and small: "unat tip < 2 ^ 63"
    and cache: "cache = \<lparr>sh_step = 0, sh_points = []\<rparr> \<or> (\<exists>t \<le> tip. cache = cache_at hdr t)"
  shows "sampled_state_history rpc cache tip
    = Some (cache_at hdr tip, Inr (step_at_tip tip, full_walk hdr (step_at_tip tip) tip))"
proof -
  let ?s = "step_at_tip tip"
  have s: "0 < unat ?s" "unat tip + unat ?s < 2 ^ 64" using step_at_tip_props [of tip] small by simp_all
  have walk: "walk rpc tip ?s (of_nat (j * unat ?s)) (grid hdr (unat ?s) 0 j) = Some (full_walk hdr ?s tip, None)"
    if "j \<le> Suc (unat tip div unat ?s)" for j
    using walk_fills [OF served s that, of "grid hdr (unat ?s) 0 j"] grid_append [of 0 j "Suc (unat tip div unat ?s)"] that
    by (simp add: full_walk_def)
  from cache show ?thesis
  proof
    assume c: "cache = \<lparr>sh_step = 0, sh_points = []\<rparr>"
    have "0 < unat HISTORY_STEP" by (simp add: HISTORY_STEP_def)
    from coarsen_full [OF this disjI1 [OF refl], of tip] have "coarsen tip HISTORY_STEP [] = (?s, [])"
      by (auto simp: step_at_tip_def)
    then show ?thesis using walk [of 0] by (simp add: c sampled_state_history_def cache_at_def grid_def)
  next
    assume "\<exists>t \<le> tip. cache = cache_at hdr t"
    then obtain t where t: "t \<le> tip" "cache = cache_at hdr t" by blast
    have "0 < unat (step_at_tip t)" by (rule step_at_tip_props)
    from coarsen_full [OF this disjI2 [OF refl], of tip hdr t] last_of_walk(1)
    have "coarsen tip (step_at_tip t) (full_walk hdr (step_at_tip t) t)
        = (fst (coarsen tip (step_at_tip t) []), full_walk hdr (fst (coarsen tip (step_at_tip t) [])) t)" by auto
    also have "fst (coarsen tip (step_at_tip t) []) = ?s" unfolding step_at_tip_def by (rule coarsen_later [OF t(1)])
    finally have c: "coarsen tip (step_at_tip t) (full_walk hdr (step_at_tip t) t) = (?s, full_walk hdr ?s t)" .
    have "step_at_tip t \<noteq> 0" using step_at_tip_props(1) [of t] by auto
    moreover have "(of_nat (unat t div unat ?s * unat ?s) + ?s :: u64) = of_nat (Suc (unat t div unat ?s) * unat ?s)" by simp
    moreover have "unat t div unat ?s \<le> unat tip div unat ?s" using t(1) by (simp add: word_le_nat_alt div_le_mono)
    then have "walk rpc tip ?s (of_nat (Suc (unat t div unat ?s) * unat ?s)) (full_walk hdr ?s t) = Some (full_walk hdr ?s tip, None)"
      using walk [of "Suc (unat t div unat ?s)"] by (simp add: full_walk_def)
    ultimately show ?thesis
      by (simp only: t(2) sampled_state_history_def cache_at_def state_history.simps c Let_def if_False last_of_walk prod.case)
        simp
  qed
qed

text \<open>Requests one after the other, each leaving its cache to the next.\<close>

fun serve_history :: "node \<Rightarrow> state_history \<Rightarrow> u64 list \<Rightarrow> state_history option" where
  "serve_history rpc cache [] = Some cache"
| "serve_history rpc cache (tip # tips) =
     Option.bind (sampled_state_history rpc cache tip) (\<lambda>(cache, _). serve_history rpc cache tips)"

definition no_history :: state_history where
  "no_history = \<lparr>sh_step = 0, sh_points = []\<rparr>"

text \<open>
  C30. The history request always ends, and the cache is invisible: however many requests came before
  while the chain grew, and however often the step was doubled since, the answer is the walk over every
  \<open>step\<close>-th header from genesis, and never more than 2,401 points long.
\<close>
theorem history_from_the_cache_is_the_full_walk:
  assumes "chain_served rpc hdr tip" "unat tip < 2 ^ 63" "sorted (tips @ [tip])"
  shows "(\<exists>cache cache'. serve_history rpc no_history tips = Some cache
      \<and> sampled_state_history rpc cache tip = Some (cache', Inr (step_at_tip tip, full_walk hdr (step_at_tip tip) tip)))
    \<and> length (full_walk hdr (step_at_tip tip) tip) \<le> 2401"
proof -
  let ?ok = "\<lambda>c t. c = \<lparr>sh_step = 0, sh_points = []\<rparr> \<or> (\<exists>t' \<le> t. c = cache_at hdr t')"
  have "\<exists>cache. serve_history rpc c tips = Some cache \<and> ?ok cache tip"
    if "sorted (tips @ [tip])" "\<forall>t \<in> set (tips @ [tip]). ?ok c t" for c
    using that
  proof (induction tips arbitrary: c)
    case (Cons t tips)
    have t: "t \<le> tip" using Cons.prems(1) by simp
    then have "unat t \<le> unat tip" by (simp add: word_le_nat_alt)
    then have "unat t < 2 ^ 63" using assms(2) by simp
    moreover have "chain_served rpc hdr t" using assms(1) t by (auto simp: chain_served_def)
    moreover have "?ok c t" using bspec [OF Cons.prems(2), of t] by simp
    ultimately have "sampled_state_history rpc c t = Some (cache_at hdr t, Inr (step_at_tip t, full_walk hdr (step_at_tip t) t))"
      by (intro sampled_result)
    then have "serve_history rpc c (t # tips) = serve_history rpc (cache_at hdr t) tips" by simp
    moreover have "\<exists>cache. serve_history rpc (cache_at hdr t) tips = Some cache \<and> ?ok cache tip"
      by (rule Cons.IH) (use Cons.prems(1) in auto)
    ultimately show ?case by (simp only:)
  qed simp
  from this [of no_history] assms(3) obtain cache where c: "serve_history rpc no_history tips = Some cache" "?ok cache tip"
    by (auto simp: no_history_def)
  have "unat tip div unat (step_at_tip tip) \<le> 2400" using step_at_tip_props(3) [of tip] by (simp add: HISTORY_MAX_POINTS_def unat_div)
  then have "length (full_walk hdr (step_at_tip tip) tip) \<le> 2401" by (simp add: full_walk_def grid_def)
  with c(1) sampled_result [OF assms(1,2) c(2)] show ?thesis by blast
qed

definition sample_hdr :: "u64 \<Rightarrow> block_header_info" where
  "sample_hdr h = (sample_header h ''A'')\<lparr>h_log_slots := sample_size h\<rparr>"

theorem history_from_the_cache_is_the_full_walk_witness:
  "\<exists>cache cache'. serve_history sample_headers no_history [3, 600] = Some cache
    \<and> sampled_state_history sample_headers cache 1100 = Some (cache', Inr (512, full_walk sample_hdr 512 1100))"
proof -
  have "chain_served sample_headers sample_hdr 1100" by (simp add: chain_served_def sample_headers_def sample_hdr_def)
  moreover have "step_at_tip 1100 = 512" by (simp add: step_at_tip_def HISTORY_STEP_def coarsen_done HISTORY_MAX_POINTS_def)
  ultimately show ?thesis using history_from_the_cache_is_the_full_walk [of sample_headers sample_hdr 1100 "[3, 600]"] by simp
qed

section \<open>The peer endpoint\<close>

text \<open>Hashes as the node gives them: 64 lower-case hex digits.\<close>

definition lower_hash :: "string \<Rightarrow> bool" where
  "lower_hash hash \<longleftrightarrow> peer_hash_ok hash \<and> map ascii_lower hash = hash"

lemma served_offer:
  assumes "lower_hash hash"
  shows "fetch_peer_offer (served_by lib theirs) height hash
    = (case offer_from_db lib True theirs height hash of Inl _ \<Rightarrow> Inl Unreachable | Inr off \<Rightarrow> Inr off)"
  using assms
  by (auto simp: lower_hash_def fetch_peer_offer_def fetch_peer_raw_def fetch_peer_body_def fetched_def served_by_def peer_raw_def
      peer_body_def offer_from_db_def and_then_def split: sum.split option.split)

lemma asked_peer:
  assumes "lower_hash hash" "offer_from_db lib True theirs height hash = Inr off"
  shows "ask_peers (\<lambda>p. fetch_peer_offer p height hash) [(url, served_by lib theirs)] [] = ([], Inr off)"
  by (simp add: served_offer [OF assms(1)] assms(2) split: option.split)

definition hashes_ok :: "db \<Rightarrow> bool" where
  "hashes_ok c \<longleftrightarrow> (\<forall>b \<in> set (blocks c). lower_hash (b_hash b))"

lemma hashes_ok_ikey: "hashes_ok c \<longleftrightarrow> (\<forall>(i, k, hash) \<in> ikey ` set (blocks c). lower_hash hash)"
  by (auto simp: hashes_ok_def ikey_def)

lemma canonical_hash_ok: "hashes_ok c \<Longrightarrow> canonical_hash_at c height = Some (i, hash) \<Longrightarrow> lower_hash hash"
  by (auto simp: canonical_hash_at_def canonical_candidates_def hashes_ok_def dest!: latest_in)

lemma fill_gap_same_chain:
  assumes "fill_gap tree lib source resolution keep f now height c s = (s', Inr (c', out))"
  shows "same_chain c c'"
proof (cases "out = Imported")
  case True
  show ?thesis
  proof (rule fill_gap_imports [OF assms [unfolded True]])
    fix hash bid body raw
    assume "take_body lib c height hash bid body raw source resolution keep now = Inr c'"
    then show ?thesis
    proof (rule take_body_steps)
      fix c1 c2
      assume c: "c1 = mark_body_recovered (insert_transactions c bid body) bid source"
        "c2 = c1 \<or> (\<exists>bytes. c2 = record_contract_flags lib c1 height hash (Some bytes))
          \<or> (\<exists>bytes. c2 = committed (record_contract_flags lib c1 height hash (Some bytes))
               (store_raw lib (record_contract_flags lib c1 height hash (Some bytes)) height hash bytes source now))"
        "c' = resolve_gap c2 height now resolution"
      have raw: "same_chain x (committed x (store_raw lib x height hash bytes source now))" for x bytes
        by (cases "store_raw lib x height hash bytes source now") (auto dest: store_raw_neutral)
      have flags: "same_chain x (record_contract_flags lib x height hash r)" for x r
        using n_record_contract_flags.neutral [of x "(lib, height, hash, r)"] by simp
      have one: "same_chain c c1"
        using same_chain_trans [OF n_insert_transactions.neutral [of c "(bid, body)"] n_mark_body_recovered.neutral [of _ "(bid, source)"]]
        by (simp add: c(1))
      have two: "same_chain c1 c2"
        using c(2)
      proof (elim disjE exE)
        fix bytes assume "c2 = record_contract_flags lib c1 height hash (Some bytes)"
        then show ?thesis by (simp only: flags)
      next
        fix bytes assume c2: "c2 = committed (record_contract_flags lib c1 height hash (Some bytes))
          (store_raw lib (record_contract_flags lib c1 height hash (Some bytes)) height hash bytes source now)"
        show ?thesis unfolding c2 by (rule same_chain_trans [OF flags raw])
      qed simp
      have "same_chain c2 c'" using n_resolve_gap.neutral [of c2 "(height, now, resolution)"] by (simp add: c(3))
      from same_chain_trans [OF one same_chain_trans [OF two this]] show ?thesis .
    qed
  qed
next
  case False
  with fill_gap_leaves [OF assms] show ?thesis by simp
qed

lemma fill_gap_same_offer:
  assumes "\<And>i hash. canonical_hash_at c height = Some (i, hash) \<Longrightarrow> f s height hash = (s, r hash) \<and> g t height hash = (t, r hash)"
  shows "fill_gap tree lib source resolution keep f now height c s
      = (s, snd (fill_gap tree lib source resolution keep g now height c t))
    \<and> fst (fill_gap tree lib source resolution keep g now height c t) = t"
proof (cases "canonical_hash_at c height")
  case (Some x)
  obtain i hash where x: "x = (i, hash)" by (cases x)
  from assms Some x have fg: "f s height hash = (s, r hash)" "g t height hash = (t, r hash)" by simp_all
  show ?thesis by (simp add: fill_gap_def Some x fg split: option.split sum.split)
qed (simp add: fill_gap_def)

lemma fill_gap_loop_same_offer:
  assumes same: "\<And>height hash. lower_hash hash \<Longrightarrow> f s height hash = (s, r height hash) \<and> g t height hash = (t, r height hash)"
  shows "hashes_ok c \<Longrightarrow> fill_gap_loop tree lib source resolution keep f clk hs c s rep
    = (case fill_gap_loop tree lib source resolution keep g clk hs c t rep of (c', _, r) \<Rightarrow> (c', s, r))"
proof (induction hs arbitrary: c rep)
  case (Cons h hs)
  let ?G = "fill_gap tree lib source resolution keep g (clk h) h c t"
  have one: "fill_gap tree lib source resolution keep f (clk h) h c s = (s, snd ?G) \<and> fst ?G = t"
    by (rule fill_gap_same_offer [where r = "r h"]) (use same canonical_hash_ok [OF Cons.prems] in blast)
  show ?case
  proof (cases "snd ?G")
    case (Inr x)
    obtain c' out where x: "x = (c', out)" by (cases x)
    have "?G = (t, Inr (c', out))" using one Inr x by (simp add: prod_eq_iff)
    then have "hashes_ok c'"
      using fill_gap_same_chain [THEN same_chain_ikeys] Cons.prems unfolding hashes_ok_ikey by metis
    with one Inr x \<open>?G = _\<close> show ?thesis by (simp add: Cons.IH)
  next
    case (Inl e)
    then have "?G = (t, Inl e)" using one by (simp add: prod_eq_iff)
    with one Inl show ?thesis by simp
  qed
qed simp

text \<open>
  C31. Filling gaps over the network is filling them from a copy of the database: asking a permanode
  that serves its database to its peers gives, gap for gap, what importing that database would give.
\<close>
theorem peers_offer_what_a_copy_would:
  assumes "hashes_ok c" and readable: "\<forall>height hash. \<not> isl (offer_from_db lib True theirs height hash)"
  shows "fill_gaps tree lib lim source resolution keep
      (\<lambda>unreachable height hash. ask_peers (\<lambda>p. fetch_peer_offer p height hash) [(url, served_by lib theirs)] unreachable) clk now c []
    = (case fill_gaps tree lib lim source resolution keep (\<lambda>s height hash. (s, offer_from_db lib True theirs height hash)) clk now c () of
         (c', _, report) \<Rightarrow> (c', [], report))"
proof -
  let ?f = "\<lambda>unreachable height hash. ask_peers (\<lambda>p. fetch_peer_offer p height hash) [(url, served_by lib theirs)] unreachable"
  let ?g = "\<lambda>s height hash. (s, offer_from_db lib True theirs height hash)"
  have "?f [] height hash = ([], offer_from_db lib True theirs height hash) \<and> ?g () height hash = ((), offer_from_db lib True theirs height hash)"
    if "lower_hash hash" for height hash
  proof -
    have "offer_from_db lib True theirs height hash = Inr (projr (offer_from_db lib True theirs height hash))" using readable by (intro inr_projr) blast
    with asked_peer [OF that, of lib theirs height _ url] show ?thesis by metis
  qed
  from fill_gap_loop_same_offer [where f = ?f and g = ?g, OF this assms(1)] show ?thesis
    by (simp add: fill_gaps_def Let_def split: prod.split sum.split)
qed

text \<open>A gap at height 6 whose block another permanode has.\<close>

definition sample_hash :: string where
  "sample_hash = replicate 64 (CHR ''a'')"

definition sample_mine :: db where
  "sample_mine = record_gap_block empty_db (pruned_details 6 sample_hash) ''body pruned'' ''t1''"

definition sample_others :: db where
  "sample_others = stored empty_db (store_block empty_db (sample_details 6 sample_hash) ''details'' ''t1'')"

lemma sample_others_read: "body_from_db sample_others 6 sample_hash = Inr (Some (sample_retained\<lparr>rb_block_bytes := 0\<rparr>))"
proof -
  have "\<not> known_canonical empty_db (d_header (sample_details 6 sample_hash))" by code_simp
  moreover have "store_block empty_db (sample_details 6 sample_hash) ''details'' ''t1'' = Inr sample_others"
    by (simp add: sample_others_def store_block_def sample_details_def Let_def)
  ultimately show ?thesis
    using stored_reads_back [OF wf_empty _ _ _ sample_body_fits, of "sample_details 6 sample_hash" "''details''" "''t1''" sample_others]
    by (simp add: sample_details_def sample_header_def HEADER_ONLY_SOURCE_def empty_db_def)
qed

lemma sample_others_rows: "map (\<lambda>b. (b_height b, b_hash b)) (blocks sample_others) = [(6, sample_hash)]" "raw_blocks sample_others = []"
  by code_simp+

theorem peers_offer_what_a_copy_would_witness:
  "fill_gaps sample_tree sample_lib 10 ''peer'' ''recovered'' True
      (\<lambda>unreachable height hash. ask_peers (\<lambda>p. fetch_peer_offer p height hash) [(''http://a'', served_by sample_lib sample_others)] unreachable)
      (\<lambda>h. ''t2'') ''t3'' sample_mine []
    = (case fill_gaps sample_tree sample_lib 10 ''peer'' ''recovered'' True
         (\<lambda>s height hash. (s, offer_from_db sample_lib True sample_others height hash)) (\<lambda>h. ''t2'') ''t3'' sample_mine () of
         (c', _, report) \<Rightarrow> (c', [], report))"
proof (rule peers_offer_what_a_copy_would)
  have "map b_hash (blocks sample_mine) = [sample_hash]" "lower_hash sample_hash" by code_simp+
  then show "hashes_ok sample_mine" by (cases "blocks sample_mine") (auto simp: hashes_ok_def)
  have "body_from_db sample_others height hash = Inr None" if "(height, hash) \<noteq> (6, sample_hash)" for height hash
  proof -
    have "as_i64 height \<noteq> 6 \<or> hash \<noteq> sample_hash" using that as_i64_inject [of height 6] by (auto simp: as_i64_small)
    with sample_others_rows(1) show ?thesis by (cases "blocks sample_others") (auto simp: body_from_db_def)
  qed
  then have read: "\<exists>x. body_from_db sample_others height hash = Inr x" for height hash
    using sample_others_read by (cases "(height, hash) = (6, sample_hash)") auto
  show "\<forall>height hash. \<not> isl (offer_from_db sample_lib True sample_others height hash)"
  proof (intro allI)
    fix height hash
    obtain x where "body_from_db sample_others height hash = Inr x" using read by blast
    then show "\<not> isl (offer_from_db sample_lib True sample_others height hash)"
      using sample_others_rows(2) by (simp add: offer_from_db_def load_raw_def raw_block_def)
  qed
qed

end
