(* ===== verification/Queries.thy ===== *)
theory Queries
  imports Live_State "HOL-Library.Option_ord"
begin

text \<open>
  The queries of the API, \<^verbatim>\<open>core/src/queries.rs\<close>: blocks, transactions, addresses, statistics and
  miners as they are read from the tables of Db_Tables. A query that reads a column into a type it does
  not fit, or whose SUM leaves the 64-bit range, is an error. Rows that an ORDER BY does not tell apart
  come in rowid order. A clock reading and SQLite's \<open>strftime\<close> are arguments.
\<close>

section \<open>What SQL adds\<close>

definition wrap :: "int \<Rightarrow> int" where
  "wrap x = as_i64 (word_of_int x)"

definition in_i64 :: "int \<Rightarrow> bool" where
  "in_i64 x = (- (2 ^ 63) \<le> x \<and> x < 2 ^ 63)"

text \<open>\<open>COALESCE(SUM(..), 0)\<close> over integers.\<close>

fun sql_sum_from :: "int \<Rightarrow> int list \<Rightarrow> int result" where
  "sql_sum_from acc [] = Inr acc"
| "sql_sum_from acc (x # xs) = (if in_i64 (acc + x) then sql_sum_from (acc + x) xs else bail ''integer overflow'')"

definition sql_sum :: "int list \<Rightarrow> int result" where
  "sql_sum xs = sql_sum_from 0 xs"

text \<open>\<open>CAST(text AS INTEGER)\<close>: the longest numeric prefix, brought into range.\<close>

definition sql_space :: "char \<Rightarrow> bool" where
  "sql_space ch = ((of_char ch :: nat) = 32 \<or> 9 \<le> (of_char ch :: nat) \<and> (of_char ch :: nat) \<le> 13)"

definition cast_integer :: "string \<Rightarrow> int" where
  "cast_integer s =
     (let s = dropWhile sql_space s;
          neg = (case s of ch # _ \<Rightarrow> ch = CHR ''-'' | [] \<Rightarrow> False);
          ds = takeWhile is_digit (case s of ch # rest \<Rightarrow> if ch = CHR ''+'' \<or> ch = CHR ''-'' then rest else s | [] \<Rightarrow> []);
          v = (if neg then - int (digits_value ds) else int (digits_value ds))
      in max (- (2 ^ 63)) (min (2 ^ 63 - 1) v))"

text \<open>\<open>ORDER BY key DESC\<close>.\<close>

definition sort_desc :: "('r \<Rightarrow> 'k::linorder) \<Rightarrow> 'r list \<Rightarrow> 'r list" where
  "sort_desc key rows = rev (sort_key key (rev rows))"

fun collect_rows :: "'a result list \<Rightarrow> 'a list result" where
  "collect_rows [] = Inr []"
| "collect_rows (r # rs) = and_then r (\<lambda>x. and_then (collect_rows rs) (\<lambda>xs. Inr (x # xs)))"

definition max_int_option :: "int list \<Rightarrow> int option" where
  "max_int_option xs = (if xs = [] then None else Some (Max (set xs)))"

section \<open>Status of a block\<close>

text \<open>
  \<open>(..) = 'canonical'\<close> is NULL for a block without a status: it sorts last, does not pass a filter in
  either form, and cannot be read as a number.
\<close>

definition status_rank :: "db \<Rightarrow> int \<Rightarrow> int" where
  "status_rank c bid = (case current_status c bid of None \<Rightarrow> -1 | Some Orphaned \<Rightarrow> 0 | Some Canonical \<Rightarrow> 1)"

definition canonical_flag :: "db \<Rightarrow> int \<Rightarrow> bool result" where
  "canonical_flag c bid =
     (case current_status c bid of None \<Rightarrow> bail ''Invalid column type Null'' | Some st \<Rightarrow> Inr (st = Canonical))"

definition is_orphaned :: "db \<Rightarrow> int \<Rightarrow> bool" where
  "is_orphaned c bid = (current_status c bid = Some Orphaned)"

definition canonical_or_header_only :: "db \<Rightarrow> block_row \<Rightarrow> bool" where
  "canonical_or_header_only c b = (b_body_source b = Some HEADER_ONLY_SOURCE \<or> is_canonical c (b_id b))"

definition observed_at :: "db \<Rightarrow> int \<Rightarrow> string option" where
  "observed_at c bid = map_option s_observed_at (latest s_id (filter (\<lambda>s. s_block_id s = bid) (status_log c)))"

section \<open>The answers\<close>

record block_summary =
  sm_height :: int
  sm_hash :: string
  sm_timestamp :: int
  sm_miner :: string
  sm_proof_class :: "string option"
  sm_reward :: "int option"
  sm_total_fees :: "string option"
  sm_tx_count :: nat
  sm_body_captured :: bool
  sm_archived :: bool
  sm_tx_count_total :: "int option"
  sm_contract_calls :: nat
  sm_seen_at_ms :: "int option"

record tx_summary =
  ts_position :: int
  ts_txid :: string
  ts_page_count :: int
  ts_fee :: int
  ts_coinbase :: bool
  ts_development_payout :: bool
  ts_input_owner :: "string option"
  ts_receiver :: "string option"
  ts_input_sum :: string
  ts_output_sum :: string
  ts_height :: int
  ts_timestamp :: int
  ts_n_inputs :: nat
  ts_n_outputs :: nat
  ts_address_delta :: "string option"
  ts_counterparty :: "string option"
  ts_contract :: "string option"
  ts_source :: "string option"

record block_version =
  bv_hash :: string
  bv_canonical :: bool
  bv_miner :: string
  bv_timestamp :: int
  bv_tx_count :: nat
  bv_body_captured :: bool
  bv_observed_at :: "string option"

record block_detail =
  bd_height :: int
  bd_hash :: string
  bd_prev_hash :: string
  bd_state_root :: string
  bd_tx_root :: string
  bd_timestamp :: int
  bd_seen_at_ms :: "int option"
  bd_miner :: string
  bd_nonce_hex :: string
  bd_difficulty_target :: string
  bd_proof_class :: "string option"
  bd_reward :: "int option"
  bd_total_fees :: "string option"
  bd_miner_subsidy :: u64
  bd_log_slots :: "u32 option"
  bd_active_slot_count :: "u64 option"
  bd_alloc_counter :: "u64 option"
  bd_body_captured :: bool
  bd_archived :: bool
  bd_archive_from_height :: "int option"
  bd_tx_count_total :: "int option"
  bd_confirmations :: "int option"
  bd_canonical :: bool
  bd_other_versions :: "block_version list"
  bd_transactions :: "tx_summary list"

record tx_occurrence =
  oc_height :: int
  oc_block_hash :: string
  oc_canonical :: bool

record tx_detail =
  td_txid :: string
  td_source :: "string option"
  td_position :: int
  td_contract :: "string option"
  td_page_count :: int
  td_fee :: int
  td_coinbase :: bool
  td_development_payout :: bool
  td_epoch_anchor :: string
  td_input_owner :: "string option"
  td_input_sum :: string
  td_output_sum :: string
  td_page_hashes :: "string list"
  td_inputs :: "(int \<times> int \<times> string) list"
  td_outputs :: "(int \<times> int \<times> string \<times> string option) list"
  td_block_height :: int
  td_block_hash :: string
  td_block_timestamp :: int
  td_block_canonical :: bool
  td_confirmations :: "int option"
  td_other_occurrences :: "tx_occurrence list"

section \<open>Blocks\<close>

definition source_kind :: "string option \<Rightarrow> string option" where
  "source_kind source = (if source = Some RECEIPT_SOURCE then Some RECEIPT_SOURCE else None)"

definition contract_kind :: "int \<Rightarrow> string option" where
  "contract_kind flags = (if flags = 0 then None else if bit flags 1 then Some ''close'' else Some ''call'')"

definition txs_of_block :: "db \<Rightarrow> int \<Rightarrow> tx_row list" where
  "txs_of_block c bid = filter (\<lambda>t. t_block_id t = bid) (transactions c)"

definition block_summary_of :: "db \<Rightarrow> block_row \<Rightarrow> block_summary" where
  "block_summary_of c b =
     \<lparr>sm_height = b_height b, sm_hash = b_hash b, sm_timestamp = b_timestamp b, sm_miner = b_miner b,
      sm_proof_class = b_proof_class b, sm_reward = b_reward b, sm_total_fees = b_total_fees b,
      sm_tx_count = length (txs_of_block c (b_id b)), sm_body_captured = b_body_captured b,
      sm_archived = archived b, sm_tx_count_total = b_tx_count_total b,
      sm_contract_calls = length (filter (\<lambda>t. t_contract_flags t \<noteq> 0) (txs_of_block c (b_id b))),
      sm_seen_at_ms = b_tip_seen_at_ms b\<rparr>"

definition I64_MAX :: int where "I64_MAX = 2 ^ 63 - 1"

definition recent_blocks :: "db \<Rightarrow> int \<Rightarrow> int option \<Rightarrow> block_summary list" where
  "recent_blocks c lim before =
     map (block_summary_of c) (limit_rows lim (sort_desc b_height
       (filter (\<lambda>b. b_height b < (case before of Some h \<Rightarrow> h | None \<Rightarrow> I64_MAX) \<and> is_canonical c (b_id b)) (blocks c))))"

definition miner_subsidy_of :: "int \<Rightarrow> u32 \<Rightarrow> u64" where
  "miner_subsidy_of height log_slots = (if 0 < height then miner_subsidy (as_u64 height) log_slots else 0)"

definition block_id_and_row :: "db \<Rightarrow> (block_row \<Rightarrow> bool) \<Rightarrow> (int \<times> block_detail) option result" where
  "block_id_and_row c P =
     (case sort_desc (\<lambda>b. status_rank c (b_id b)) (filter P (blocks c)) of
        [] \<Rightarrow> Inr None
      | b # _ \<Rightarrow> and_then (canonical_flag c (b_id b)) (\<lambda>canonical. Inr (Some (b_id b,
          \<lparr>bd_height = b_height b, bd_hash = b_hash b, bd_prev_hash = b_prev_hash b, bd_state_root = b_state_root b,
           bd_tx_root = b_tx_root b, bd_timestamp = b_timestamp b, bd_seen_at_ms = b_tip_seen_at_ms b,
           bd_miner = b_miner b, bd_nonce_hex = b_nonce_hex b, bd_difficulty_target = b_difficulty_target b,
           bd_proof_class = b_proof_class b, bd_reward = b_reward b, bd_total_fees = b_total_fees b,
           bd_miner_subsidy = miner_subsidy_of (b_height b)
             (case b_log_slots b of Some l \<Rightarrow> word_of_int l | None \<Rightarrow> LOG_SLOTS_GENESIS),
           bd_log_slots = map_option word_of_int (b_log_slots b), bd_active_slot_count = None, bd_alloc_counter = None,
           bd_body_captured = b_body_captured b, bd_archived = archived b, bd_archive_from_height = None,
           bd_tx_count_total = b_tx_count_total b, bd_confirmations = None, bd_canonical = canonical,
           bd_other_versions = [], bd_transactions = []\<rparr>))))"

section \<open>Transactions of a block\<close>

definition inputs_of :: "db \<Rightarrow> int \<Rightarrow> input_row list" where
  "inputs_of c tx_id = sort_key i_idx (filter (\<lambda>i. i_tx_id i = tx_id) (inputs c))"

definition outputs_of :: "db \<Rightarrow> int \<Rightarrow> output_row list" where
  "outputs_of c tx_id = sort_key o_idx (filter (\<lambda>out. o_tx_id out = tx_id) (outputs c))"

definition first_owner :: "output_row list \<Rightarrow> string option" where
  "first_owner outs = (case outs of [] \<Rightarrow> None | out # _ \<Rightarrow> Some (o_owner out))"

text \<open>A summary; only the address page has the last two columns.\<close>

definition tx_summary_of :: "db \<Rightarrow> string option \<Rightarrow> string option \<Rightarrow> tx_row \<times> block_row \<Rightarrow> tx_summary" where
  "tx_summary_of c delta counterparty = (\<lambda>(t, b).
     \<lparr>ts_position = t_position t, ts_txid = t_txid t, ts_page_count = t_page_count t, ts_fee = t_fee t,
      ts_coinbase = t_coinbase t, ts_development_payout = t_development_payout t, ts_input_owner = t_input_owner t,
      ts_receiver = first_owner (outputs_of c (t_id t)), ts_input_sum = t_input_sum t, ts_output_sum = t_output_sum t,
      ts_height = b_height b, ts_timestamp = b_timestamp b, ts_n_inputs = length (inputs_of c (t_id t)),
      ts_n_outputs = length (outputs_of c (t_id t)), ts_address_delta = delta, ts_counterparty = counterparty,
      ts_contract = contract_kind (t_contract_flags t), ts_source = source_kind (t_source t)\<rparr>)"

text \<open>\<open>transactions t JOIN blocks b ON b.id = t.block_id\<close>.\<close>

definition joined :: "db \<Rightarrow> (tx_row \<times> block_row) list" where
  "joined c = List.map_filter (\<lambda>t. map_option (Pair t) (block_with_id c (t_block_id t))) (transactions c)"

definition tx_summaries_for_block :: "db \<Rightarrow> int \<Rightarrow> tx_summary list" where
  "tx_summaries_for_block c bid =
     map (tx_summary_of c None None) (sort_key (\<lambda>(t, b). t_position t) (filter (\<lambda>(t, b). t_block_id t = bid) (joined c)))"

definition indexed_tip :: "db \<Rightarrow> int option" where
  "indexed_tip c = (case get_state c ''last_processed_height'' of None \<Rightarrow> None | Some s \<Rightarrow> parse_i64 s)"

definition confirmations_for :: "int option \<Rightarrow> int \<Rightarrow> int option" where
  "confirmations_for tip height = map_option (\<lambda>t. max (wrap (t - height + 1)) 0) tip"

definition archive_from_height :: "db \<Rightarrow> int option" where
  "archive_from_height c = min_option (map b_height (filter archived (blocks c)))"

definition block_version_of :: "db \<Rightarrow> block_row \<Rightarrow> block_version result" where
  "block_version_of c b =
     and_then (canonical_flag c (b_id b)) (\<lambda>canonical.
       Inr \<lparr>bv_hash = b_hash b, bv_canonical = canonical, bv_miner = b_miner b, bv_timestamp = b_timestamp b,
            bv_tx_count = length (txs_of_block c (b_id b)), bv_body_captured = b_body_captured b,
            bv_observed_at = observed_at c (b_id b)\<rparr>)"

definition block_versions_at :: "db \<Rightarrow> int \<Rightarrow> int \<Rightarrow> block_version list result" where
  "block_versions_at c height except_id =
     collect_rows (map (block_version_of c)
       (sort_desc (\<lambda>b. status_rank c (b_id b)) (sort_desc (\<lambda>b. observed_at c (b_id b))
         (filter (\<lambda>b. b_height b = height \<and> b_id b \<noteq> except_id) (blocks c)))))"

definition finish_block :: "db \<Rightarrow> int \<Rightarrow> block_detail \<Rightarrow> block_detail result" where
  "finish_block c bid d =
     and_then (block_versions_at c (bd_height d) bid) (\<lambda>versions.
       Inr (d\<lparr>bd_archive_from_height := (if bd_archived d then bd_archive_from_height d else archive_from_height c),
              bd_transactions := tx_summaries_for_block c bid,
              bd_confirmations := (if bd_canonical d then confirmations_for (indexed_tip c) (bd_height d) else Some 0),
              bd_other_versions := versions\<rparr>))"

definition block_by :: "db \<Rightarrow> (block_row \<Rightarrow> bool) \<Rightarrow> block_detail option result" where
  "block_by c P =
     and_then (block_id_and_row c P) (\<lambda>row. case row of
       None \<Rightarrow> Inr None
     | Some (bid, d) \<Rightarrow> and_then (finish_block c bid d) (\<lambda>d. Inr (Some d)))"

definition block_by_height :: "db \<Rightarrow> int \<Rightarrow> block_detail option result" where
  "block_by_height c height = block_by c (\<lambda>b. b_height b = height)"

definition block_by_hash :: "db \<Rightarrow> string \<Rightarrow> block_detail option result" where
  "block_by_hash c hash = block_by c (\<lambda>b. b_hash b = hash)"

record orphaned_block =
  ob_height :: int
  ob_hash :: string
  ob_miner :: string
  ob_timestamp :: int
  ob_tx_count :: nat
  ob_body_captured :: bool
  ob_observed_at :: "string option"
  ob_replaced_by :: "string option"

definition orphaned_blocks :: "db \<Rightarrow> int \<Rightarrow> orphaned_block list" where
  "orphaned_blocks c lim =
     map (\<lambda>b. \<lparr>ob_height = b_height b, ob_hash = b_hash b, ob_miner = b_miner b, ob_timestamp = b_timestamp b,
                ob_tx_count = length (txs_of_block c (b_id b)), ob_body_captured = b_body_captured b,
                ob_observed_at = observed_at c (b_id b),
                ob_replaced_by = map_option b_hash
                  (find (\<lambda>b2. b_height b2 = b_height b \<and> b_id b2 \<noteq> b_id b \<and> is_canonical c (b_id b2)) (blocks c))\<rparr>)
       (limit_rows (max 1 (min 500 lim)) (sort_desc b_height
         (filter (\<lambda>b. archived b \<and> is_orphaned c (b_id b)) (blocks c))))"

section \<open>One transaction\<close>

definition tx_by_txid :: "db \<Rightarrow> string \<Rightarrow> tx_detail option result" where
  "tx_by_txid c txid =
     (let rank = (\<lambda>(t, b). status_rank c (b_id b));
          found = filter (\<lambda>(t, b). t_txid t = txid) (joined c)
      in case sort_desc rank found of
           [] \<Rightarrow> Inr None
         | (t, b) # _ \<Rightarrow>
             and_then (canonical_flag c (b_id b)) (\<lambda>canonical.
             and_then (collect_rows (map (\<lambda>(t2, b2). and_then (canonical_flag c (b_id b2)) (\<lambda>can.
                 Inr \<lparr>oc_height = b_height b2, oc_block_hash = b_hash b2, oc_canonical = can\<rparr>))
               (sort_desc rank (sort_desc (\<lambda>(t2, b2). b_height b2) (filter (\<lambda>(t2, b2). t_id t2 \<noteq> t_id t) found)))))
             (\<lambda>others. Inr (Some
               \<lparr>td_txid = txid, td_source = source_kind (t_source t), td_position = t_position t,
                td_contract = contract_kind (t_contract_flags t), td_page_count = t_page_count t, td_fee = t_fee t,
                td_coinbase = t_coinbase t, td_development_payout = t_development_payout t,
                td_epoch_anchor = t_epoch_anchor t, td_input_owner = t_input_owner t, td_input_sum = t_input_sum t,
                td_output_sum = t_output_sum t,
                td_page_hashes = map p_page_hash (sort_key p_idx (filter (\<lambda>p. p_tx_id p = t_id t) (page_hashes c))),
                td_inputs = map (\<lambda>i. (i_slot_index i, i_amount i, i_creation_id i)) (inputs_of c (t_id t)),
                td_outputs = map (\<lambda>out. (o_slot_index out, o_amount out, o_owner out, o_creation_id out)) (outputs_of c (t_id t)),
                td_block_height = b_height b, td_block_hash = b_hash b, td_block_timestamp = b_timestamp b,
                td_block_canonical = canonical,
                td_confirmations = (if canonical then confirmations_for (indexed_tip c) (b_height b) else Some 0),
                td_other_occurrences = others\<rparr>))))"

end
