(* ===== verification/Query_Stats.thy ===== *)
theory Query_Stats
  imports Queries
begin

text \<open>
  The second half of \<^verbatim>\<open>core/src/queries.rs\<close>: the history and balance of an address, the statistics of
  the archive, burned fees, and the mining figures.
\<close>

section \<open>The history of an address\<close>

definition takes_part :: "db \<Rightarrow> string \<Rightarrow> tx_row \<Rightarrow> bool" where
  "takes_part c address t =
     (t_input_owner t = Some address \<or> (\<exists>out \<in> set (outputs c). o_tx_id out = t_id t \<and> o_owner out = address))"

definition address_txs :: "db \<Rightarrow> string \<Rightarrow> (tx_row \<times> block_row) list" where
  "address_txs c address = filter (\<lambda>(t, b). is_canonical c (b_id b) \<and> takes_part c address t) (joined c)"

definition newest_first :: "(tx_row \<times> block_row) list \<Rightarrow> (tx_row \<times> block_row) list" where
  "newest_first rows = sort_desc (\<lambda>(t, b). b_height b) (sort_desc (\<lambda>(t, b). t_position t) rows)"

text \<open>A difference outside the 64-bit range is no integer any more, and is left out.\<close>

definition address_delta :: "db \<Rightarrow> string \<Rightarrow> tx_row \<Rightarrow> string option result" where
  "address_delta c address t =
     and_then (sql_sum (map o_amount (filter (\<lambda>out. o_tx_id out = t_id t \<and> o_owner out = address) (outputs c)))) (\<lambda>received.
       let d = received - (if t_input_owner t = Some address then cast_integer (t_input_sum t) else 0)
       in Inr (if in_i64 d then Some (int_to_string d) else None))"

definition counterparty_of :: "db \<Rightarrow> string \<Rightarrow> tx_row \<Rightarrow> string option" where
  "counterparty_of c address t = first_owner (filter (\<lambda>out. o_owner out \<noteq> address) (outputs_of c (t_id t)))"

definition address_summary :: "db \<Rightarrow> string \<Rightarrow> tx_row \<times> block_row \<Rightarrow> tx_summary result" where
  "address_summary c address = (\<lambda>(t, b). and_then (address_delta c address t) (\<lambda>delta.
     Inr (tx_summary_of c delta (counterparty_of c address t) (t, b))))"

definition saturate :: "int \<Rightarrow> int" where
  "saturate x = max (- (2 ^ 63)) (min (2 ^ 63 - 1) x)"

definition txs_by_address :: "db \<Rightarrow> string \<Rightarrow> int \<Rightarrow> int \<Rightarrow> (tx_summary list \<times> nat) result" where
  "txs_by_address c address page_no page_size =
     (let offset = saturate ((max page_no 1 - 1) * page_size);
          count = length (address_txs c address)
      in if int count \<le> offset then Inr ([], count)
         else and_then (collect_rows (map (address_summary c address)
                (limit_rows page_size (drop (nat offset) (newest_first (address_txs c address)))))) (\<lambda>items.
                Inr (items, count)))"

definition receipt_txs_by_address :: "db \<Rightarrow> string \<Rightarrow> nat" where
  "receipt_txs_by_address c address =
     length (filter (\<lambda>t. t_source t = Some RECEIPT_SOURCE \<and> takes_part c address t) (transactions c))"

section \<open>The balance of an address\<close>

text \<open>A row's transaction is recorded, in a canonical block.\<close>

definition in_history :: "db \<Rightarrow> int \<Rightarrow> bool" where
  "in_history c tx_id = (case origin c tx_id of None \<Rightarrow> False | Some (t, b) \<Rightarrow> recorded t \<and> is_canonical c (b_id b))"

definition spent_in_history :: "db \<Rightarrow> string option \<Rightarrow> bool" where
  "spent_in_history c cid = (\<exists>i \<in> set (inputs c). Some (i_creation_id i) = cid \<and> in_history c (i_tx_id i))"

definition own_outputs :: "db \<Rightarrow> string \<Rightarrow> output_row list" where
  "own_outputs c address = filter (\<lambda>out. o_owner out = address \<and> in_history c (o_tx_id out)) (outputs c)"

definition unspent_outputs :: "db \<Rightarrow> string \<Rightarrow> bool \<Rightarrow> output_row list" where
  "unspent_outputs c address in_gap =
     filter (\<lambda>out. o_spent_in_gap out = in_gap \<and> \<not> spent_in_history c (o_creation_id out)) (own_outputs c address)"

definition own_spends :: "db \<Rightarrow> string \<Rightarrow> tx_row list" where
  "own_spends c address = filter (\<lambda>t. t_input_owner t = Some address \<and> in_history c (t_id t)) (transactions c)"

definition unrecorded_inputs :: "db \<Rightarrow> string \<Rightarrow> input_row list" where
  "unrecorded_inputs c address =
     filter (\<lambda>i. (case origin c (i_tx_id i) of None \<Rightarrow> False | Some (t, b) \<Rightarrow> t_input_owner t = Some address)
               \<and> in_history c (i_tx_id i) \<and> (\<forall>out \<in> set (outputs c). o_creation_id out \<noteq> Some (i_creation_id i))) (inputs c)"

record balance_figures =
  ab_confirmed_balance :: int
  ab_confirmed_utxos :: nat
  ab_total_received :: int
  ab_total_sent :: int
  ab_spent_in_gap :: int
  ab_spent_in_gap_utxos :: nat
  ab_sent_from_unrecorded :: int

definition address_balance :: "db \<Rightarrow> string \<Rightarrow> balance_figures result" where
  "address_balance c address =
     and_then (sql_sum (map o_amount (own_outputs c address))) (\<lambda>received.
     and_then (sql_sum (map o_amount (unspent_outputs c address False))) (\<lambda>confirmed.
     and_then (sql_sum (map o_amount (unspent_outputs c address True))) (\<lambda>in_gap.
     and_then (sql_sum (map (\<lambda>t. cast_integer (t_input_sum t)) (own_spends c address))) (\<lambda>sent.
     and_then (sql_sum (map i_amount (unrecorded_inputs c address))) (\<lambda>unrecorded.
       Inr \<lparr>ab_confirmed_balance = confirmed, ab_confirmed_utxos = length (unspent_outputs c address False),
            ab_total_received = received, ab_total_sent = sent, ab_spent_in_gap = in_gap,
            ab_spent_in_gap_utxos = length (unspent_outputs c address True), ab_sent_from_unrecorded = unrecorded\<rparr>)))))"

text \<open>
  The changes per hour. \<open>SUM\<close> over a TEXT column adds the numbers it holds; a text that is none makes
  the sum a floating-point value, which cannot be read.
\<close>

definition hour_of :: "int \<Rightarrow> int" where
  "hour_of seconds = sql_div seconds 3600 * 3600"

definition sum_text :: "string list \<Rightarrow> int result" where
  "sum_text texts =
     and_then (collect_rows (map (\<lambda>s. case parse_i64 s of Some v \<Rightarrow> Inr v | None \<Rightarrow> bail ''Invalid column type Real'') texts)) sql_sum"

definition group_by_hour :: "('a list \<Rightarrow> int result) \<Rightarrow> (int \<times> 'a) list \<Rightarrow> (int \<times> int) list result" where
  "group_by_hour add rows =
     collect_rows (map (\<lambda>h. and_then (add (map snd (filter (\<lambda>r. fst r = h) rows))) (\<lambda>s. Inr (h, s)))
       (sort (remdups (map fst rows))))"

text \<open>\<open>*by_hour.entry(hour).or_default() += change\<close> on the ordered map.\<close>

fun add_change :: "int \<Rightarrow> int \<Rightarrow> (int \<times> int) list \<Rightarrow> (int \<times> int) list" where
  "add_change h d [] = [(h, wrap d)]"
| "add_change h d ((k, v) # m) =
     (if h = k then (k, wrap (v + d)) # m
      else if h < k then (h, wrap d) # (k, v) # m
      else (k, v) # add_change h d m)"

definition add_changes :: "int \<Rightarrow> (int \<times> int) list \<Rightarrow> (int \<times> int) list \<Rightarrow> (int \<times> int) list" where
  "add_changes sign rows m = foldl (\<lambda>m (h, amount). add_change h (wrap (sign * amount)) m) m rows"

definition received_by_hour :: "db \<Rightarrow> string \<Rightarrow> (int \<times> int) list" where
  "received_by_hour c address =
     map (\<lambda>out. (case origin c (o_tx_id out) of Some (t, b) \<Rightarrow> hour_of (b_timestamp b) | None \<Rightarrow> 0, o_amount out))
       (own_outputs c address)"

definition sent_by_hour :: "db \<Rightarrow> string \<Rightarrow> (int \<times> string) list" where
  "sent_by_hour c address =
     map (\<lambda>t. (case block_with_id c (t_block_id t) of Some b \<Rightarrow> hour_of (b_timestamp b) | None \<Rightarrow> 0, t_input_sum t))
       (own_spends c address)"

definition gone_outputs :: "db \<Rightarrow> string \<Rightarrow> output_row list" where
  "gone_outputs c address =
     filter (\<lambda>out. o_spent_in_gap out \<and> o_spent_in_gap_at out \<noteq> None) (own_outputs c address)"

definition gone_by_hour :: "(string \<Rightarrow> string option) \<Rightarrow> db \<Rightarrow> string \<Rightarrow> (int \<times> int) list result" where
  "gone_by_hour strftime c address =
     collect_rows (map (\<lambda>out. case strftime (the (o_spent_in_gap_at out)) of
         Some s \<Rightarrow> Inr (hour_of (cast_integer s), o_amount out)
       | None \<Rightarrow> bail ''Invalid column type Null'') (gone_outputs c address))"

definition balance_changes_by_hour :: "(string \<Rightarrow> string option) \<Rightarrow> db \<Rightarrow> string \<Rightarrow> (int \<times> int) list result" where
  "balance_changes_by_hour strftime c address =
     and_then (group_by_hour sql_sum (received_by_hour c address)) (\<lambda>received.
     and_then (group_by_hour sum_text (sent_by_hour c address)) (\<lambda>sent.
     and_then (gone_by_hour strftime c address) (\<lambda>gone_rows.
     and_then (group_by_hour sql_sum gone_rows) (\<lambda>gone.
       Inr (filter (\<lambda>(h, d). d \<noteq> 0) (add_changes (- 1) gone (add_changes (- 1) sent (add_changes 1 received []))))))))"

definition recorded_from_timestamp :: "db \<Rightarrow> int option" where
  "recorded_from_timestamp c = min_option (map b_timestamp (filter (\<lambda>b. b_body_captured b \<and> archived b) (blocks c)))"

section \<open>Balances and gaps\<close>

definition richlist :: "db \<Rightarrow> int \<Rightarrow> balance_row list" where
  "richlist c lim = limit_rows lim (sort_desc (\<lambda>a. cast_integer (a_balance a)) (balances c))"

definition recent_gaps :: "db \<Rightarrow> int \<Rightarrow> gap_row list" where
  "recent_gaps c lim = limit_rows lim (sort_desc g_height (gaps c))"

section \<open>Burned fees\<close>

definition burned_in_block :: "int \<Rightarrow> int \<Rightarrow> int \<Rightarrow> int option \<Rightarrow> int" where
  "burned_in_block height reward fees log_slots =
     (let subsidy = uint (miner_subsidy (as_u64 height) (word_of_int (case log_slots of Some l \<Rightarrow> l | None \<Rightarrow> 24)))
      in max (fees - (reward - subsidy)) 0)"

definition burn_of :: "block_row \<Rightarrow> int" where
  "burn_of b = burned_in_block (b_height b) (case b_reward b of Some r \<Rightarrow> r | None \<Rightarrow> 0)
     (case b_total_fees b of Some f \<Rightarrow> cast_integer f | None \<Rightarrow> 0) (b_log_slots b)"

definition with_body :: "db \<Rightarrow> block_row list" where
  "with_body c = filter (\<lambda>b. b_body_captured b \<and> b_reward b \<noteq> None \<and> archived b \<and> is_canonical c (b_id b)) (blocks c)"

definition burn_by_block :: "db \<Rightarrow> (u64 \<times> u128) list" where
  "burn_by_block c = map (\<lambda>b. (as_u64 (b_height b), word_of_int (burn_of b))) (sort_key b_height (with_body c))"

record activity =
  sa_blocks :: u64
  sa_from_height :: "u64 option"
  sa_to_height :: "u64 option"
  sa_complete :: bool
  sa_utxos_created :: u64
  sa_utxos_consumed :: u64
  sa_slots_freed :: u64
  sa_burned :: string

definition block_outputs :: "db \<Rightarrow> int \<Rightarrow> nat" where
  "block_outputs c bid = length (filter (\<lambda>out. \<exists>t \<in> set (txs_of_block c bid). t_id t = o_tx_id out) (outputs c))"

definition block_inputs :: "db \<Rightarrow> int \<Rightarrow> nat" where
  "block_inputs c bid = length (filter (\<lambda>i. \<exists>t \<in> set (txs_of_block c bid). t_id t = i_tx_id i) (inputs c))"

definition block_freed :: "db \<Rightarrow> int \<Rightarrow> int" where
  "block_freed c bid =
     sum_list (map (\<lambda>t. max 0 (int (length (inputs_of c (t_id t))) - int (length (outputs_of c (t_id t))))) (txs_of_block c bid))"

definition add_block :: "db \<Rightarrow> block_row \<Rightarrow> activity \<times> int \<Rightarrow> activity \<times> int" where
  "add_block c b = (\<lambda>(a, burned).
     (a\<lparr>sa_blocks := sa_blocks a + 1,
        sa_from_height := (case sa_from_height a of None \<Rightarrow> Some (as_u64 (b_height b)) | Some h \<Rightarrow> Some h),
        sa_to_height := Some (as_u64 (b_height b)),
        sa_utxos_created := sa_utxos_created a + of_nat (block_outputs c (b_id b)),
        sa_utxos_consumed := sa_utxos_consumed a + of_nat (block_inputs c (b_id b)),
        sa_slots_freed := sa_slots_freed a + as_u64 (block_freed c (b_id b))\<rparr>,
      burned + burn_of b))"

definition no_activity :: activity where
  "no_activity = \<lparr>sa_blocks = 0, sa_from_height = None, sa_to_height = None, sa_complete = False, sa_utxos_created = 0,
     sa_utxos_consumed = 0, sa_slots_freed = 0, sa_burned = []\<rparr>"

definition reaches_back :: "int \<Rightarrow> int option \<Rightarrow> bool" where
  "reaches_back since oldest = (case oldest of None \<Rightarrow> False | Some t \<Rightarrow> t \<le> since)"

definition state_activity :: "db \<Rightarrow> int \<Rightarrow> activity" where
  "state_activity c since =
     (case fold (add_block c) (sort_key b_height (filter (\<lambda>b. since \<le> b_timestamp b) (with_body c))) (no_activity, 0) of
        (a, burned) \<Rightarrow>
          a\<lparr>sa_burned := int_to_string burned,
            sa_complete := reaches_back since (min_option (map b_timestamp
              (filter (\<lambda>b. b_body_captured b \<and> archived b \<and> is_canonical c (b_id b)) (blocks c))))\<rparr>)"

section \<open>Statistics\<close>

record chain_figures =
  cs_last_processed_height :: "int option"
  cs_indexed_blocks :: nat
  cs_indexed_transactions :: int
  cs_receipt_transactions :: nat
  cs_archive_from_height :: "int option"
  cs_header_only_blocks :: nat
  cs_headers_from_height :: "int option"
  cs_gaps :: nat
  cs_gaps_resolved :: nat
  cs_decoder_mismatches :: int
  cs_oldest_retained_timestamp :: "int option"
  cs_transactions_24h :: nat
  cs_burned_fees_24h :: "string option"
  cs_addresses_with_balance :: nat
  cs_orphaned_blocks :: nat
  cs_live_utxos :: nat

definition count_rows :: "('r \<Rightarrow> bool) \<Rightarrow> 'r list \<Rightarrow> nat" where
  "count_rows P rows = length (filter P rows)"

definition live_outputs :: "db \<Rightarrow> output_row list" where
  "live_outputs c = filter (\<lambda>out. in_history c (o_tx_id out) \<and> \<not> o_spent_in_gap out
     \<and> \<not> spent_in_history c (o_creation_id out)) (outputs c)"

definition chain_stats :: "db \<Rightarrow> int \<Rightarrow> chain_figures" where
  "chain_stats c now =
     (let day_ago = now - 86400;
          burns = map burn_of (filter (\<lambda>b. day_ago \<le> b_timestamp b) (with_body c))
      in \<lparr>cs_last_processed_height = indexed_tip c,
          cs_indexed_blocks = count_rows (\<lambda>b. archived b \<and> is_canonical c (b_id b)) (blocks c),
          cs_indexed_transactions = int (length (transactions c)) - int (receipt_transaction_count c),
          cs_receipt_transactions = receipt_transaction_count c,
          cs_archive_from_height = archive_from_height c,
          cs_header_only_blocks = count_rows (\<lambda>b. b_body_source b = Some ''header'') (blocks c),
          cs_headers_from_height = min_option (map b_height (blocks c)),
          cs_gaps = count_rows (\<lambda>g. g_resolved_at g = None) (gaps c),
          cs_gaps_resolved = count_rows (\<lambda>g. g_resolved_at g \<noteq> None) (gaps c),
          cs_decoder_mismatches = (case get_state c ''decoder_mismatches'' of None \<Rightarrow> 0
            | Some s \<Rightarrow> (case parse_i64 s of Some n \<Rightarrow> n | None \<Rightarrow> 0)),
          cs_oldest_retained_timestamp = recorded_from_timestamp c,
          cs_transactions_24h = count_rows (\<lambda>(t, b). day_ago \<le> b_timestamp b \<and> recorded t \<and> is_canonical c (b_id b)) (joined c),
          cs_burned_fees_24h = (if burns = [] then None else Some (int_to_string (sum_list burns))),
          cs_addresses_with_balance = count_rows (\<lambda>a. 0 < a_utxo_count a) (balances c),
          cs_orphaned_blocks = count_rows (\<lambda>b. archived b \<and> is_orphaned c (b_id b)) (blocks c),
          cs_live_utxos = length (live_outputs c)\<rparr>)"

text \<open>An average is the quotient the program hands to its floating-point division.\<close>

definition avg_block_time_seconds :: "db \<Rightarrow> int \<Rightarrow> int \<Rightarrow> (int \<times> int) option" where
  "avg_block_time_seconds c window now =
     (let ts = map b_timestamp (filter (\<lambda>b. wrap (now - window) \<le> b_timestamp b \<and> is_canonical c (b_id b)) (blocks c))
      in case (min_option ts, max_int_option ts) of
           (Some lo, Some hi) \<Rightarrow> if 2 \<le> length ts \<and> lo < hi then Some (wrap (hi - lo), int (length ts) - 1) else None
         | _ \<Rightarrow> None)"

section \<open>Mining\<close>

record mined =
  bm_count :: nat
  bm_first_height :: "int option"
  bm_last_height :: "int option"
  bm_counted_from_height :: "int option"

definition lowest_mined_height :: "db \<Rightarrow> int option" where
  "lowest_mined_height c = map_option (\<lambda>h. max h 1) (min_option (map b_height (blocks c)))"

definition blocks_mined :: "db \<Rightarrow> string \<Rightarrow> mined" where
  "blocks_mined c address =
     (let hs = map b_height (filter (\<lambda>b. b_miner b = address \<and> 1 \<le> b_height b \<and> canonical_or_header_only c b) (blocks c))
      in \<lparr>bm_count = length hs, bm_first_height = min_option hs, bm_last_height = max_int_option hs,
          bm_counted_from_height = lowest_mined_height c\<rparr>)"

record miner_entry =
  me_address :: string
  me_blocks :: nat
  me_share :: "nat \<times> nat"
  me_first_height :: int
  me_last_height :: int

record miners_report =
  mr_since_timestamp :: "int option"
  mr_blocks :: nat
  mr_from_height :: "int option"
  mr_to_height :: "int option"
  mr_complete :: bool
  mr_counted_from_height :: "int option"
  mr_miner_count :: nat
  mr_miners :: "miner_entry list"

definition mined_since :: "db \<Rightarrow> int option \<Rightarrow> block_row list" where
  "mined_since c since =
     filter (\<lambda>b. (case since of None \<Rightarrow> True | Some s \<Rightarrow> s \<le> b_timestamp b) \<and> 1 \<le> b_height b \<and> canonical_or_header_only c b)
       (blocks c)"

definition miner_row :: "block_row list \<Rightarrow> string \<Rightarrow> miner_entry" where
  "miner_row bs who =
     (let hs = map b_height (filter (\<lambda>b. b_miner b = who) bs)
      in \<lparr>me_address = who, me_blocks = length hs, me_share = (0, 1), me_first_height = Min (set hs), me_last_height = Max (set hs)\<rparr>)"

definition miner_rows :: "block_row list \<Rightarrow> miner_entry list" where
  "miner_rows bs = map (miner_row bs) (sort (remdups (map b_miner bs)))"

definition miners :: "db \<Rightarrow> int option \<Rightarrow> nat \<Rightarrow> miners_report" where
  "miners c since lim =
     (let rows = miner_rows (mined_since c since);
          total = sum_list (map me_blocks rows);
          rows = map (\<lambda>m. m\<lparr>me_share := (if 0 < total then (me_blocks m, total) else (0, 1))\<rparr>) rows;
          rows = sort_desc me_blocks (sort_desc me_last_height rows)
      in \<lparr>mr_since_timestamp = since, mr_blocks = total,
          mr_from_height = min_option (map me_first_height rows), mr_to_height = max_int_option (map me_last_height rows),
          mr_complete = (case since of None \<Rightarrow> lowest_mined_height c = Some 1
            | Some s \<Rightarrow> reaches_back s (min_option (map b_timestamp (blocks c)))),
          mr_counted_from_height = lowest_mined_height c, mr_miner_count = length rows, mr_miners = take lim rows\<rparr>)"

end
