(* ===== verification/Query_Spec.thy ===== *)
theory Query_Spec
  imports Query_Stats Samples "HOL-Library.Multiset"
begin

text \<open>
  What the queries of the API promise: the figures of an address, of the whole archive and of the live
  state agree with each other, the hourly changes add up to the balance, and the pages of a list hand
  out every row once.
\<close>

section \<open>Sums\<close>

lemma sql_sum_from_Inr: "sql_sum_from acc xs = Inr s \<Longrightarrow> s = acc + sum_list xs"
  by (induction acc xs rule: sql_sum_from.induct) (auto split: if_splits)

lemma sql_sum_Inr: "sql_sum xs = Inr s \<Longrightarrow> s = sum_list xs"
  using sql_sum_from_Inr [of 0] by (simp add: sql_sum_def)

lemma sum_list_word: "sum_list (map (\<lambda>x. word_of_int (f x)) xs) = (word_of_int (sum_list (map f xs)) :: 'a::len word)"
  by (induction xs) simp_all

lemma sum_list_filter_split:
  "sum_list (map f (filter P xs)) + sum_list (map f (filter (\<lambda>x. \<not> P x) xs)) = (sum_list (map f xs) :: 'a::comm_monoid_add)"
  by (induction xs) (simp_all add: ac_simps)

lemma sum_list_two_halves:
  "sum_list (map f (filter (\<lambda>x. P x = False \<and> Q x) xs)) + sum_list (map f (filter (\<lambda>x. P x = True \<and> Q x) xs))
    = (sum_list (map f (filter Q xs)) :: int)"
  by (induction xs) auto

lemma length_filter_split: "length (filter P xs) + length (filter (\<lambda>x. \<not> P x) xs) = length xs"
  by (induction xs) simp_all

lemma address_balance_Inr:
  assumes "address_balance c w = Inr r"
  shows "ab_total_received r = sum_list (map o_amount (own_outputs c w))"
    and "ab_confirmed_balance r = sum_list (map o_amount (unspent_outputs c w False))"
    and "ab_confirmed_utxos r = length (unspent_outputs c w False)"
    and "ab_spent_in_gap r = sum_list (map o_amount (unspent_outputs c w True))"
    and "ab_total_sent r = sum_list (map (\<lambda>t. cast_integer (t_input_sum t)) (own_spends c w))"
    and "ab_sent_from_unrecorded r = sum_list (map i_amount (unrecorded_inputs c w))"
  using assms by (auto simp: address_balance_def and_then_Inr_iff dest!: sql_sum_Inr)

section \<open>The confirmed balance and the live state\<close>

lemma on_record_in_history:
  assumes "heights_in_range c" shows "on_record c 9223372036854775807 tx_id = in_history c tx_id"
proof -
  have "b_height b \<le> 9223372036854775807" if "block_with_id c i = Some b" for i b
  proof -
    have "b \<in> set (blocks c)" using that by (auto simp: block_with_id_def find_Some_iff)
    with assms have "b_height b < 2 ^ 63" by (simp add: heights_in_range_def)
    then show ?thesis by simp
  qed
  then show ?thesis by (auto simp: on_record_def in_history_def origin_def split: option.splits)
qed

lemma live_recorded_iff:
  assumes "heights_in_range c"
  shows "live_recorded c 9223372036854775807 out \<longleftrightarrow>
    in_history c (o_tx_id out) \<and> \<not> o_spent_in_gap out \<and> \<not> spent_in_history c (o_creation_id out)"
  by (auto simp: live_recorded_def spent_by_recorded_input_def spent_in_history_def on_record_in_history [OF assms])

lemma own_live_outputs: "filter (\<lambda>out. o_owner out = w) (live_outputs c) = unspent_outputs c w False"
  by (auto simp: live_outputs_def unspent_outputs_def own_outputs_def intro!: filter_cong)

definition foreign_coins :: "db \<Rightarrow> string \<Rightarrow> state_slot_row list" where
  "foreign_coins c w = filter (\<lambda>f. f_owner f = w \<and> live_foreign c (2 ^ 63 - 1) f) (state_slots c)"

lemma own_live_amounts:
  assumes "heights_in_range c"
  shows "map snd (filter (\<lambda>(x, a). x = w) (live_amounts c))
    = map o_amount (unspent_outputs c w False) @ map f_amount (foreign_coins c w)"
proof -
  have "filter (\<lambda>out. o_owner out = w \<and> live_recorded c 9223372036854775807 out) (outputs c) = unspent_outputs c w False"
    by (auto simp: live_recorded_iff [OF assms] unspent_outputs_def own_outputs_def intro!: filter_cong)
  then show ?thesis
    by (simp add: live_amounts_def filter_map o_def foreign_coins_def conj_commute)
qed

text \<open>
  C13. The two halves of the program that tell a balance agree: the sweep's picture of the live state
  holds, for every address it lists, what the address page calls the confirmed balance and its outputs,
  plus the coins found in the node's state that no recorded output explains; an address it does not list
  has neither.
\<close>
theorem live_balance_is_the_confirmed_one:
  assumes "heights_in_range c" "address_balance c w = Inr r"
  shows "map_of (live_balances c) w =
    (if ab_confirmed_utxos r = 0 \<and> foreign_coins c w = [] then None
     else Some (word_of_int (ab_confirmed_balance r + sum_list (map f_amount (foreign_coins c w))),
                of_nat (ab_confirmed_utxos r + length (foreign_coins c w))))"
proof -
  let ?own = "filter (\<lambda>(x, a). x = w) (live_amounts c)"
  note own = own_live_amounts [OF assms(1), of w] and r = address_balance_Inr [OF assms(2)]
  have entry: "map_of (map (\<lambda>x. (x, f x)) xs) w = (if w \<in> set xs then Some (f w) else None)" for f :: "string \<Rightarrow> 'a" and xs
    by (induction xs) auto
  have listed: "w \<in> set (map fst (live_amounts c)) \<longleftrightarrow> map snd ?own \<noteq> []"
    by (force simp: filter_empty_conv)
  have "sum_list (map (\<lambda>(x, a). word_of_int a) ?own) = (word_of_int (sum_list (map snd ?own)) :: u128)"
    by (simp add: sum_list_word [symmetric] case_prod_unfold o_def)
  moreover have "length ?own = length (map snd ?own)" by simp
  ultimately show ?thesis
    using listed unfolding own
    by (simp add: live_balances_def entry r)
qed

section \<open>Received, sent and kept\<close>

lemma sum_list_matched:
  assumes "distinct (map k xs)" "distinct (map l ys)" "k ` set xs = l ` set ys"
    and "\<And>x y. x \<in> set xs \<Longrightarrow> y \<in> set ys \<Longrightarrow> k x = l y \<Longrightarrow> f x = g y"
  shows "sum_list (map f xs) = (sum_list (map g ys) :: int)"
  using assms
proof (induction xs arbitrary: ys)
  case (Cons x xs)
  obtain y where y: "y \<in> set ys" "l y = k x" using Cons.prems(3) by (metis imageE insertI1 list.simps(15) imageI)
  let ?ys = "remove1 y ys"
  have d: "distinct ys" and inj: "inj_on l (set ys)" using Cons.prems(2) by (simp_all add: distinct_map)
  have rest: "set ?ys = set ys - {y}" using d by (rule set_remove1_eq)
  have "l ` (set ys - {y}) = l ` set ys - {l y}" using inj y(1) by (simp add: inj_on_image_set_diff)
  also have "\<dots> = k ` set xs" using Cons.prems(1) by (simp add: Cons.prems(3) [symmetric] y(2))
  finally have "k ` set xs = l ` set ?ys" by (simp add: rest)
  moreover have "distinct (map l ?ys)" using d inj by (simp add: distinct_map rest inj_on_diff distinct_remove1)
  ultimately have "sum_list (map f xs) = sum_list (map g ?ys)"
    using Cons.prems(1,4) by (intro Cons.IH) (auto simp: rest)
  moreover have "sum_list (map g ys) = g y + sum_list (map g ?ys)" by (rule sum_list_map_remove1 [OF y(1)])
  moreover have "f x = g y" using Cons.prems(4) y by simp
  ultimately show ?case by simp
qed simp

lemma sum_list_grouped:
  assumes "distinct (map key ts)"
  shows "sum_list (map (\<lambda>t. sum_list (map f (filter (\<lambda>i. owner i = key t) ins))) ts)
    = (sum_list (map f (filter (\<lambda>i. owner i \<in> key ` set ts) ins)) :: int)"
  using assms
proof (induction ts)
  case (Cons t ts)
  have "sum_list (map f (filter (\<lambda>i. owner i = key t \<or> owner i \<in> key ` set ts) ins))
      = sum_list (map f (filter (\<lambda>i. owner i = key t) ins)) + sum_list (map f (filter (\<lambda>i. owner i \<in> key ` set ts) ins))"
    using Cons.prems by (induction ins) auto
  with Cons show ?case by simp
qed simp

text \<open>The inputs an address spent in recorded history.\<close>

definition own_inputs :: "db \<Rightarrow> string \<Rightarrow> input_row list" where
  "own_inputs c w = filter (\<lambda>i. (case origin c (i_tx_id i) of None \<Rightarrow> False | Some (t, b) \<Rightarrow> t_input_owner t = Some w)
     \<and> in_history c (i_tx_id i)) (inputs c)"

definition never_recorded :: "db \<Rightarrow> input_row \<Rightarrow> bool" where
  "never_recorded c i = (\<forall>out \<in> set (outputs c). o_creation_id out \<noteq> Some (i_creation_id i))"

text \<open>
  Inputs the query for unrecorded ones leaves out although the address received no such output in the
  canonical record: the output is on record, but only of a block a reorg replaced.
\<close>

definition off_chain_inputs :: "db \<Rightarrow> string \<Rightarrow> input_row list" where
  "off_chain_inputs c w = filter (\<lambda>i. \<not> never_recorded c i
     \<and> \<not> (\<exists>out \<in> set (own_outputs c w). o_creation_id out = Some (i_creation_id i))) (own_inputs c w)"

text \<open>
  What the chain's rules say of an address's canonical record: a transaction's input sum is the sum of its
  inputs, a creation id names one output and is spent once, an input spends its output in full, and only its
  owner spends an output. That the output of an input is on record is not among them.
\<close>

definition ledger_fits :: "db \<Rightarrow> string \<Rightarrow> bool" where
  "ledger_fits c w \<longleftrightarrow>
     (\<forall>t \<in> set (own_spends c w). cast_integer (t_input_sum t) = sum_list (map i_amount (filter (\<lambda>i. i_tx_id i = t_id t) (inputs c))))
     \<and> distinct (map i_creation_id (own_inputs c w)) \<and> distinct (map o_creation_id (own_outputs c w))
     \<and> (\<forall>i \<in> set (own_inputs c w). \<forall>out \<in> set (own_outputs c w). o_creation_id out = Some (i_creation_id i) \<longrightarrow> o_amount out = i_amount i)
     \<and> (\<forall>out \<in> set (own_outputs c w). spent_in_history c (o_creation_id out) \<longrightarrow>
          (\<exists>i \<in> set (own_inputs c w). o_creation_id out = Some (i_creation_id i)))"

lemma origin_tx: "distinct (map t_id (transactions c)) \<Longrightarrow> t \<in> set (transactions c) \<Longrightarrow> t_id t = i \<Longrightarrow>
    origin c i = map_option (Pair t) (block_with_id c (t_block_id t))"
  using find_unique [of t_id "transactions c" t "\<lambda>t'. t_id t' = i"] by (simp add: origin_def map_option_case)

lemma own_inputs_of_spends:
  assumes "wf_db c"
  shows "own_inputs c w = filter (\<lambda>i. i_tx_id i \<in> t_id ` set (own_spends c w)) (inputs c)"
proof -
  have d: "distinct (map t_id (transactions c))" using assms by (simp add: wf_db_def wf_txs_def)
  have "((case origin c i of None \<Rightarrow> False | Some (t, b) \<Rightarrow> t_input_owner t = Some w) \<and> in_history c i)
      \<longleftrightarrow> i \<in> t_id ` set (own_spends c w)" for i
  proof (cases "find (\<lambda>t. t_id t = i) (transactions c)")
    case None
    moreover from None have "i \<notin> t_id ` set (own_spends c w)" by (auto simp: own_spends_def find_None_iff)
    ultimately show ?thesis by (simp add: origin_def)
  next
    case (Some t)
    then have t: "t \<in> set (transactions c)" "t_id t = i" by (auto simp: find_Some_iff)
    have one: "t' = t" if "t' \<in> set (transactions c)" "t_id t' = i" for t'
      using d t that by (auto simp: distinct_map inj_on_def)
    have "i \<in> t_id ` set (own_spends c w) \<longleftrightarrow> t_input_owner t = Some w \<and> in_history c i"
      using t by (auto simp: own_spends_def dest: one)
    then show ?thesis by (auto simp: in_history_def origin_tx [OF d t] split: option.splits)
  qed
  then show ?thesis by (simp add: own_inputs_def)
qed

lemma spent_outputs_match:
  assumes "ledger_fits c w"
  shows "sum_list (map i_amount (filter (\<lambda>i. \<exists>out \<in> set (own_outputs c w). o_creation_id out = Some (i_creation_id i)) (own_inputs c w)))
    = sum_list (map o_amount (filter (\<lambda>out. spent_in_history c (o_creation_id out)) (own_outputs c w)))"
    (is "sum_list (map i_amount ?matched) = sum_list (map o_amount ?spent)")
proof (rule sum_list_matched)
  show "distinct (map (\<lambda>i. Some (i_creation_id i)) ?matched)" "distinct (map o_creation_id ?spent)"
    using assms by (auto simp: ledger_fits_def distinct_map inj_on_def)
  show "(\<lambda>i. Some (i_creation_id i)) ` set ?matched = o_creation_id ` set ?spent"
  proof (intro equalityI subsetI)
    fix x assume "x \<in> (\<lambda>i. Some (i_creation_id i)) ` set ?matched"
    then obtain i out where i: "x = Some (i_creation_id i)" "i \<in> set (own_inputs c w)"
      and "out \<in> set (own_outputs c w)" "o_creation_id out = x" by auto
    moreover have "spent_in_history c x" using i by (auto simp: spent_in_history_def own_inputs_def)
    ultimately show "x \<in> o_creation_id ` set ?spent" by force
  next
    fix x assume "x \<in> o_creation_id ` set ?spent"
    then obtain out where out: "x = o_creation_id out" "out \<in> set (own_outputs c w)" "spent_in_history c x" by auto
    then obtain i where "i \<in> set (own_inputs c w)" "x = Some (i_creation_id i)"
      using assms by (fastforce simp: ledger_fits_def)
    with out show "x \<in> (\<lambda>i. Some (i_creation_id i)) ` set ?matched" by (intro image_eqI [of _ _ i]) auto
  qed
next
  fix i out assume "i \<in> set ?matched" "out \<in> set ?spent" "Some (i_creation_id i) = o_creation_id out"
  then show "i_amount i = o_amount out" using assms by (auto simp: ledger_fits_def)
qed

lemma sum_list_three_parts:
  assumes "\<And>x. Q x \<Longrightarrow> \<not> P x"
  shows "sum_list (map f xs) = sum_list (map f (filter P xs)) + sum_list (map f (filter (\<lambda>x. \<not> P x \<and> \<not> Q x) xs))
    + (sum_list (map f (filter Q xs)) :: int)"
  by (induction xs) (auto dest: assms)

text \<open>Every input the address spent is one of three: never recorded, of an own output, or of one off the chain.\<close>

lemma inputs_in_three: "sum_list (map i_amount (own_inputs c w))
    = sum_list (map i_amount (filter (never_recorded c) (own_inputs c w))) + sum_list (map i_amount (off_chain_inputs c w))
      + sum_list (map i_amount (filter (\<lambda>i. \<exists>out \<in> set (own_outputs c w). o_creation_id out = Some (i_creation_id i)) (own_inputs c w)))"
proof -
  have own: "\<not> never_recorded c i" if "\<exists>out \<in> set (own_outputs c w). o_creation_id out = Some (i_creation_id i)" for i
    using that by (auto simp: never_recorded_def own_outputs_def)
  show ?thesis unfolding off_chain_inputs_def by (rule sum_list_three_parts) (rule own)
qed

text \<open>
  C14. Where the canonical record of an address obeys the chain's rules (\<open>ledger_fits\<close>), its confirmed
  balance with what was spent inside gaps is exactly what it received less what it sent, not counting what
  it sent from outputs that were never recorded and from outputs recorded only of blocks a reorg replaced. The
  first part is a figure of the page; the second is none, so where it is not zero, the page's own figures do
  not add up.
\<close>
theorem balance_is_received_less_sent:
  assumes "wf_db c" "ledger_fits c w" "address_balance c w = Inr r"
  shows "ab_confirmed_balance r + ab_spent_in_gap r
    = ab_total_received r - (ab_total_sent r - ab_sent_from_unrecorded r - sum_list (map i_amount (off_chain_inputs c w)))"
proof -
  note r = address_balance_Inr [OF assms(3)]
  let ?spent = "filter (\<lambda>out. spent_in_history c (o_creation_id out)) (own_outputs c w)"
  have d: "distinct (map t_id (own_spends c w))"
    using assms(1) by (simp add: wf_db_def wf_txs_def own_spends_def distinct_map_filter)
  have unrecorded: "unrecorded_inputs c w = filter (never_recorded c) (own_inputs c w)"
    by (auto simp: unrecorded_inputs_def own_inputs_def never_recorded_def intro!: filter_cong)
  have unspent: "ab_confirmed_balance r + ab_spent_in_gap r
      = sum_list (map o_amount (filter (\<lambda>out. \<not> spent_in_history c (o_creation_id out)) (own_outputs c w)))"
    unfolding r unspent_outputs_def by (rule sum_list_two_halves)
  have "ab_total_sent r = sum_list (map (\<lambda>t. sum_list (map i_amount (filter (\<lambda>i. i_tx_id i = t_id t) (inputs c)))) (own_spends c w))"
    using assms(2) by (auto simp: r ledger_fits_def intro!: arg_cong [where f = sum_list])
  also have "\<dots> = sum_list (map i_amount (own_inputs c w))"
    by (simp add: sum_list_grouped [OF d] own_inputs_of_spends [OF assms(1)])
  finally have "ab_total_sent r - ab_sent_from_unrecorded r - sum_list (map i_amount (off_chain_inputs c w))
      = sum_list (map o_amount ?spent)"
    using inputs_in_three [of c w] spent_outputs_match [OF assms(2)] by (simp add: r(6) unrecorded)
  also have "\<dots> = ab_total_received r - (ab_confirmed_balance r + ab_spent_in_gap r)"
    using sum_list_filter_split [of o_amount "\<lambda>out. spent_in_history c (o_creation_id out)" "own_outputs c w"]
    by (simp add: unspent r(1))
  finally show ?thesis by simp
qed

section \<open>The hourly changes\<close>

lemma word_wrap [simp]: "word_of_int (wrap x) = (word_of_int x :: u64)"
  by (simp add: wrap_def as_i64_def)

lemma collect_rows_Inr: "collect_rows rs = Inr xs \<longleftrightarrow> rs = map Inr xs"
  by (induction rs arbitrary: xs) (auto simp: and_then_Inr_iff)

lemma is_digit_no_space: "is_digit ch \<Longrightarrow> \<not> sql_space ch"
  by (auto simp: is_digit_def sql_space_def)

lemma takeWhile_all: "list_all P xs \<Longrightarrow> takeWhile P xs = xs"
  by (induction xs) auto

lemma cast_parsed:
  assumes "parse_i64 s = Some v" shows "cast_integer s = v"
proof -
  let ?ds = "case s of ch # rest \<Rightarrow> if ch = CHR ''+'' \<or> ch = CHR ''-'' then rest else s | [] \<Rightarrow> []"
  have ds: "?ds \<noteq> []" "list_all is_digit ?ds" using assms by (auto simp: parse_i64_def Let_def split: if_splits)
  have "dropWhile sql_space s = s"
  proof (cases s)
    case (Cons ch rest)
    have "\<not> sql_space ch" using ds is_digit_no_space by (auto simp: Cons sql_space_def split: if_splits)
    with Cons show ?thesis by simp
  qed simp
  then show ?thesis
    using assms ds(2) by (auto simp: cast_integer_def parse_i64_def Let_def takeWhile_all split: if_splits)
qed

lemma sum_text_Inr:
  assumes "sum_text texts = Inr s" shows "s = sum_list (map cast_integer texts)"
proof -
  obtain vs where vs: "map (\<lambda>s. case parse_i64 s of Some v \<Rightarrow> Inr v | None \<Rightarrow> bail ''Invalid column type Real'') texts = map Inr vs"
    and s: "s = sum_list vs"
    using assms by (auto simp: sum_text_def and_then_Inr_iff collect_rows_Inr dest: sql_sum_Inr)
  have "map cast_integer texts = vs"
    using vs by (induction texts arbitrary: vs) (auto simp: cast_parsed split: option.splits)
  with s show ?thesis by simp
qed

lemma group_by_hour_Inr:
  assumes "group_by_hour add rows = Inr g" and add: "\<And>xs s. add xs = Inr s \<Longrightarrow> s = sum_list (map val xs)"
  shows "map fst g = sort (remdups (map fst rows))" "sum_list (map snd g) = sum_list (map val (map snd rows))"
proof -
  let ?hs = "sort (remdups (map fst rows))"
  let ?of = "\<lambda>h. map snd (filter (\<lambda>r. fst r = h) rows)"
  have g: "map (\<lambda>h. and_then (add (?of h)) (\<lambda>s. Inr (h, s))) ?hs = map Inr g"
    using assms(1) by (simp add: group_by_hour_def collect_rows_Inr)
  have "map fst g = hs \<and> map snd g = map (\<lambda>h. sum_list (map val (?of h))) hs"
    if "map (\<lambda>h. and_then (add (?of h)) (\<lambda>s. Inr (h, s))) hs = map Inr g" for hs
    using that
  proof (induction hs arbitrary: g)
    case (Cons h hs)
    from Cons.prems obtain z g' where g: "g = z # g'" and z: "and_then (add (?of h)) (\<lambda>s. Inr (h, s)) = Inr z"
      and rest: "map (\<lambda>h. and_then (add (?of h)) (\<lambda>s. Inr (h, s))) hs = map Inr g'"
      by (cases g) simp_all
    obtain s where s: "add (?of h) = Inr s" and z: "z = (h, s)" using z by (cases "add (?of h)") (simp_all add: and_then_def)
    from Cons.IH [OF rest] add [OF s] show ?case by (simp add: g z)
  qed simp
  from this [OF g] have fst: "map fst g = ?hs" and snd: "map snd g = map (\<lambda>h. sum_list (map val (?of h))) ?hs" by simp_all
  show "map fst g = ?hs" by (rule fst)
  have "sum_list (map snd g) = sum_list (map (\<lambda>h. sum_list (map (\<lambda>r. val (snd r)) (filter (\<lambda>r. fst r = h) rows))) ?hs)"
    by (simp add: snd o_def)
  also have "\<dots> = sum_list (map (\<lambda>r. val (snd r)) (filter (\<lambda>r. fst r \<in> id ` set ?hs) rows))"
    using sum_list_grouped [of id ?hs "\<lambda>r. val (snd r)" fst rows] by simp
  also have "filter (\<lambda>r. fst r \<in> id ` set ?hs) rows = rows" by simp
  finally show "sum_list (map snd g) = sum_list (map val (map snd rows))" by (simp add: o_def)
qed

text \<open>A curve: one entry per hour, in order, within the 64-bit range.\<close>

definition curve :: "(int \<times> int) list \<Rightarrow> bool" where
  "curve m = (sorted_wrt (<) (map fst m) \<and> (\<forall>(h, d) \<in> set m. 3600 dvd h \<and> in_i64 d))"

lemma wrap_in_i64 [simp]: "in_i64 (wrap x)"
  using sint_range_size [of "word_of_int x :: u64"] by (auto simp: wrap_def as_i64_def in_i64_def word_size)

lemma add_change_keys: "fst ` set (add_change h d m) = insert h (fst ` set m)"
  by (induction h d m rule: add_change.induct) auto

lemma add_change_sum:
  "word_of_int (sum_list (map snd (add_change h d m))) = (word_of_int (sum_list (map snd m) + d) :: u64)"
  by (induction h d m rule: add_change.induct) (simp_all add: ac_simps)

lemma add_change_curve: "curve m \<Longrightarrow> 3600 dvd h \<Longrightarrow> curve (add_change h d m)"
proof (induction h d m rule: add_change.induct)
  case (2 h d k v m)
  have "k < fst x" if "k < h" "x \<in> set (add_change h d m)" for x
  proof -
    have "fst x \<in> insert h (fst ` set m)" using imageI [OF that(2), of fst] unfolding add_change_keys .
    with 2(2) that(1) show ?thesis by (auto simp: curve_def)
  qed
  with 2 show ?case by (auto simp: curve_def)
qed (auto simp: curve_def)

lemma add_changes_curve:
  assumes "curve m" "\<And>h d. (h, d) \<in> set rows \<Longrightarrow> 3600 dvd h"
  shows "curve (add_changes sign rows m)
    \<and> word_of_int (sum_list (map snd (add_changes sign rows m)))
        = (word_of_int (sum_list (map snd m) + sign * sum_list (map snd rows)) :: u64)"
  using assms
proof (induction rows arbitrary: m)
  case (Cons r rows)
  obtain h d where r: "r = (h, d)" by (cases r)
  let ?m = "add_change h (wrap (sign * d)) m"
  have "curve ?m" using Cons.prems r by (auto intro: add_change_curve)
  from Cons.IH [OF this] Cons.prems(2) have "curve (add_changes sign rows ?m)"
    "word_of_int (sum_list (map snd (add_changes sign rows ?m))) = (word_of_int (sum_list (map snd ?m) + sign * sum_list (map snd rows)) :: u64)"
    by auto
  then show ?case
    using add_change_sum [of h "wrap (sign * d)" m]
    by (simp add: add_changes_def r distrib_left)
qed (simp add: add_changes_def)

lemma hour_of_dvd: "3600 dvd hour_of s"
  by (simp add: hour_of_def)

lemma grouped_hours:
  assumes "group_by_hour add rows = Inr g" "\<And>xs s. add xs = Inr s \<Longrightarrow> s = sum_list (map val xs)"
    and "\<And>h x. (h, x) \<in> set rows \<Longrightarrow> 3600 dvd h" "(h, d) \<in> set g"
  shows "3600 dvd h"
proof -
  have "h \<in> set (map fst g)" using assms(4) by force
  then have "h \<in> fst ` set rows" by (simp add: group_by_hour_Inr(1) [OF assms(1,2)])
  with assms(3) show ?thesis by auto
qed

lemma gone_rows_Inr:
  assumes "gone_by_hour strftime c w = Inr rows"
  shows "map snd rows = map o_amount (gone_outputs c w)" "(h, x) \<in> set rows \<Longrightarrow> 3600 dvd h"
proof -
  let ?row = "\<lambda>out. case strftime (the (o_spent_in_gap_at out)) of
      Some s \<Rightarrow> Inr (hour_of (cast_integer s), o_amount out) | None \<Rightarrow> bail ''Invalid column type Null''"
  have "map ?row outs = map Inr rows \<Longrightarrow> map snd rows = map o_amount outs \<and> (\<forall>(h, x) \<in> set rows. 3600 dvd h)" for outs
    by (induction outs arbitrary: rows) (auto simp: hour_of_dvd split: option.splits)
  moreover have "map ?row (gone_outputs c w) = map Inr rows" using assms by (simp add: gone_by_hour_def collect_rows_Inr)
  ultimately show "map snd rows = map o_amount (gone_outputs c w)" "(h, x) \<in> set rows \<Longrightarrow> 3600 dvd h" by auto
qed

lemma hours_of_rows:
  "(h, x) \<in> set (received_by_hour c w) \<Longrightarrow> 3600 dvd h" "(h, y) \<in> set (sent_by_hour c w) \<Longrightarrow> 3600 dvd h"
  by (auto simp: received_by_hour_def sent_by_hour_def hour_of_dvd split: option.splits)

lemma sum_list_nonzero: "sum_list (map snd (filter (\<lambda>(h, d). d \<noteq> 0) m)) = (sum_list (map snd m) :: int)"
  by (induction m) auto

text \<open>
  C33. The curve of an address, where neither query overflows: one entry per hour with movement, in order, and
  all changes together are what the address received, less what it sent, less what was found spent inside
  gaps, modulo \<open>2 ^ 64\<close> as the program adds.
\<close>
theorem hourly_changes_add_up:
  assumes "balance_changes_by_hour strftime c w = Inr changes" "address_balance c w = Inr r"
  shows "sorted_wrt (<) (map fst changes) \<and> (\<forall>(h, d) \<in> set changes. 3600 dvd h \<and> d \<noteq> 0 \<and> in_i64 d)
    \<and> word_of_int (sum_list (map snd changes))
        = (word_of_int (ab_total_received r - ab_total_sent r - sum_list (map o_amount (gone_outputs c w))) :: u64)"
proof -
  obtain received sent rows gone where
    received: "group_by_hour sql_sum (received_by_hour c w) = Inr received" and
    sent: "group_by_hour sum_text (sent_by_hour c w) = Inr sent" and
    rows: "gone_by_hour strftime c w = Inr rows" and gone: "group_by_hour sql_sum rows = Inr gone" and
    changes: "changes = filter (\<lambda>(h, d). d \<noteq> 0) (add_changes (- 1) gone (add_changes (- 1) sent (add_changes 1 received [])))"
    using assms(1) by (auto simp: balance_changes_by_hour_def and_then_Inr_iff)
  have sum: "\<And>xs s. sql_sum xs = Inr s \<Longrightarrow> s = sum_list (map id xs)" by (simp add: sql_sum_Inr)
  define m1 where "m1 = add_changes 1 received []"
  define m2 where "m2 = add_changes (- 1) sent m1"
  define m3 where "m3 = add_changes (- 1) gone m2"
  have c1: "curve m1 \<and> word_of_int (sum_list (map snd m1)) = (word_of_int (sum_list (map snd received)) :: u64)"
    using add_changes_curve [of "[]" received 1] grouped_hours [OF received sum hours_of_rows(1)]
    by (simp add: m1_def curve_def)
  then have c2: "curve m2 \<and> word_of_int (sum_list (map snd m2))
      = (word_of_int (sum_list (map snd received) - sum_list (map snd sent)) :: u64)"
    using add_changes_curve [of m1 sent "- 1"] grouped_hours [OF sent sum_text_Inr hours_of_rows(2)] by (simp add: m2_def)
  then have c3: "curve m3 \<and> word_of_int (sum_list (map snd m3))
      = (word_of_int (sum_list (map snd received) - sum_list (map snd sent) - sum_list (map snd gone)) :: u64)"
    using add_changes_curve [of m2 gone "- 1"] grouped_hours [OF gone sum gone_rows_Inr(2) [OF rows]] by (simp add: m3_def)
  have sums: "sum_list (map snd received) = ab_total_received r" "sum_list (map snd sent) = ab_total_sent r"
    "sum_list (map snd gone) = sum_list (map o_amount (gone_outputs c w))"
    using group_by_hour_Inr(2) [OF received sum] group_by_hour_Inr(2) [OF sent sum_text_Inr] group_by_hour_Inr(2) [OF gone sum]
    by (simp_all add: address_balance_Inr [OF assms(2)] received_by_hour_def sent_by_hour_def gone_rows_Inr(1) [OF rows] o_def
        split_def)
  have "changes = filter (\<lambda>(h, d). d \<noteq> 0) m3" by (simp add: changes m1_def m2_def m3_def)
  with c3 show ?thesis
    by (auto simp: curve_def sum_list_nonzero sums sorted_wrt_map sorted_wrt_filter)
qed

section \<open>Pages\<close>

lemma mset_sort_desc [simp]: "mset (sort_desc key xs) = mset xs"
  by (simp add: sort_desc_def)

lemma set_sort_desc [simp]: "set (sort_desc key xs) = set xs"
  by (simp add: sort_desc_def)

lemma length_sort_desc [simp]: "length (sort_desc key xs) = length xs"
  by (simp add: sort_desc_def)

lemma sorted_sort_desc: "sorted_wrt (\<lambda>a b. key b \<le> key a) (sort_desc key xs)"
  using sorted_sort_key [of key "rev xs"] by (simp add: sort_desc_def sorted_wrt_rev sorted_wrt_map)

lemma filter_sort_desc: "filter P (sort_desc key xs) = sort_desc key (filter P xs)"
  by (simp add: sort_desc_def rev_filter [symmetric] filter_sort)

lemma concat_pages: "concat (map (\<lambda>p. take k (drop (p * k) xs)) [0..<n]) = take (n * k) xs"
proof (induction n)
  case (Suc n)
  have "take (Suc n * k) xs = take (n * k) xs @ take k (drop (n * k) xs)" by (simp only: mult_Suc add.commute [of k] take_add)
  with Suc show ?case by simp
qed simp

lemma collect_page:
  assumes "txs_by_address c w (int p + 1) (int k) = Inr (items, whole)" "0 < k" "int p * int k < 2 ^ 63"
  shows "whole = length (address_txs c w)"
    and "map (address_summary c w) (take k (drop (p * k) (newest_first (address_txs c w)))) = map Inr items"
proof -
  have "0 \<le> int p * int k" by simp
  then have "- 9223372036854775808 \<le> int p * int k" by linarith
  with assms(3) have o: "saturate ((max (int p + 1) 1 - 1) * int k) = int (p * k)" by (simp add: saturate_def)
  have l: "length (newest_first (address_txs c w)) = length (address_txs c w)" by (simp add: newest_first_def)
  show "whole = length (address_txs c w)"
    using assms(1) by (auto simp: txs_by_address_def Let_def and_then_Inr_iff split: if_splits)
  show "map (address_summary c w) (take k (drop (p * k) (newest_first (address_txs c w)))) = map Inr items"
    using assms(1) l unfolding txs_by_address_def Let_def o
    by (auto simp: and_then_Inr_iff collect_rows_Inr limit_rows_def simp flip: of_nat_mult split: if_splits)
qed

text \<open>
  C34. The pages of an address's history, put together, are its canonical transactions, newest block
  first, each exactly once, and every page reports how many there are.
\<close>
theorem address_pages_cover_the_history:
  assumes "0 < k" "int n * int k < 2 ^ 63" "length (address_txs c w) \<le> n * k"
    and pages: "\<And>p. p < n \<Longrightarrow> txs_by_address c w (int p + 1) (int k) = Inr (items p, whole p)"
  shows "(\<forall>p < n. whole p = length (address_txs c w) \<and> length (items p) \<le> k)
    \<and> map Inr (concat (map items [0..<n])) = map (address_summary c w) (newest_first (address_txs c w))
    \<and> mset (newest_first (address_txs c w)) = mset (address_txs c w)
    \<and> sorted_wrt (\<lambda>x y. b_height (snd y) \<le> b_height (snd x)) (newest_first (address_txs c w))"
proof -
  have page: "whole p = length (address_txs c w)"
    "map (address_summary c w) (take k (drop (p * k) (newest_first (address_txs c w)))) = map Inr (items p)"
    if "p < n" for p
  proof -
    have "int p * int k < 2 ^ 63" using that assms(2) mult_right_mono [of "int p" "int n" "int k"] by linarith
    from collect_page [OF pages [OF that] assms(1) this] show "whole p = length (address_txs c w)"
      "map (address_summary c w) (take k (drop (p * k) (newest_first (address_txs c w)))) = map Inr (items p)" by simp_all
  qed
  have "length (items p) \<le> k" if "p < n" for p
    using arg_cong [OF page(2) [OF that], of length] by simp
  moreover have "map Inr (concat (map items [0..<n])) = map (address_summary c w) (newest_first (address_txs c w))"
  proof -
    have "map (Inr :: _ \<Rightarrow> tx_summary result) (concat (map items [0..<n])) = concat (map (\<lambda>p. map Inr (items p)) [0..<n])"
      by (simp add: map_concat o_def)
    also have "\<dots> = concat (map (\<lambda>p. map (address_summary c w) (take k (drop (p * k) (newest_first (address_txs c w))))) [0..<n])"
      by (intro arg_cong [where f = concat] map_cong) (simp_all add: page(2))
    also have "\<dots> = map (address_summary c w) (take (n * k) (newest_first (address_txs c w)))"
      by (simp add: concat_pages [symmetric] map_concat o_def)
    finally show ?thesis using assms(3) by (simp add: newest_first_def)
  qed
  moreover have "sorted_wrt (\<lambda>x y. b_height (snd y) \<le> b_height (snd x)) (newest_first (address_txs c w))"
    using sorted_sort_desc [of "\<lambda>(t, b). b_height b"] by (simp add: newest_first_def split_def)
  ultimately show ?thesis using page(1) by (simp add: newest_first_def)
qed

section \<open>Walking through the blocks\<close>

definition canonical_blocks :: "db \<Rightarrow> block_row list" where
  "canonical_blocks c = sort_desc b_height (filter (\<lambda>b. is_canonical c (b_id b)) (blocks c))"

text \<open>A reader who asks for the blocks below the last one of the page before, until a page is empty.\<close>

fun walk_blocks :: "nat \<Rightarrow> db \<Rightarrow> int \<Rightarrow> int option \<Rightarrow> block_summary list" where
  "walk_blocks 0 c lim before = []"
| "walk_blocks (Suc n) c lim before =
     (let page = recent_blocks c lim before
      in if page = [] then [] else page @ walk_blocks n c lim (Some (sm_height (last page))))"

lemma strictly_descending:
  assumes "wf_db c" "one_canonical c" shows "sorted_wrt (\<lambda>a b. b_height b < b_height a) (canonical_blocks c)"
proof -
  let ?bs = "filter (\<lambda>b. is_canonical c (b_id b)) (blocks c)"
  have ids: "distinct (map b_id (blocks c))" using assms(1) by (simp add: wf_db_def wf_blocks_def)
  then have inj: "inj_on b_id (set (blocks c))" and d: "distinct ?bs" by (simp_all add: distinct_map)
  have "inj_on b_height (set ?bs)"
    using assms(2) inj by (auto simp: one_canonical_def inj_on_def)
  with d have "distinct (map b_height ?bs)" by (simp add: distinct_map)
  then have "distinct (map b_height (canonical_blocks c))"
    by (metis canonical_blocks_def mset_sort_desc mset_map mset_eq_imp_distinct_iff)
  with sorted_sort_desc [of b_height ?bs] have "sorted_wrt (\<lambda>a b. b_height b \<le> b_height a \<and> b_height a \<noteq> b_height b) (canonical_blocks c)"
    unfolding canonical_blocks_def [symmetric]
    by (simp add: distinct_map sorted_wrt_iff_nth_less distinct_conv_nth inj_on_def)
  then show ?thesis by (rule sorted_wrt_mono_rel [rotated]) auto
qed

lemma recent_blocks_below:
  "recent_blocks c lim (Some h) = map (block_summary_of c) (limit_rows lim (filter (\<lambda>b. b_height b < h) (canonical_blocks c)))"
  by (simp add: recent_blocks_def canonical_blocks_def filter_sort_desc conj_commute)

lemma below_last:
  assumes "sorted_wrt (\<lambda>a b. b_height b < b_height a) xs" "0 < k" "xs \<noteq> []"
  shows "filter (\<lambda>b. b_height b < b_height (last (take k xs))) xs = drop k xs"
proof -
  let ?p = "take k xs"
  have xs: "xs = ?p @ drop k xs" by simp
  have p: "?p \<noteq> []" using assms(2,3) by simp
  have s: "sorted_wrt (\<lambda>a b. b_height b < b_height a) ?p" "\<forall>x \<in> set ?p. \<forall>y \<in> set (drop k xs). b_height y < b_height x"
    using assms(1) xs by (metis sorted_wrt_append)+
  have "b_height (last ?p) \<le> b_height x" if "x \<in> set ?p" for x
  proof -
    have "?p = butlast ?p @ [last ?p]" using p by simp
    with s(1) have "\<forall>x \<in> set (butlast ?p). b_height (last ?p) < b_height x" by (metis sorted_wrt_append list.set_intros(1))
    moreover have "x \<in> set (butlast ?p) \<or> x = last ?p" using that p by (metis append_butlast_last_id in_set_conv_decomp rotate1.simps(2) set_ConsD set_rotate1)
    ultimately show ?thesis by auto
  qed
  then have "filter (\<lambda>b. b_height b < b_height (last ?p)) ?p = []" by (fastforce simp: filter_empty_conv)
  moreover have "filter (\<lambda>b. b_height b < b_height (last ?p)) (drop k xs) = drop k xs"
    using s(2) p by (simp add: filter_id_conv)
  ultimately show ?thesis by (metis append_self_conv2 filter_append xs)
qed

lemma walk_below:
  assumes "sorted_wrt (\<lambda>a b. b_height b < b_height a) (canonical_blocks c)" "0 < k"
  shows "length (filter (\<lambda>b. b_height b < h) (canonical_blocks c)) < n \<Longrightarrow>
    walk_blocks n c (int k) (Some h) = map (block_summary_of c) (filter (\<lambda>b. b_height b < h) (canonical_blocks c))"
proof (induction n arbitrary: h)
  case (Suc n)
  let ?rows = "filter (\<lambda>b. b_height b < h) (canonical_blocks c)"
  show ?case
  proof (cases "?rows = []")
    case False
    let ?last = "b_height (last (take k ?rows))"
    have s: "sorted_wrt (\<lambda>a b. b_height b < b_height a) ?rows" using assms(1) by (rule sorted_wrt_filter)
    have below: "filter (\<lambda>b. b_height b < ?last) ?rows = drop k ?rows" by (rule below_last [OF s assms(2) False])
    have "last (take k ?rows) \<in> set ?rows"
      using assms(2) False by (metis in_set_takeD last_in_set take_eq_Nil not_gr_zero)
    then have "?last < h" by simp
    then have "filter (\<lambda>b. b_height b < ?last) (canonical_blocks c) = filter (\<lambda>b. b_height b < ?last) ?rows"
      by (simp add: conj_commute) (metis (mono_tags, lifting) filter_cong order_less_trans)
    then have rest: "filter (\<lambda>b. b_height b < ?last) (canonical_blocks c) = drop k ?rows" by (simp only: below)
    have "length (drop k ?rows) < n" using Suc.prems assms(2) False by (cases ?rows) auto
    with Suc.IH [of ?last] rest have IH: "walk_blocks n c (int k) (Some ?last) = map (block_summary_of c) (drop k ?rows)" by simp
    have page: "recent_blocks c (int k) (Some h) = map (block_summary_of c) (take k ?rows)"
      by (simp add: recent_blocks_below limit_rows_def)
    have "take k ?rows \<noteq> []" using assms(2) False by simp
    then have "sm_height (last (map (block_summary_of c) (take k ?rows))) = ?last"
      by (simp add: last_map block_summary_of_def)
    then show ?thesis using \<open>take k ?rows \<noteq> []\<close>
      by (simp add: page IH Let_def flip: map_append)
  qed (simp add: recent_blocks_below limit_rows_def)
qed simp

text \<open>
  C35. A reader of the block list who always asks for the blocks below the last one seen gets every
  canonical block exactly once, in strictly descending order, and comes to an end.
\<close>
theorem block_walk_lists_every_canonical_block:
  assumes "wf_db c" "one_canonical c" "\<forall>b \<in> set (blocks c). b_height b < I64_MAX"
    and "0 < k" "length (blocks c) < n"
  shows "walk_blocks n c (int k) None = map (block_summary_of c) (canonical_blocks c)
    \<and> mset (canonical_blocks c) = mset (filter (\<lambda>b. is_canonical c (b_id b)) (blocks c))
    \<and> sorted_wrt (\<lambda>a b. b_height b < b_height a) (canonical_blocks c)"
proof -
  note s = strictly_descending [OF assms(1,2)]
  have all: "filter (\<lambda>b. b_height b < I64_MAX) (canonical_blocks c) = canonical_blocks c"
    using assms(3) by (auto simp: canonical_blocks_def filter_id_conv)
  have "walk_blocks n c (int k) None = walk_blocks n c (int k) (Some I64_MAX)"
    by (cases n) (simp_all add: recent_blocks_def)
  moreover have "length (canonical_blocks c) < n"
    using assms(5) le_less_trans [OF length_filter_le] by (simp add: canonical_blocks_def)
  moreover have "mset (canonical_blocks c) = mset (filter (\<lambda>b. is_canonical c (b_id b)) (blocks c))"
    by (simp add: canonical_blocks_def)
  ultimately show ?thesis using walk_below [OF s assms(4), of I64_MAX n, unfolded all] s by simp
qed

section \<open>The statistics\<close>

text \<open>Every block has a status, and a bare header is canonical.\<close>

definition settled :: "db \<Rightarrow> bool" where
  "settled c = (\<forall>b \<in> set (blocks c). current_status c (b_id b) \<noteq> None \<and> (\<not> archived b \<longrightarrow> is_canonical c (b_id b)))"

lemma canonical_or_header_only_eq: "settled c \<Longrightarrow> b \<in> set (blocks c) \<Longrightarrow> canonical_or_header_only c b = is_canonical c (b_id b)"
  by (auto simp: settled_def canonical_or_header_only_def archived_def)

lemma settled_status: "settled c \<Longrightarrow> b \<in> set (blocks c) \<Longrightarrow> is_orphaned c (b_id b) \<longleftrightarrow> \<not> is_canonical c (b_id b)"
  by (cases "current_status c (b_id b)"; cases "the (current_status c (b_id b))")
    (auto simp: settled_def is_orphaned_def is_canonical_def)

lemma live_by_owner: "sum_list (map (\<lambda>w. length (unspent_outputs c w False)) (remdups (map o_owner (live_outputs c)))) = length (live_outputs c)"
proof -
  let ?ws = "remdups (map o_owner (live_outputs c))"
  have "int (sum_list (map (\<lambda>w. length (unspent_outputs c w False)) ?ws))
      = sum_list (map (\<lambda>w. sum_list (map (\<lambda>out. 1) (filter (\<lambda>out. o_owner out = id w) (live_outputs c)))) ?ws)"
    by (simp add: own_live_outputs sum_list_triv flip: sum_list_of_nat) (simp add: o_def)
  also have "\<dots> = sum_list (map (\<lambda>out. 1) (filter (\<lambda>out. o_owner out \<in> id ` set ?ws) (live_outputs c)))"
    by (rule sum_list_grouped) simp
  also have "filter (\<lambda>out. o_owner out \<in> id ` set ?ws) (live_outputs c) = live_outputs c" by (simp add: filter_id_conv)
  also have "sum_list (map (\<lambda>out. 1) (live_outputs c)) = int (length (live_outputs c))" by (simp add: sum_list_triv)
  finally show ?thesis by (simp only: of_nat_eq_iff)
qed

text \<open>
  The statistics add up: canonical, replaced and header-only blocks are all blocks on record, open and
  recovered gaps all gaps, recorded and imported transactions all transactions, and the live outputs of
  the archive are the confirmed outputs of their owners.
\<close>
theorem statistics_add_up:
  assumes "settled c"
  shows "cs_indexed_blocks (chain_stats c now) + cs_orphaned_blocks (chain_stats c now) + cs_header_only_blocks (chain_stats c now)
      = length (blocks c)
    \<and> cs_gaps (chain_stats c now) + cs_gaps_resolved (chain_stats c now) = length (gaps c)
    \<and> cs_indexed_transactions (chain_stats c now) = int (length (filter recorded (transactions c)))
    \<and> cs_live_utxos (chain_stats c now)
      = sum_list (map (\<lambda>w. length (unspent_outputs c w False)) (remdups (map o_owner (live_outputs c))))"
proof -
  have "length (filter (\<lambda>b. archived b \<and> is_canonical c (b_id b)) bs) + length (filter (\<lambda>b. archived b \<and> is_orphaned c (b_id b)) bs)
      + length (filter (\<lambda>b. b_body_source b = Some ''header'') bs) = length bs" if "set bs \<subseteq> set (blocks c)" for bs
    using that by (induction bs) (auto simp: settled_status [OF assms] archived_def HEADER_ONLY_SOURCE_def)
  moreover have "int (length (transactions c)) - int (length (filter (\<lambda>t. t_source t = Some ''receipt'') (transactions c)))
      = int (length (filter recorded (transactions c)))"
    using length_filter_split [of recorded "transactions c"] by (simp add: recorded_def RECEIPT_SOURCE_def)
  ultimately show ?thesis
    using length_filter_split [of "\<lambda>g. g_resolved_at g = None" "gaps c"]
    by (simp add: chain_stats_def Let_def count_rows_def live_by_owner receipt_transaction_count_def rows_matching_def)
qed

section \<open>Mining\<close>

lemma grouped_lengths:
  assumes "distinct ws" "\<And>b. b \<in> set bs \<Longrightarrow> f b \<in> set ws"
  shows "sum_list (map (\<lambda>w. length (filter (\<lambda>b. f b = w) bs)) ws) = length bs"
proof -
  have "int (sum_list (map (\<lambda>w. length (filter (\<lambda>b. f b = w) bs)) ws))
      = sum_list (map (\<lambda>w. sum_list (map (\<lambda>b. 1) (filter (\<lambda>b. f b = id w) bs))) ws)"
    by (simp add: sum_list_triv flip: sum_list_of_nat) (simp add: o_def)
  also have "\<dots> = sum_list (map (\<lambda>b. 1) (filter (\<lambda>b. f b \<in> id ` set ws) bs))"
    by (rule sum_list_grouped) (simp add: assms(1))
  also have "filter (\<lambda>b. f b \<in> id ` set ws) bs = bs" using assms(2) by (simp add: filter_id_conv)
  also have "sum_list (map (\<lambda>b. 1) bs) = int (length bs)" by (simp add: sum_list_triv)
  finally show ?thesis by (simp only: of_nat_eq_iff)
qed

lemma miner_blocks_total: "sum_list (map me_blocks (miner_rows bs)) = length bs"
  using grouped_lengths [of "sort (remdups (map b_miner bs))" bs b_miner]
  by (simp add: miner_rows_def miner_row_def Let_def o_def)

lemma miner_row_page:
  assumes "w \<in> set (map b_miner (mined_since c None))"
  shows "blocks_mined c w = \<lparr>bm_count = me_blocks (miner_row (mined_since c None) w),
    bm_first_height = Some (me_first_height (miner_row (mined_since c None) w)),
    bm_last_height = Some (me_last_height (miner_row (mined_since c None) w)), bm_counted_from_height = lowest_mined_height c\<rparr>"
proof -
  let ?hs = "map b_height (filter (\<lambda>b. b_miner b = w) (mined_since c None))"
  have "?hs = map b_height (filter (\<lambda>b. b_miner b = w \<and> 1 \<le> b_height b \<and> canonical_or_header_only c b) (blocks c))"
    by (simp add: mined_since_def conj_commute conj_left_commute)
  moreover have "?hs \<noteq> []" using assms by (auto simp: filter_empty_conv)
  ultimately show ?thesis by (simp add: miner_row_def Let_def blocks_mined_def min_option_def max_int_option_def)
qed

text \<open>
  C36. The table of the miners: its total is the number of canonical blocks of the period (genesis
  excluded), every miner's row repeats what the miner's own page says, the rows of all miners add up to
  the total, and they are sorted by blocks found.
\<close>
theorem miners_table_agrees_with_each_miner:
  assumes "settled c"
  shows "mr_blocks (miners c since lim) = length (filter (\<lambda>b. (case since of None \<Rightarrow> True | Some s \<Rightarrow> s \<le> b_timestamp b)
      \<and> 1 \<le> b_height b \<and> is_canonical c (b_id b)) (blocks c))
    \<and> (mr_miner_count (miners c since lim) \<le> lim \<longrightarrow>
        sum_list (map me_blocks (mr_miners (miners c since lim))) = mr_blocks (miners c since lim))
    \<and> sorted_wrt (\<lambda>a b. me_blocks b \<le> me_blocks a) (mr_miners (miners c since lim))
    \<and> (\<forall>m \<in> set (mr_miners (miners c None lim)).
         blocks_mined c (me_address m) = \<lparr>bm_count = me_blocks m, bm_first_height = Some (me_first_height m),
           bm_last_height = Some (me_last_height m), bm_counted_from_height = mr_counted_from_height (miners c None lim)\<rparr>)"
proof -
  let ?share = "\<lambda>total m. m\<lparr>me_share := (if 0 < total then (me_blocks m, total) else (0 :: nat, 1 :: nat))\<rparr>"
  let ?sorted = "\<lambda>s. sort_desc me_blocks (sort_desc me_last_height
      (map (?share (length (mined_since c s))) (miner_rows (mined_since c s))))"
  have rows: "mr_miners (miners c s lim) = take lim (?sorted s)" "mr_blocks (miners c s lim) = length (mined_since c s)"
    "mr_miner_count (miners c s lim) = length (?sorted s)" for s
    by (simp_all add: miners_def Let_def miner_blocks_total cong: if_cong)
  have one: "mined_since c since = filter (\<lambda>b. (case since of None \<Rightarrow> True | Some s \<Rightarrow> s \<le> b_timestamp b)
      \<and> 1 \<le> b_height b \<and> is_canonical c (b_id b)) (blocks c)"
    by (auto simp: mined_since_def canonical_or_header_only_eq [OF assms] intro!: filter_cong)
  have "mset (map me_blocks (?sorted since)) = mset (map me_blocks (miner_rows (mined_since c since)))"
    by (simp add: image_mset.compositionality o_def)
  from arg_cong [OF this, of sum_mset] have two: "sum_list (map me_blocks (?sorted since)) = length (mined_since c since)"
    by (simp only: sum_mset_sum_list miner_blocks_total)
  have three: "sorted_wrt (\<lambda>a b. me_blocks b \<le> me_blocks a) (take lim (?sorted since))"
    by (rule sorted_wrt_take [OF sorted_sort_desc])
  have four: "blocks_mined c (me_address m) = \<lparr>bm_count = me_blocks m, bm_first_height = Some (me_first_height m),
      bm_last_height = Some (me_last_height m), bm_counted_from_height = lowest_mined_height c\<rparr>"
    if "m \<in> set (take lim (?sorted None))" for m
  proof -
    from in_set_takeD [OF that] obtain w where w: "w \<in> set (map b_miner (mined_since c None))"
      and m: "m = ?share (length (mined_since c None)) (miner_row (mined_since c None) w)"
      by (auto simp: miner_rows_def)
    show ?thesis using miner_row_page [OF w] by (simp add: m miner_row_def Let_def)
  qed
  show ?thesis using two three four by (simp add: rows one [symmetric]) (simp add: miners_def Let_def)
qed

section \<open>Witnesses\<close>

text \<open>Two blocks: the first pays \<^verbatim>\<open>m\<close> a coinbase of 50, in the second \<^verbatim>\<open>m\<close> sends 30 of it to \<^verbatim>\<open>a\<close>.\<close>

definition sample_block_row :: "int \<Rightarrow> int \<Rightarrow> string \<Rightarrow> block_row" where
  "sample_block_row bid height hash =
     \<lparr>b_id = bid, b_height = height, b_hash = hash, b_prev_hash = ''p'', b_state_root = ''r'', b_tx_root = ''x'',
      b_timestamp = 100, b_miner = ''m'', b_nonce_hex = ''0'', b_difficulty_target = ''f'',
      b_proof_class = Some ''B25 / m22'', b_reward = Some 50, b_total_fees = Some ''0'', b_body_captured = True,
      b_body_source = Some ''details'', b_first_seen_at = ''t1'', b_log_slots = Some 24, b_contracts_scanned = False,
      b_tx_count_total = None, b_tip_seen_at_ms = None\<rparr>"

definition sample_tx_row :: "int \<Rightarrow> string option \<Rightarrow> string \<Rightarrow> tx_row" where
  "sample_tx_row i owner spent =
     \<lparr>t_id = i, t_block_id = i, t_position = 0, t_txid = ''t'', t_page_count = 1, t_fee = 0, t_coinbase = (owner = None),
      t_development_payout = False, t_epoch_anchor = ''e'', t_input_owner = owner, t_input_sum = spent,
      t_output_sum = ''50'', t_contract_flags = 0, t_source = None\<rparr>"

definition sample_output_row :: "int \<Rightarrow> int \<Rightarrow> int \<Rightarrow> int \<Rightarrow> string \<Rightarrow> string \<Rightarrow> output_row" where
  "sample_output_row i tx idx amount owner cid =
     \<lparr>o_rowid = i, o_tx_id = tx, o_idx = idx, o_page = 0, o_lane = 0, o_slot_index = i, o_amount = amount, o_owner = owner,
      o_creation_id = Some cid, o_spent_in_gap = False, o_spent_in_gap_at = None\<rparr>"

definition sample_ledger :: db where
  "sample_ledger = empty_db
     \<lparr>blocks := [sample_block_row 1 5 ''A'', sample_block_row 2 6 ''B''],
      status_log := [\<lparr>s_id = 1, s_block_id = 1, s_status = Canonical, s_observed_at = ''t1''\<rparr>,
        \<lparr>s_id = 2, s_block_id = 2, s_status = Canonical, s_observed_at = ''t2''\<rparr>],
      transactions := [sample_tx_row 1 None ''0'', sample_tx_row 2 (Some ''m'') ''50''],
      inputs := [\<lparr>i_tx_id = 2, i_idx = 0, i_page = 0, i_lane = 0, i_slot_index = 1, i_amount = 50, i_creation_id = ''9''\<rparr>],
      outputs := [sample_output_row 1 1 0 50 ''m'' ''9'', sample_output_row 2 2 0 30 ''a'' ''10'',
        sample_output_row 3 2 1 20 ''m'' ''11'']\<rparr>"

definition sample_figures :: balance_figures where
  "sample_figures = \<lparr>ab_confirmed_balance = 20, ab_confirmed_utxos = 1, ab_total_received = 70, ab_total_sent = 50,
     ab_spent_in_gap = 0, ab_spent_in_gap_utxos = 0, ab_sent_from_unrecorded = 0\<rparr>"

lemma sample_balance: "address_balance sample_ledger ''m'' = Inr sample_figures" by code_simp
lemma sample_ledger_heights: "heights_in_range sample_ledger" by code_simp
lemma sample_ledger_fits: "ledger_fits sample_ledger ''m''" by code_simp
lemma wf_sample_ledger: "wf_db sample_ledger" by code_simp
lemma sample_foreign: "foreign_coins sample_ledger ''m'' = []" by code_simp
lemma sample_settled: "settled sample_ledger" by code_simp

theorem live_balance_is_the_confirmed_one_witness:
  "map_of (live_balances sample_ledger) ''m'' = Some (20, 1)"
  using live_balance_is_the_confirmed_one [OF sample_ledger_heights sample_balance]
  by (simp add: sample_figures_def sample_foreign)

text \<open>
  A reorg replaces block 5, whose body the node has pruned by then, by a gap. The address spent the output of the
  old block in block 6; it is neither received nor unrecorded now.
\<close>

definition sample_replaced :: db where
  "sample_replaced = record_gap_block (mark_orphaned sample_ledger 1 ''t2'') (pruned_details 5 ''C'') ''n'' ''t2''"

definition replaced_figures :: balance_figures where
  "replaced_figures = \<lparr>ab_confirmed_balance = 20, ab_confirmed_utxos = 1, ab_total_received = 20, ab_total_sent = 50,
     ab_spent_in_gap = 0, ab_spent_in_gap_utxos = 0, ab_sent_from_unrecorded = 0\<rparr>"

lemma replaced_balance: "address_balance sample_replaced ''m'' = Inr replaced_figures" by code_simp
lemma replaced_fits: "ledger_fits sample_replaced ''m''" by code_simp
lemma wf_sample_replaced: "wf_db sample_replaced" by code_simp

theorem balance_is_received_less_sent_witness:
  "address_balance sample_replaced ''m'' = Inr replaced_figures
   \<and> ab_confirmed_balance sample_figures + ab_spent_in_gap sample_figures
     = 70 - (50 - 0 - sum_list (map i_amount (off_chain_inputs sample_ledger ''m'')))
   \<and> sum_list (map i_amount (off_chain_inputs sample_replaced ''m'')) = 50"
  using balance_is_received_less_sent [OF wf_sample_ledger sample_ledger_fits sample_balance]
    balance_is_received_less_sent [OF wf_sample_replaced replaced_fits replaced_balance] replaced_balance
  by (simp add: sample_figures_def replaced_figures_def)

definition sample_changes :: "(int \<times> int) list" where "sample_changes = [(0, 20)]"

lemma sample_curve: "balance_changes_by_hour (\<lambda>_. None) sample_ledger ''m'' = Inr sample_changes" by code_simp

theorem hourly_changes_add_up_witness:
  "sorted_wrt (<) (map fst sample_changes) \<and> word_of_int (sum_list (map snd sample_changes)) = (20 :: u64)"
  using hourly_changes_add_up [OF sample_curve sample_balance] by (simp add: sample_changes_def)

definition sample_page :: "nat \<Rightarrow> tx_summary list" where
  "sample_page p = fst (projr (txs_by_address sample_ledger ''m'' (int p + 1) 1))"

lemma sample_pages_1: "\<not> isl (txs_by_address sample_ledger ''m'' 1 1)" by code_simp
lemma sample_pages_2: "snd (projr (txs_by_address sample_ledger ''m'' 1 1)) = 2" by code_simp
lemma sample_pages_3: "\<not> isl (txs_by_address sample_ledger ''m'' 2 1)" by code_simp
lemma sample_pages_4: "snd (projr (txs_by_address sample_ledger ''m'' 2 1)) = 2" by code_simp
lemmas sample_pages = sample_pages_1 sample_pages_2 sample_pages_3 sample_pages_4

lemma sample_history: "length (address_txs sample_ledger ''m'') = 2" by code_simp

theorem address_pages_cover_the_history_witness:
  "map Inr (sample_page 0 @ sample_page 1) = map (address_summary sample_ledger ''m'') (newest_first (address_txs sample_ledger ''m''))"
proof -
  have "txs_by_address sample_ledger ''m'' (int p + 1) (int 1) = Inr (sample_page p, 2)" if "p < 2" for p
  proof -
    have "r = Inr (fst (projr r), 2)" if "\<not> isl r" "snd (projr r) = 2" for r :: "(tx_summary list \<times> nat) result"
      using that by (cases r) auto
    from this [OF sample_pages(1,2)] this [OF sample_pages(3,4)] show ?thesis
      using less_2_cases [OF that] by (auto simp: sample_page_def)
  qed
  then show ?thesis
    using address_pages_cover_the_history [of 1 2 sample_ledger "''m''" sample_page "\<lambda>_. 2"]
    by (simp add: sample_history numeral_2_eq_2)
qed

lemma sample_one: "one_canonical sample_ledger" by code_simp

lemma sample_walk_1: "\<forall>b \<in> set (blocks sample_ledger). b_height b < I64_MAX" by code_simp
lemma sample_walk_2: "length (blocks sample_ledger) = 2" by code_simp
lemma sample_walk_3: "map b_height (canonical_blocks sample_ledger) = [6, 5]" by code_simp
lemmas sample_walk = sample_walk_1 sample_walk_2 sample_walk_3

theorem block_walk_lists_every_canonical_block_witness:
  "walk_blocks 3 sample_ledger 1 None = map (block_summary_of sample_ledger) (canonical_blocks sample_ledger)
    \<and> map b_height (canonical_blocks sample_ledger) = [6, 5]"
  using block_walk_lists_every_canonical_block [OF wf_sample_ledger sample_one sample_walk(1), of 1 3]
  by (simp add: sample_walk)

theorem statistics_add_up_witness:
  "cs_indexed_blocks (chain_stats sample_ledger 0) + cs_orphaned_blocks (chain_stats sample_ledger 0)
     + cs_header_only_blocks (chain_stats sample_ledger 0) = 2"
  using statistics_add_up [OF sample_settled, of 0] by (simp add: sample_walk)

definition sample_miner :: miner_entry where
  "sample_miner = hd (mr_miners (miners sample_ledger None 5))"

lemma sample_mined_1: "mr_miners (miners sample_ledger None 5) \<noteq> []" by code_simp
lemma sample_mined_2: "me_address sample_miner = ''m''" by code_simp
lemma sample_mined_3: "me_blocks sample_miner = 2" by code_simp
lemma sample_mined_4: "me_first_height sample_miner = 5" by code_simp
lemma sample_mined_5: "me_last_height sample_miner = 6" by code_simp
lemma sample_mined_6: "mr_counted_from_height (miners sample_ledger None 5) = Some 5" by code_simp
lemmas sample_mined = sample_mined_1 sample_mined_2 sample_mined_3 sample_mined_4 sample_mined_5 sample_mined_6

theorem miners_table_agrees_with_each_miner_witness:
  "blocks_mined sample_ledger ''m'' = \<lparr>bm_count = 2, bm_first_height = Some 5, bm_last_height = Some 6, bm_counted_from_height = Some 5\<rparr>"
proof -
  have "sample_miner \<in> set (mr_miners (miners sample_ledger None 5))" by (simp add: sample_miner_def sample_mined(1))
  moreover note miners_table_agrees_with_each_miner [OF sample_settled, of None 5]
  ultimately have "blocks_mined sample_ledger (me_address sample_miner) = \<lparr>bm_count = me_blocks sample_miner,
      bm_first_height = Some (me_first_height sample_miner), bm_last_height = Some (me_last_height sample_miner),
      bm_counted_from_height = mr_counted_from_height (miners sample_ledger None 5)\<rparr>" by blast
  then show ?thesis by (simp add: sample_mined)
qed

end
