(* ===== verification/Export.thy ===== *)
theory Export
  imports Query_Spec
begin

text \<open>
  The CSV export of \<^verbatim>\<open>permanode/src/export.rs\<close>: the text of a field, of a line and of a file, and the
  rows of the five files. Creating files is the caller's; a file is its text. SQLite's \<open>datetime\<close> is an
  argument. A reader of CSV (quoted fields, doubled quotes) is defined as the reference the files are
  read back with.
\<close>

section \<open>Writing\<close>

text \<open>The values a column of these queries holds.\<close>

datatype sql_value = Null | Integer int | Text string

abbreviation COMMA :: char where "COMMA \<equiv> CHR '',''"
abbreviation QUOTE :: char where "QUOTE \<equiv> CHR 0x22"
abbreviation NEWLINE :: char where "NEWLINE \<equiv> CHR 0x0A"

definition double_quotes :: "string \<Rightarrow> string" where
  "double_quotes s = concat (map (\<lambda>ch. if ch = QUOTE then [QUOTE, QUOTE] else [ch]) s)"

definition field :: "string \<Rightarrow> string" where
  "field v = (if COMMA \<in> set v \<or> QUOTE \<in> set v \<or> NEWLINE \<in> set v then QUOTE # double_quotes v @ [QUOTE] else v)"

definition value_text :: "sql_value \<Rightarrow> string" where
  "value_text v = (case v of Null \<Rightarrow> [] | Integer i \<Rightarrow> int_to_string i | Text s \<Rightarrow> field s)"

fun csv_line :: "sql_value list \<Rightarrow> string" where
  "csv_line [] = []"
| "csv_line [v] = value_text v"
| "csv_line (v # vs) = value_text v @ COMMA # csv_line vs"

definition csv_file :: "string \<Rightarrow> sql_value list list \<Rightarrow> string" where
  "csv_file header rows = header @ NEWLINE # concat (map (\<lambda>r. csv_line r @ [NEWLINE]) rows)"

section \<open>The rows of the files\<close>

definition flag :: "bool \<Rightarrow> sql_value" where
  "flag b = Integer (if b then 1 else 0)"

definition nullable_text :: "string option \<Rightarrow> sql_value" where
  "nullable_text s = (case s of None \<Rightarrow> Null | Some s \<Rightarrow> Text s)"

definition nullable_integer :: "int option \<Rightarrow> sql_value" where
  "nullable_integer i = (case i of None \<Rightarrow> Null | Some i \<Rightarrow> Integer i)"

text \<open>\<open>(..) = 'canonical'\<close> as a column.\<close>

definition canonical_column :: "db \<Rightarrow> int \<Rightarrow> sql_value" where
  "canonical_column c bid = (case current_status c bid of None \<Rightarrow> Null | Some st \<Rightarrow> flag (st = Canonical))"

definition blocks_header :: string where
  "blocks_header = ''height,hash,prev_hash,timestamp,time_utc,miner,coinbase_value,total_fees,log_slots,body_captured,body_source,canonical,tx_count''"

definition block_line :: "(int \<Rightarrow> string option) \<Rightarrow> db \<Rightarrow> block_row \<Rightarrow> sql_value list" where
  "block_line datetime c b =
     [Integer (b_height b), Text (b_hash b), Text (b_prev_hash b), Integer (b_timestamp b),
      nullable_text (datetime (b_timestamp b)), Text (b_miner b), nullable_integer (b_reward b),
      nullable_integer (map_option cast_integer (b_total_fees b)), nullable_integer (b_log_slots b),
      flag (b_body_captured b), nullable_text (b_body_source b), canonical_column c (b_id b),
      Integer (int (length (txs_of_block c (b_id b))))]"

definition block_lines :: "(int \<Rightarrow> string option) \<Rightarrow> db \<Rightarrow> sql_value list list" where
  "block_lines datetime c = map (block_line datetime c) (sort_key b_height (filter archived (blocks c)))"

definition transactions_header :: string where
  "transactions_header = ''tx_id,txid,block_height,block_hash,timestamp,time_utc,fee,canonical,finalized,coinbase,development_payout,sender,input_sum,output_sum,tx_position,page_count,contract''"

definition contract_column :: "int \<Rightarrow> sql_value" where
  "contract_column flags = Text (if bit flags 1 then ''close'' else if flags \<noteq> 0 then ''call'' else [])"

definition transaction_line :: "(int \<Rightarrow> string option) \<Rightarrow> db \<Rightarrow> int \<Rightarrow> tx_row \<times> block_row \<Rightarrow> sql_value list" where
  "transaction_line datetime c tip = (\<lambda>(t, b).
     [Integer (t_id t), Text (t_txid t), Integer (b_height b), Text (b_hash b), Integer (b_timestamp b),
      nullable_text (datetime (b_timestamp b)), Integer (t_fee t), canonical_column c (b_id b),
      flag (18 \<le> tip - b_height b + 1), flag (t_coinbase t), flag (t_development_payout t),
      nullable_text (t_input_owner t), Integer (cast_integer (t_input_sum t)), Integer (cast_integer (t_output_sum t)),
      Integer (t_position t), Integer (t_page_count t), contract_column (t_contract_flags t)])"

text \<open>\<open>ORDER BY b.height, t.position\<close>.\<close>

definition in_chain_order :: "('r \<Rightarrow> tx_row \<times> block_row) \<Rightarrow> 'r list \<Rightarrow> 'r list" where
  "in_chain_order place rows =
     sort_key (\<lambda>r. b_height (snd (place r))) (sort_key (\<lambda>r. t_position (fst (place r))) rows)"

definition transaction_lines :: "(int \<Rightarrow> string option) \<Rightarrow> db \<Rightarrow> sql_value list list" where
  "transaction_lines datetime c =
     map (transaction_line datetime c (case indexed_tip c of Some tip \<Rightarrow> tip | None \<Rightarrow> 0))
       (in_chain_order (\<lambda>r. r) (filter (\<lambda>(t, b). recorded t) (joined c)))"

text \<open>\<open>tx_inputs i JOIN transactions t ON t.id = i.tx_id JOIN blocks b ON b.id = t.block_id WHERE\<close> recorded.\<close>

definition placed :: "db \<Rightarrow> ('r \<Rightarrow> int) \<Rightarrow> 'r list \<Rightarrow> ('r \<times> tx_row \<times> block_row) list" where
  "placed c tx_id rows =
     filter (\<lambda>(r, t, b). recorded t) (List.map_filter (\<lambda>r. map_option (Pair r) (origin c (tx_id r))) rows)"

definition inputs_header :: string where
  "inputs_header = ''tx_id,txid,input_index,address,amount,slot_index,creation_id,block_height,canonical''"

definition input_line :: "db \<Rightarrow> input_row \<times> tx_row \<times> block_row \<Rightarrow> sql_value list" where
  "input_line c = (\<lambda>(i, t, b).
     [Integer (t_id t), Text (t_txid t), Integer (i_idx i), nullable_text (t_input_owner t), Integer (i_amount i),
      Integer (i_slot_index i), Text (i_creation_id i), Integer (b_height b), canonical_column c (b_id b)])"

definition input_lines :: "db \<Rightarrow> sql_value list list" where
  "input_lines c = map (input_line c) (in_chain_order snd (sort_key (\<lambda>(i, r). i_idx i) (placed c i_tx_id (inputs c))))"

definition outputs_header :: string where
  "outputs_header = ''tx_id,txid,output_index,address,amount,slot_index,creation_id,block_height,canonical,spent,spent_in_gap''"

definition output_line :: "db \<Rightarrow> output_row \<times> tx_row \<times> block_row \<Rightarrow> sql_value list" where
  "output_line c = (\<lambda>(out, t, b).
     [Integer (t_id t), Text (t_txid t), Integer (o_idx out), Text (o_owner out), Integer (o_amount out),
      Integer (o_slot_index out), nullable_text (o_creation_id out), Integer (b_height b), canonical_column c (b_id b),
      flag (spent_in_history c (o_creation_id out)), flag (o_spent_in_gap out)])"

definition output_lines :: "db \<Rightarrow> sql_value list list" where
  "output_lines c = map (output_line c) (in_chain_order snd (sort_key (\<lambda>(out, r). o_idx out) (placed c o_tx_id (outputs c))))"

definition addresses_header :: string where
  "addresses_header = ''address,live_balance,live_utxo_count,fetched_at''"

definition address_lines :: "db \<Rightarrow> sql_value list list" where
  "address_lines c =
     map (\<lambda>a. [Text (a_address a), Integer (cast_integer (a_balance a)), Integer (a_utxo_count a), Text (a_fetched_at a)])
       (sort_desc (\<lambda>a. cast_integer (a_balance a)) (balances c))"

record csv_export =
  blocks_csv :: string
  transactions_csv :: string
  inputs_csv :: string
  outputs_csv :: string
  addresses_csv :: string
  exported :: "nat \<times> nat \<times> nat \<times> nat \<times> nat"

definition export_csv :: "(int \<Rightarrow> string option) \<Rightarrow> db \<Rightarrow> csv_export" where
  "export_csv datetime c =
     \<lparr>blocks_csv = csv_file blocks_header (block_lines datetime c),
      transactions_csv = csv_file transactions_header (transaction_lines datetime c),
      inputs_csv = csv_file inputs_header (input_lines c),
      outputs_csv = csv_file outputs_header (output_lines c),
      addresses_csv = csv_file addresses_header (address_lines c),
      exported = (length (block_lines datetime c), length (transaction_lines datetime c), length (input_lines c),
        length (output_lines c), length (address_lines c))\<rparr>"

section \<open>Reading back\<close>

text \<open>
  A CSV reader, one character at a time: before a field, inside a plain or a quoted one, or after a quote
  inside a quoted field. Every line ends with a newline.
\<close>

datatype csv_state = Before | Plain | Quoted | Quote_Seen

fun read_csv :: "csv_state \<Rightarrow> string \<Rightarrow> string list \<Rightarrow> string \<Rightarrow> string list list option" where
  "read_csv st cell row [] = (if st = Before \<and> row = [] \<and> cell = [] then Some [] else None)"
| "read_csv st cell row (ch # rest) =
     (if st = Quoted
      then if ch = QUOTE then read_csv Quote_Seen cell row rest else read_csv Quoted (cell @ [ch]) row rest
      else if ch = COMMA then read_csv Before [] (row @ [cell]) rest
      else if ch = NEWLINE then map_option (Cons (row @ [cell])) (read_csv Before [] [] rest)
      else if ch = QUOTE
      then if st = Before then read_csv Quoted [] row rest
           else if st = Quote_Seen then read_csv Quoted (cell @ [ch]) row rest
           else None
      else if st = Quote_Seen then None
      else read_csv Plain (cell @ [ch]) row rest)"

definition csv_rows :: "string \<Rightarrow> string list list option" where
  "csv_rows text = read_csv Before [] [] text"

text \<open>What a cell means: its text, unquoted.\<close>

definition cell_text :: "sql_value \<Rightarrow> string" where
  "cell_text v = (case v of Null \<Rightarrow> [] | Integer i \<Rightarrow> int_to_string i | Text s \<Rightarrow> s)"

lemma digits_plain: "COMMA \<notin> set (decimal n)" "QUOTE \<notin> set (decimal n)" "NEWLINE \<notin> set (decimal n)"
  using decimal_digits [of n] by (auto simp: list_all_iff is_digit_def)

lemma number_plain: "COMMA \<notin> set (int_to_string i)" "QUOTE \<notin> set (int_to_string i)" "NEWLINE \<notin> set (int_to_string i)"
  by (auto simp: int_to_string_def digits_plain)

text \<open>A run of characters without a separator or a quote is taken as it is.\<close>

lemma read_plain:
  assumes "COMMA \<notin> set s" "QUOTE \<notin> set s" "NEWLINE \<notin> set s" "st \<in> {Before, Plain}"
  shows "read_csv st cell row (s @ rest) = read_csv (if s = [] then st else Plain) (cell @ s) row rest"
  using assms by (induction s arbitrary: st cell) auto

lemma read_quoted: "read_csv Quoted cell row (double_quotes s @ QUOTE # rest) = read_csv Quote_Seen (cell @ s) row rest"
  by (induction s arbitrary: cell) (auto simp: double_quotes_def)

text \<open>After a value only a comma or the end of the line follows; there every state reads on in the same way.\<close>

lemma read_value:
  assumes "sep = COMMA \<or> sep = NEWLINE"
  shows "read_csv Before [] row (value_text v @ sep # rest) = read_csv Plain (cell_text v) row (sep # rest)"
proof -
  have plain: "read_csv Before [] row (s @ sep # rest) = read_csv Plain s row (sep # rest)"
    if "COMMA \<notin> set s" "QUOTE \<notin> set s" "NEWLINE \<notin> set s" for s
    using assms read_plain [OF that, of Before "[]" row "sep # rest"] by auto
  have "read_csv Before [] row (field s @ sep # rest) = read_csv Plain s row (sep # rest)" for s
    using assms plain [of s] read_quoted [of "[]" row s "sep # rest"] by (auto simp: field_def)
  then show ?thesis using plain [of "[]"] plain [OF number_plain] by (cases v) (simp_all add: value_text_def cell_text_def)
qed

lemma read_line:
  "vs \<noteq> [] \<Longrightarrow> read_csv Before [] row (csv_line vs @ NEWLINE # rest)
     = map_option (Cons (row @ map cell_text vs)) (csv_rows rest)"
proof (induction vs arbitrary: row rule: csv_line.induct)
  case (2 v)
  then show ?case using read_value [of NEWLINE row v rest] by (simp add: csv_rows_def)
next
  case (3 v w vs)
  then show ?case using read_value [of COMMA row v "csv_line (w # vs) @ NEWLINE # rest"] by simp
qed simp

lemma read_lines: "\<forall>r \<in> set rows. r \<noteq> [] \<Longrightarrow>
    csv_rows (concat (map (\<lambda>r. csv_line r @ [NEWLINE]) rows)) = Some (map (map cell_text) rows)"
  by (induction rows) (simp_all add: csv_rows_def [symmetric] read_line [of _ "[]", folded csv_rows_def], simp add: csv_rows_def)
text \<open>What follows a complete text is read on its own.\<close>

lemma read_append: "read_csv st cell row s = Some rows \<Longrightarrow> read_csv st cell row (s @ rest) = map_option ((@) rows) (csv_rows rest)"
proof (induction st cell row s arbitrary: rows rule: read_csv.induct)
  case (1 st cell row)
  then show ?case by (cases "csv_rows rest") (auto simp: csv_rows_def split: if_splits)
next
  case (2 st cell row ch s)
  then show ?case by (cases "csv_rows rest") (auto split: if_splits)
qed

text \<open>A file holds a table: distinct headings, and below each row as many cells as there are headings.\<close>

definition file_holds :: "nat \<Rightarrow> sql_value list list \<Rightarrow> string \<Rightarrow> bool" where
  "file_holds n rows text = (\<exists>names. length names = n \<and> distinct names
     \<and> csv_rows text = Some (names # map (map cell_text) rows) \<and> (\<forall>r \<in> set rows. length r = n))"

lemma csv_file_holds:
  assumes "csv_rows (header @ [NEWLINE]) = Some [names]" "distinct names" "\<forall>r \<in> set rows. length r = length names" "names \<noteq> []"
  shows "file_holds (length names) rows (csv_file header rows)"
proof -
  let ?text = "concat (map (\<lambda>r. csv_line r @ [NEWLINE]) rows)"
  have "\<forall>r \<in> set rows. r \<noteq> []" using assms(3,4) by fastforce
  then have rows: "csv_rows ?text = Some (map (map cell_text) rows)" by (rule read_lines)
  have "csv_rows ((header @ [NEWLINE]) @ ?text) = Some (names # map (map cell_text) rows)"
    using read_append [of Before "[]" "[]" "header @ [NEWLINE]" "[names]" ?text] assms(1) rows by (simp add: csv_rows_def)
  then show ?thesis using assms(2,3) by (auto simp: file_holds_def csv_file_def)
qed

definition columns_of :: "string \<Rightarrow> string list" where
  "columns_of header = hd (the (csv_rows (header @ [NEWLINE])))"

lemma headings:
  "csv_rows (blocks_header @ [NEWLINE]) = Some [columns_of blocks_header] \<and> distinct (columns_of blocks_header) \<and> length (columns_of blocks_header) = 13"
  "csv_rows (transactions_header @ [NEWLINE]) = Some [columns_of transactions_header] \<and> distinct (columns_of transactions_header) \<and> length (columns_of transactions_header) = 17"
  "csv_rows (inputs_header @ [NEWLINE]) = Some [columns_of inputs_header] \<and> distinct (columns_of inputs_header) \<and> length (columns_of inputs_header) = 9"
  "csv_rows (outputs_header @ [NEWLINE]) = Some [columns_of outputs_header] \<and> distinct (columns_of outputs_header) \<and> length (columns_of outputs_header) = 11"
  "csv_rows (addresses_header @ [NEWLINE]) = Some [columns_of addresses_header] \<and> distinct (columns_of addresses_header) \<and> length (columns_of addresses_header) = 4"
  by code_simp+

lemma table_holds:
  assumes "csv_rows (header @ [NEWLINE]) = Some [columns_of header] \<and> distinct (columns_of header) \<and> length (columns_of header) = n"
    and "\<forall>r \<in> set rows. length r = n" "0 < n"
  shows "file_holds n rows (csv_file header rows)"
  using csv_file_holds [of header "columns_of header" rows] assms by auto

section \<open>The rule for unspent outputs\<close>

text \<open>A number as a reader of the file takes it, and the README's rule for the unspent outputs of an address.\<close>

definition number_of :: "string \<Rightarrow> int" where
  "number_of s = (case s of [] \<Rightarrow> 0 | ch # ds \<Rightarrow> if ch = CHR ''-'' then - int (digits_value ds) else int (digits_value s))"

definition unspent_row :: "string \<Rightarrow> string list \<Rightarrow> bool" where
  "unspent_row w r = (r ! 3 = w \<and> r ! 8 = ''1'' \<and> r ! 9 = ''0'' \<and> r ! 10 = ''0'')"

lemma number_of_decimal: "number_of (decimal n) = int n"
proof (cases "decimal n")
  case (Cons ch ds)
  have "ch \<noteq> CHR ''-''" using decimal_digits [of n] by (auto simp: Cons is_digit_def)
  then have "number_of (decimal n) = int (digits_value (decimal n))" by (simp add: number_of_def Cons)
  then show ?thesis by simp
qed simp

lemma number_of_int [simp]: "number_of (int_to_string i) = i"
proof (cases "i < 0")
  case True
  then show ?thesis by (simp add: int_to_string_def number_of_def)
qed (simp add: int_to_string_def number_of_decimal)

lemma one_and_zero: "int_to_string 1 = ''1''" "int_to_string 0 = ''0''"
  by code_simp+

lemma flag_text: "cell_text (flag b) = ''1'' \<longleftrightarrow> b" "cell_text (flag b) = ''0'' \<longleftrightarrow> \<not> b"
  by (simp_all add: flag_def cell_text_def one_and_zero)

lemma canonical_text: "cell_text (canonical_column c bid) = ''1'' \<longleftrightarrow> is_canonical c bid"
  by (cases "current_status c bid") (simp_all add: canonical_column_def is_canonical_def flag_text, simp add: cell_text_def)

lemma unspent_line: "unspent_row w (map cell_text (output_line c (out, t, b)))
    \<longleftrightarrow> o_owner out = w \<and> is_canonical c (b_id b) \<and> \<not> spent_in_history c (o_creation_id out) \<and> \<not> o_spent_in_gap out"
  by (simp add: unspent_row_def output_line_def flag_text canonical_text) (simp add: cell_text_def)

lemma amount_cell: "map cell_text (output_line c (out, t, b)) ! 4 = int_to_string (o_amount out)"
  by (simp add: output_line_def cell_text_def)

lemma placed_canonical:
  "map fst (filter (\<lambda>(r, t, b). P r \<and> is_canonical c (b_id b)) (placed c tx_id rows))
     = filter (\<lambda>r. P r \<and> in_history c (tx_id r)) rows"
  by (induction rows) (auto simp: placed_def in_history_def List.map_filter_simps split: option.splits)

lemma mset_in_chain_order [simp]: "mset (in_chain_order place rows) = mset rows"
  by (simp add: in_chain_order_def)

lemma unspent_lines:
  "mset (map (\<lambda>r. number_of (r ! 4)) (filter (unspent_row w) (map (map cell_text) (output_lines c))))
     = mset (map o_amount (unspent_outputs c w False))"
proof -
  let ?rows = "in_chain_order snd (sort_key (\<lambda>(out, r). o_idx out) (placed c o_tx_id (outputs c)))"
  let ?P = "\<lambda>out. o_owner out = w \<and> \<not> spent_in_history c (o_creation_id out) \<and> \<not> o_spent_in_gap out"
  let ?Q = "\<lambda>(out, t, b). ?P out \<and> is_canonical c (b_id b)"
  have q: "unspent_row w (map cell_text (output_line c r)) \<longleftrightarrow> ?Q r" for r
    by (cases r) (auto simp: unspent_line)
  have a: "number_of (map cell_text (output_line c r) ! 4) = o_amount (fst r)" for r
    by (cases r) (simp add: amount_cell)
  have "map (\<lambda>r. number_of (r ! 4)) (filter (unspent_row w) (map (map cell_text) (output_lines c)))
      = map (o_amount \<circ> fst) (filter ?Q ?rows)"
    by (simp add: output_lines_def filter_map o_def q a)
  then have "mset (map (\<lambda>r. number_of (r ! 4)) (filter (unspent_row w) (map (map cell_text) (output_lines c))))
      = image_mset o_amount (mset (map fst (filter ?Q (placed c o_tx_id (outputs c)))))"
    by (simp add: mset_filter multiset.map_comp)
  also have "map fst (filter ?Q (placed c o_tx_id (outputs c))) = unspent_outputs c w False"
    unfolding placed_canonical by (auto simp: unspent_outputs_def own_outputs_def intro!: filter_cong)
  finally show ?thesis by simp
qed

section \<open>Properties\<close>

text \<open>
  C21. The files read back: each of the five has distinct headings and below them, row for row, the very
  values of its query, with as many cells as headings, whatever commas, quotes and newlines the texts
  hold; and the report counts the rows.
\<close>
theorem exported_files_read_back:
  "file_holds 13 (block_lines datetime c) (blocks_csv (export_csv datetime c))
   \<and> file_holds 17 (transaction_lines datetime c) (transactions_csv (export_csv datetime c))
   \<and> file_holds 9 (input_lines c) (inputs_csv (export_csv datetime c))
   \<and> file_holds 11 (output_lines c) (outputs_csv (export_csv datetime c))
   \<and> file_holds 4 (address_lines c) (addresses_csv (export_csv datetime c))
   \<and> exported (export_csv datetime c) = (length (block_lines datetime c), length (transaction_lines datetime c),
        length (input_lines c), length (output_lines c), length (address_lines c))"
  unfolding export_csv_def csv_export.simps
  by (intro conjI table_holds headings refl)
    (auto simp: block_lines_def block_line_def transaction_lines_def transaction_line_def input_lines_def input_line_def
      output_lines_def output_line_def address_lines_def)

text \<open>
  C22. The rule of the export's README finds the confirmed balance: of the rows of \<^verbatim>\<open>outputs.csv\<close>, those of
  an address with \<^verbatim>\<open>canonical = 1\<close>, \<^verbatim>\<open>spent = 0\<close> and \<^verbatim>\<open>spent_in_gap = 0\<close> are as many as the outputs the address
  page counts as confirmed, and their amounts add up to the balance it shows.
\<close>
theorem export_rule_gives_the_balance:
  assumes "address_balance c w = Inr r" "csv_rows (outputs_csv (export_csv datetime c)) = Some (names # rows)"
  shows "length (filter (unspent_row w) rows) = ab_confirmed_utxos r
    \<and> sum_list (map (\<lambda>r. number_of (r ! 4)) (filter (unspent_row w) rows)) = ab_confirmed_balance r"
proof -
  have "file_holds 11 (output_lines c) (csv_file outputs_header (output_lines c))"
    by (intro table_holds headings) (auto simp: output_lines_def output_line_def)
  then have rows: "rows = map (map cell_text) (output_lines c)"
    using assms(2) by (auto simp: file_holds_def export_csv_def)
  note m = unspent_lines [of w c, folded rows]
  have "length (filter (unspent_row w) rows) = length (unspent_outputs c w False)"
    using mset_eq_length [OF m] by simp
  moreover have "sum_list (map (\<lambda>r. number_of (r ! 4)) (filter (unspent_row w) rows))
      = sum_list (map o_amount (unspent_outputs c w False))"
    using m by (metis sum_mset_sum_list)
  moreover have "ab_confirmed_utxos r = length (unspent_outputs c w False)"
    "ab_confirmed_balance r = sum_list (map o_amount (unspent_outputs c w False))"
    using address_balance_Inr [OF assms(1)] by auto
  ultimately show ?thesis by simp
qed

section \<open>Witnesses\<close>

definition sample_outputs_table :: "string list list" where
  "sample_outputs_table = tl (the (csv_rows (outputs_csv (export_csv (\<lambda>_. None) sample_ledger))))"

lemma sample_table: "\<exists>names. csv_rows (outputs_csv (export_csv (\<lambda>_. None) sample_ledger)) = Some (names # sample_outputs_table)"
proof -
  have "file_holds 11 (output_lines sample_ledger) (csv_file outputs_header (output_lines sample_ledger))"
    by (intro table_holds headings) (auto simp: output_lines_def output_line_def)
  then show ?thesis by (auto simp: file_holds_def sample_outputs_table_def export_csv_def)
qed

theorem export_rule_gives_the_balance_witness:
  "length (filter (unspent_row ''m'') sample_outputs_table) = 1
    \<and> sum_list (map (\<lambda>r. number_of (r ! 4)) (filter (unspent_row ''m'') sample_outputs_table)) = 20"
proof -
  obtain names where "csv_rows (outputs_csv (export_csv (\<lambda>_. None) sample_ledger)) = Some (names # sample_outputs_table)"
    using sample_table by blast
  from export_rule_gives_the_balance [OF sample_balance this] show ?thesis by (simp add: sample_figures_def)
qed

end
