(* ===== verification/Live_Rpc.thy ===== *)
theory Live_Rpc
  imports Serve
begin

text \<open>
  The API's own client of the node, \<^verbatim>\<open>core/src/live_rpc.rs\<close>: what it makes of a reply, the answers it asks
  for, and the integer part of the hashrate estimate. JSON values and their conversion to the answer
  types are serde's and stay parameters; the methods of the node are the fields of \<open>live_node\<close>.
\<close>

section \<open>A call\<close>

record 'j reply =
  rp_error :: "'j option"
  rp_result :: "'j option"

definition call :: "string \<Rightarrow> 'j reply result \<Rightarrow> 'j result" where
  "call rpc_method sent =
     and_then sent (\<lambda>v. case rp_error v of
       Some err \<Rightarrow> bail (''RPC call '' @ rpc_method @ '' returned error'')
     | None \<Rightarrow> (case rp_result v of
         Some r \<Rightarrow> Inr r
       | None \<Rightarrow> bail (''RPC call '' @ rpc_method @ '': response has no result field'')))"

text \<open>The methods that answer \<open>null\<close> for what the node does not have.\<close>

definition nullable :: "('j \<Rightarrow> bool) \<Rightarrow> ('j \<Rightarrow> 'a result) \<Rightarrow> 'j result \<Rightarrow> 'a option result" where
  "nullable is_null from_value answer =
     and_then answer (\<lambda>v. if is_null v then Inr None else and_then (from_value v) (\<lambda>x. Inr (Some x)))"

section \<open>The answers\<close>

record chain_info =
  cn_height :: u64
  cn_best_hash :: string
  cn_difficulty_target :: string
  cn_active_slot_count :: u64
  cn_log_slots :: u32
  cn_circulating_supply :: string

record state_info =
  si_log_slots :: u32
  si_capacity :: u64
  si_active_slots :: u64
  si_slots_until_expand :: u64
  si_expand_trigger_pct :: u64

record mining_info =
  mi_height :: u64
  mi_difficulty_bits :: u32
  mi_difficulty_target :: string
  mi_block_reward :: u64
  mi_active_slot_count :: u64

record mempool_tx =
  mp_tx_hash :: string
  mp_fee :: u64
  mp_fee_rate :: u64
  mp_n_inputs :: u32
  mp_n_outputs :: u32
  mp_page_count :: u32
  mp_admitted_height :: u64
  mp_minimum_proof_class :: "string option"
  mp_requires_b255_miner :: bool
  mp_contract :: bool

record mempool_info =
  mo_size :: u64
  mo_fee_floor :: u64
  mo_txs :: "mempool_tx list"

record mempool_entry =
  pe_contract_opening :: "string option"

record live_node =
  ln_rpc :: node
  ln_chain_info :: "chain_info result"
  ln_mining_info :: "mining_info result"
  ln_state_info :: "state_info result"
  ln_active_slot_count :: "u64 result"
  ln_mempool_info :: "mempool_info result"
  ln_mempool_entry :: "string \<Rightarrow> mempool_entry option result"

section \<open>The hashrate estimate\<close>

text \<open>
  Two characters as \<open>u8::from_str_radix(_, 16)\<close> reads them: a leading plus sign is accepted.
  The node's text is ASCII. The estimate's division by the block interval is floating-point, so the
  model stops at the expected number of hashes.
\<close>

definition hex_value :: "char \<Rightarrow> nat option" where
  "hex_value ch =
     (let n = of_char ch :: nat
      in if 48 \<le> n \<and> n \<le> 57 then Some (n - 48)
         else if 65 \<le> n \<and> n \<le> 70 then Some (n - 55)
         else if 97 \<le> n \<and> n \<le> 102 then Some (n - 87)
         else None)"

definition radix16_pair :: "char \<Rightarrow> char \<Rightarrow> u8 option" where
  "radix16_pair a b =
     (if a = CHR ''+'' then map_option of_nat (hex_value b)
      else Option.bind (hex_value a) (\<lambda>hi. map_option (\<lambda>lo. of_nat (16 * hi + lo)) (hex_value b)))"

fun hex_pairs :: "string \<Rightarrow> bytes option" where
  "hex_pairs (a # b # s) = Option.bind (radix16_pair a b) (\<lambda>byte. map_option (Cons byte) (hex_pairs s))"
| "hex_pairs _ = Some []"

definition hex_decode :: "string \<Rightarrow> bytes option" where
  "hex_decode s = (if length s mod 2 \<noteq> 0 then None else hex_pairs s)"

definition from_bytes_le :: "bytes \<Rightarrow> nat" where
  "from_bytes_le bs = foldr (\<lambda>byte n. unat byte + 256 * n) bs 0"

definition expected_hashes :: "string \<Rightarrow> nat option" where
  "expected_hashes target_hex =
     (case hex_decode target_hex of
        None \<Rightarrow> None
      | Some bs \<Rightarrow> if from_bytes_le bs = 0 then None else Some (2 ^ 256 div from_bytes_le bs))"

text \<open>A target written as the node writes it, two lower-case digits per byte, is read back.\<close>

definition hex_text :: "bytes \<Rightarrow> string" where
  "hex_text bs = concat (map (\<lambda>byte. [hex_digit (unat byte div 16), hex_digit (unat byte mod 16)]) bs)"

lemma hex_value_digit: "d < 16 \<Longrightarrow> hex_value (hex_digit d) = Some d"
  by (auto simp: hex_value_def hex_digit_def Let_def)

lemma hex_digit_not_plus: "d < 16 \<Longrightarrow> hex_digit d \<noteq> CHR ''+''"
  using hex_value_digit [of d] by (auto simp: hex_value_def)

lemma radix16_byte: "radix16_pair (hex_digit (unat byte div 16)) (hex_digit (unat byte mod 16)) = Some (byte :: u8)"
proof -
  have "unat byte < 2 ^ LENGTH(8)" by (rule unsigned_less)
  then have "unat byte < 256" by simp
  then have "unat byte div 16 < 16" by (simp add: less_mult_imp_div_less)
  then have "radix16_pair (hex_digit (unat byte div 16)) (hex_digit (unat byte mod 16))
      = Some (of_nat (16 * (unat byte div 16) + unat byte mod 16))"
    by (simp add: radix16_pair_def hex_value_digit hex_digit_not_plus del: of_nat_add of_nat_mult)
  also have "16 * (unat byte div 16) + unat byte mod 16 = unat byte" by (rule mult_div_mod_eq)
  finally show ?thesis by simp
qed

lemma hex_decode_text: "hex_decode (hex_text bs) = Some bs"
proof -
  have "hex_pairs (hex_text bs) = Some bs" by (induction bs) (simp_all add: hex_text_def radix16_byte)
  moreover have "length (hex_text bs) = 2 * length bs" by (induction bs) (simp_all add: hex_text_def)
  ultimately show ?thesis by (simp add: hex_decode_def)
qed

end
