(* ===== verification/Fees.thy ===== *)
theory Fees
  imports Prelude
begin

text \<open>
  The consensus fee model of \<^verbatim>\<open>core/src/fees.rs\<close>: occupancy of the state domain in basis points,
  the pressure multiplier, and the split of a paid fee into its parts. \<open>u64\<close> and \<open>u128\<close>
  arithmetic saturates where the code saturates and truncates where it casts. The thresholds
  that \<^verbatim>\<open>permanode/src/serve.rs\<close> derives for the halving page, and the bands of the least burn
  on the way to the next expansion, are here too: they are the inverse of the multiplier.
\<close>

section \<open>The model\<close>

definition MIN_FEE_BASE :: u64 where "MIN_FEE_BASE = 5000"
definition FEE_PER_INPUT :: u64 where "FEE_PER_INPUT = 100"
definition FEE_PER_OUTPUT :: u64 where "FEE_PER_OUTPUT = 700"
definition STATE_GROWTH_FEE_BASE :: u64 where "STATE_GROWTH_FEE_BASE = 2500"
definition PRESSURE_LOW_BPS :: u64 where "PRESSURE_LOW_BPS = 5000"
definition PRESSURE_HIGH_BPS :: u64 where "PRESSURE_HIGH_BPS = 7500"
definition PRESSURE_EXTREME_BPS :: u64 where "PRESSURE_EXTREME_BPS = 9000"

named_theorems fee_consts \<open>the fee constants, evaluated\<close>
declare MIN_FEE_BASE_def [fee_consts] FEE_PER_INPUT_def [fee_consts] FEE_PER_OUTPUT_def [fee_consts]
  STATE_GROWTH_FEE_BASE_def [fee_consts] PRESSURE_LOW_BPS_def [fee_consts]
  PRESSURE_HIGH_BPS_def [fee_consts] PRESSURE_EXTREME_BPS_def [fee_consts]

definition occupancy_bps :: "u64 \<Rightarrow> u32 \<Rightarrow> u64" where
  "occupancy_bps active_slot_count log_slots =
     (let shifted = (if unat log_slots < 128 then Some (push_bit (unat log_slots) (1 :: u128)) else None);
          capacity = max (case shifted of Some c \<Rightarrow> c | None \<Rightarrow> - 1) 1
      in ucast (saturating_mul (ucast active_slot_count) 10000 div capacity))"

definition pressure_multiplier :: "u64 \<Rightarrow> u32 \<Rightarrow> u64" where
  "pressure_multiplier active_slot_count log_slots =
     (let bps = occupancy_bps active_slot_count log_slots
      in if bps \<ge> PRESSURE_EXTREME_BPS then 8
         else if bps \<ge> PRESSURE_HIGH_BPS then 4
         else if bps \<ge> PRESSURE_LOW_BPS then 2
         else 1)"

definition state_growth_fee_per_slot :: "u64 \<Rightarrow> u32 \<Rightarrow> u64" where
  "state_growth_fee_per_slot active_slot_count log_slots =
     saturating_mul STATE_GROWTH_FEE_BASE (pressure_multiplier active_slot_count log_slots)"

record fee_parts =
  base_part :: u64
  input_part :: u64
  output_part :: u64
  net_new_slots :: u64
  multiplier :: u64
  bps :: u64
  burned :: u64
  required_total :: u64
  tip :: u64
  to_miner :: u64

definition fee_breakdown :: "u64 \<Rightarrow> u64 \<Rightarrow> u64 \<Rightarrow> u64 \<Rightarrow> u32 \<Rightarrow> fee_parts" where
  "fee_breakdown fee n_inputs n_outputs active_slot_count log_slots =
     (let net_new = saturating_sub n_outputs n_inputs;
          base' = MIN_FEE_BASE;
          input' = saturating_mul FEE_PER_INPUT n_inputs;
          output' = saturating_mul FEE_PER_OUTPUT n_outputs;
          mult = pressure_multiplier active_slot_count log_slots;
          burn = saturating_mul (saturating_mul STATE_GROWTH_FEE_BASE mult) net_new;
          required = saturating_add (saturating_add (saturating_add base' input') output') burn
      in \<lparr>base_part = base', input_part = input', output_part = output', net_new_slots = net_new,
          multiplier = mult, bps = occupancy_bps active_slot_count log_slots, burned = burn,
          required_total = required, tip = saturating_sub fee required,
          to_miner = saturating_sub fee burn\<rparr>)"

text \<open>The pressure thresholds and the burn bands of the halving and economics pages.\<close>

record pressure_threshold =
  pct :: u64
  slots :: u64
  tier_multiplier :: u64

definition pressure_thresholds :: "u64 \<Rightarrow> pressure_threshold list" where
  "pressure_thresholds capacity =
     map (\<lambda>(bps, mult). \<lparr>pct = bps div 100,
            slots = ucast (div_ceil (ucast capacity * ucast bps :: u128) 10000),
            tier_multiplier = mult\<rparr>)
       [(PRESSURE_LOW_BPS, 2), (PRESSURE_HIGH_BPS, 4), (PRESSURE_EXTREME_BPS, 8)]"

record burn_band =
  from_pct :: u64
  to_pct :: u64
  band_multiplier :: u64
  slots_to_fill :: u64
  per_slot_micronoid :: u64
  burn_micronoid :: u128

fun burn_bands :: "u64 \<Rightarrow> u32 \<Rightarrow> u64 \<Rightarrow> (u64 \<times> u64) list \<Rightarrow> burn_band list" where
  "burn_bands active log_slots expansion_threshold [] = []"
| "burn_bands active log_slots expansion_threshold ((fp, from_slots) # bounds) =
     (let (tp, to_slots) = (case bounds of b # _ \<Rightarrow> b | [] \<Rightarrow> (PRESSURE_HIGH_BPS div 100, expansion_threshold));
          lo = max active from_slots;
          fill = saturating_sub to_slots lo;
          per_slot = state_growth_fee_per_slot from_slots log_slots
      in \<lparr>from_pct = fp, to_pct = tp, band_multiplier = pressure_multiplier from_slots log_slots,
          slots_to_fill = fill, per_slot_micronoid = per_slot,
          burn_micronoid = ucast fill * ucast per_slot\<rparr>
         # burn_bands active log_slots expansion_threshold bounds)"

definition min_burn_bands :: "u64 \<Rightarrow> u32 \<Rightarrow> pressure_threshold list \<Rightarrow> u64 \<Rightarrow> burn_band list" where
  "min_burn_bands active log_slots thresholds expansion_threshold =
     burn_bands active log_slots expansion_threshold
       ((0, 0) # map (\<lambda>t. (pct t, slots t)) (filter (\<lambda>t. slots t < expansion_threshold) thresholds))"

section \<open>Occupancy as exact arithmetic\<close>

lemma unat_occupancy_bps:
  assumes "14 \<le> unat log_slots" "unat log_slots < 64"
  shows "unat (occupancy_bps a log_slots) = unat a * 10000 div 2 ^ unat log_slots"
proof -
  let ?n = "unat log_slots"
  have cap: "unat (2 ^ ?n :: u128) = 2 ^ ?n"
    using assms by (simp add: unat_push_bit_one)
  then have "1 \<le> (2 ^ ?n :: u128)" by (simp add: word_le_nat_alt)
  then have mx: "max (2 ^ ?n :: u128) 1 = 2 ^ ?n" by (simp add: max_def)
  have "unat a * 10000 \<le> 340282366920938463463374607431768211455"
    using unat_u64_bound [of a] by linarith
  then have prod: "unat (saturating_mul (ucast a :: u128) 10000) = unat a * 10000"
    by (simp add: unat_saturating_mul unat_ucast_u128)
  have "unat a * 10000 div 2 ^ ?n \<le> unat a * 10000 div 2 ^ 14"
    using assms power_increasing [of 14 ?n "2 :: nat"] by (intro div_le_mono2) auto
  also have "\<dots> < 18446744073709551616"
  proof (rule less_mult_imp_div_less)
    have "unat a * 10000 < 18446744073709551616 * 16384" using unat_u64_bound [of a] by linarith
    then show "unat a * 10000 < 18446744073709551616 * 2 ^ 14" by simp
  qed
  finally have small: "unat a * 10000 div 2 ^ ?n < 18446744073709551616" .
  have "unat (occupancy_bps a log_slots) = unat a * 10000 div 2 ^ ?n mod 2 ^ 64"
    using assms by (simp add: occupancy_bps_def mx unsigned_ucast_eq take_bit_nat_def unat_div prod cap)
  with small show ?thesis by simp
qed

text \<open>An integer occupancy of at least \<open>b\<close> basis points is an exact comparison of products.\<close>

lemma bps_at_least: "0 < c \<Longrightarrow> b \<le> a * 10000 div c \<longleftrightarrow> b * c \<le> a * (10000 :: nat)"
  by (simp add: less_eq_div_iff_mult_less_eq)

lemma pressure_multiplier_nat:
  assumes "14 \<le> unat log_slots" "unat log_slots < 64"
  shows "pressure_multiplier a log_slots =
    (if 9 * 2 ^ unat log_slots \<le> 10 * unat a then 8
     else if 3 * 2 ^ unat log_slots \<le> 4 * unat a then 4
     else if 2 ^ unat log_slots \<le> 2 * unat a then 2 else 1)"
proof -
  define c where "c = (2 ^ unat log_slots :: nat)"
  have c: "0 < c" by (simp add: c_def)
  have "n \<le> unat (occupancy_bps a log_slots) \<longleftrightarrow> n * c \<le> unat a * 10000" for n
    unfolding unat_occupancy_bps [OF assms] c_def [symmetric] by (rule bps_at_least [OF c])
  from this [of 9000] this [of 7500] this [of 5000] show ?thesis
    unfolding c_def [symmetric] by (simp add: pressure_multiplier_def Let_def fee_consts word_le_nat_alt)
qed

lemma multiplier_cases: "pressure_multiplier a log_slots \<in> {1, 2, 4, 8}"
  by (simp add: pressure_multiplier_def Let_def)

lemma unat_multiplier_le: "unat (pressure_multiplier a log_slots) \<le> 8"
  using multiplier_cases [of a log_slots] by auto

lemma unat_per_slot:
  "unat (saturating_mul STATE_GROWTH_FEE_BASE (pressure_multiplier a log_slots))
    = 2500 * unat (pressure_multiplier a log_slots)"
  using multiplier_cases [of a log_slots] by (auto simp: unat_saturating_mul fee_consts)

section \<open>The bands up to the expansion threshold\<close>

lemma unat_state_growth_fee: "unat (state_growth_fee_per_slot a log_slots) = 2500 * unat (pressure_multiplier a log_slots)"
  by (simp add: state_growth_fee_per_slot_def unat_per_slot)

lemma unat_threshold_slots:
  fixes C b :: u64
  assumes "unat C = 4 * q" "q < 2 ^ 62" "unat b \<le> 9000"
  shows "unat (ucast (div_ceil (ucast C * ucast b :: u128) 10000) :: u64) = (4 * q * unat b + 9999) div 10000"
proof -
  have p: "4 * q * unat b \<le> 18446744073709551612 * 9000" using assms by (intro mult_le_mono) auto
  then have "(4 * q * unat b + 9999) div 10000 \<le> (18446744073709551612 * 9000 + 9999) div 10000"
    by (intro div_le_mono) simp
  then have small: "(4 * q * unat b + 9999) div 10000 < 2 ^ 64" by simp
  have "unat (ucast C * ucast b :: u128) = 4 * q * unat b"
    using p by (subst unat_mult_bound) (simp_all add: unat_ucast_u128 assms(1))
  then have "unat (div_ceil (ucast C * ucast b :: u128) 10000) = (4 * q * unat b + 9999) div 10000"
    by (subst unat_div_ceil) simp_all
  with small show ?thesis by (simp add: unsigned_ucast_eq take_bit_nat_eq_self)
qed

lemma sum_bands:
  fixes a q :: nat
  shows "(\<Sum>s = a..<3 * q. if 2 * q \<le> s then 5000 else 2500) = (2 * q - a) * 2500 + (3 * q - max a (2 * q)) * 5000"
proof -
  let ?f = "\<lambda>s. if 2 * q \<le> s then 5000 else 2500 :: nat"
  have "{a..<3 * q} = {a..<2 * q} \<union> {max a (2 * q)..<3 * q}" and "{a..<2 * q} \<inter> {max a (2 * q)..<3 * q} = {}"
    by auto
  then have "sum ?f {a..<3 * q} = sum ?f {a..<2 * q} + sum ?f {max a (2 * q)..<3 * q}"
    by (simp add: sum.union_disjoint)
  also have "\<dots> = (\<Sum>s = a..<2 * q. 2500) + (\<Sum>s = max a (2 * q)..<3 * q. 5000)"
    by (intro arg_cong2 [where f = "(+)"] sum.cong) auto
  finally show ?thesis by simp
qed

section \<open>Properties\<close>

text \<open>
  C25. The multiplier's integer thresholds are exact: for every state size the chain can have
  (from 14 up to 63 bits; genesis is 24) a live-slot count is charged 8, 4 or 2 times the base
  rate exactly from 90%, 75% and 50% of the capacity on. So the slot counts that the halving
  page publishes are the least counts at which each multiplier starts.
\<close>
theorem pressure_thresholds_are_least:
  assumes "14 \<le> unat log_slots" "unat log_slots < 64"
    and "t \<in> set (pressure_thresholds (push_bit (unat log_slots) 1))"
  shows "tier_multiplier t \<le> pressure_multiplier a log_slots \<longleftrightarrow> slots t \<le> a"
proof -
  let ?n = "unat log_slots"
  have cap: "unat (2 ^ ?n :: u64) = 2 ^ ?n"
    using assms by (simp add: unat_push_bit_one)
  have n: "(2 ^ ?n :: nat) < 2 ^ 64" using assms by (intro power_strict_increasing) auto
  define C where "C = (2 ^ ?n :: u64)"
  have C: "unat C = 2 ^ ?n" using assms by (simp add: C_def)
  have slots_at: "unat (ucast (div_ceil (ucast C * ucast b :: u128) 10000) :: u64) \<le> k
      \<longleftrightarrow> 2 ^ ?n * unat b \<le> k * 10000"
    if "unat b \<le> 9000" for b :: u64 and k
  proof -
    have p: "2 ^ ?n * unat b \<le> 2 ^ 64 * 9000" using n that by (intro mult_le_mono) auto
    have small: "(2 ^ ?n * unat b + 9999) div 10000 < 2 ^ 64" (is "?q < _")
    proof -
      have "2 ^ ?n * unat b \<le> (2 ^ 64 - 1) * 9000" using n that by (intro mult_le_mono) auto
      then have "?q \<le> ((2 ^ 64 - 1) * 9000 + 9999) div 10000" by (intro div_le_mono) simp
      then show ?thesis by simp
    qed
    have m: "unat (ucast C * ucast b :: u128) = 2 ^ ?n * unat b"
      using p by (subst unat_mult_bound) (simp_all add: unat_ucast_u128 C)
    have "unat (div_ceil (ucast C * ucast b :: u128) 10000) = ?q"
      by (subst unat_div_ceil) (simp_all add: m)
    then show ?thesis
      using small ceil_div_le [of 10000 "2 ^ ?n * unat b" k]
      by (simp add: unsigned_ucast_eq take_bit_nat_eq_self add.commute [of 9999])
  qed
  define c where "c = (2 ^ ?n :: nat)"
  have c: "0 < c" by (simp add: c_def)
  note mult = pressure_multiplier_nat [OF assms(1,2), of a, folded c_def]
  have "slots t \<le> a \<longleftrightarrow> (if tier_multiplier t = 2 then 5000 * c \<le> unat a * 10000
      else if tier_multiplier t = 4 then 7500 * c \<le> unat a * 10000 else 9000 * c \<le> unat a * 10000)"
    "tier_multiplier t \<in> {2, 4, 8}"
    using assms(3) slots_at [of 5000 "unat a"] slots_at [of 7500 "unat a"] slots_at [of 9000 "unat a"]
    by (auto simp: pressure_thresholds_def fee_consts word_le_nat_alt c_def mult.commute C_def [symmetric])
  then show ?thesis
    unfolding mult by (auto simp: word_le_nat_alt)
qed

theorem pressure_thresholds_are_least_witness:
  "slots (pressure_thresholds (push_bit 24 1) ! 2) = 15099495
   \<and> (tier_multiplier (pressure_thresholds (push_bit 24 1) ! 2) \<le> pressure_multiplier 15099494 24
        \<longleftrightarrow> slots (pressure_thresholds (push_bit 24 1) ! 2) \<le> 15099494)"
proof
  show "slots (pressure_thresholds (push_bit 24 1) ! 2) = 15099495"
    by code_simp
  have "pressure_thresholds (push_bit 24 1) ! 2 \<in> set (pressure_thresholds (push_bit (unat (24 :: u32)) 1))"
    by (simp add: pressure_thresholds_def)
  then show "tier_multiplier (pressure_thresholds (push_bit 24 1) ! 2) \<le> pressure_multiplier 15099494 24
        \<longleftrightarrow> slots (pressure_thresholds (push_bit 24 1) ! 2) \<le> 15099494"
    by (intro pressure_thresholds_are_least) simp_all
qed

text \<open>
  A fee is split without loss: for fewer than \<open>2 ^ 32\<close> inputs and outputs nothing saturates,
  the burned part is the base rate times the multiplier per net-new slot and never exceeds the
  required total; a fee that meets the required total is that total plus the tip, and what
  the miner may claim is everything but the burned part.
\<close>
theorem fee_is_split_without_loss:
  assumes "unat n_inputs < 2 ^ 32" "unat n_outputs < 2 ^ 32"
    and "b = fee_breakdown fee n_inputs n_outputs active_slot_count log_slots"
  shows "unat (required_total b)
        = unat (base_part b) + unat (input_part b) + unat (output_part b) + unat (burned b)
    \<and> unat (burned b) = 2500 * unat (multiplier b) * (unat n_outputs - unat n_inputs)
    \<and> (required_total b \<le> fee \<longrightarrow>
         unat fee = unat (required_total b) + unat (tip b)
       \<and> unat (to_miner b) = unat (base_part b) + unat (input_part b) + unat (output_part b) + unat (tip b))"
proof -
  let ?m = "pressure_multiplier active_slot_count log_slots"
  have parts: "unat (base_part b) = 5000" "unat (input_part b) = 100 * unat n_inputs"
    "unat (output_part b) = 700 * unat n_outputs"
    using assms(1,2) by (simp_all add: assms(3) fee_breakdown_def Let_def fee_consts unat_saturating_mul)
  have "2500 * unat ?m * (unat n_outputs - unat n_inputs) \<le> 2500 * 8 * 4294967296"
    using assms(1,2) unat_multiplier_le [of active_slot_count log_slots] by (intro mult_le_mono) auto
  moreover have "unat (burned b) = min (2500 * unat ?m * (unat n_outputs - unat n_inputs)) (2 ^ 64 - 1)"
    by (simp only: assms(3) fee_breakdown_def Let_def fee_parts.simps unat_saturating_mul
        [of "saturating_mul STATE_GROWTH_FEE_BASE ?m"] unat_per_slot unat_saturating_sub) simp
  ultimately have burn: "unat (burned b) = 2500 * unat ?m * (unat n_outputs - unat n_inputs)"
    and small: "unat (burned b) \<le> 85899345920000"
    by simp_all
  have req: "unat (required_total b)
      = unat (base_part b) + unat (input_part b) + unat (output_part b) + unat (burned b)"
  proof -
    have "required_total b
        = saturating_add (saturating_add (saturating_add (base_part b) (input_part b)) (output_part b)) (burned b)"
      by (simp add: assms(3) fee_breakdown_def Let_def)
    then show ?thesis
      using assms(1,2) small by (simp add: unat_saturating_add parts)
  qed
  have "multiplier b = ?m" "tip b = saturating_sub fee (required_total b)"
    "to_miner b = saturating_sub fee (burned b)"
    by (simp_all add: assms(3) fee_breakdown_def Let_def)
  then show ?thesis
    using req burn by (simp add: unat_saturating_sub word_le_nat_alt)
qed

theorem fee_is_split_without_loss_witness:
  "let b = fee_breakdown 20000 1 3 0 24
   in unat (required_total b) = 12200 \<and> unat (burned b) = 5000 \<and> unat (tip b) = 7800
      \<and> unat (to_miner b) = unat (base_part b) + unat (input_part b) + unat (output_part b) + unat (tip b)"
proof -
  have v: "unat (required_total (fee_breakdown 20000 1 3 0 24)) = 12200"
    "unat (burned (fee_breakdown 20000 1 3 0 24)) = 5000"
    "unat (tip (fee_breakdown 20000 1 3 0 24)) = 7800"
    "required_total (fee_breakdown 20000 1 3 0 24) \<le> 20000"
    by (simp_all add: fee_breakdown_def Let_def fee_consts saturating_sub_def saturating_mul_def
        saturating_add_def pressure_multiplier_def occupancy_bps_def)
  have "unat (to_miner (fee_breakdown 20000 1 3 0 24)) = unat (base_part (fee_breakdown 20000 1 3 0 24))
      + unat (input_part (fee_breakdown 20000 1 3 0 24)) + unat (output_part (fee_breakdown 20000 1 3 0 24))
      + unat (tip (fee_breakdown 20000 1 3 0 24))"
    using fee_is_split_without_loss [of 1 3 _ 20000 0 24] v(4) by simp
  with v show ?thesis by (simp add: Let_def)
qed

text \<open>
  The least burn to the next expansion that the economics page publishes, summed over its
  bands, is the sum over every slot still to be filled of the per-slot fee at the occupancy at
  which that slot is created, for state sizes from 14 to 59 bits.
\<close>
theorem min_burn_is_the_sum_over_slots:
  assumes "14 \<le> unat log_slots" "unat log_slots < 60"
    and "capacity = push_bit (unat log_slots) 1" and "threshold = capacity div 4 * 3"
  shows "sum_list (map (\<lambda>b. unat (burn_micronoid b)) (min_burn_bands active log_slots (pressure_thresholds capacity) threshold))
    = (\<Sum>s = unat active..<unat threshold. unat (state_growth_fee_per_slot (of_nat s) log_slots))"
proof -
  define q where "q = (2 ^ (unat log_slots - 2) :: nat)"
  have c: "2 ^ unat log_slots = 4 * q"
  proof -
    have "unat log_slots = 2 + (unat log_slots - 2)" using assms(1) by simp
    then have "(2 :: nat) ^ unat log_slots = 2 ^ (2 + (unat log_slots - 2))" by (rule arg_cong)
    then show ?thesis by (simp only: q_def power_add) simp
  qed
  have q: "q < 2 ^ 58" "0 < q"
    using power_strict_increasing [of "unat log_slots - 2" 58 "2 :: nat"] assms(2) by (simp_all add: q_def)
  have cap: "unat capacity = 4 * q" using assms by (simp add: c)
  have thr: "unat threshold = 3 * q"
    using q unfolding assms(4) by (subst unat_mult_bound) (simp_all add: unat_div cap)
  define half where "half = (ucast (div_ceil (ucast capacity * ucast (5000 :: u64) :: u128) 10000) :: u64)"
  have half: "unat half = 2 * q"
    using q unfolding half_def by (subst unat_threshold_slots [OF cap]) simp_all
  have "threshold \<le> ucast (div_ceil (ucast capacity * ucast (7500 :: u64) :: u128) 10000)"
    using q unfolding word_le_nat_alt by (subst unat_threshold_slots [OF cap]) (simp_all add: thr)
  moreover have "threshold \<le> ucast (div_ceil (ucast capacity * ucast (9000 :: u64) :: u128) 10000)"
    using q unfolding word_le_nat_alt by (subst unat_threshold_slots [OF cap]) (simp_all add: thr)
  moreover have "half < threshold" using q by (simp add: word_less_nat_alt half thr)
  ultimately have kept: "filter (\<lambda>t. slots t < threshold) (pressure_thresholds capacity)
      = [\<lparr>pct = 50, slots = half, tier_multiplier = 2\<rparr>]"
    unfolding pressure_thresholds_def by (simp add: fee_consts half_def linorder_not_le [symmetric])
  have m: "unat (pressure_multiplier x log_slots) = (if 2 * q \<le> unat x then 2 else 1)" if "unat x < 3 * q" for x
    using assms that by (subst pressure_multiplier_nat) (auto simp: c)
  have prod: "unat (ucast (x :: u64) * ucast (y :: u64) :: u128) = unat x * unat y" for x y
  proof -
    have "unat x * unat y \<le> 18446744073709551615 * 18446744073709551615"
      using unat_u64_max [of x] unat_u64_max [of y] by (intro mult_le_mono) simp_all
    then show ?thesis by (subst unat_mult_bound) (simp_all add: unat_ucast_u128)
  qed
  have "sum_list (map (\<lambda>b. unat (burn_micronoid b)) (min_burn_bands active log_slots (pressure_thresholds capacity) threshold))
      = (2 * q - unat active) * 2500 + (3 * q - max (unat active) (2 * q)) * 5000"
    using q m [of 0] m [of half]
    by (simp add: min_burn_bands_def kept Let_def prod unat_saturating_sub unat_max half thr unat_state_growth_fee)
  also have "\<dots> = (\<Sum>s = unat active..<3 * q. if 2 * q \<le> s then 5000 else 2500)"
    by (rule sum_bands [symmetric])
  also have "\<dots> = (\<Sum>s = unat active..<unat threshold. unat (state_growth_fee_per_slot (of_nat s) log_slots))"
    unfolding thr using q by (intro sum.cong) (auto simp: unat_state_growth_fee m unat_of_nat)
  finally show ?thesis .
qed

theorem min_burn_is_the_sum_over_slots_witness:
  "sum_list (map (\<lambda>b. unat (burn_micronoid b)) (min_burn_bands 12286 14 (pressure_thresholds 16384) 12288))
    = (\<Sum>s = unat (12286 :: u64)..<unat (12288 :: u64). unat (state_growth_fee_per_slot (of_nat s) 14))"
  by (rule min_burn_is_the_sum_over_slots) simp_all

end
