(* ===== verification/Api.thy ===== *)
theory Api
  imports Live_Rpc Query_Spec Fees "HOL-Library.AList"
begin

text \<open>
  The handlers of \<^verbatim>\<open>permanode/src/serve.rs\<close> for blocks, transactions, addresses, lists, miners, the
  mempool and the statistics. A handler is a function of the request, the database as the request finds
  it, the node and the caches it keeps; it answers with a status, a caching policy and a content, and
  the caches it leaves. Clock readings are seconds since the epoch, never negative.
\<close>

section \<open>Responses\<close>

datatype caching = Unstated | No_Cache | One_Hour

datatype 'a api = Answer caching 'a | Not_Found | Bad_Request string | Internal_Error failure

definition cached_json :: "'a \<Rightarrow> bool \<Rightarrow> 'a api" where
  "cached_json content is_final = Answer (if is_final then One_Hour else No_Cache) content"

definition answering :: "'a result \<Rightarrow> ('a \<Rightarrow> 'b api) \<Rightarrow> 'b api" where
  "answering r f = (case r of Inl e \<Rightarrow> Internal_Error e | Inr x \<Rightarrow> f x)"

lemma answering_simps [simp]: "answering (Inl e) f = Internal_Error e" "answering (Inr x) f = f x"
  by (simp_all add: answering_def)

definition FINAL_CONFIRMATIONS :: int where "FINAL_CONFIRMATIONS = 18"

text \<open>\<open>q.limit.unwrap_or(default).clamp(lo, hi)\<close>.\<close>

definition clamped :: "'n::linorder option \<Rightarrow> 'n \<Rightarrow> 'n \<Rightarrow> 'n \<Rightarrow> 'n" where
  "clamped given standard lo hi = max lo (min hi (case given of Some n \<Rightarrow> n | None \<Rightarrow> standard))"

section \<open>Blocks\<close>

definition get_blocks :: "db \<Rightarrow> int option \<Rightarrow> int option \<Rightarrow> block_summary list api" where
  "get_blocks c lim before =
     (let lim = clamped lim 25 1 200;
          found = recent_blocks c lim before;
          complete_page = (int (length found) = lim \<or> (found \<noteq> [] \<and> sm_height (last found) = 0));
          newest_final = (found \<noteq> [] \<and> (case indexed_tip c of
            None \<Rightarrow> False | Some t \<Rightarrow> FINAL_CONFIRMATIONS \<le> wrap (t - sm_height (hd found) + 1)))
      in cached_json found (before \<noteq> None \<and> complete_page \<and> newest_final))"

text \<open>
  The node's header when it reports this very block, else the header in the kept raw bytes; \<open>dims\<close> reads
  the two counts the model's header does not spell out.
\<close>

definition header_figures :: "chain_lib \<Rightarrow> (chain_header \<Rightarrow> u32 \<times> u64) \<Rightarrow> node \<Rightarrow> db \<Rightarrow> u64 \<Rightarrow> string \<Rightarrow> (u32 \<times> u64 \<times> u64) option" where
  "header_figures lib dims rpc c height hash =
     (let held = (case load_raw lib c height hash of
            Inr (Some bytes) \<Rightarrow>
              (case block_from_bytes lib bytes of
                 Inr block \<Rightarrow> (case dims (bk_header block) of (l, a) \<Rightarrow> Some (l, a, ch_alloc_counter (bk_header block)))
               | Inl _ \<Rightarrow> None)
          | _ \<Rightarrow> None)
      in case get_block_header rpc height of
           Inr (Some h) \<Rightarrow> if h_hash h = hash then Some (h_log_slots h, h_active_slot_count h, h_alloc_counter h) else held
         | _ \<Rightarrow> held)"

definition block_response :: "chain_lib \<Rightarrow> (chain_header \<Rightarrow> u32 \<times> u64) \<Rightarrow> node \<Rightarrow> db \<Rightarrow> block_detail option \<Rightarrow> block_detail api" where
  "block_response lib dims rpc c found =
     (case found of
        None \<Rightarrow> Not_Found
      | Some b \<Rightarrow>
          (let figures = header_figures lib dims rpc c (as_u64 (bd_height b)) (bd_hash b);
               shown = (case figures of
                 None \<Rightarrow> b
               | Some (l, a, m) \<Rightarrow> b\<lparr>bd_log_slots := Some l, bd_active_slot_count := Some a, bd_alloc_counter := Some m\<rparr>);
               is_final = (case bd_confirmations b of None \<Rightarrow> False | Some n \<Rightarrow> FINAL_CONFIRMATIONS \<le> n)
           in cached_json shown (is_final \<and> figures \<noteq> None)))"

definition get_block_by_height :: "chain_lib \<Rightarrow> (chain_header \<Rightarrow> u32 \<times> u64) \<Rightarrow> node \<Rightarrow> db \<Rightarrow> int \<Rightarrow> block_detail api" where
  "get_block_by_height lib dims rpc c height =
     (if height < 0 then Not_Found else answering (block_by_height c height) (block_response lib dims rpc c))"

definition get_block_by_hash :: "chain_lib \<Rightarrow> (chain_header \<Rightarrow> u32 \<times> u64) \<Rightarrow> node \<Rightarrow> db \<Rightarrow> string \<Rightarrow> block_detail api" where
  "get_block_by_hash lib dims rpc c hash =
     (if \<not> is_hex64 hash then Not_Found else answering (block_by_hash c hash) (block_response lib dims rpc c))"

section \<open>Transactions\<close>

definition tx_fee_breakdown :: "node \<Rightarrow> tx_detail \<Rightarrow> fee_parts option" where
  "tx_fee_breakdown rpc t =
     (if td_coinbase t \<or> td_development_payout t then None
      else if td_block_height t < 1 \<or> td_fee t < 0 then None
      else case get_block_header rpc (as_u64 (td_block_height t) - 1) of
             Inr (Some header) \<Rightarrow> Some (fee_breakdown (as_u64 (td_fee t)) (of_nat (length (td_inputs t)))
               (of_nat (length (td_outputs t))) (h_active_slot_count header) (h_log_slots header))
           | _ \<Rightarrow> None)"

definition get_tx :: "node \<Rightarrow> db \<Rightarrow> string \<Rightarrow> (tx_detail \<times> fee_parts option) api" where
  "get_tx rpc c txid =
     (if \<not> is_hex64 txid then Not_Found
      else answering (tx_by_txid c txid) (\<lambda>found. case found of
        None \<Rightarrow> Not_Found
      | Some t \<Rightarrow> cached_json (t, tx_fee_breakdown rpc t)
          (td_block_canonical t \<and> (case td_confirmations t of None \<Rightarrow> False | Some n \<Rightarrow> FINAL_CONFIRMATIONS \<le> n))))"

section \<open>Addresses\<close>

definition fetch_live_slots :: "node \<Rightarrow> string \<Rightarrow> slot_info list option" where
  "fetch_live_slots rpc address =
     (case get_slots_by_owner rpc address of
        Inl _ \<Rightarrow> None
      | Inr found \<Rightarrow> Some (sort_desc sl_value (filter (\<lambda>s. \<not> sl_empty s) found)))"

record address_page =
  ap_address :: string
  ap_page :: int
  ap_page_size :: int
  ap_total :: nat
  ap_receipt_transactions :: nat
  ap_transactions :: "tx_summary list"
  ap_balance :: balance_figures
  ap_live_balance :: "string option"
  ap_live_utxo_count :: "u64 option"
  ap_blocks_mined :: mined

definition get_address :: "node \<Rightarrow> db \<Rightarrow> string \<Rightarrow> int option \<Rightarrow> int option \<Rightarrow> address_page api" where
  "get_address rpc c address page_no page_size =
     (if \<not> is_address address then Not_Found
      else let page_no = max (case page_no of Some p \<Rightarrow> p | None \<Rightarrow> 1) 1; page_size = clamped page_size 25 1 200
           in answering (txs_by_address c address page_no page_size) (\<lambda>(items, whole).
              answering (address_balance c address) (\<lambda>figures.
                let live = fetch_live_slots rpc address
                in Answer Unstated
                     \<lparr>ap_address = address, ap_page = page_no, ap_page_size = page_size, ap_total = whole,
                      ap_receipt_transactions = receipt_txs_by_address c address, ap_transactions = items,
                      ap_balance = figures,
                      ap_live_balance = map_option (\<lambda>ss. u64_to_string (sum_list (map sl_value ss))) live,
                      ap_live_utxo_count = map_option (\<lambda>ss. of_nat (length ss)) live,
                      ap_blocks_mined = blocks_mined c address\<rparr>)))"

definition get_address_utxos :: "node \<Rightarrow> string \<Rightarrow> (string \<times> slot_info list option) api" where
  "get_address_utxos rpc address =
     (if \<not> is_address address then Not_Found else Answer Unstated (address, fetch_live_slots rpc address))"

text \<open>The balance history, kept per address and indexed tip. The cache is emptied before it grows past its bound.\<close>

record balance_history =
  bh_address :: string
  bh_tip :: int
  bh_recorded_from :: "int option"
  bh_hourly :: "(int \<times> string) list"

type_synonym balance_cache = "(string \<times> int \<times> balance_history) list"

definition BALANCE_CACHE_MAX :: nat where "BALANCE_CACHE_MAX = 2000"

definition tip_or_0 :: "db \<Rightarrow> int" where
  "tip_or_0 c = (case indexed_tip c of Some t \<Rightarrow> t | None \<Rightarrow> 0)"

definition balance_history_of :: "(string \<Rightarrow> string option) \<Rightarrow> db \<Rightarrow> string \<Rightarrow> balance_history result" where
  "balance_history_of strftime c address =
     and_then (balance_changes_by_hour strftime c address) (\<lambda>changes.
       Inr \<lparr>bh_address = address, bh_tip = tip_or_0 c, bh_recorded_from = recorded_from_timestamp c,
            bh_hourly = map (\<lambda>(h, d). (h, int_to_string d)) changes\<rparr>)"

definition get_address_balance_history :: "(string \<Rightarrow> string option) \<Rightarrow> db \<Rightarrow> string \<Rightarrow> balance_cache
    \<Rightarrow> balance_cache \<times> balance_history api" where
  "get_address_balance_history strftime c address cache =
     (if \<not> is_address address then (cache, Not_Found)
      else let current = tip_or_0 c;
               fresh = (case balance_history_of strftime c address of
                 Inl e \<Rightarrow> (cache, Internal_Error e)
               | Inr v \<Rightarrow> (AList.update address (current, v) (if BALANCE_CACHE_MAX \<le> length cache then [] else cache),
                           Answer Unstated v))
           in case map_of cache address of
                Some (t, v) \<Rightarrow> if t = current then (cache, Answer Unstated v) else fresh
              | None \<Rightarrow> fresh)"

section \<open>Lists\<close>

definition RICHLIST_MAX :: int where "RICHLIST_MAX = 10000"

definition get_gaps :: "db \<Rightarrow> gap_row list api" where
  "get_gaps c = Answer Unstated (recent_gaps c 100)"

definition get_orphans :: "db \<Rightarrow> int option \<Rightarrow> orphaned_block list api" where
  "get_orphans c lim = Answer Unstated (orphaned_blocks c (case lim of Some n \<Rightarrow> n | None \<Rightarrow> 100))"

definition get_richlist :: "db \<Rightarrow> int option \<Rightarrow> balance_row list api" where
  "get_richlist c lim = Answer Unstated (richlist c (clamped lim 100 1 RICHLIST_MAX))"

section \<open>Miners\<close>

definition MINERS_MAX :: nat where "MINERS_MAX = 1000"

definition miners_period :: "string option \<Rightarrow> (string \<times> int option) option" where
  "miners_period given =
     (let period = (case given of Some p \<Rightarrow> p | None \<Rightarrow> ''all'')
      in if period = ''all'' then Some (''all'', None)
         else if period = ''7d'' then Some (''7d'', Some (7 * 86400))
         else if period = ''24h'' then Some (''24h'', Some 86400)
         else None)"

text \<open>An entry: the indexed tip and the lowest block on record it was made at, the time, and the report.\<close>

type_synonym miners_entry = "(int \<times> u64 option) \<times> int \<times> miners_report"

definition cached_miners :: "int option \<Rightarrow> db \<Rightarrow> int \<Rightarrow> miners_entry option \<Rightarrow> miners_entry option \<times> miners_report" where
  "cached_miners seconds c now entry =
     (let key = (tip_or_0 c, lowest_recorded_height c);
          report = miners c (map_option (\<lambda>s. now - s) seconds) MINERS_MAX;
          fresh = (Some (key, now, report), report)
      in case entry of
           Some (k, at, held) \<Rightarrow> if k = key \<and> now - at < 60 then (entry, held) else fresh
         | None \<Rightarrow> fresh)"

definition get_miners :: "db \<Rightarrow> int \<Rightarrow> string option \<Rightarrow> nat option \<Rightarrow> (string \<rightharpoonup> miners_entry)
    \<Rightarrow> (string \<rightharpoonup> miners_entry) \<times> (string \<times> miners_report) api" where
  "get_miners c now period lim cache =
     (case miners_period period of
        None \<Rightarrow> (cache, Bad_Request ''period must be all, 7d or 24h'')
      | Some (name, seconds) \<Rightarrow>
          (case cached_miners seconds c now (cache name) of
             (entry, report) \<Rightarrow>
               (cache(name := entry),
                cached_json (name, report\<lparr>mr_miners := take (clamped lim 100 1 MINERS_MAX) (mr_miners report)\<rparr>) False)))"

section \<open>The mempool\<close>

text \<open>
  Whether a pending transaction is a contract call: as known, else as the node says; when the node cannot
  be asked the transaction is shown as it came and asked for again next time.
\<close>

definition contract_of :: "(string \<Rightarrow> mempool_entry option result) \<Rightarrow> (string \<rightharpoonup> bool) \<Rightarrow> string \<Rightarrow> bool option" where
  "contract_of ask memo hash =
     (case memo hash of
        Some b \<Rightarrow> Some b
      | None \<Rightarrow> (case ask hash of
          Inl _ \<Rightarrow> None
        | Inr None \<Rightarrow> Some False
        | Inr (Some e) \<Rightarrow> Some (pe_contract_opening e \<noteq> None)))"

fun mark_contracts :: "(string \<Rightarrow> mempool_entry option result) \<Rightarrow> (string \<rightharpoonup> bool) \<Rightarrow> mempool_tx list \<Rightarrow> (string \<rightharpoonup> bool)
    \<Rightarrow> mempool_tx list \<times> (string \<rightharpoonup> bool)" where
  "mark_contracts ask memo [] now = ([], now)"
| "mark_contracts ask memo (tx # txs) now =
     (case contract_of ask memo (mp_tx_hash tx) of
        None \<Rightarrow> (case mark_contracts ask memo txs now of (rest, now) \<Rightarrow> (tx # rest, now))
      | Some b \<Rightarrow> (case mark_contracts ask memo txs (now(mp_tx_hash tx \<mapsto> b)) of
          (rest, now) \<Rightarrow> (tx\<lparr>mp_contract := b\<rparr> # rest, now)))"

definition get_mempool :: "live_node \<Rightarrow> (string \<rightharpoonup> bool) \<Rightarrow> (string \<rightharpoonup> bool) \<times> mempool_info api" where
  "get_mempool net memo =
     (case ln_mempool_info net of
        Inl e \<Rightarrow> (memo, Internal_Error e)
      | Inr info \<Rightarrow>
          (case mark_contracts (ln_mempool_entry net) memo (mo_txs info) Map.empty of
             (txs, now) \<Rightarrow> (now, Answer Unstated (info\<lparr>mo_txs := txs\<rparr>))))"

section \<open>Statistics\<close>

definition CHAIN_STATS_MAX_AGE_SECONDS :: int where "CHAIN_STATS_MAX_AGE_SECONDS = 30"

definition cached_chain_stats :: "db \<Rightarrow> int \<Rightarrow> (int \<times> int \<times> chain_figures) option
    \<Rightarrow> (int \<times> int \<times> chain_figures) option \<times> chain_figures" where
  "cached_chain_stats c now cache =
     (let current = tip_or_0 c;
          fresh = (Some (current, now, chain_stats c now), chain_stats c now)
      in case cache of
           Some (h, at, held) \<Rightarrow> if h = current \<and> now - at < CHAIN_STATS_MAX_AGE_SECONDS then (cache, held) else fresh
         | None \<Rightarrow> fresh)"
text \<open>What \<^verbatim>\<open>str::parse::<u128>\<close> reads, and the size of the database with its write-ahead log.\<close>

definition parse_u128 :: "string \<Rightarrow> u128 option" where
  "parse_u128 s =
     (let ds = (case s of ch # rest \<Rightarrow> if ch = CHR ''+'' then rest else s | [] \<Rightarrow> [])
      in if ds \<noteq> [] \<and> list_all is_digit ds \<and> digits_value ds < 2 ^ 128 then Some (of_nat (digits_value ds)) else None)"

definition u128_to_string :: "u128 \<Rightarrow> string" where
  "u128_to_string n = decimal (unat n)"

definition supply_of :: "string \<Rightarrow> u128" where
  "supply_of text = (case parse_u128 text of Some n \<Rightarrow> n | None \<Rightarrow> 0)"

definition db_size_bytes :: "u64 option \<Rightarrow> u64 option \<Rightarrow> u64 option" where
  "db_size_bytes main wal = map_option (\<lambda>m. m + (case wal of Some w \<Rightarrow> w | None \<Rightarrow> 0)) main"

record network_metrics =
  nm_active_slots :: "u64 option"
  nm_circulating_supply :: "string option"
  nm_block_reward :: "u64 option"
  nm_difficulty_bits :: "u32 option"
  nm_difficulty_target :: "string option"
  nm_expected_hashes :: "nat option"
  nm_avg_block_time_10m :: "(int \<times> int) option"
  nm_avg_block_time_1h :: "(int \<times> int) option"
  nm_avg_block_time_24h :: "(int \<times> int) option"
  nm_state_capacity :: "u64 option"
  nm_slots_until_halving :: "u64 option"
  nm_halving_trigger_pct :: "u64 option"
  nm_emitted_total :: "string option"
  nm_burned_total :: "string option"

record server_settings =
  st_balance_sweep_interval :: "u64 option"
  st_address_refresh_interval :: u64
  st_donation_address :: "string option"

record stats_response =
  sr_chain :: chain_figures
  sr_network :: network_metrics
  sr_settings :: server_settings
  sr_db_bytes :: "u64 option"
  sr_protocol :: "protocol_info option"

definition ok_of :: "'a result \<Rightarrow> 'a option" where
  "ok_of r = (case r of Inl e \<Rightarrow> None | Inr x \<Rightarrow> Some x)"

definition protocol_at :: "node \<Rightarrow> u64 \<Rightarrow> protocol_info option" where
  "protocol_at rpc height =
     (case get_block_header rpc height of Inr (Some h) \<Rightarrow> Some (protocol_info height (h_timestamp h)) | _ \<Rightarrow> None)"

definition get_stats :: "server_settings \<Rightarrow> live_node \<Rightarrow> u64 option \<Rightarrow> u64 option \<Rightarrow> db \<Rightarrow> int
    \<Rightarrow> (int \<times> int \<times> chain_figures) option \<Rightarrow> expansion_cache
    \<Rightarrow> (int \<times> int \<times> chain_figures) option \<times> expansion_cache \<times> stats_response api" where
  "get_stats settings net main wal c now stats_cache exp_cache =
     (case cached_chain_stats c now stats_cache of (stats_cache, chain_now) \<Rightarrow>
        (let chain = ok_of (ln_chain_info net);
             mining = ok_of (ln_mining_info net);
             dimensions = ok_of (ln_state_info net);
             expanded = (case chain of
               None \<Rightarrow> (exp_cache, None)
             | Some i \<Rightarrow> expansion_heights (ln_rpc net) exp_cache (cn_log_slots i) (cn_height i));
             issued = (case (chain, snd expanded) of
               (Some i, Some exp) \<Rightarrow> Some (emitted_up_to (cn_height i) exp, supply_of (cn_circulating_supply i))
             | _ \<Rightarrow> None)
         in (stats_cache, fst expanded, Answer Unstated
              \<lparr>sr_chain = chain_now,
               sr_network =
                 \<lparr>nm_active_slots = ok_of (ln_active_slot_count net),
                  nm_circulating_supply = map_option cn_circulating_supply chain,
                  nm_block_reward = map_option mi_block_reward mining,
                  nm_difficulty_bits = map_option mi_difficulty_bits mining,
                  nm_difficulty_target = map_option mi_difficulty_target mining,
                  nm_expected_hashes = Option.bind mining (\<lambda>m. expected_hashes (mi_difficulty_target m)),
                  nm_avg_block_time_10m = avg_block_time_seconds c 600 now,
                  nm_avg_block_time_1h = avg_block_time_seconds c 3600 now,
                  nm_avg_block_time_24h = avg_block_time_seconds c 86400 now,
                  nm_state_capacity = map_option si_capacity dimensions,
                  nm_slots_until_halving = map_option si_slots_until_expand dimensions,
                  nm_halving_trigger_pct = map_option si_expand_trigger_pct dimensions,
                  nm_emitted_total = map_option (\<lambda>(emitted, supply). u128_to_string emitted) issued,
                  nm_burned_total = map_option (\<lambda>(emitted, supply). u128_to_string (saturating_sub emitted supply)) issued\<rparr>,
               sr_settings = settings,
               sr_db_bytes = db_size_bytes main wal,
               sr_protocol = Option.bind chain (\<lambda>i. protocol_at (ln_rpc net) (cn_height i))\<rparr>)))"

end
