(* ===== verification/Economics.thy ===== *)
theory Economics
  imports Api
begin

text \<open>
  The halving and the economics page of \<^verbatim>\<open>permanode/src/serve.rs\<close>: what both take from the node's chain and
  state information and the cached charts, the history of burned fees walked backwards from the tip
  through the recorded blocks with its estimate before the records begin, and the activity of the last
  day, week and month with its cache. \<open>None\<close> is a walk over the headers that does not end.
\<close>

record chart_caches =
  cc_expansions :: expansion_cache
  cc_window :: "(u64 \<times> window_header list) option"
  cc_history :: state_history

text \<open>\<open>1u64 << log_slots\<close>: a release build masks the distance.\<close>

definition capacity_of :: "u32 \<Rightarrow> u64" where
  "capacity_of log_slots = push_bit (unat (and log_slots 63)) 1"

definition expansion_threshold_of :: "u64 \<Rightarrow> u64" where
  "expansion_threshold_of capacity = capacity div 4 * 3"

definition timestamp_or_0 :: "block_header_info option \<Rightarrow> u64" where
  "timestamp_or_0 h = (case h of None \<Rightarrow> 0 | Some h \<Rightarrow> h_timestamp h)"

section \<open>The halving page\<close>

record halving_response =
  hr_tip :: u64
  hr_log_slots :: u32
  hr_capacity :: u64
  hr_active_slots :: u64
  hr_threshold :: u64
  hr_trigger_pct :: u64
  hr_window_size :: u64
  hr_window_required :: u64
  hr_window :: "window_header list"
  hr_history_step :: u64
  hr_history :: "(u64 \<times> u64) list"
  hr_block_reward :: u64
  hr_multiplier :: u64
  hr_burn_per_new_slot :: u64
  hr_pressure_thresholds :: "pressure_threshold list"
  hr_protocol :: protocol_info
  hr_v2 :: v2_schedule

definition growth_curve :: "header_sample list \<Rightarrow> u64 \<Rightarrow> u64 \<Rightarrow> (u64 \<times> u64) list" where
  "growth_curve samples best live_now =
     (let points = map (\<lambda>p. (hs_height p, hs_active_slot_count p)) samples
      in if points = [] \<or> fst (last points) \<noteq> best then points @ [(best, live_now)] else points)"

definition halving_of :: "chain_info \<Rightarrow> state_info \<Rightarrow> u64 \<Rightarrow> u64 list \<Rightarrow> window_header list \<Rightarrow> u64 \<Rightarrow> header_sample list \<Rightarrow> halving_response" where
  "halving_of chain info at exps window step samples =
     (let best = cn_height chain; l = cn_log_slots chain; live_now = cn_active_slot_count chain
      in \<lparr>hr_tip = best, hr_log_slots = l, hr_capacity = capacity_of l, hr_active_slots = live_now,
          hr_threshold = expansion_threshold_of (capacity_of l), hr_trigger_pct = si_expand_trigger_pct info,
          hr_window_size = EXPANSION_WINDOW, hr_window_required = EXPANSION_WINDOW div 2 + 1, hr_window = window,
          hr_history_step = step, hr_history = growth_curve samples best live_now,
          hr_block_reward = block_reward_at (best + 1) l, hr_multiplier = pressure_multiplier live_now l,
          hr_burn_per_new_slot = state_growth_fee_per_slot live_now l,
          hr_pressure_thresholds = pressure_thresholds (capacity_of l),
          hr_protocol = protocol_info best at, hr_v2 = v2_schedule_of best at exps\<rparr>)"

definition get_halving :: "live_node \<Rightarrow> chart_caches \<Rightarrow> (chart_caches \<times> halving_response api) option" where
  "get_halving net cc =
     (case ln_chain_info net of Inl e \<Rightarrow> Some (cc, Internal_Error e) | Inr chain \<Rightarrow>
     (case ln_state_info net of Inl e \<Rightarrow> Some (cc, Internal_Error e) | Inr info \<Rightarrow>
     (case get_block_header (ln_rpc net) (cn_height chain) of Inl e \<Rightarrow> Some (cc, Internal_Error e) | Inr h \<Rightarrow>
     (case expansion_heights (ln_rpc net) (cc_expansions cc) (cn_log_slots chain) (cn_height chain) of (ec, exp) \<Rightarrow>
     (case finalized_window (ln_rpc net) (cc_window cc) (cn_height chain) (capacity_of (cn_log_slots chain)) of
        (wc, Inl e) \<Rightarrow> Some (cc\<lparr>cc_expansions := ec, cc_window := wc\<rparr>, Internal_Error e)
      | (wc, Inr window) \<Rightarrow>
          map_option (\<lambda>(hc, sampled). (cc\<lparr>cc_expansions := ec, cc_window := wc, cc_history := hc\<rparr>,
              answering sampled (\<lambda>(step, samples). Answer Unstated
                (halving_of chain info (timestamp_or_0 h) (case exp of Some x \<Rightarrow> x | None \<Rightarrow> []) window step samples))))
            (sampled_state_history (ln_rpc net) (cc_history cc) (cn_height chain)))))))"

section \<open>Activity of the periods\<close>

record period_activity =
  pa_label :: string
  pa_seconds :: int
  pa_activity :: activity

definition periods_of :: "db \<Rightarrow> int \<Rightarrow> period_activity list" where
  "periods_of c now =
     map (\<lambda>(name, seconds). \<lparr>pa_label = name, pa_seconds = seconds, pa_activity = state_activity c (now - seconds)\<rparr>)
       [(''24h'', 86400), (''7d'', 7 * 86400), (''30d'', 30 * 86400)]"

definition cached_periods :: "db \<Rightarrow> int \<Rightarrow> (int \<times> int \<times> period_activity list) option
    \<Rightarrow> (int \<times> int \<times> period_activity list) option \<times> period_activity list" where
  "cached_periods c now cache =
     (let current = tip_or_0 c;
          fresh = (Some (current, now, periods_of c now), periods_of c now)
      in case cache of
           Some (h, at, held) \<Rightarrow> if h = current \<and> now - at < 60 then (cache, held) else fresh
         | None \<Rightarrow> fresh)"

section \<open>The history of burned fees\<close>

record economics_point =
  ep_height :: u64
  ep_issued :: string
  ep_burned :: "string option"
  ep_estimate :: "string option"

text \<open>
  \<open>while idx > 0 && burn_by_block[idx - 1].0 > height\<close>: the recorded blocks above the height are taken
  off what is left of the burn.
\<close>

fun take_off :: "(u64 \<times> u128) list \<Rightarrow> u64 \<Rightarrow> nat \<Rightarrow> u128 \<Rightarrow> nat \<times> u128" where
  "take_off burns height 0 remaining = (0, remaining)"
| "take_off burns height (Suc i) remaining =
     (if fst (burns ! i) > height then take_off burns height i (saturating_sub remaining (snd (burns ! i)))
      else (Suc i, remaining))"

definition on_record_at :: "(u64 \<times> u128) list \<Rightarrow> u64 \<Rightarrow> u64 \<Rightarrow> bool" where
  "on_record_at burns best height =
     ((case burns of [] \<Rightarrow> False | (f, _) # _ \<Rightarrow> f \<le> height) \<or> height = best)"

fun burn_points :: "(u64 \<times> u128) list \<Rightarrow> u64 \<Rightarrow> u64 list \<Rightarrow> header_sample list \<Rightarrow> nat \<Rightarrow> u128 \<Rightarrow> economics_point list" where
  "burn_points burns best exps [] i remaining = []"
| "burn_points burns best exps (s # ss) i remaining =
     (case take_off burns (hs_height s) i remaining of
        (i, remaining) \<Rightarrow>
          \<lparr>ep_height = hs_height s, ep_issued = u128_to_string (emitted_up_to (hs_height s) exps),
           ep_burned = (if on_record_at burns best (hs_height s) then Some (u128_to_string remaining) else None),
           ep_estimate = None\<rparr>
          # burn_points burns best exps ss i remaining)"

definition measured_history :: "(u64 \<times> u128) list \<Rightarrow> u64 \<Rightarrow> u64 list \<Rightarrow> header_sample list \<Rightarrow> u128 \<Rightarrow> economics_point list" where
  "measured_history burns best exps samples total_burn =
     rev (burn_points burns best exps (rev samples) (length burns) total_burn)"

text \<open>The estimate before the records begin, scaled with the headers' mint counter to meet the first measured value.\<close>

definition estimate_at :: "u128 \<Rightarrow> u64 \<Rightarrow> header_sample \<Rightarrow> u128" where
  "estimate_at anchor_burn anchor_mints s =
     (if 0 < anchor_mints then anchor_burn * ucast (user_mints s) div ucast anchor_mints else 0)"

definition with_estimates :: "header_sample list \<Rightarrow> economics_point list \<Rightarrow> economics_point list" where
  "with_estimates samples history =
     (let a = length (takeWhile (\<lambda>p. ep_burned p = None) history)
      in if a < length history
         then let anchor_burn = supply_of (case ep_burned (history ! a) of Some b \<Rightarrow> b | None \<Rightarrow> []);
                  anchor_mints = user_mints (samples ! a)
              in map (\<lambda>i. let p = history ! i in
                   if i < a then p\<lparr>ep_estimate := Some (u128_to_string (estimate_at anchor_burn anchor_mints (samples ! i)))\<rparr>
                   else if i = a then p\<lparr>ep_estimate := Some (u128_to_string anchor_burn)\<rparr>
                   else p) [0..<length history]
         else history)"

section \<open>The economics page\<close>

record development_page =
  dp_end_height :: u64
  dp_v2_end_height :: u64
  dp_legacy_end_height :: u64
  dp_payout_interval :: u64
  dp_active :: bool
  dp_next_payout_height :: "u64 option"
  dp_payout_per_fund :: u64
  dp_last_legacy_payout_height :: u64
  dp_first_v2_payout_height :: u64
  dp_final_partial_blocks :: u64
  dp_cumulative_miner :: string
  dp_cumulative_per_fund :: string

definition development_page_of :: "u64 \<Rightarrow> u32 \<Rightarrow> emission_split \<Rightarrow> development_page" where
  "development_page_of best log_slots split =
     (let next_payout = next_development_payout_height best
      in \<lparr>dp_end_height = (if v2_active (best + 1) then DEVELOPMENT_ALLOCATION_END_HEIGHT else LEGACY_DEVELOPMENT_ALLOCATION_END_HEIGHT),
          dp_v2_end_height = DEVELOPMENT_ALLOCATION_END_HEIGHT,
          dp_legacy_end_height = LEGACY_DEVELOPMENT_ALLOCATION_END_HEIGHT,
          dp_payout_interval = (case next_payout of
             Some h \<Rightarrow> if v2_active h then V2_BLOCKS_PER_DAY else BLOCKS_PER_DAY | None \<Rightarrow> BLOCKS_PER_DAY),
          dp_active = development_allocation_active (best + 1),
          dp_next_payout_height = next_payout,
          dp_payout_per_fund = (case next_payout of None \<Rightarrow> 0 | Some h \<Rightarrow> development_payout h log_slots div 2),
          dp_last_legacy_payout_height = (V2_ACTIVATION_HEIGHT - 1) div BLOCKS_PER_DAY * BLOCKS_PER_DAY,
          dp_first_v2_payout_height = V2_ACTIVATION_HEIGHT - 1 + V2_BLOCKS_PER_DAY,
          dp_final_partial_blocks = (DEVELOPMENT_ALLOCATION_END_HEIGHT - (V2_ACTIVATION_HEIGHT - 1)) mod V2_BLOCKS_PER_DAY,
          dp_cumulative_miner = u128_to_string (miner split),
          dp_cumulative_per_fund = u128_to_string (development split div 2)\<rparr>)"

record economics_response =
  er_tip :: u64
  er_log_slots :: u32
  er_capacity :: u64
  er_active_slots :: u64
  er_occupancy_bps :: u64
  er_multiplier :: u64
  er_burn_per_new_slot :: u64
  er_block_reward :: u64
  er_next_block_reward :: u64
  er_threshold :: u64
  er_trigger_pct :: u64
  er_pressure_thresholds :: "pressure_threshold list"
  er_window_size :: u64
  er_window_required :: u64
  er_window_qualifying :: u64
  er_total_issued :: string
  er_total_burned :: string
  er_net_supply :: string
  er_blocks_per_year :: u64
  er_annualized_issuance :: string
  er_development :: development_page
  er_protocol :: protocol_info
  er_v2 :: v2_schedule
  er_history_step :: u64
  er_history :: "economics_point list"
  er_periods :: "period_activity list"
  er_min_burn_to_expansion :: string
  er_min_burn_bands :: "burn_band list"

definition economics_of :: "chain_info \<Rightarrow> state_info \<Rightarrow> u64 \<Rightarrow> u64 list \<Rightarrow> window_header list \<Rightarrow> u64 \<Rightarrow> header_sample list
    \<Rightarrow> (u64 \<times> u128) list \<Rightarrow> period_activity list \<Rightarrow> economics_response" where
  "economics_of chain info at exps window step samples burns periods =
     (let best = cn_height chain; l = cn_log_slots chain; live_now = cn_active_slot_count chain;
          capacity = capacity_of l;
          split = emitted_split_up_to best exps;
          issued = miner split + development split;
          supply = supply_of (cn_circulating_supply chain);
          total_burn = saturating_sub issued supply;
          reward = block_reward_at (best + 1) l;
          per_year = 365 * 86400 div block_time_at (best + 1);
          samples = (if samples = [] \<or> hs_height (last samples) \<noteq> best
            then samples @ [\<lparr>hs_height = best, hs_active_slot_count = live_now, hs_alloc_counter = 0\<rparr>] else samples);
          bands = min_burn_bands live_now l (pressure_thresholds capacity) (expansion_threshold_of capacity)
      in \<lparr>er_tip = best, er_log_slots = l, er_capacity = capacity, er_active_slots = live_now,
          er_occupancy_bps = occupancy_bps live_now l, er_multiplier = pressure_multiplier live_now l,
          er_burn_per_new_slot = state_growth_fee_per_slot live_now l, er_block_reward = reward,
          er_next_block_reward = next_step_reward (best + 1) l, er_threshold = expansion_threshold_of capacity,
          er_trigger_pct = si_expand_trigger_pct info, er_pressure_thresholds = pressure_thresholds capacity,
          er_window_size = EXPANSION_WINDOW, er_window_required = EXPANSION_WINDOW div 2 + 1,
          er_window_qualifying = of_nat (length (filter wh_qualifies window)),
          er_total_issued = u128_to_string issued, er_total_burned = u128_to_string total_burn,
          er_net_supply = u128_to_string supply, er_blocks_per_year = per_year,
          er_annualized_issuance = u128_to_string (ucast reward * ucast per_year),
          er_development = development_page_of best l split, er_protocol = protocol_info best at,
          er_v2 = v2_schedule_of best at exps, er_history_step = step,
          er_history = with_estimates samples (measured_history burns best exps samples total_burn),
          er_periods = periods,
          er_min_burn_to_expansion = u128_to_string (sum_list (map burn_micronoid bands)), er_min_burn_bands = bands\<rparr>)"

definition get_economics :: "live_node \<Rightarrow> db \<Rightarrow> int \<Rightarrow> (int \<times> int \<times> period_activity list) option \<Rightarrow> chart_caches
    \<Rightarrow> ((int \<times> int \<times> period_activity list) option \<times> chart_caches \<times> economics_response api) option" where
  "get_economics net c now periods_cache cc =
     (case cached_periods c now periods_cache of (pc, periods) \<Rightarrow>
     (case ln_chain_info net of Inl e \<Rightarrow> Some (pc, cc, Internal_Error e) | Inr chain \<Rightarrow>
     (case ln_state_info net of Inl e \<Rightarrow> Some (pc, cc, Internal_Error e) | Inr info \<Rightarrow>
     (case expansion_heights (ln_rpc net) (cc_expansions cc) (cn_log_slots chain) (cn_height chain) of (ec, exp) \<Rightarrow>
     (case get_block_header (ln_rpc net) (cn_height chain) of
        Inl e \<Rightarrow> Some (pc, cc\<lparr>cc_expansions := ec\<rparr>, Internal_Error e) | Inr h \<Rightarrow>
     (case finalized_window (ln_rpc net) (cc_window cc) (cn_height chain) (capacity_of (cn_log_slots chain)) of
        (wc, Inl e) \<Rightarrow> Some (pc, cc\<lparr>cc_expansions := ec, cc_window := wc\<rparr>, Internal_Error e)
      | (wc, Inr window) \<Rightarrow>
          map_option (\<lambda>(hc, sampled). (pc, cc\<lparr>cc_expansions := ec, cc_window := wc, cc_history := hc\<rparr>,
              answering sampled (\<lambda>(step, samples). Answer Unstated
                (economics_of chain info (timestamp_or_0 h) (case exp of Some x \<Rightarrow> x | None \<Rightarrow> []) window step samples
                  (burn_by_block c) periods))))
            (sampled_state_history (ln_rpc net) (cc_history cc) (cn_height chain))))))))"

end
