(* ===== verification/Cycle.thy ===== *)
theory Cycle
  imports Archive_View
begin

text \<open>
  A whole poll cycle: wherever it stops, and whatever the node answers that serves no details of a block held
  as a bare header, the invariant holds, evidence is only added, and the cursor never passes a height without
  a block on record.
\<close>

section \<open>Every step keeps the contract\<close>

text \<open>The node does not report a header-only block of this archive as a block with details.\<close>

definition above_headers :: "node \<Rightarrow> db \<Rightarrow> bool" where
  "above_headers rpc c = (\<forall>h d. get_block_details rpc h = Inr (Some d) \<longrightarrow> no_header_only c (d_header d))"

lemma above_headers_step: "above_headers rpc c \<Longrightarrow> step_ok c c' \<Longrightarrow> above_headers rpc c'"
  by (auto simp: above_headers_def intro: step_ok_no_header)

lemma selfcheck_ok: "wf_db c \<Longrightarrow> step_ok c (selfcheck lib c height details raw)"
  using b_set_state.ok [of c "(k, v)" for k v]
  by (auto simp: selfcheck_def increment_mismatch_counter_def Let_def step_ok_refl split: sum.splits)

lemma ingest_ok:
  assumes wf: "wf_db c" and up: "above_headers rpc c" and r: "ingest_height lib c rpc cfg height now = Inr (c', x)"
  shows "step_ok c c'"
proof (cases "get_block_details rpc height")
  case (Inr answer)
  show ?thesis
  proof (cases answer)
    case None
    then show ?thesis using r Inr wf by (simp add: ingest_height_def step_ok_refl)
  next
    case (Some d)
    have nh: "no_header_only c (d_header d)" using up Inr Some by (simp add: above_headers_def)
    show ?thesis
    proof (cases "resolve_body lib rpc cfg d ''body already pruned by node on first ingest attempt''")
      case (Store d' src raw)
      obtain raw' c1 where c1: "store_with_extras lib c cfg height d' src raw' now = Inr c1"
        and c': "c' = (if src = ''getblock'' then c1 else if decoder_selfcheck cfg
            then (case raw' of Some bytes \<Rightarrow> selfcheck lib c1 height d' bytes | None \<Rightarrow> c1) else c1)"
        by (rule ingest_store [OF r Inr [unfolded Some] Store])
      have s: "step_ok c c1" using store_with_extras_ok [OF wf _ _ c1] nh resolve_body_header(1) [OF Store] by simp
      have "step_ok c1 c'"
        using selfcheck_ok [OF step_ok_wf [OF s]] step_ok_refl [OF step_ok_wf [OF s]] by (auto simp: c' split: option.splits)
      with s show ?thesis by (rule step_ok_trans)
    next
      case (Gap d' reason)
      then show ?thesis
        using nh b_record_gap_block.ok [OF wf, of "(d, reason, now)"] ingest_gap [OF r Inr [unfolded Some] Gap] by simp
    qed
  qed
qed (use r in \<open>simp add: ingest_height_def\<close>)

lemma backfill_ok: assumes "wf_db c" shows "step_ok c (backfill_gap lib c rpc cfg height now)"
proof -
  have "step_ok c (resolve_gap
      (keep_raw lib (record_contract_flags lib (mark_body_recovered (insert_transactions c bid retained) bid ''getblock'') height hash raw)
        cfg height hash raw ''node'' now) height now m)"
    if "uncaptured_block_id c height hash = Some bid" for bid hash retained raw m
  proof -
    have ab: "archived_block c bid" by (rule uncaptured_archived [OF that])
    let ?c1 = "insert_transactions c bid retained"
    let ?c2 = "mark_body_recovered ?c1 bid ''getblock''"
    let ?c3 = "record_contract_flags lib ?c2 height hash raw"
    let ?c4 = "keep_raw lib ?c3 cfg height hash raw ''node'' now"
    have s1: "step_ok c ?c1" using b_insert_transactions.ok [OF assms, of "(bid, retained)"] ab by simp
    have ab1: "archived_block ?c1 bid" using ab by (simp add: archived_block_def)
    have s2: "step_ok ?c1 ?c2"
      using b_mark_body_recovered.ok [OF step_ok_wf [OF s1], of "(bid, ''getblock'')"] ab1 by (simp add: HEADER_ONLY_SOURCE_def)
    have s3: "step_ok ?c2 ?c3" using b_record_contract_flags.ok [OF step_ok_wf [OF s2], of "(lib, height, hash, raw)"] by simp
    have s4: "step_ok ?c3 ?c4" using b_keep_raw.ok [OF step_ok_wf [OF s3], of "(lib, cfg, height, hash, raw, ''node'', now)"] by simp
    have "step_ok ?c4 (resolve_gap ?c4 height now m)" using b_resolve_gap.ok [OF step_ok_wf [OF s4], of "(height, now, m)"] by simp
    with s1 s2 s3 s4 show ?thesis by (blast intro: step_ok_trans)
  qed
  then show ?thesis
    using assms by (auto simp: backfill_gap_def step_ok_refl split: option.splits fallback_outcome.splits)
qed

lemma foldl_step_ok:
  assumes "\<And>c x. wf_db c \<Longrightarrow> step_ok c (f c x)"
  shows "wf_db c \<Longrightarrow> step_ok c (foldl f c xs)"
proof (induction xs arbitrary: c)
  case (Cons x xs)
  note s = assms [OF Cons.prems, of x]
  from step_ok_trans [OF s Cons.IH [OF step_ok_wf [OF s]]] show ?case by simp
qed (simp add: step_ok_refl)

lemma backfill_phase_ok: "wf_db c \<Longrightarrow> step_ok c (backfill_phase lib rpc cfg clk tip c)"
  by (auto simp: backfill_phase_def step_ok_refl intro: foldl_step_ok backfill_ok)

lemma keep_raw_ok: "wf_db c \<Longrightarrow> step_ok c (keep_raw lib c cfg height hash raw src now)"
  using b_keep_raw.ok [of c "(lib, cfg, height, hash, raw, src, now)"] by simp

lemma raw_phase_ok: "wf_db c \<Longrightarrow> step_ok c (raw_phase lib rpc cfg clk tip c)"
  unfolding raw_phase_def
  by (auto simp: step_ok_refl keep_raw_ok intro!: foldl_step_ok split: option.splits)

lemma ingest_loop_ok:
  "wf_db c \<Longrightarrow> above_headers rpc c \<Longrightarrow> step_ok c (fst (ingest_loop lib rpc cfg clk hs c))"
proof (induction hs arbitrary: c)
  case (Cons h hs)
  show ?case
  proof (cases "ingest_height lib c rpc cfg h (ingest_at clk h)")
    case (Inr r)
    obtain c1 x where r: "r = (c1, x)" by (cases r)
    have s: "step_ok c c1" using ingest_ok [OF Cons.prems Inr [unfolded r]] .
    let ?c2 = "set_state c1 LAST_PROCESSED (u64_to_string h)"
    have "step_ok c1 ?c2" using b_set_state.ok [OF step_ok_wf [OF s], of "(LAST_PROCESSED, u64_to_string h)"] by simp
    with s have s2: "step_ok c ?c2" by (rule step_ok_trans)
    from step_ok_trans [OF s2 Cons.IH [OF step_ok_wf [OF s2] above_headers_step [OF Cons.prems(2) s2]]] s Inr r
    show ?thesis by (cases x) simp_all
  qed (simp add: step_ok_refl Cons.prems)
qed (simp add: step_ok_refl)

lemma recheck_loop_ok:
  "wf_db c \<Longrightarrow> above_headers rpc c \<Longrightarrow> step_ok c (fst (recheck_loop lib rpc cfg clk hs c))"
proof (induction hs arbitrary: c)
  case (Cons h hs)
  show ?case
  proof (cases "recheck_height lib c rpc cfg h (orphan_at clk h) (replace_at clk h)")
    case (Inr c1)
    have s: "step_ok c c1" using recheck_ok [OF Cons.prems(1) Inr] Cons.prems(2) by (simp add: above_headers_def)
    from step_ok_trans [OF s Cons.IH [OF step_ok_wf [OF s] above_headers_step [OF Cons.prems(2) s]]] Inr
    show ?thesis by simp
  qed (simp add: step_ok_refl Cons.prems)
qed (simp add: step_ok_refl)

lemma poll_once_ok:
  assumes wf: "wf_db c" and up: "above_headers rpc c"
  shows "step_ok c (fst (poll_once lib c rpc cfg clk))"
proof (cases "block_count rpc")
  case (Inr tip)
  obtain c1 e1 where i: "ingest_loop lib rpc cfg clk (heights (last_processed c rpc tip + 1) tip) c = (c1, e1)" by fastforce
  have s1: "step_ok c c1" using ingest_loop_ok [OF wf up, of lib cfg clk] by (metis i fst_conv)
  obtain c2 e2 where q: "recheck_loop lib rpc cfg clk (heights (saturating_sub tip (reorg_check_depth cfg)) tip) c1 = (c2, e2)"
    by fastforce
  have s2: "step_ok c1 c2"
    using recheck_loop_ok [OF step_ok_wf [OF s1] above_headers_step [OF up s1], of lib cfg clk] by (metis q fst_conv)
  note s12 = step_ok_trans [OF s1 s2]
  note s3 = backfill_phase_ok [OF step_ok_wf [OF s12], of lib rpc cfg clk tip]
  note s4 = raw_phase_ok [OF step_ok_wf [OF s3], of lib rpc cfg clk tip]
  show ?thesis
    using s1 s12 step_ok_trans [OF s12 step_ok_trans [OF s3 s4]]
    by (cases e1; cases e2) (simp_all add: poll_once_def Inr i q)
qed (simp add: poll_once_def step_ok_refl wf)

section \<open>The cursor\<close>

text \<open>Everything but the loop over new heights leaves the cursor alone.\<close>

definition same_cursor :: "db \<Rightarrow> db \<Rightarrow> bool" where
  "same_cursor c c' = (get_state c' LAST_PROCESSED = get_state c LAST_PROCESSED)"

lemma same_cursor_refl [simp]: "same_cursor c c"
  by (simp add: same_cursor_def)

lemma same_cursor_trans: "same_cursor a b \<Longrightarrow> same_cursor b c \<Longrightarrow> same_cursor a c"
  by (simp add: same_cursor_def)

lemma same_cursor_foldl: "(\<And>c x. same_cursor c (f c x)) \<Longrightarrow> same_cursor c (foldl f c xs)"
  by (induction xs arbitrary: c) (auto intro: same_cursor_trans)

lemma cursor_writes [simp]:
  "same_cursor c (append_status c bid st now)" "same_cursor c (record_gap c h z now m)"
  "same_cursor c (resolve_gap c h now m)" "same_cursor c (mark_body_recovered c bid src)"
  "same_cursor c (mark_orphaned c bid now)" "same_cursor c (insert_transaction bid tx c)"
  "same_cursor c (set_contract_flags c h y flags)" "same_cursor c (insert_raw_block c bid codec n data src now)"
  "same_cursor c (fst (insert_block_header_row c hdr captured source now))"
  by (auto simp: same_cursor_def get_state_def append_status_def record_gap_def resolve_gap_def mark_body_recovered_def
      mark_orphaned_def insert_transaction_def set_contract_flags_def insert_raw_block_def insert_block_header_row_def
      Let_def split: option.splits)

lemma cursor_insert_transactions [simp]: "same_cursor c (insert_transactions c bid retained)"
proof -
  have "same_cursor c (c\<lparr>blocks := bs\<rparr>)" for bs by (simp add: same_cursor_def get_state_def)
  then show ?thesis
    unfolding insert_transactions_def by (rule same_cursor_trans) (rule same_cursor_foldl, simp)
qed

lemma cursor_extras [simp]:
  "same_cursor c (record_contract_flags lib c h x raw)" "same_cursor c (keep_raw lib c cfg h x raw src now)"
  by (auto simp: record_contract_flags_def keep_raw_def store_raw_def committed_def and_then_def
      split: option.splits sum.splits if_splits)

lemma cursor_store_block: "store_block c d src now = Inr c' \<Longrightarrow> same_cursor c c'"
proof -
  assume r: "store_block c d src now = Inr c'"
  obtain c0 bid where row: "insert_block_header_row c (d_header d) True (Some src) now = (c0, bid)" by fastforce
  then have "same_cursor c c0" using cursor_writes(9) [of c "d_header d" True "Some src" now] by simp
  with r row show ?thesis
    by (auto simp: store_block_def Let_def split: option.splits if_splits
        intro: same_cursor_trans [OF _ cursor_insert_transactions]
          same_cursor_trans [OF same_cursor_trans [OF cursor_insert_transactions cursor_writes(4)] cursor_writes(3)])
qed

lemma cursor_store_with_extras: "store_with_extras lib c cfg h d src raw now = Inr c' \<Longrightarrow> same_cursor c c'"
  by (auto simp: store_with_extras_def Let_def and_then_Inr_iff
      intro: same_cursor_trans [OF same_cursor_trans [OF cursor_store_block cursor_extras(1)] cursor_extras(2)])

lemma cursor_record_gap_block [simp]: "same_cursor c (record_gap_block c d m now)"
  by (auto simp: record_gap_block_def Let_def intro: same_cursor_trans [OF cursor_writes(9) cursor_writes(2)])

lemma cursor_selfcheck [simp]: "same_cursor c (selfcheck lib c h d raw)"
  by (auto simp: selfcheck_def increment_mismatch_counter_def set_state_def same_cursor_def get_state_def
      LAST_PROCESSED_def Let_def split: sum.splits)

lemma cursor_ingest:
  assumes r: "ingest_height lib c rpc cfg h now = Inr (c', x)" shows "same_cursor c c'"
proof (cases "get_block_details rpc h")
  case (Inr answer)
  show ?thesis
  proof (cases answer)
    case (Some d)
    show ?thesis
    proof (cases "resolve_body lib rpc cfg d ''body already pruned by node on first ingest attempt''")
      case (Store d' src raw)
      obtain raw' c1 where c1: "store_with_extras lib c cfg h d' src raw' now = Inr c1"
        and c': "c' = (if src = ''getblock'' then c1 else if decoder_selfcheck cfg
            then (case raw' of Some bytes \<Rightarrow> selfcheck lib c1 h d' bytes | None \<Rightarrow> c1) else c1)"
        by (rule ingest_store [OF r Inr [unfolded Some] Store])
      have "same_cursor c1 c'" by (simp add: c' split: option.splits)
      with cursor_store_with_extras [OF c1] show ?thesis by (rule same_cursor_trans)
    next
      case (Gap d' reason)
      then show ?thesis using ingest_gap [OF r Inr [unfolded Some] Gap] by simp
    qed
  qed (use r Inr in \<open>simp add: ingest_height_def\<close>)
qed (use r in \<open>simp add: ingest_height_def\<close>)

lemma cursor_replace: "replace_block lib c rpc cfg h x rep t1 t2 = Inr c' \<Longrightarrow> same_cursor c c'"
  by (auto simp: replace_block_def Let_def split: option.splits body_outcome.splits dest!: cursor_store_with_extras)

lemma cursor_recheck: "recheck_height lib c rpc cfg h t1 t2 = Inr c' \<Longrightarrow> same_cursor c c'"
  by (auto simp: recheck_height_def and_then_def Let_def split: option.splits if_splits sum.splits
      dest!: cursor_replace intro: same_cursor_trans [OF cursor_writes(5)])

lemma cursor_recheck_loop: "same_cursor c (fst (recheck_loop lib rpc cfg clk hs c))"
  by (induction hs arbitrary: c) (auto split: sum.splits intro: same_cursor_trans cursor_recheck)

lemma cursor_backfill: "same_cursor c (backfill_gap lib c rpc cfg h now)"
  by (auto simp: backfill_gap_def split: option.splits fallback_outcome.splits
      intro!: same_cursor_trans [OF _ cursor_writes(3)] same_cursor_trans [OF _ cursor_extras(2)]
        same_cursor_trans [OF _ cursor_extras(1)] same_cursor_trans [OF _ cursor_writes(4)])

lemma cursor_phases:
  "same_cursor c (backfill_phase lib rpc cfg clk tip c)" "same_cursor c (raw_phase lib rpc cfg clk tip c)"
  by (auto simp: backfill_phase_def raw_phase_def cursor_backfill split: option.splits intro!: same_cursor_foldl)

section \<open>No height is skipped\<close>

definition on_file :: "db \<Rightarrow> u64 \<Rightarrow> bool" where
  "on_file c h = (\<exists>b \<in> set (blocks c). b_height b = as_i64 h)"

lemma on_file_step: "step_ok c c' \<Longrightarrow> on_file c h \<Longrightarrow> on_file c' h"
proof -
  assume s: "step_ok c c'" and f: "on_file c h"
  have "set (map block_identity (blocks c)) \<subseteq> set (map block_identity (blocks c'))"
    using s by (auto simp only: step_ok_def evidence_le_def dest: set_mono_prefix)
  then have "(\<lambda>b. fst (snd (block_identity b))) ` set (blocks c) \<subseteq> (\<lambda>b. fst (snd (block_identity b))) ` set (blocks c')"
    by (fastforce simp: image_iff)
  then have "b_height ` set (blocks c) \<subseteq> b_height ` set (blocks c')" by (simp add: block_identity_def)
  with f show ?thesis by (force simp: on_file_def)
qed

lemma known_on_file: "known_canonical c h \<Longrightarrow> on_file c (h_height h)"
  by (auto simp: known_canonical_def canonical_hash_at_def canonical_candidates_def on_file_def
      split: option.splits dest!: latest_in)

lemma header_row_on_file:
  assumes "wf_db c" shows "on_file (fst (insert_block_header_row c h captured source now)) (h_height h)"
proof -
  have "wf_blocks (blocks c)" using assms by (simp add: wf_db_def)
  then show ?thesis
    by (rule insert_block_header_row_unfold [of c h captured source now]) (auto simp: on_file_def block_key_def header_row_def)
qed

lemma on_file_blocks: "blocks c' = blocks c \<Longrightarrow> on_file c' h = on_file c h"
  by (simp add: on_file_def)

lemma insert_transactions_on_file: "on_file (insert_transactions c bid retained) h = on_file c h"
proof -
  have "on_file d h \<longleftrightarrow> as_i64 h \<in> b_height ` set (blocks d)" for d by (force simp: on_file_def)
  then show ?thesis by (simp add: blocks_insert_transactions image_update_where body_columns_def)
qed

lemma store_block_on_file:
  assumes wf: "wf_db c" and nh: "no_header_only c (d_header d)" and src: "src \<noteq> HEADER_ONLY_SOURCE"
    and r: "store_block c d src now = Inr c'"
  shows "on_file c' (h_height (d_header d))"
proof (cases "known_canonical c (d_header d)")
  case True
  have "step_ok c c'" using b_store_block.ok [OF wf, of "(d, src, now)"] nh src r by simp
  then show ?thesis using known_on_file [OF True] by (rule on_file_step)
next
  case False
  obtain retained c0 bid where "insert_block_header_row c (d_header d) True (Some src) now = (c0, bid)"
    "c' = insert_transactions c0 bid retained"
    by (rule store_block_new [OF wf False r])
  then show ?thesis
    using header_row_on_file [OF wf, of "d_header d" True "Some src" now] by (simp add: insert_transactions_on_file)
qed

lemma ingest_on_file:
  assumes wf: "wf_db c" and up: "above_headers rpc c"
    and named: "\<And>d. get_block_details rpc h = Inr (Some d) \<Longrightarrow> h_height (d_header d) = h"
    and r: "ingest_height lib c rpc cfg h now = Inr (c', True)"
  shows "on_file c' h"
proof -
  obtain d where d: "get_block_details rpc h = Inr (Some d)"
    using r by (auto simp: ingest_height_def and_then_Inr_iff split: option.splits)
  have nh: "no_header_only c (d_header d)" using up d by (simp add: above_headers_def)
  show ?thesis
  proof (cases "resolve_body lib rpc cfg d ''body already pruned by node on first ingest attempt''")
    case (Store d' src raw)
    note res = resolve_body_header(1) [OF Store]
    obtain raw' c1 where c1: "store_with_extras lib c cfg h d' src raw' now = Inr c1"
      and c': "c' = (if src = ''getblock'' then c1 else if decoder_selfcheck cfg
          then (case raw' of Some bytes \<Rightarrow> selfcheck lib c1 h d' bytes | None \<Rightarrow> c1) else c1)"
      by (rule ingest_store [OF r d Store])
    obtain c2 where c2: "store_block c d' src now = Inr c2"
      and c1': "c1 = keep_raw lib (record_contract_flags lib c2 h (h_hash (d_header d')) raw') cfg h (h_hash (d_header d')) raw' ''node'' now"
      by (rule store_with_extras_unfold [OF c1])
    have s1: "step_ok c c2" using b_store_block.ok [OF wf, of "(d', src, now)"] nh res c2 by simp
    have f: "on_file c2 h" using store_block_on_file [OF wf _ _ c2] nh res named [OF d] by simp
    have s2: "step_ok c2 c1"
      using b_record_contract_flags.ok [OF step_ok_wf [OF s1], of "(lib, h, h_hash (d_header d'), raw')"]
      by (auto simp: c1' intro: step_ok_trans keep_raw_ok step_ok_wf)
    have "step_ok c1 c'"
      using selfcheck_ok [OF step_ok_wf [OF s2]] step_ok_refl [OF step_ok_wf [OF s2]] by (auto simp: c' split: option.splits)
    with f s2 show ?thesis by (blast intro: on_file_step)
  next
    case (Gap d' reason)
    note c' = ingest_gap [OF r d Gap]
    show ?thesis
    proof (cases "known_canonical c (d_header d)")
      case True
      then show ?thesis
        using known_on_file [OF True] named [OF d] by (simp add: c' record_gap_block_def Let_def record_gap_def on_file_def)
    next
      case False
      then show ?thesis
        using header_row_on_file [OF wf, of "d_header d" False None now] named [OF d]
        by (simp add: c' record_gap_block_def Let_def record_gap_def on_file_def)
    qed
  qed
qed

text \<open>The cursor only moves over heights that are on file.\<close>

definition cursor :: "db \<Rightarrow> u64 option" where
  "cursor c = (case get_state c LAST_PROCESSED of Some s \<Rightarrow> parse_u64 s | None \<Rightarrow> None)"

definition names_heights :: "node \<Rightarrow> bool" where
  "names_heights rpc = (\<forall>h d. get_block_details rpc h = Inr (Some d) \<longrightarrow> h_height (d_header d) = h)"

lemma cursor_set [simp]: "cursor (set_state c LAST_PROCESSED (u64_to_string h)) = Some h"
  by (simp add: cursor_def set_state_def get_state_def)

lemma same_cursor_eq: "same_cursor c c' \<Longrightarrow> cursor c' = cursor c"
  by (simp add: same_cursor_def cursor_def)

lemma ingest_loop_files:
  "wf_db c \<Longrightarrow> above_headers rpc c \<Longrightarrow> names_heights rpc \<Longrightarrow> ingest_loop lib rpc cfg clk hs c = (c', e) \<Longrightarrow>
    \<exists>past rest. hs = past @ rest \<and> (\<forall>h \<in> set past. on_file c' h)
      \<and> cursor c' = (if past = [] then cursor c else Some (List.last past)) \<and> (rest = [] \<longrightarrow> e = None)"
proof (induction hs arbitrary: c)
  case Nil
  then show ?case by simp
next
  case (Cons h hs)
  show ?case
  proof (cases "ingest_height lib c rpc cfg h (ingest_at clk h)")
    case (Inl err)
    then show ?thesis using Cons.prems by (intro exI [of _ "[]"] exI [of _ "h # hs"]) auto
  next
    case (Inr r)
    obtain c1 x where r: "r = (c1, x)" by (cases r)
    note ing = Inr [unfolded r]
    have s: "step_ok c c1" by (rule ingest_ok [OF Cons.prems(1,2) ing])
    show ?thesis
    proof (cases x)
      case False
      then have "c' = c1" using Cons.prems(4) ing by simp
      then have "cursor c' = cursor c" using same_cursor_eq [OF cursor_ingest [OF ing]] by simp
      then show ?thesis by (intro exI [of _ "[]"] exI [of _ "h # hs"]) auto
    next
      case True
      let ?c2 = "set_state c1 LAST_PROCESSED (u64_to_string h)"
      have loop: "ingest_loop lib rpc cfg clk hs ?c2 = (c', e)" using Cons.prems(4) ing True by simp
      have "step_ok c1 ?c2" using b_set_state.ok [OF step_ok_wf [OF s], of "(LAST_PROCESSED, u64_to_string h)"] by simp
      with s have s2: "step_ok c ?c2" by (rule step_ok_trans)
      obtain past rest where split: "hs = past @ rest" "\<forall>h \<in> set past. on_file c' h"
        "cursor c' = (if past = [] then cursor ?c2 else Some (List.last past))" "rest = [] \<longrightarrow> e = None"
        using Cons.IH [OF step_ok_wf [OF s2] above_headers_step [OF Cons.prems(2) s2] Cons.prems(3) loop] by blast
      have "on_file c1 h"
        using Cons.prems(3) ing True by (intro ingest_on_file [OF Cons.prems(1,2)]) (auto simp: names_heights_def)
      then have "on_file ?c2 h" by (simp add: on_file_def set_state_def)
      moreover have "step_ok ?c2 c'"
        using ingest_loop_ok [OF step_ok_wf [OF s2] above_headers_step [OF Cons.prems(2) s2], of lib cfg clk hs] loop by simp
      ultimately have "on_file c' h" by (blast intro: on_file_step)
      with split show ?thesis by (intro exI [of _ "h # past"] exI [of _ rest]) auto
    qed
  qed
qed

lemma heights_nth: "i < length (heights a b) \<Longrightarrow> heights a b ! i = of_nat (unat a + i)"
  by (simp add: heights_def del: upt_Suc)

lemma heights_prefix:
  assumes "heights (lo + 1) tip = past @ rest" "past \<noteq> []" "lo < - 1"
  shows "lo < List.last past \<and> List.last past \<le> tip \<and> {h. lo < h \<and> h \<le> List.last past} \<subseteq> set past"
proof -
  let ?n = "length past"
  have lo: "unat (lo + 1) = unat lo + 1"
  proof -
    have "unat lo < 2 ^ 64 - 1" using assms(3) by (simp add: word_less_nat_alt unat_minus_one)
    then show ?thesis by (simp add: unat_word_ariths)
  qed
  have len: "?n \<le> length (heights (lo + 1) tip)" using assms(1) by simp
  have hl: "length (heights (lo + 1) tip) = Suc (unat tip) - (unat lo + 1)" by (simp add: heights_def lo del: upt_Suc)
  have at: "past ! i = of_nat (unat lo + 1 + i)" if "i < ?n" for i
  proof -
    have "past ! i = heights (lo + 1) tip ! i" using that by (simp add: assms(1) nth_append)
    then show ?thesis using that len heights_nth [of i "lo + 1" tip] by (simp add: lo)
  qed
  have val: "unat (past ! i) = unat lo + 1 + i" if "i < ?n" for i
  proof -
    have "unat lo + 1 + i \<le> unat tip" using that len hl by linarith
    also have "unat tip < 2 ^ 64" using unat_u64_bound [of tip] by simp
    finally show ?thesis unfolding at [OF that] unat_of_nat by (simp add: take_bit_nat_eq_self)
  qed
  have last: "List.last past = past ! (?n - 1)" "?n - 1 < ?n" using assms(2) by (simp_all add: last_conv_nth)
  have vl: "unat (List.last past) = unat lo + ?n" unfolding last(1) val [OF last(2)] using last(2) by simp
  have "h \<in> set past" if "lo < h" "h \<le> List.last past" for h
  proof -
    define i where "i = unat h - unat lo - 1"
    have "unat lo < unat h" "unat h \<le> unat lo + ?n" using that vl by (simp_all add: word_less_nat_alt word_le_nat_alt)
    then have i: "i < ?n" "unat h = unat lo + 1 + i" by (auto simp: i_def)
    then have "past ! i = h" using val [OF i(1)] by (simp add: word_unat_eq_iff)
    with i(1) show ?thesis by (metis nth_mem)
  qed
  moreover have n: "0 < ?n" using assms(2) by simp
  moreover have "unat (List.last past) \<le> unat tip" using vl len hl n by linarith
  ultimately show ?thesis using vl by (auto simp: word_less_nat_alt word_le_nat_alt)
qed

lemma poll_once_files:
  assumes wf: "wf_db c" and up: "above_headers rpc c" and named: "names_heights rpc"
    and cur: "cursor c = Some lo" "lo < - 1" and r: "poll_once lib c rpc cfg clk = (c', e)"
  shows "\<exists>hi. cursor c' = Some hi \<and> lo \<le> hi \<and> (\<forall>h \<in> {h. lo < h \<and> h \<le> hi}. on_file c' h)"
proof (cases "block_count rpc")
  case (Inl err)
  then show ?thesis using r cur by (intro exI [of _ lo]) (auto simp: poll_once_def)
next
  case (Inr tip)
  have lp: "last_processed c rpc tip = lo" using cur(1) by (simp add: last_processed_def cursor_def)
  obtain c1 e1 where i: "ingest_loop lib rpc cfg clk (heights (lo + 1) tip) c = (c1, e1)" by fastforce
  obtain past rest where split: "heights (lo + 1) tip = past @ rest" "\<forall>h \<in> set past. on_file c1 h"
    "cursor c1 = (if past = [] then cursor c else Some (List.last past))"
    using ingest_loop_files [OF wf up named i] by blast
  have s1: "step_ok c c1" using ingest_loop_ok [OF wf up, of lib cfg clk] by (metis i fst_conv)
  have later: "step_ok c1 c' \<and> same_cursor c1 c'"
  proof -
    obtain c2 e2 where q: "recheck_loop lib rpc cfg clk (heights (saturating_sub tip (reorg_check_depth cfg)) tip) c1 = (c2, e2)"
      by fastforce
    have s2: "step_ok c1 c2" "same_cursor c1 c2"
      using recheck_loop_ok [OF step_ok_wf [OF s1] above_headers_step [OF up s1], of lib cfg clk]
        cursor_recheck_loop [of c1 lib rpc cfg clk] by (metis q fst_conv)+
    note s3 = backfill_phase_ok [OF step_ok_wf [OF s2(1)], of lib rpc cfg clk tip]
    note s4 = raw_phase_ok [OF step_ok_wf [OF s3], of lib rpc cfg clk tip]
    have "step_ok c2 (raw_phase lib rpc cfg clk tip (backfill_phase lib rpc cfg clk tip c2))"
      "same_cursor c2 (raw_phase lib rpc cfg clk tip (backfill_phase lib rpc cfg clk tip c2))"
      using step_ok_trans [OF s3 s4] cursor_phases same_cursor_trans by blast+
    moreover have "c' = c1 \<or> c' = c2 \<or> c' = raw_phase lib rpc cfg clk tip (backfill_phase lib rpc cfg clk tip c2)"
      using r lp by (cases e1; cases e2) (simp_all add: poll_once_def Inr i q)
    moreover have "step_ok c1 c1" by (rule step_ok_refl [OF step_ok_wf [OF s1]])
    ultimately show ?thesis
      using s2 step_ok_trans [of c1 c2 c'] same_cursor_trans [of c1 c2 c'] same_cursor_refl [of c1]
      by (elim disjE) simp_all
  qed
  show ?thesis
  proof (cases "past = []")
    case True
    then show ?thesis using split(3) later cur(1) same_cursor_eq [of c1 c'] by (intro exI [of _ lo]) auto
  next
    case False
    have "on_file c' h" if "h \<in> set past" for h using split(2) later that by (blast intro: on_file_step)
    with heights_prefix [OF split(1) False cur(2)] show ?thesis
      using split(3) False later same_cursor_eq [of c1 c']
      by (intro exI [of _ "List.last past"]) auto
  qed
qed

section \<open>Properties\<close>

text \<open>
  C3. A poll cycle, wherever it stops with an error, keeps the invariant of the database and the evidence in
  it: no block row, status entry, gap or receipt that was on record is overwritten or removed, and no
  header-only block appears. The node is bound in one respect only (\<open>above_headers\<close>): it serves no details of a
  block the archive holds as a bare header. Those blocks lie below the archive, where the node has pruned the
  bodies; errors, missing blocks, other branches, wrong heights and wrong bytes are all allowed.
\<close>
theorem poll_cycle_keeps_the_archive:
  assumes "wf_db c" "above_headers rpc c" "poll_once lib c rpc cfg clk = (c', e)"
  shows "wf_db c' \<and> evidence_le c c' \<and> header_only_keys c' \<subseteq> header_only_keys c"
  using poll_once_ok [OF assms(1,2), of lib cfg clk] assms(3) by (simp add: step_ok_def)

definition sample_clock :: clock where
  "sample_clock = \<lparr>ingest_at = (\<lambda>h. ''t2''), orphan_at = (\<lambda>h. ''t3''), replace_at = (\<lambda>h. ''t4''),
     backfill_at = (\<lambda>h. ''t5''), raw_at = (\<lambda>h. ''t6'')\<rparr>"

definition sample_rpc :: node where
  "sample_rpc = sample_node ''B'' (Some (sample_details 5 ''B''))"

definition sample_start :: db where
  "sample_start = set_state empty_db LAST_PROCESSED (u64_to_string 4)"

definition sample_cfg :: config where
  "sample_cfg = default_config\<lparr>reorg_check_depth := 1\<rparr>"

lemma sample_above: "above_headers sample_rpc c" if "blocks c = []"
  using that by (simp add: above_headers_def no_header_only_def)

text \<open>An archive with block 5 and, below it, the bare header of block 4; the node has moved to another block 5.\<close>

definition sample_grown :: db where
  "sample_grown = set_state sample_below LAST_PROCESSED (u64_to_string 5)"

lemma sample_grown_header: "header_only_keys sample_grown = {(4, ''p'')}"
proof -
  have "map key_sig (blocks sample_below) = [((5, ''A''), True), ((4, ''p''), False)]" by code_simp
  then have "key_sig ` set (blocks sample_grown) = {((5, ''A''), True), ((4, ''p''), False)}"
    unfolding sample_grown_def set_state_def by (simp flip: set_map)
  then show ?thesis by (auto simp: header_only_keys_def)
qed

lemma sample_grown_above: "above_headers sample_rpc sample_grown"
  by (auto simp: above_headers_def no_header_only_keys sample_grown_header sample_rpc_def sample_node_def sample_details_def
      sample_header_def as_i64_def split: if_splits)

definition sample_follow_cfg :: config where
  "sample_follow_cfg = sample_cfg\<lparr>archive_raw_blocks := False, getblock_fallback := False\<rparr>"

definition sample_followed :: db where
  "sample_followed = fst (recheck_loop sample_lib sample_rpc sample_follow_cfg sample_clock [4, 5] sample_grown)"

lemma sample_followed_hashes: "map b_hash (blocks sample_followed) = [''A'', ''p'', ''B'']" by code_simp
lemma sample_follow_quiet: "snd (recheck_loop sample_lib sample_rpc sample_follow_cfg sample_clock [4, 5] sample_grown) = None" by code_simp

lemma sample_grown_cycle: "poll_once sample_lib sample_grown sample_rpc sample_follow_cfg sample_clock = (sample_followed, None)"
proof -
  have "last_processed sample_grown sample_rpc 5 = 5" 
    by (simp add: last_processed_def sample_grown_def get_state_def set_state_def)
  moreover have "heights (5 + 1) 5 = []" "heights (saturating_sub 5 1) 5 = [4, 5]"
    by (simp_all add: heights_def saturating_sub_def upt_rec)
  moreover have "recheck_loop sample_lib sample_rpc sample_follow_cfg sample_clock [4, 5] sample_grown = (sample_followed, None)"
    using sample_follow_quiet by (simp add: sample_followed_def prod_eq_iff)
  ultimately show ?thesis
    by (simp add: poll_once_def sample_rpc_def sample_node_def sample_follow_cfg_def sample_cfg_def raw_phase_def backfill_phase_def)
qed

lemma poll_cycle_keeps_the_archive_witness:
  "poll_once sample_lib sample_grown sample_rpc sample_follow_cfg sample_clock = (sample_followed, None)
    \<and> map b_hash (blocks sample_followed) = [''A'', ''p'', ''B''] \<and> wf_db sample_followed
    \<and> evidence_le sample_grown sample_followed \<and> header_only_keys sample_followed \<subseteq> {(4, ''p'')}"
proof -
  have "wf_db sample_grown"
    using op_set_state.keeps_wf [OF wf_below, of "(LAST_PROCESSED, u64_to_string 5)"] by (simp add: sample_grown_def)
  from poll_cycle_keeps_the_archive [OF this sample_grown_above sample_grown_cycle]
  show ?thesis unfolding sample_grown_header using sample_grown_cycle sample_followed_hashes by blast
qed

text \<open>
  C2. The cursor of the poll cycle never passes a height that is not on file: starting from a cursor
  the cycle ends, with or without an error, on one that is no lower, and every height in between has a
  block row.
\<close>
theorem cursor_passes_no_missing_height:
  assumes "wf_db c" "above_headers rpc c" "names_heights rpc" "cursor c = Some lo" "lo < - 1"
    and "poll_once lib c rpc cfg clk = (c', e)"
  shows "\<exists>hi. cursor c' = Some hi \<and> lo \<le> hi \<and> {h. lo < h \<and> h \<le> hi} \<subseteq> {h. on_file c' h}"
  using poll_once_files [OF assms] by blast

lemma cursor_passes_no_missing_height_witness:
  "\<exists>hi. cursor (fst (poll_once sample_lib sample_start sample_rpc sample_cfg sample_clock)) = Some hi \<and> 4 \<le> hi
    \<and> {h. 4 < h \<and> h \<le> hi} \<subseteq> {h. on_file (fst (poll_once sample_lib sample_start sample_rpc sample_cfg sample_clock)) h}"
proof -
  have "wf_db sample_start"
    using op_set_state.keeps_wf [OF wf_empty, of "(LAST_PROCESSED, u64_to_string 4)"] by (simp add: sample_start_def)
  moreover have "cursor sample_start = Some 4" by (simp add: sample_start_def)
  moreover have "(4 :: u64) < - 1" by simp
  moreover have "above_headers sample_rpc sample_start"
    by (rule sample_above) (simp add: sample_start_def set_state_def empty_db_def)
  moreover have "names_heights sample_rpc"
    by (simp add: names_heights_def sample_rpc_def sample_node_def sample_details_def sample_header_def)
  ultimately show ?thesis
    by (intro cursor_passes_no_missing_height [OF _ _ _ _ _ prod.collapse [symmetric]])
qed

end
