(* ===== verification/Receipts.thy ===== *)
theory Receipts
  imports Archive_View
begin

text \<open>
  Importing payment receipts (\<^verbatim>\<open>permanode/src/receipts.rs\<close>): the wallet's receipt journal, the decoding
  of one receipt, and the import into header-only blocks. The checksum of a journal frame, its JSON
  delta and the receipt format belong to other crates: \<open>journal_lib\<close> and \<open>receipt_lib\<close> hold them.
\<close>

section \<open>The wallet's journal\<close>

definition JOURNAL_MAGIC :: bytes where
  "JOURNAL_MAGIC = map (of_nat \<circ> of_char) ''NOIDRCJ1''"

definition JOURNAL_FRAME_DOMAIN :: bytes where
  "JOURNAL_FRAME_DOMAIN = map (of_nat \<circ> of_char) ''NOID/local-wallet-journal/frame/v1''"

definition FRAME_HEADER_BYTES :: nat where "FRAME_HEADER_BYTES = 16"
definition FRAME_DIGEST_BYTES :: nat where "FRAME_DIGEST_BYTES = 32"

record journal_delta =
  jd_reset :: bool
  jd_changes :: "(string \<times> string option) list"

record journal_lib =
  blake3 :: "bytes \<Rightarrow> bytes"
  delta_from_slice :: "bytes \<Rightarrow> journal_delta result"

definition u64_from_le :: "bytes \<Rightarrow> u64" where
  "u64_from_le bs = of_nat (foldr (\<lambda>b n. unat b + 256 * n) bs 0)"

text \<open>A \<open>BTreeMap\<close> of strings as its list of entries in the order of the keys.\<close>

definition tree_remove :: "string \<Rightarrow> (string \<times> 'v) list \<Rightarrow> (string \<times> 'v) list" where
  "tree_remove k m = filter (\<lambda>e. fst e \<noteq> k) m"

definition tree_insert :: "string \<Rightarrow> 'v \<Rightarrow> (string \<times> 'v) list \<Rightarrow> (string \<times> 'v) list" where
  "tree_insert k v m = insort_key fst (k, v) (tree_remove k m)"

definition is_txid_key :: "string \<Rightarrow> bool" where
  "is_txid_key key \<longleftrightarrow> length key = 64 \<and> list_all is_hexdigit key"

fun apply_changes :: "bool \<Rightarrow> (string \<times> string option) list \<Rightarrow> string list \<Rightarrow> (string \<times> string) list
    \<Rightarrow> (string \<times> string) list result" where
  "apply_changes reset [] seen held = Inr held"
| "apply_changes reset ((key, value) # rest) seen held =
     (let key = map ascii_lower key
      in if \<not> is_txid_key key then bail ''key is not a txid''
         else if key \<in> set seen then bail ''txid twice''
         else case value of
           Some hex \<Rightarrow> apply_changes reset rest (key # seen) (tree_insert key hex held)
         | None \<Rightarrow> if \<not> reset then apply_changes reset rest (key # seen) (tree_remove key held)
                   else bail ''a snapshot with a deletion'')"

definition apply_delta :: "bool \<Rightarrow> journal_delta \<Rightarrow> (string \<times> string) list \<Rightarrow> (string \<times> string) list result" where
  "apply_delta first delta held =
     (if first \<and> \<not> jd_reset delta then bail ''the journal lacks its initial snapshot''
      else apply_changes (jd_reset delta) (jd_changes delta) [] (if jd_reset delta then [] else held))"

text \<open>
  The loop over the frames. \<open>rest\<close> is the journal from \<open>pos\<close> on; a frame has at least 48 bytes, so
  the rest gets shorter and the loop ends.
\<close>

definition frame_digest :: "journal_lib \<Rightarrow> bytes \<Rightarrow> bytes \<Rightarrow> bytes" where
  "frame_digest jl header payload = blake3 jl (JOURNAL_FRAME_DOMAIN @ JOURNAL_MAGIC @ header @ payload)"

function read_frames :: "journal_lib \<Rightarrow> bytes \<Rightarrow> nat \<Rightarrow> (string \<times> string) list \<Rightarrow> (nat \<times> (string \<times> string) list) result" where
  "read_frames jl rest frames held =
     (if length rest < FRAME_HEADER_BYTES then Inr (frames, held)
      else
        let header = take FRAME_HEADER_BYTES rest;
            len = u64_from_le (take 8 header);
            inverted = u64_from_le (drop 8 header)
        in if len \<noteq> not inverted then bail ''corrupt frame length''
           else if unat len + (FRAME_HEADER_BYTES + FRAME_DIGEST_BYTES) \<ge> 2 ^ 64 then bail ''frame length overflow''
           else
             let frame_len = unat len + (FRAME_HEADER_BYTES + FRAME_DIGEST_BYTES)
             in if frame_len > length rest then Inr (frames, held)
                else
                  let payload = take (unat len) (drop FRAME_HEADER_BYTES rest);
                      digest = take FRAME_DIGEST_BYTES (drop (FRAME_HEADER_BYTES + unat len) rest)
                  in if frame_digest jl header payload \<noteq> digest then bail ''corrupt frame checksum''
                     else and_then (delta_from_slice jl payload) (\<lambda>delta.
                          and_then (apply_delta (frames = 0) delta held) (\<lambda>held.
                          read_frames jl (drop frame_len rest) (frames + 1) held)))"
  by pat_completeness auto
termination
  by (relation "measure (\<lambda>(jl, rest, frames, held). length rest)")
    (auto simp: FRAME_HEADER_BYTES_def FRAME_DIGEST_BYTES_def)

definition parse_journal :: "journal_lib \<Rightarrow> bytes \<Rightarrow> (string \<times> string) list result" where
  "parse_journal jl bytes =
     (if take (length JOURNAL_MAGIC) bytes \<noteq> JOURNAL_MAGIC then bail ''not a wallet receipt journal''
      else and_then (read_frames jl (drop (length JOURNAL_MAGIC) bytes) 0 []) (\<lambda>(frames, held).
        if frames = 0 then bail ''the journal holds no complete frame'' else Inr held))"

section \<open>Decoding a receipt\<close>

record receipt_page =
  rp_page_hash :: bytes
  rp_validity_bitmap :: u32
  rp_live_inputs :: "(u8 \<times> coin_input) list"
  rp_live_outputs :: "(u8 \<times> coin_output) list"

record receipt_summary =
  rs_logical_txid :: bytes
  rs_confirmed_unix :: u64
  rs_fee :: u64
  rs_inputs :: "(u32 \<times> bytes) list"
  rs_outputs :: "(u32 \<times> u64 \<times> bytes) list"

record paranoid_receipt =
  pr_claimed_height :: u64
  pr_claimed_root :: bytes
  pr_tx_index :: u16
  pr_tx_count :: u16
  pr_paged_spend :: bytes
  pr_summary :: receipt_summary

record spend_facts =
  sf_logical_txid :: bytes
  sf_input_owner :: bytes
  sf_fee :: u64
  sf_epoch_anchor :: bytes
  sf_input_sum :: u128
  sf_output_sum :: u128

record receipt_lib =
  receipt_hex :: "string \<Rightarrow> bytes option"
  receipt_from_bytes :: "bytes \<Rightarrow> paranoid_receipt result"
  receipt_to_bytes :: "paranoid_receipt \<Rightarrow> bytes"
  verify_merkle_inclusion :: "paranoid_receipt \<Rightarrow> bool"
  intent_pages :: "bytes \<Rightarrow> receipt_page list result"
  validate_paged_spend :: "receipt_page list \<Rightarrow> spend_facts result"

record summary_input =
  si_slot_index :: u64
  si_owner :: string

record summary_output =
  so_slot_index :: u64
  so_amount :: u64
  so_owner :: string

record authenticated_summary =
  as_txid :: string
  as_claimed_height :: u64
  as_confirmed_unix :: u64
  as_tx_index :: u32
  as_tx_count :: u32
  as_fee :: u64
  as_inputs :: "summary_input list"
  as_outputs :: "summary_output list"

record receipt_verdict =
  rv_merkle_valid :: bool
  rv_canonical :: "bool option"
  rv_error :: "string option"
  rv_summary :: "authenticated_summary option"

record decoded_receipt =
  dr_height :: u64
  dr_timestamp :: u64
  dr_tx_root :: string
  dr_tx :: receipt_transaction
  dr_summary :: authenticated_summary

definition page_receipt_inputs :: "nat \<Rightarrow> receipt_page \<Rightarrow> receipt_input list" where
  "page_receipt_inputs page_index page =
     map (\<lambda>(lane, i). \<lparr>ri_page = of_nat page_index, ri_lane = ucast lane, ri_slot_index = ucast (ci_slot_index i),
            ri_amount = ci_amount i, ri_creation_id = ci_creation_id i\<rparr>) (rp_live_inputs page)"

definition page_receipt_outputs :: "chain_lib \<Rightarrow> nat \<Rightarrow> receipt_page \<Rightarrow> receipt_output list" where
  "page_receipt_outputs lib page_index page =
     map (\<lambda>(lane, out). \<lparr>ro_page = of_nat page_index, ro_lane = ucast lane, ro_slot_index = ucast (co_slot_index out),
            ro_amount = co_amount out, ro_owner = to_bech32 lib (co_owner out)\<rparr>) (rp_live_outputs page)"

definition receipt_flags :: "chain_lib \<Rightarrow> u32 \<Rightarrow> u8" where
  "receipt_flags lib bitmap =
     (if and bitmap (contract_bit lib) \<noteq> 0
      then if and bitmap (terminal_bit lib) \<noteq> 0 then or CONTRACT_CALL CONTRACT_CLOSE else CONTRACT_CALL
      else 0)"

definition summary_of :: "chain_lib \<Rightarrow> paranoid_receipt \<Rightarrow> string \<Rightarrow> authenticated_summary" where
  "summary_of lib receipt txid =
     \<lparr>as_txid = txid, as_claimed_height = pr_claimed_height receipt,
      as_confirmed_unix = rs_confirmed_unix (pr_summary receipt), as_tx_index = ucast (pr_tx_index receipt),
      as_tx_count = ucast (pr_tx_count receipt), as_fee = rs_fee (pr_summary receipt),
      as_inputs = map (\<lambda>(slot, owner). \<lparr>si_slot_index = ucast slot, si_owner = to_bech32 lib owner\<rparr>)
        (rs_inputs (pr_summary receipt)),
      as_outputs = map (\<lambda>(slot, amount, owner). \<lparr>so_slot_index = ucast slot, so_amount = amount, so_owner = to_bech32 lib owner\<rparr>)
        (rs_outputs (pr_summary receipt))\<rparr>"

definition receipt_tx_of :: "chain_lib \<Rightarrow> paranoid_receipt \<Rightarrow> receipt_page list \<Rightarrow> spend_facts \<Rightarrow> string \<Rightarrow> string
    \<Rightarrow> receipt_transaction" where
  "receipt_tx_of lib receipt pages facts txid hex_str =
     \<lparr>rt_position = ucast (pr_tx_index receipt), rt_tx_count = ucast (pr_tx_count receipt), rt_txid = txid,
      rt_page_count = of_nat (length pages), rt_fee = sf_fee facts,
      rt_epoch_anchor = hex_encode lib (sf_epoch_anchor facts), rt_input_owner = to_bech32 lib (sf_input_owner facts),
      rt_input_sum = decimal (unat (sf_input_sum facts)), rt_output_sum = decimal (unat (sf_output_sum facts)),
      rt_contract_flags = receipt_flags lib (rp_validity_bitmap (hd pages)),
      rt_page_hashes = map (hex_encode lib \<circ> rp_page_hash) pages,
      rt_inputs = concat (map (\<lambda>(i, p). page_receipt_inputs i p) (enumerate 0 pages)),
      rt_outputs = concat (map (\<lambda>(i, p). page_receipt_outputs lib i p) (enumerate 0 pages)),
      rt_receipt_hex = hex_str\<rparr>"

definition decode_receipt :: "chain_lib \<Rightarrow> receipt_lib \<Rightarrow> string \<Rightarrow> decoded_receipt result" where
  "decode_receipt lib rl hex_str =
     (case receipt_hex rl hex_str of
        None \<Rightarrow> bail ''not hex''
      | Some bytes \<Rightarrow>
          and_then (receipt_from_bytes rl bytes) (\<lambda>receipt.
            let canonical = receipt_to_bytes rl receipt
            in if length canonical < length bytes then bail ''bytes follow the receipt''
               else if canonical \<noteq> bytes then bail ''not in the receipt's canonical encoding''
               else if \<not> verify_merkle_inclusion rl receipt then bail ''its Merkle proof does not verify''
               else and_then (intent_pages rl (pr_paged_spend receipt)) (\<lambda>pages.
                    and_then (validate_paged_spend rl pages) (\<lambda>facts.
                      let txid = hex_encode lib (rs_logical_txid (pr_summary receipt))
                      in if hex_encode lib (sf_logical_txid facts) \<noteq> txid
                         then bail ''the pages do not hash to the receipt's txid''
                         else if rs_inputs (pr_summary receipt) = []
                              \<or> list_ex (\<lambda>(_, owner). owner \<noteq> sf_input_owner facts) (rs_inputs (pr_summary receipt))
                         then bail ''its inputs do not share one owner''
                         else if pages = [] then bail ''index out of bounds: the receipt has no page''
                         else Inr \<lparr>dr_height = pr_claimed_height receipt,
                                   dr_timestamp = rs_confirmed_unix (pr_summary receipt),
                                   dr_tx_root = hex_encode lib (pr_claimed_root receipt),
                                   dr_tx = receipt_tx_of lib receipt pages facts txid hex_str,
                                   dr_summary = summary_of lib receipt txid\<rparr>))))"

section \<open>Importing receipts\<close>

record receipt_entry =
  re_origin :: string
  re_key :: "string option"
  re_hex :: string

datatype receipt_outcome =
  Receipt_Imported | Already_Imported | Duplicate | In_Archive bool | In_Gap | No_Header | Receipt_Rejected failure

text \<open>
  \<open>import_one\<close> with the node's answer to \<open>paranoid_verifyReceipt\<close> for this entry. A refused write rolls
  its transaction back: the database stays as it was.
\<close>

definition import_one :: "db \<Rightarrow> receipt_entry \<Rightarrow> decoded_receipt \<Rightarrow> receipt_verdict result \<Rightarrow> string \<Rightarrow> db \<times> receipt_outcome" where
  "import_one c entry d answer now =
     (if re_key entry \<noteq> None \<and> re_key entry \<noteq> Some (rt_txid (dr_tx d))
      then (c, Receipt_Rejected (Failure ''filed under another txid''))
      else case answer of
        Inl e \<Rightarrow> (c, Receipt_Rejected e)
      | Inr verdict \<Rightarrow>
          if \<not> rv_merkle_valid verdict then (c, Receipt_Rejected (Failure ''the node rejects its Merkle proof''))
          else if rv_canonical verdict \<noteq> Some True
          then (c, Receipt_Rejected (Failure ''not on the node's canonical chain''))
          else if rv_summary verdict \<noteq> Some (dr_summary d)
          then (c, Receipt_Rejected (Failure ''the node authenticated different data than the receipt holds''))
          else case canonical_block_at c (dr_height d) of
            None \<Rightarrow> (c, No_Header)
          | Some block \<Rightarrow>
              if \<not> cb_header_only block
              then (c, if \<not> cb_body_captured block then In_Gap
                       else In_Archive (\<exists>t \<in> set (transactions c). t_block_id t = cb_id block \<and> t_txid t = rt_txid (dr_tx d)))
              else if cb_tx_root block \<noteq> dr_tx_root d \<or> cb_timestamp block \<noteq> dr_timestamp d
              then (c, Receipt_Rejected (Failure ''does not match the block header on record''))
              else case insert_receipt_transaction c (cb_id block) (dr_tx d) now of
                Inl e \<Rightarrow> (c, Receipt_Rejected e)
              | Inr (c, fresh) \<Rightarrow> (c, if fresh then Receipt_Imported else Already_Imported))"

fun import_receipts :: "chain_lib \<Rightarrow> receipt_lib \<Rightarrow> (receipt_entry \<Rightarrow> receipt_verdict result) \<Rightarrow> (receipt_entry \<Rightarrow> string)
    \<Rightarrow> receipt_entry list \<Rightarrow> (string option \<times> string) list \<Rightarrow> db \<Rightarrow> db \<times> (receipt_entry \<times> receipt_outcome) list" where
  "import_receipts lib rl verify clk [] seen c = (c, [])"
| "import_receipts lib rl verify clk (entry # rest) seen c =
     (if (re_key entry, re_hex entry) \<in> set seen
      then case import_receipts lib rl verify clk rest seen c of (c', results) \<Rightarrow> (c', (entry, Duplicate) # results)
      else
        let (c1, outcome) = (case decode_receipt lib rl (re_hex entry) of
              Inl why \<Rightarrow> (c, Receipt_Rejected why)
            | Inr d \<Rightarrow> import_one c entry d (verify entry) (clk entry))
        in case import_receipts lib rl verify clk rest ((re_key entry, re_hex entry) # seen) c1 of
             (c', results) \<Rightarrow> (c', (entry, outcome) # results))"

text \<open>Micronoid as NOID with six decimals.\<close>

definition zero_padded :: "nat \<Rightarrow> nat \<Rightarrow> string" where
  "zero_padded width n = replicate (width - length (decimal n)) (CHR ''0'') @ decimal n"

definition noid :: "u128 \<Rightarrow> string" where
  "noid micronoid = decimal (unat (micronoid div 1000000)) @ ''.'' @ zero_padded 6 (unat (micronoid mod 1000000))"

end
