(* ===== verification/Receipt_Import.thy ===== *)
theory Receipt_Import
  imports Receipts
begin

text \<open>
  What reading the wallet's journal and importing receipts achieve: a journal reads back as the changes
  written to it, also when its last frame was cut short; an import changes nothing of the archive; and
  a receipt that was imported is on record from then on.
\<close>

section \<open>The journal as the wallet writes it\<close>

text \<open>
  The format of the file: after the magic bytes one frame per delta, each its payload's length, the
  complement of the length, the payload and a checksum. The meaning of a journal is the map its deltas
  leave, a reset starting from nothing.
\<close>

definition u64_to_le :: "u64 \<Rightarrow> bytes" where
  "u64_to_le n = map (\<lambda>i. of_nat (unat n div 256 ^ i mod 256)) [0..<8]"

definition frame :: "journal_lib \<Rightarrow> bytes \<Rightarrow> bytes" where
  "frame jl payload =
     (let n = of_nat (length payload); header = u64_to_le n @ u64_to_le (not n)
      in header @ payload @ frame_digest jl header payload)"

definition journal :: "journal_lib \<Rightarrow> bytes list \<Rightarrow> bytes" where
  "journal jl payloads = JOURNAL_MAGIC @ concat (map (frame jl) payloads)"

definition delta_meaning :: "(string \<rightharpoonup> string) \<Rightarrow> journal_delta \<Rightarrow> (string \<rightharpoonup> string)" where
  "delta_meaning m d =
     foldl (\<lambda>m (k, v). m(map ascii_lower k := v)) (if jd_reset d then Map.empty else m) (jd_changes d)"

definition journal_meaning :: "journal_delta list \<Rightarrow> (string \<rightharpoonup> string)" where
  "journal_meaning deltas = foldl delta_meaning Map.empty deltas"

text \<open>The deltas the wallet writes: keys are txids, none twice in a frame, and a snapshot deletes nothing.\<close>

definition lowered_keys :: "journal_delta \<Rightarrow> string list" where
  "lowered_keys d = map (\<lambda>(k, v). map ascii_lower k) (jd_changes d)"

definition well_formed_delta :: "journal_delta \<Rightarrow> bool" where
  "well_formed_delta d \<longleftrightarrow> list_all is_txid_key (lowered_keys d) \<and> distinct (lowered_keys d)
     \<and> (jd_reset d \<longrightarrow> list_all (\<lambda>(k, v). v \<noteq> None) (jd_changes d))"

definition well_formed_journal :: "journal_delta list \<Rightarrow> bool" where
  "well_formed_journal deltas \<longleftrightarrow> deltas \<noteq> [] \<and> jd_reset (hd deltas) \<and> list_all well_formed_delta deltas"

section \<open>Little-endian numbers\<close>

lemma base_256: "foldr (\<lambda>d n. d + 256 * n) (map (\<lambda>i. n div 256 ^ i mod 256) [0..<k]) 0 = (n mod 256 ^ k :: nat)"
proof (induction k arbitrary: n)
  case (Suc k)
  have "map (\<lambda>i. n div 256 ^ i mod 256) [0..<Suc k] = n mod 256 # map (\<lambda>i. n div 256 div 256 ^ i mod 256) [0..<k]"
    by (simp add: upt_conv_Cons map_Suc_upt [symmetric] div_mult2_eq del: upt_Suc)
  then show ?case using Suc [of "n div 256"] by (simp add: mod_mult2_eq)
qed simp

lemma u64_le [simp]: "u64_from_le (u64_to_le n) = n" "length (u64_to_le n) = 8"
proof -
  have "foldr (\<lambda>b m. unat b + 256 * m) (u64_to_le n) 0 = foldr (\<lambda>d m. d + 256 * m) (map (\<lambda>i. unat n div 256 ^ i mod 256) [0..<8]) 0"
  proof -
    have "unat (of_nat (k mod 256) :: 8 word) = k mod 256" for k
      unfolding unat_of_nat by (simp add: take_bit_nat_eq_self)
    then show ?thesis by (simp add: u64_to_le_def foldr_map o_def del: upt_Suc)
  qed
  also have "\<dots> = unat n" unfolding base_256 using unat_u64_bound [of n] by simp
  finally show "u64_from_le (u64_to_le n) = n" by (simp add: u64_from_le_def)
qed (simp add: u64_to_le_def)

section \<open>Reading a frame\<close>

lemma frame_length:
  assumes "length (frame_digest jl (u64_to_le (of_nat (length p)) @ u64_to_le (not (of_nat (length p)))) p) = 32"
  shows "length (frame jl p) = length p + 48"
  using assms by (simp add: frame_def Let_def)

lemma read_frame:
  assumes digest: "\<And>b. length (blake3 jl b) = 32" and small: "length p + 48 < 2 ^ 64"
  shows "read_frames jl (frame jl p @ rest) n held
    = and_then (delta_from_slice jl p) (\<lambda>d. and_then (apply_delta (n = 0) d held) (read_frames jl rest (n + 1)))"
proof -
  let ?n = "of_nat (length p) :: u64"
  let ?h = "u64_to_le ?n @ u64_to_le (not ?n)"
  have n: "unat ?n = length p" using small unfolding unat_of_nat by (simp add: take_bit_nat_eq_self)
  have f: "frame jl p = ?h @ p @ frame_digest jl ?h p" by (simp add: frame_def Let_def)
  have d: "length (frame_digest jl ?h p) = 32" by (simp add: frame_digest_def digest)
  show ?thesis
    unfolding f using small d
    by (subst read_frames.simps) (simp add: FRAME_HEADER_BYTES_def FRAME_DIGEST_BYTES_def n Let_def not_le del: read_frames.simps)
qed

lemma read_torn_frame:
  assumes digest: "\<And>b. length (blake3 jl b) = 32" and small: "length p + 48 < 2 ^ 64" and torn: "k < length (frame jl p)"
  shows "read_frames jl (take k (frame jl p)) n held = Inr (n, held)"
proof -
  let ?n = "of_nat (length p) :: u64"
  let ?h = "u64_to_le ?n @ u64_to_le (not ?n)"
  have n: "unat ?n = length p" using small unfolding unat_of_nat by (simp add: take_bit_nat_eq_self)
  have f: "frame jl p = ?h @ p @ frame_digest jl ?h p" by (simp add: frame_def Let_def)
  have len: "length (frame jl p) = length p + 48" by (rule frame_length) (simp add: frame_digest_def digest)
  show ?thesis
  proof (cases "k < 16")
    case True
    then have "length (take k (frame jl p)) < FRAME_HEADER_BYTES" by (simp add: FRAME_HEADER_BYTES_def)
    then show ?thesis by (subst read_frames.simps) (simp only: if_True)
  next
    case False
    then obtain rest where rest: "take k (frame jl p) = ?h @ rest" "16 + length rest < length p + 48"
      using torn len f by (auto simp: take_append)
    then show ?thesis
      unfolding rest(1) using small
      by (subst read_frames.simps) (simp add: FRAME_HEADER_BYTES_def FRAME_DIGEST_BYTES_def n Let_def not_le del: read_frames.simps)
  qed
qed

section \<open>Applying deltas\<close>

text \<open>A map as the journal reader keeps it: sorted entries with distinct keys.\<close>

definition tree_map :: "(string \<times> 'v) list \<Rightarrow> bool" where
  "tree_map m \<longleftrightarrow> sorted (map fst m) \<and> distinct (map fst m)"

lemma tree_map_empty [simp]: "tree_map []"
  by (simp add: tree_map_def)

lemma map_of_insort: "k \<notin> fst ` set m \<Longrightarrow> map_of (insort_key fst (k, v) m) = (map_of m)(k \<mapsto> v)"
  by (induction m) (auto simp: fun_upd_twist)

lemma tree_remove_ok: "tree_map m \<Longrightarrow> tree_map (tree_remove k m) \<and> map_of (tree_remove k m) = (map_of m)(k := None)"
proof
  assume m: "tree_map m"
  then show "tree_map (tree_remove k m)"
    by (simp add: tree_map_def tree_remove_def sorted_filter distinct_map_filter)
  show "map_of (tree_remove k m) = (map_of m)(k := None)"
    unfolding tree_remove_def by (induction m) (auto simp: fun_eq_iff)
qed

lemma tree_insert_ok: "tree_map m \<Longrightarrow> tree_map (tree_insert k v m) \<and> map_of (tree_insert k v m) = (map_of m)(k \<mapsto> v)"
proof
  assume "tree_map m"
  note r = tree_remove_ok [OF this, of k]
  have k: "k \<notin> fst ` set (tree_remove k m)" by (auto simp: tree_remove_def)
  have "fst ` set (insort_key fst (k, v) (tree_remove k m)) = insert k (fst ` set (tree_remove k m))"
    by (simp add: set_insort_key)
  moreover have "distinct (map fst (insort_key fst x xs)) \<longleftrightarrow> fst x \<notin> fst ` set xs \<and> distinct (map fst xs)"
    for x :: "string \<times> 'a" and xs
    by (induction xs) (auto simp: set_insort_key)
  ultimately show "tree_map (tree_insert k v m)"
    using r k by (simp add: tree_map_def tree_insert_def sorted_insort_key)
  show "map_of (tree_insert k v m) = (map_of m)(k \<mapsto> v)"
    using map_of_insort [OF k] r by (simp add: tree_insert_def)
qed

lemma apply_changes_meaning:
  "tree_map held \<Longrightarrow> list_all is_txid_key (map (\<lambda>(k, v). map ascii_lower k) cs) \<Longrightarrow> distinct (map (\<lambda>(k, v). map ascii_lower k) cs)
    \<Longrightarrow> set (map (\<lambda>(k, v). map ascii_lower k) cs) \<inter> set seen = {} \<Longrightarrow> (reset \<longrightarrow> list_all (\<lambda>(k, v). v \<noteq> None) cs)
    \<Longrightarrow> \<exists>held'. apply_changes reset cs seen held = Inr held' \<and> tree_map held'
          \<and> map_of held' = foldl (\<lambda>m (k, v). m(map ascii_lower k := v)) (map_of held) cs"
proof (induction cs arbitrary: seen held)
  case (Cons c cs)
  obtain k v where c: "c = (k, v)" by (cases c)
  let ?k = "map ascii_lower k"
  let ?held = "case v of None \<Rightarrow> tree_remove ?k held | Some x \<Rightarrow> tree_insert ?k x held"
  have h: "tree_map ?held" "map_of ?held = (map_of held)(?k := v)"
    using tree_remove_ok [OF Cons.prems(1)] tree_insert_ok [OF Cons.prems(1)] by (auto split: option.splits)
  have "apply_changes reset (c # cs) seen held = apply_changes reset cs (?k # seen) ?held"
    using Cons.prems by (auto simp: c Let_def split: option.splits)
  moreover have "\<exists>held'. apply_changes reset cs (?k # seen) ?held = Inr held' \<and> tree_map held'
      \<and> map_of held' = foldl (\<lambda>m (k, v). m(map ascii_lower k := v)) (map_of ?held) cs"
    by (rule Cons.IH [OF h(1)]) (use Cons.prems in \<open>auto simp: c\<close>)
  moreover have "foldl (\<lambda>m (k, v). m(map ascii_lower k := v)) (map_of held) (c # cs)
      = foldl (\<lambda>m (k, v). m(map ascii_lower k := v)) (map_of ?held) cs"
    by (simp only: c h(2) foldl.simps case_prod_conv)
  ultimately show ?case by (simp only:)
qed simp

lemma apply_delta_meaning:
  assumes "tree_map held" "well_formed_delta d" "first \<Longrightarrow> jd_reset d"
  obtains held' where "apply_delta first d held = Inr held'" "tree_map held'" "map_of held' = delta_meaning (map_of held) d"
proof -
  let ?start = "if jd_reset d then [] else held"
  have start: "tree_map ?start" "map_of ?start = (if jd_reset d then Map.empty else map_of held)" using assms(1) by simp_all
  have "\<exists>held'. apply_changes (jd_reset d) (jd_changes d) [] ?start = Inr held' \<and> tree_map held'
      \<and> map_of held' = foldl (\<lambda>m (k, v). m(map ascii_lower k := v)) (map_of ?start) (jd_changes d)"
    by (rule apply_changes_meaning [OF start(1)]) (use assms(2) in \<open>auto simp: well_formed_delta_def lowered_keys_def\<close>)
  with that start(2) assms(3) show thesis by (auto simp: apply_delta_def delta_meaning_def)
qed

lemma read_frames_meaning:
  assumes digest: "\<And>b. length (blake3 jl b) = 32"
    and tail: "\<And>n held. read_frames jl tail n held = Inr (n, held)"
  shows "list_all2 (\<lambda>p d. delta_from_slice jl p = Inr d \<and> length p + 48 < 2 ^ 64) payloads deltas
    \<Longrightarrow> list_all well_formed_delta deltas \<Longrightarrow> tree_map held \<Longrightarrow> (n = 0 \<longrightarrow> deltas \<noteq> [] \<longrightarrow> jd_reset (hd deltas))
    \<Longrightarrow> \<exists>held'. read_frames jl (concat (map (frame jl) payloads) @ tail) n held = Inr (n + length payloads, held')
          \<and> tree_map held' \<and> map_of held' = foldl delta_meaning (map_of held) deltas"
proof (induction payloads deltas arbitrary: n held rule: list_all2_induct)
  case (Cons p ps d ds)
  obtain held' where h: "apply_delta (n = 0) d held = Inr held'" "tree_map held'" "map_of held' = delta_meaning (map_of held) d"
    by (rule apply_delta_meaning [of held d "n = 0"]) (use Cons.prems in auto)
  have "read_frames jl (concat (map (frame jl) (p # ps)) @ tail) n held
    = read_frames jl (concat (map (frame jl) ps) @ tail) (n + 1) held'"
    using Cons.hyps h(1) by (simp add: read_frame [OF digest] del: read_frames.simps)
  with Cons.IH [OF _ h(2), of "n + 1"] Cons.prems h(3) show ?case by simp
qed (simp add: tail del: read_frames.simps)

text \<open>
  C28. A wallet journal reads back as what was written to it: frame by frame, the deltas leave exactly
  the receipts the file stands for, in the order of their ids, and a last frame that was cut short, at
  whatever byte, counts as not written.
\<close>
theorem journal_reads_what_was_written:
  assumes digest: "\<And>b. length (blake3 jl b) = 32" and wf: "well_formed_journal deltas"
    and frames: "list_all2 (\<lambda>p d. delta_from_slice jl p = Inr d \<and> length p + 48 < 2 ^ 64) payloads deltas"
    and torn: "length q + 48 < 2 ^ 64" "k < length (frame jl q)"
  shows "\<exists>held. parse_journal jl (journal jl payloads @ take k (frame jl q)) = Inr held
    \<and> map_of held = journal_meaning deltas \<and> sorted (map fst held) \<and> distinct (map fst held)"
proof -
  have "\<exists>held'. read_frames jl (concat (map (frame jl) payloads) @ take k (frame jl q)) 0 [] = Inr (0 + length payloads, held')
      \<and> tree_map held' \<and> map_of held' = foldl delta_meaning (map_of []) deltas"
    by (rule read_frames_meaning [OF digest read_torn_frame [OF digest torn] frames])
      (use wf in \<open>simp_all add: well_formed_journal_def\<close>)
  moreover have "payloads \<noteq> []" using wf frames by (auto simp: well_formed_journal_def)
  ultimately show ?thesis
    by (auto simp: parse_journal_def journal_def journal_meaning_def tree_map_def simp del: read_frames.simps)
qed

definition sample_journal_lib :: journal_lib where
  "sample_journal_lib = \<lparr>blake3 = (\<lambda>_. replicate 32 0), delta_from_slice = (\<lambda>p.
     Inr \<lparr>jd_reset = (p = [1]), jd_changes = [(replicate 64 (CHR ''A''), if p = [1] then Some ''ff'' else None)]\<rparr>)\<rparr>"

theorem journal_reads_what_was_written_witness:
  "\<exists>held. parse_journal sample_journal_lib (journal sample_journal_lib [[1], [2]] @ take 20 (frame sample_journal_lib [3])) = Inr held
    \<and> map_of held = Map.empty \<and> sorted (map fst held) \<and> distinct (map fst held)"
proof -
  let ?d = "\<lambda>p. projr (delta_from_slice sample_journal_lib p)"
  have wf: "well_formed_journal [?d [1], ?d [2]]" by code_simp
  have "journal_meaning [?d [1], ?d [2]] = Map.empty"
    by (simp add: journal_meaning_def delta_meaning_def sample_journal_lib_def)
  moreover have "length (frame sample_journal_lib [3]) = 49" by (simp add: frame_def frame_digest_def sample_journal_lib_def Let_def)
  ultimately show ?thesis
    using journal_reads_what_was_written [OF _ wf, of sample_journal_lib "[[1], [2]]" "[3]" 20]
    by (simp add: sample_journal_lib_def)
qed

section \<open>An import run\<close>

lemma import_one_db:
  "fst (import_one c entry d answer now) = c
    \<or> (\<exists>bid. fst (import_one c entry d answer now) = committed c (insert_receipt_transaction c bid (dr_tx d) now))"
proof -
  have "(case insert_receipt_transaction c bid tx now of Inl e \<Rightarrow> (c, Receipt_Rejected e)
      | Inr (c, fresh) \<Rightarrow> (c, if fresh then Receipt_Imported else Already_Imported))
    = (committed c (insert_receipt_transaction c bid tx now),
       case insert_receipt_transaction c bid tx now of Inl e \<Rightarrow> Receipt_Rejected e
       | Inr (_, fresh) \<Rightarrow> if fresh then Receipt_Imported else Already_Imported)" for bid tx
    by (simp split: sum.split prod.split)
  then show ?thesis by (auto simp: import_one_def split: sum.splits option.splits)
qed

definition beside :: "db \<Rightarrow> db \<Rightarrow> bool" where
  "beside c c' \<longleftrightarrow> wf_db c' \<and> evidence_le c c' \<and> figures c' = figures c"

lemma beside_trans: "beside a b \<Longrightarrow> beside b c \<Longrightarrow> beside a c"
  by (auto simp: beside_def intro: evidence_trans)

lemma import_one_beside:
  assumes wf: "wf_db c"
  shows "beside c (fst (import_one c entry d answer now))"
proof -
  have "beside c (committed c (insert_receipt_transaction c bid (dr_tx d) now))" for bid
    using op_insert_receipt_transaction.keeps_wf [OF wf, of "(bid, dr_tx d, now)"]
      op_insert_receipt_transaction.keeps_evidence [OF wf, of "(bid, dr_tx d, now)"]
      receipt_row.same_figures [OF wf, of "(bid, dr_tx d, now)"] by (simp add: beside_def)
  moreover have "beside c c" using wf by (simp add: beside_def evidence_refl)
  ultimately show ?thesis using import_one_db [of c entry d answer now] by auto
qed

lemma import_receipts_step:
  obtains c1 where "fst (import_receipts lib rl verify clk (entry # rest) seen c)
      = fst (import_receipts lib rl verify clk rest (if (re_key entry, re_hex entry) \<in> set seen then seen else (re_key entry, re_hex entry) # seen) c1)"
    "c1 = c \<or> (\<exists>d answer now. c1 = fst (import_one c entry d answer now))"
proof (cases "(re_key entry, re_hex entry) \<in> set seen")
  case True
  then show thesis by (intro that [of c]) (simp_all split: prod.split)
next
  case False
  let ?r = "case decode_receipt lib rl (re_hex entry) of Inl why \<Rightarrow> (c, Receipt_Rejected why)
    | Inr d \<Rightarrow> import_one c entry d (verify entry) (clk entry)"
  have "fst ?r = c \<or> (\<exists>d answer now. fst ?r = fst (import_one c entry d answer now))" by (auto split: sum.split)
  with False show thesis by (intro that [of "fst ?r"]) (simp_all add: Let_def split: prod.split)
qed

text \<open>
  C15. Importing receipts leaves the recorded archive alone: whatever the receipts hold and whatever the
  node answers about them, the run keeps the database invariant and all evidence, and every figure the
  archive reports is the same afterwards.
\<close>
theorem receipt_import_leaves_the_archive_alone:
  assumes "wf_db c"
  shows "wf_db (fst (import_receipts lib rl verify clk entries seen c))
    \<and> evidence_le c (fst (import_receipts lib rl verify clk entries seen c))
    \<and> figures (fst (import_receipts lib rl verify clk entries seen c)) = figures c"
proof -
  have "beside c (fst (import_receipts lib rl verify clk entries seen c))" using assms
  proof (induction entries arbitrary: seen c)
    case (Cons entry rest)
    obtain c1 seen1 where r: "fst (import_receipts lib rl verify clk (entry # rest) seen c) = fst (import_receipts lib rl verify clk rest seen1 c1)"
      "c1 = c \<or> (\<exists>d answer now. c1 = fst (import_one c entry d answer now))"
      by (rule import_receipts_step) blast
    have "beside c c1" using r(2) import_one_beside [OF Cons.prems] Cons.prems by (auto simp: beside_def evidence_refl)
    moreover from this have "beside c1 (fst (import_receipts lib rl verify clk rest seen1 c1))"
      by (intro Cons.IH) (simp add: beside_def)
    ultimately show ?case unfolding r(1) by (rule beside_trans)
  qed (simp add: beside_def evidence_refl)
  then show ?thesis by (simp add: beside_def)
qed

section \<open>Importing the same receipt again\<close>

text \<open>The receipt transaction is on record in a header-only block.\<close>

definition proven_at :: "db \<Rightarrow> int \<Rightarrow> receipt_transaction \<Rightarrow> bool" where
  "proven_at c bid tx \<longleftrightarrow> is_header_only c bid = Inr True \<and> rt_position tx \<noteq> 0 \<and> rt_position tx < rt_tx_count tx
     \<and> map_option b_tx_count_total (block_with_id c bid) = Some (Some (uint (rt_tx_count tx)))
     \<and> map_option (\<lambda>t. (t_txid t, t_source t)) (find (\<lambda>t. t_block_id t = bid \<and> t_position t = uint (rt_position tx)) (transactions c))
         = Some (rt_txid tx, Some RECEIPT_SOURCE)"

lemma proven_again: "proven_at c bid tx \<Longrightarrow> insert_receipt_transaction c bid tx now = Inr (c, False)"
  by (auto simp: proven_at_def insert_receipt_transaction_def not_le Let_def)

lemma store_receipt_blocks:
  assumes "store_receipt_rows c bid tx now = Inr c'"
  shows "block_with_id c' i = map_option (\<lambda>b. if b_id b = bid then b\<lparr>b_tx_count_total := Some (uint (rt_tx_count tx))\<rparr> else b) (block_with_id c i)"
    "status_log c' = status_log c"
    "\<exists>tx_id. transactions c' = transactions c @ [receipt_tx_row tx_id bid tx] \<and> tx_key (receipt_tx_row tx_id bid tx) \<notin> tx_key ` set (transactions c)"
    "blocks c' = update_where (\<lambda>b. b_id b = bid) (\<lambda>b. b\<lparr>b_tx_count_total := Some (uint (rt_tx_count tx))\<rparr>) (blocks c)"
  by (rule store_receipt_rows_Inr [OF assms]; force simp: block_with_id_def find_update_where)+

lemma block_with_id_id: "block_with_id c i = Some b \<Longrightarrow> b_id b = i"
  by (auto simp: block_with_id_def find_Some_iff)

lemma insert_receipt_cases:
  assumes "insert_receipt_transaction c bid tx now = Inr (c', True)"
  obtains b where "block_with_id c bid = Some b" "b_body_source b = Some HEADER_ONLY_SOURCE" "rt_position tx \<noteq> 0"
    "rt_position tx < rt_tx_count tx" "b_tx_count_total b = None \<or> b_tx_count_total b = Some (uint (rt_tx_count tx))"
    "find (\<lambda>t. t_block_id t = bid \<and> t_position t = uint (rt_position tx)) (transactions c) = None"
    "store_receipt_rows c bid tx now = Inr c'"
  using assms
  by (auto simp: insert_receipt_transaction_def and_then_Inr_iff is_header_only_def Let_def not_le
      split: option.splits if_splits)

lemma proven_from_insert:
  assumes "insert_receipt_transaction c bid tx now = Inr (c', True)"
  shows "proven_at c' bid tx"
proof (rule insert_receipt_cases [OF assms])
  fix b assume b: "block_with_id c bid = Some b" "b_body_source b = Some HEADER_ONLY_SOURCE" "rt_position tx \<noteq> 0"
    "rt_position tx < rt_tx_count tx"
    and none: "find (\<lambda>t. t_block_id t = bid \<and> t_position t = uint (rt_position tx)) (transactions c) = None"
    and st: "store_receipt_rows c bid tx now = Inr c'"
  obtain tx_id where "transactions c' = transactions c @ [receipt_tx_row tx_id bid tx]" using store_receipt_blocks(3) [OF st] by blast
  then have "find (\<lambda>t. t_block_id t = bid \<and> t_position t = uint (rt_position tx)) (transactions c') = Some (receipt_tx_row tx_id bid tx)"
    by (simp add: find_append none receipt_tx_row_def)
  then show ?thesis
    using b block_with_id_id [OF b(1)] by (simp add: proven_at_def is_header_only_def store_receipt_blocks(1) [OF st] receipt_tx_row_def)
qed

lemma proven_stays:
  assumes p: "proven_at c bid tx" and i: "insert_receipt_transaction c bid' tx' now = Inr (c', fresh)"
  shows "proven_at c' bid tx"
proof (cases fresh)
  case True
  with i have "insert_receipt_transaction c bid' tx' now = Inr (c', True)" by simp
  then show ?thesis
  proof (rule insert_receipt_cases)
    fix b' assume b': "block_with_id c bid' = Some b'" "b_tx_count_total b' = None \<or> b_tx_count_total b' = Some (uint (rt_tx_count tx'))"
      and st: "store_receipt_rows c bid' tx' now = Inr c'"
    obtain b t where b: "block_with_id c bid = Some b" "b_body_source b = Some HEADER_ONLY_SOURCE"
        "b_tx_count_total b = Some (uint (rt_tx_count tx))"
      and t: "find (\<lambda>t. t_block_id t = bid \<and> t_position t = uint (rt_position tx)) (transactions c) = Some t"
        "t_txid t = rt_txid tx" "t_source t = Some RECEIPT_SOURCE"
      using p by (auto simp: proven_at_def is_header_only_def split: option.splits)
    obtain tx_id where "transactions c' = transactions c @ [receipt_tx_row tx_id bid' tx']" using store_receipt_blocks(3) [OF st] by blast
    then have "find (\<lambda>t. t_block_id t = bid \<and> t_position t = uint (rt_position tx)) (transactions c') = Some t"
      by (simp add: find_append t(1))
    moreover have "bid' = bid \<Longrightarrow> uint (rt_tx_count tx') = uint (rt_tx_count tx)" using b' b by auto
    ultimately show ?thesis
      using p b t block_with_id_id [OF b(1)] by (auto simp: proven_at_def is_header_only_def store_receipt_blocks(1) [OF st])
  qed
next
  case False
  with p insert_receipt_transaction_Inr [OF i] show ?thesis by simp
qed

text \<open>The canonical block at a height is read without the transaction count.\<close>

lemma latest_map: "latest key (map h xs) = map_option h (latest (\<lambda>x. key (h x)) xs)"
  by (induction xs) (auto split: option.splits)

lemma find_map_same: "(\<And>x. P (g x) = P x) \<Longrightarrow> find P (map g xs) = map_option g (find P xs)"
  by (induction xs) auto

lemma canonical_block_same:
  assumes rows: "blocks c' = map g (blocks c)" and log: "status_log c' = status_log c"
    and g: "\<And>b. b_id (g b) = b_id b \<and> b_height (g b) = b_height b \<and> b_hash (g b) = b_hash b \<and> b_tx_root (g b) = b_tx_root b
      \<and> b_timestamp (g b) = b_timestamp b \<and> b_body_captured (g b) = b_body_captured b \<and> b_body_source (g b) = b_body_source b"
  shows "canonical_block_at c' h = canonical_block_at c h"
proof -
  have "statuses_of c' = statuses_of c" by (simp add: fun_eq_iff statuses_of_def log)
  then have "canonical_candidates c' h = map (\<lambda>(b, s). (g b, s)) (canonical_candidates c h)"
    by (simp add: canonical_candidates_def rows filter_map o_def g map_concat split_def)
  then have "canonical_hash_at c' h = canonical_hash_at c h"
    by (simp add: canonical_hash_at_def latest_map option.map_comp o_def split_def g)
  moreover have "block_with_id c' i = map_option g (block_with_id c i)" for i
    unfolding block_with_id_def rows by (rule find_map_same) (simp add: g)
  ultimately show ?thesis
    by (simp add: canonical_block_at_def option.map_comp o_def g split: option.split)
qed

lemma receipt_canonical_block:
  assumes "insert_receipt_transaction c bid tx now = Inr (c', fresh)"
  shows "canonical_block_at c' h = canonical_block_at c h"
proof (cases fresh)
  case True
  then have st: "store_receipt_rows c bid tx now = Inr c'" using insert_receipt_transaction_Inr [OF assms] by simp
  show ?thesis
    by (rule canonical_block_same [OF store_receipt_blocks(4) [OF st, unfolded update_where_def] store_receipt_blocks(2) [OF st]]) simp
qed (use insert_receipt_transaction_Inr [OF assms] in simp)

text \<open>Everything an import run leaves as it was for a receipt on record.\<close>

definition still_proven :: "db \<Rightarrow> db \<Rightarrow> bool" where
  "still_proven c c' \<longleftrightarrow> canonical_block_at c' = canonical_block_at c \<and> (\<forall>bid tx. proven_at c bid tx \<longrightarrow> proven_at c' bid tx)"

lemma still_proven_refl: "still_proven c c"
  by (simp add: still_proven_def)

lemma still_proven_trans: "still_proven a b \<Longrightarrow> still_proven b c \<Longrightarrow> still_proven a c"
  by (auto simp: still_proven_def)

lemma import_one_still: "still_proven c (fst (import_one c entry d answer now))"
proof -
  have "still_proven c (committed c (insert_receipt_transaction c bid (dr_tx d) now))" for bid
  proof (cases "insert_receipt_transaction c bid (dr_tx d) now")
    case (Inr r)
    then show ?thesis
      using receipt_canonical_block proven_stays by (cases r) (fastforce simp: still_proven_def fun_eq_iff)
  qed (simp add: still_proven_refl)
  then show ?thesis using import_one_db [of c entry d answer now] still_proven_refl by auto
qed

lemma import_receipts_still: "still_proven c (fst (import_receipts lib rl verify clk entries seen c))"
proof (induction entries arbitrary: seen c)
  case (Cons entry rest)
  obtain c1 seen1 where r: "fst (import_receipts lib rl verify clk (entry # rest) seen c) = fst (import_receipts lib rl verify clk rest seen1 c1)"
    "c1 = c \<or> (\<exists>d answer now. c1 = fst (import_one c entry d answer now))"
    by (rule import_receipts_step) blast
  have "still_proven c c1" using r(2) import_one_still still_proven_refl by auto
  from still_proven_trans [OF this Cons.IH] show ?case unfolding r(1) .
qed (simp add: still_proven_refl)

text \<open>
  C16. Importing the same receipt again changes nothing: once a receipt was imported, and whatever
  other receipts are imported after it, the next import of it finds it on record and writes nothing.
\<close>
theorem imported_receipt_stays_on_record:
  assumes one: "import_one c entry d answer now = (c1, Receipt_Imported)"
    and run: "import_receipts lib rl verify clk entries seen c1 = (c2, results)"
  shows "import_one c2 entry d answer later = (c2, Already_Imported)"
proof -
  obtain verdict block where v: "re_key entry = None \<or> re_key entry = Some (rt_txid (dr_tx d))" "answer = Inr verdict"
    "rv_merkle_valid verdict" "rv_canonical verdict = Some True" "rv_summary verdict = Some (dr_summary d)"
    "canonical_block_at c (dr_height d) = Some block" "cb_header_only block" "cb_tx_root block = dr_tx_root d"
    "cb_timestamp block = dr_timestamp d" "insert_receipt_transaction c (cb_id block) (dr_tx d) now = Inr (c1, True)"
    using one by (auto simp: import_one_def split: if_splits sum.splits option.splits prod.splits)
  have still: "still_proven c1 c2" using import_receipts_still [of c1 lib rl verify clk entries seen] by (simp add: run)
  then have "proven_at c2 (cb_id block) (dr_tx d)" using proven_from_insert [OF v(10)] by (simp add: still_proven_def)
  moreover have "canonical_block_at c2 (dr_height d) = Some block"
    using still v(6) receipt_canonical_block [OF v(10)] by (simp add: still_proven_def)
  ultimately show ?thesis using v by (auto simp: import_one_def proven_again)
qed

text \<open>A receipt for the header-only block at height 4 and a node that confirms it.\<close>

definition sample_facts :: spend_facts where
  "sample_facts = \<lparr>sf_logical_txid = [100], sf_input_owner = [110], sf_fee = 10, sf_epoch_anchor = [101], sf_input_sum = 50, sf_output_sum = 40\<rparr>"

definition sample_receipt_page :: receipt_page where
  "sample_receipt_page = \<lparr>rp_page_hash = [100], rp_validity_bitmap = 0,
     rp_live_inputs = [(0, \<lparr>ci_slot_index = 3, ci_amount = 50, ci_creation_id = 9\<rparr>)],
     rp_live_outputs = [(0, \<lparr>co_slot_index = 8, co_amount = 40, co_owner = [111]\<rparr>)]\<rparr>"

definition sample_paranoid_receipt :: paranoid_receipt where
  "sample_paranoid_receipt = \<lparr>pr_claimed_height = 4, pr_claimed_root = [120], pr_tx_index = 1, pr_tx_count = 2, pr_paged_spend = [1],
     pr_summary = \<lparr>rs_logical_txid = [100], rs_confirmed_unix = 70, rs_fee = 10, rs_inputs = [(3, [110])], rs_outputs = [(8, 40, [111])]\<rparr>\<rparr>"

definition sample_receipt_lib :: receipt_lib where
  "sample_receipt_lib = \<lparr>receipt_hex = (\<lambda>s. Some [1]), receipt_from_bytes = (\<lambda>b. Inr sample_paranoid_receipt),
     receipt_to_bytes = (\<lambda>r. [1]), verify_merkle_inclusion = (\<lambda>r. True), intent_pages = (\<lambda>b. Inr [sample_receipt_page]),
     validate_paged_spend = (\<lambda>p. Inr sample_facts)\<rparr>"

definition sample_decoded :: decoded_receipt where
  "sample_decoded = projr (decode_receipt sample_lib sample_receipt_lib ''01'')"

definition sample_entry :: receipt_entry where
  "sample_entry = \<lparr>re_origin = ''wallet'', re_key = None, re_hex = ''01''\<rparr>"

definition sample_verdict :: "receipt_verdict result" where
  "sample_verdict = Inr \<lparr>rv_merkle_valid = True, rv_canonical = Some True, rv_error = None, rv_summary = Some (dr_summary sample_decoded)\<rparr>"

definition sample_imported :: db where
  "sample_imported = fst (import_one sample_below sample_entry sample_decoded sample_verdict ''t3'')"

definition sample_after :: db where
  "sample_after = fst (import_receipts sample_lib sample_receipt_lib (\<lambda>e. sample_verdict) (\<lambda>e. ''t4'') [sample_entry, sample_entry] [] sample_imported)"

theorem receipt_import_leaves_the_archive_alone_witness:
  "figures (fst (import_receipts sample_lib sample_receipt_lib (\<lambda>e. sample_verdict) (\<lambda>e. ''t4'') [sample_entry] [] sample_below))
    = figures sample_below"
  using receipt_import_leaves_the_archive_alone [OF wf_below] by blast

theorem imported_receipt_stays_on_record_witness:
  "import_one sample_after sample_entry sample_decoded sample_verdict ''t5'' = (sample_after, Already_Imported)"
proof -
  have "snd (import_one sample_below sample_entry sample_decoded sample_verdict ''t3'') = Receipt_Imported" by code_simp
  then have "import_one sample_below sample_entry sample_decoded sample_verdict ''t3'' = (sample_imported, Receipt_Imported)"
    by (simp add: sample_imported_def prod_eq_iff)
  then show ?thesis
    unfolding sample_after_def by (rule imported_receipt_stays_on_record [OF _ prod.collapse [symmetric]])
qed

end
