(* ===== verification/Run.thy ===== *)
theory Run
  imports Cycle Fill_Gaps Receipt_Import
begin

text \<open>
  The process of \<^verbatim>\<open>permanode/src/indexer.rs\<close> as a whole: the configuration, the main loop with its
  cadences, a round of the peer thread, and the transactions of all threads as one step relation over
  the database. Whatever the threads do is a run of these steps, so what every step keeps holds however
  the threads are interleaved.
\<close>

section \<open>The configuration\<close>

record indexer_config = config +
  rpc_url :: string
  db_path :: string
  poll_interval_seconds :: u64
  retention_days :: u64
  prune_every_cycles :: u64
  refresh_addresses_every_cycles :: u64
  scan_slots_every_cycles :: u64
  state_scan_max_per_second :: u64
  header_backfill_per_second :: u64
  tip_watch_ms :: u64
  listen :: string
  site_dir :: "string option"
  donation_address :: "string option"
  peer_listen :: "string option"
  backfill_peers :: "string list"
  peer_backfill_interval_seconds :: u64

definition default_indexer_config :: indexer_config where
  "default_indexer_config = config.extend default_config
     (indexer_config.fields ''http://127.0.0.1:9601'' ''permanode.sqlite3'' 5 0 720 120 360 500 50 1000
       ''127.0.0.1:8420'' None None None [] 300)"

section \<open>A round of the peer thread\<close>

definition PEER_BACKFILL_BATCH :: nat where "PEER_BACKFILL_BATCH = 500"

text \<open>An error ends the round; what was committed before it stays.\<close>

definition peer_round :: "tree_lib \<Rightarrow> chain_lib \<Rightarrow> (string \<times> peer) list \<Rightarrow> bool \<Rightarrow> (u64 \<Rightarrow> string) \<Rightarrow> string \<Rightarrow> db
    \<Rightarrow> db \<times> (import_report \<times> raw_report option \<times> nat \<times> nat) result" where
  "peer_round tree lib peers keep clk now c =
     (case fill_from_peers tree lib peers PEER_BACKFILL_BATCH keep clk now c of
        (c, _, Inl e) \<Rightarrow> (c, Inl e)
      | (c, _, Inr filled) \<Rightarrow>
         (case (if keep
                then case fill_raw_from_peers lib peers (saturating_sub (processed_height c) GETBLOCK_SERVING_WINDOW)
                            (of_nat PEER_BACKFILL_BATCH) clk c of
                       (c, _, Inl e) \<Rightarrow> (c, Inl e)
                     | (c, _, Inr raw) \<Rightarrow> (c, Inr (Some raw))
                else (c, Inr None)) of
            (c, Inl e) \<Rightarrow> (c, Inl e)
          | (c, Inr raw) \<Rightarrow>
             (case fill_seen_from_peers (map snd peers) (seen_fill_tip c) c 0 of
                (c, Inl e) \<Rightarrow> (c, Inl e)
              | (c, Inr seen) \<Rightarrow>
                 (case fill_proof_from_peers (map snd peers) V2_ACTIVATION_HEIGHT c 0 of
                    (c, Inl e) \<Rightarrow> (c, Inl e)
                  | (c, Inr proof) \<Rightarrow> (c, Inr (filled, raw, seen, proof))))))"

section \<open>The main loop\<close>

text \<open>
  \<open>cycles % every\<close> panics for \<open>every = 0\<close>, which is \<open>None\<close>. The cutoff is computed in \<open>i64\<close>, with the
  wrap-around of a release build.
\<close>

definition due :: "u64 \<Rightarrow> u64 \<Rightarrow> bool option" where
  "due cycles every = (if every = 0 then None else Some (cycles mod every = 0))"

definition prune_cutoff :: "int \<Rightarrow> u64 \<Rightarrow> int" where
  "prune_cutoff now days = as_i64 (word_of_int now - days * 86400)"

definition prune_job :: "indexer_config \<Rightarrow> u64 \<Rightarrow> int \<Rightarrow> db \<Rightarrow> db option" where
  "prune_job cfg cycles now c =
     (if 0 < retention_days cfg
      then case due cycles (prune_every_cycles cfg) of
             None \<Rightarrow> None
           | Some d \<Rightarrow> Some (if d then fst (prune_older_than c (prune_cutoff now (retention_days cfg))) else c)
      else Some c)"

definition refresh_job :: "indexer_config \<Rightarrow> u64 \<Rightarrow> node \<Rightarrow> string \<Rightarrow> db \<Rightarrow> db option" where
  "refresh_job cfg cycles rpc now c =
     (case if cycles = 1 then Some True else due cycles (refresh_addresses_every_cycles cfg) of
        None \<Rightarrow> None
      | Some d \<Rightarrow> Some (if d then fst (refresh_known_address_balances rpc c now) else c))"

definition sweep_due :: "indexer_config \<Rightarrow> u64 \<Rightarrow> bool" where
  "sweep_due cfg cycles =
     (0 < scan_slots_every_cycles cfg \<and> (cycles = 1 \<or> cycles mod scan_slots_every_cycles cfg = 0))"

text \<open>
  The state of the process: the database, the cycle count, the flag that guards the sweep, the sweep
  threads running, the sightings waiting to be written, and whether the main thread has panicked.
\<close>

record indexer =
  ix_db :: db
  ix_cycles :: u64
  ix_sweep_flag :: bool
  ix_sweeps :: nat
  ix_sightings :: "(u64 \<times> string \<times> int) list"
  ix_panicked :: bool

record observed =
  ob_rpc :: node
  ob_clock :: clock
  ob_now_ms :: int
  ob_now :: int
  ob_refreshed :: string

definition start_indexer :: "db \<Rightarrow> string \<Rightarrow> indexer" where
  "start_indexer c now = \<lparr>ix_db = fst (resolve_gaps_with_bodies c now), ix_cycles = 0, ix_sweep_flag = False,
     ix_sweeps = 0, ix_sightings = [], ix_panicked = False\<rparr>"

text \<open>A poll, whose error is only logged, and the sightings of the blocks it recorded.\<close>

definition poll_and_note :: "chain_lib \<Rightarrow> indexer_config \<Rightarrow> observed \<Rightarrow> indexer \<Rightarrow> indexer" where
  "poll_and_note lib cfg w s =
     (let c = fst (poll_once lib (ix_db s) (ob_rpc w) (config.truncate cfg) (ob_clock w))
      in case note_sightings c (ob_now_ms w) (ix_sightings s) of
           (c, waiting) \<Rightarrow> s\<lparr>ix_db := c, ix_sightings := waiting\<rparr>)"

definition trigger_sweep :: "indexer_config \<Rightarrow> indexer \<Rightarrow> indexer" where
  "trigger_sweep cfg s =
     (if sweep_due cfg (ix_cycles s) \<and> \<not> ix_sweep_flag s
      then s\<lparr>ix_sweep_flag := True, ix_sweeps := ix_sweeps s + 1\<rparr> else s)"

definition main_cycle :: "chain_lib \<Rightarrow> indexer_config \<Rightarrow> observed \<Rightarrow> indexer \<Rightarrow> indexer" where
  "main_cycle lib cfg w s =
     (let s = poll_and_note lib cfg w s;
          s = s\<lparr>ix_cycles := ix_cycles s + 1\<rparr>
      in case prune_job cfg (ix_cycles s) (ob_now w) (ix_db s) of
           None \<Rightarrow> s\<lparr>ix_panicked := True\<rparr>
         | Some c \<Rightarrow>
             (case refresh_job cfg (ix_cycles s) (ob_rpc w) (ob_refreshed w) c of
                None \<Rightarrow> s\<lparr>ix_db := c, ix_panicked := True\<rparr>
              | Some c \<Rightarrow> trigger_sweep cfg (s\<lparr>ix_db := c\<rparr>)))"

section \<open>The transactions of all threads\<close>

text \<open>
  One write of one thread. The node, the peers and the clock may answer anything at every step; the
  indexer is only assumed not to be served details for a block it holds as a bare header.
\<close>

inductive step :: "chain_lib \<Rightarrow> tree_lib \<Rightarrow> config \<Rightarrow> db \<Rightarrow> db \<Rightarrow> bool" for lib tree cfg where
  ingest: "above_headers rpc c \<Longrightarrow> ingest_height lib c rpc cfg h now = Inr (c', x) \<Longrightarrow> step lib tree cfg c c'"
| cursor: "step lib tree cfg c (set_state c LAST_PROCESSED (u64_to_string h))"
| recheck: "above_headers rpc c \<Longrightarrow> recheck_height lib c rpc cfg h t1 t2 = Inr c' \<Longrightarrow> step lib tree cfg c c'"
| backfill: "step lib tree cfg c (backfill_gap lib c rpc cfg h now)"
| raw: "step lib tree cfg c (keep_raw lib c cfg h hash bytes ''node'' now)"
| sighting: "step lib tree cfg c (fst (set_tip_seen c h hash at))"
| prune: "step lib tree cfg c (fst (prune_older_than c cutoff))"
| cached: "step lib tree cfg c (cache_balances entries now c)"
| header_rows: "header_batch src c height e now = Inr (c', e') \<Longrightarrow> step lib tree cfg c c'"
| headers_done: "step lib tree cfg c (set_state c HEADER_BACKFILL_KEY ''done'')"
| swept: "read_segment ask pause (slot_range (segment * sz) ((segment + 1) * sz)) = Inr live \<Longrightarrow>
    sweep_segment c segment sz height live now = Inr c' \<Longrightarrow> step lib tree cfg c c'"
| swept_balances: "step lib tree cfg c (fst (sweep_balances c now))"
| swept_zero: "step lib tree cfg c (fst (zero_balance_cache_except c shown now))"
| gap: "source \<in> {''import'', ''peer''} \<Longrightarrow>
    fill_gap tree lib source resolution keep (\<lambda>u _ _. (u, offered)) now h c () = ((), Inr (c', out)) \<Longrightarrow> step lib tree cfg c c'"
| spent_flags: "step lib tree cfg c (fst (clear_spent_in_gap_with_recorded_spend c))"
| closed_gaps: "step lib tree cfg c (fst (resolve_gaps_with_bodies c now))"
| raw_import: "verify_raw lib bytes h hash = Inr u \<Longrightarrow> store_raw lib c h hash bytes source now = Inr (c', added) \<Longrightarrow>
    step lib tree cfg c c'"
| peer_seen: "step lib tree cfg c (fst (adopt_tip_seen c h hash at))"
| peer_proof: "step lib tree cfg c (fst (adopt_proof_class c h hash cls))"
| receipt: "step lib tree cfg c (fst (import_one c entry d answer now))"

text \<open>The process: cycles and wake-ups of the main thread, sightings, the other threads, the end of a sweep.\<close>

inductive moves :: "chain_lib \<Rightarrow> tree_lib \<Rightarrow> indexer_config \<Rightarrow> indexer \<Rightarrow> indexer \<Rightarrow> bool" for lib tree cfg where
  cycle: "\<not> ix_panicked s \<Longrightarrow> above_headers (ob_rpc w) (ix_db s) \<Longrightarrow> moves lib tree cfg s (main_cycle lib cfg w s)"
| wake: "\<not> ix_panicked s \<Longrightarrow> above_headers (ob_rpc w) (ix_db s) \<Longrightarrow> moves lib tree cfg s (poll_and_note lib cfg w s)"
| sighted: "moves lib tree cfg s (s\<lparr>ix_sightings := ix_sightings s @ fresh\<rparr>)"
| thread: "step lib tree (config.truncate cfg) (ix_db s) c' \<Longrightarrow> moves lib tree cfg s (s\<lparr>ix_db := c'\<rparr>)"
| sweep_over: "0 < ix_sweeps s \<Longrightarrow> moves lib tree cfg s (s\<lparr>ix_sweep_flag := False, ix_sweeps := ix_sweeps s - 1\<rparr>)"

section \<open>Every step keeps the archive\<close>

lemma step_ok_keeps: "step_ok c c' \<Longrightarrow> wf_db c' \<and> evidence_le c c'"
  by (simp add: step_ok_def)

lemma sightings_keep:
  "wf_db c \<Longrightarrow> wf_db (fst (set_tip_seen c h hash at)) \<and> evidence_le c (fst (set_tip_seen c h hash at))"
  using op_set_tip_seen.keeps_wf [of c "(h, hash, at)"] op_set_tip_seen.keeps_evidence [of c "(h, hash, at)"] by simp

lemma adopt_keeps:
  "wf_db c \<Longrightarrow> wf_db (fst (adopt_tip_seen c h hash at)) \<and> evidence_le c (fst (adopt_tip_seen c h hash at))"
  "wf_db c \<Longrightarrow> wf_db (fst (adopt_proof_class c h hash cls)) \<and> evidence_le c (fst (adopt_proof_class c h hash cls))"
  using op_adopt_tip_seen.keeps_wf [of c "(h, hash, at)"] op_adopt_tip_seen.keeps_evidence [of c "(h, hash, at)"]
    op_adopt_proof_class.keeps_wf [of c "(h, hash, cls)"] op_adopt_proof_class.keeps_evidence [of c "(h, hash, cls)"]
  by simp_all

lemma store_raw_keeps:
  "wf_db c \<Longrightarrow> store_raw lib c h hash bytes src now = Inr (c', added) \<Longrightarrow> wf_db c' \<and> evidence_le c c'"
  using b_store_raw.ok [of c "(lib, h, hash, bytes, src, now)"] by (simp add: committed_def step_ok_def)

lemma kept_keeps: "kept c c' \<Longrightarrow> wf_db c' \<and> evidence_le c c'"
  by (simp add: kept_def)

lemma repairs_keep:
  "wf_db c \<Longrightarrow> wf_db (fst (prune_older_than c cutoff)) \<and> evidence_le c (fst (prune_older_than c cutoff))"
  "wf_db c \<Longrightarrow> wf_db (fst (clear_spent_in_gap_with_recorded_spend c)) \<and> evidence_le c (fst (clear_spent_in_gap_with_recorded_spend c))"
  "wf_db c \<Longrightarrow> wf_db (fst (resolve_gaps_with_bodies c now)) \<and> evidence_le c (fst (resolve_gaps_with_bodies c now))"
  by (simp_all add: op_prune.keeps_wf op_prune.keeps_evidence op_clear_spent_in_gap.keeps_wf
      op_clear_spent_in_gap.keeps_evidence op_resolve_gaps_with_bodies.keeps_wf op_resolve_gaps_with_bodies.keeps_evidence)

lemma step_keeps: "step lib tree cfg c c' \<Longrightarrow> wf_db c \<Longrightarrow> wf_db c' \<and> evidence_le c c'"
proof (induction rule: step.induct)
  case (ingest rpc c h now c' x)
  then show ?case by (intro step_ok_keeps ingest_ok)
next
  case (cursor c h)
  then show ?case by (intro kept_keeps kept_set_state)
next
  case (recheck rpc c h t1 t2 c')
  show ?case by (rule step_ok_keeps, rule recheck_ok [OF recheck.prems recheck(2)])
    (use recheck(1) in \<open>simp add: above_headers_def\<close>)
next
  case (backfill c h now)
  then show ?case by (intro step_ok_keeps backfill_ok)
next
  case (raw c h hash bytes now)
  then show ?case by (intro step_ok_keeps keep_raw_ok)
next
  case (header_rows src c height e now c' e')
  then show ?case by (intro kept_keeps kept_batch)
next
  case (headers_done c)
  then show ?case by (intro kept_keeps kept_set_state)
next
  case (swept ask pause segment sz live c height now c')
  then show ?case using swept_segment by blast
next
  case (gap source resolution keep offered now h c c' out)
  have "source \<noteq> HEADER_ONLY_SOURCE" using gap(1) by (auto simp: HEADER_ONLY_SOURCE_def)
  then show ?case by (intro step_ok_keeps fill_gap_ok [OF gap.prems _ gap(2)])
next
  case (raw_import bytes h hash u c source now c' added)
  then show ?case by (intro store_raw_keeps)
next
  case (receipt c entry d answer now)
  then show ?case using import_one_beside [of c entry d answer now] by (simp add: beside_def)
qed (rule sightings_keep repairs_keep adopt_keeps cache_balances_keep sweep_balances_keep zero_balance_keep; assumption)+

lemma steps_keep: "(step lib tree cfg)\<^sup>*\<^sup>* c c' \<Longrightarrow> wf_db c \<Longrightarrow> wf_db c' \<and> evidence_le c c'"
  by (induction rule: rtranclp_induct) (auto dest: step_keeps intro: evidence_trans)

section \<open>Every thread is a run of steps\<close>

abbreviation runs :: "chain_lib \<Rightarrow> tree_lib \<Rightarrow> config \<Rightarrow> db \<Rightarrow> db \<Rightarrow> bool" where
  "runs lib tree cfg \<equiv> (step lib tree cfg)\<^sup>*\<^sup>*"

lemmas run_step = r_into_rtranclp [of "step lib tree cfg" for lib tree cfg]

lemma foldl_runs: "(\<And>c x. runs lib tree cfg c (f c x)) \<Longrightarrow> runs lib tree cfg c (foldl f c xs)"
  by (induction xs arbitrary: c) (auto intro: rtranclp_trans)

lemma note_sightings_runs: "runs lib tree cfg c (fst (note_sightings c now_ms xs))"
proof (induction c now_ms xs rule: note_sightings.induct)
  case (2 c now_ms h hash at xs)
  obtain c1 noted where n: "set_tip_seen c h hash at = (c1, noted)" by fastforce
  have "step lib tree cfg c c1" using step.sighting [of lib tree cfg c h hash at] by (simp add: n)
  moreover have "runs lib tree cfg c1 (fst (note_sightings c1 now_ms xs))" using 2 [OF n [symmetric]] by (cases noted) simp_all
  ultimately show ?case by (cases noted) (auto simp: n split: prod.splits intro: converse_rtranclp_into_rtranclp)
qed simp

lemma ingest_loop_runs:
  "wf_db c \<Longrightarrow> above_headers rpc c \<Longrightarrow> runs lib tree cfg c (fst (ingest_loop lib rpc cfg clk hs c))"
proof (induction hs arbitrary: c)
  case (Cons h hs)
  show ?case
  proof (cases "ingest_height lib c rpc cfg h (ingest_at clk h)")
    case (Inr r)
    obtain c1 x where r: "r = (c1, x)" by (cases r)
    note i = Inr [unfolded r]
    have s: "step_ok c c1" by (rule ingest_ok [OF Cons.prems i])
    let ?c2 = "set_state c1 LAST_PROCESSED (u64_to_string h)"
    have "step_ok c1 ?c2" using b_set_state.ok [OF step_ok_wf [OF s], of "(LAST_PROCESSED, u64_to_string h)"] by simp
    with s have s2: "step_ok c ?c2" by (rule step_ok_trans)
    have one: "runs lib tree cfg c c1" by (rule run_step, rule step.ingest [OF Cons.prems(2) i])
    also have "runs lib tree cfg c1 ?c2" by (rule run_step, rule step.cursor)
    also have "runs lib tree cfg ?c2 (fst (ingest_loop lib rpc cfg clk hs ?c2))"
      by (rule Cons.IH [OF step_ok_wf [OF s2] above_headers_step [OF Cons.prems(2) s2]])
    finally show ?thesis using one Inr r by (cases x) simp_all
  qed simp
qed simp

lemma recheck_loop_runs:
  "wf_db c \<Longrightarrow> above_headers rpc c \<Longrightarrow> runs lib tree cfg c (fst (recheck_loop lib rpc cfg clk hs c))"
proof (induction hs arbitrary: c)
  case (Cons h hs)
  show ?case
  proof (cases "recheck_height lib c rpc cfg h (orphan_at clk h) (replace_at clk h)")
    case (Inr c1)
    have s: "step_ok c c1" using recheck_ok [OF Cons.prems(1) Inr] Cons.prems(2) by (simp add: above_headers_def)
    have "runs lib tree cfg c c1" by (rule run_step, rule step.recheck [OF Cons.prems(2) Inr])
    also have "runs lib tree cfg c1 (fst (recheck_loop lib rpc cfg clk hs c1))"
      by (rule Cons.IH [OF step_ok_wf [OF s] above_headers_step [OF Cons.prems(2) s]])
    finally show ?thesis using Inr by simp
  qed simp
qed simp

lemma phases_run:
  "runs lib tree cfg c (backfill_phase lib rpc cfg clk tip c)" "runs lib tree cfg c (raw_phase lib rpc cfg clk tip c)"
proof -
  have "runs lib tree cfg c (backfill_gap lib c rpc cfg h now)" "runs lib tree cfg c (keep_raw lib c cfg h hash bytes ''node'' now)"
    for c h hash bytes now by (rule run_step, rule step.backfill, rule run_step, rule step.raw)
  then show "runs lib tree cfg c (backfill_phase lib rpc cfg clk tip c)" "runs lib tree cfg c (raw_phase lib rpc cfg clk tip c)"
    by (auto simp: backfill_phase_def raw_phase_def split: option.splits intro!: foldl_runs)
qed

lemma poll_once_runs:
  assumes wf: "wf_db c" and up: "above_headers rpc c"
  shows "runs lib tree cfg c (fst (poll_once lib c rpc cfg clk))"
proof (cases "block_count rpc")
  case (Inr tip)
  obtain c1 e1 where i: "ingest_loop lib rpc cfg clk (heights (last_processed c rpc tip + 1) tip) c = (c1, e1)" by fastforce
  obtain c2 e2 where q: "recheck_loop lib rpc cfg clk (heights (saturating_sub tip (reorg_check_depth cfg)) tip) c1 = (c2, e2)"
    by fastforce
  have s1: "step_ok c c1" using ingest_loop_ok [OF wf up, of lib cfg clk] by (metis i fst_conv)
  have r1: "runs lib tree cfg c c1" using ingest_loop_runs [OF wf up, of lib tree cfg clk] by (metis i fst_conv)
  also have r2: "runs lib tree cfg c1 c2"
    using recheck_loop_runs [OF step_ok_wf [OF s1] above_headers_step [OF up s1], of lib tree cfg clk] by (metis q fst_conv)
  finally have r12: "runs lib tree cfg c c2" .
  also have "runs lib tree cfg c2 (raw_phase lib rpc cfg clk tip (backfill_phase lib rpc cfg clk tip c2))"
    by (rule rtranclp_trans [OF phases_run])
  finally show ?thesis using r1 r12 by (cases e1; cases e2) (simp_all add: poll_once_def Inr i q)
qed (simp add: poll_once_def)

lemma header_loop_runs: "runs lib tree cfg c (fst (header_loop src depth clk tips c height e))"
proof (induction tips arbitrary: c height e)
  case (Cons tip tips)
  show ?case
  proof (cases "header_batch src c height e (clk height)")
    case (Inr r)
    obtain c1 e1 where r: "r = (c1, e1)" by (cases r)
    have "step lib tree cfg c c1" by (rule step.header_rows [OF Inr [unfolded r]])
    with Cons show ?thesis by (auto simp: Inr r intro: converse_rtranclp_into_rtranclp)
  qed (simp add: Cons)
qed simp

lemma backfill_headers_runs: "runs lib tree cfg c (fst (backfill_headers src depth clk tips c))"
  by (auto simp: backfill_headers_def Let_def header_loop_runs split: option.splits
      intro!: run_step step.headers_done)

lemma refresh_runs: "runs lib tree cfg c (fst (refresh_known_address_balances rpc c now))"
  by (simp add: refresh_known_address_balances_def Let_def run_step step.cached)

lemma sweep_segments_runs:
  assumes others: "\<And>s c. runs lib tree cfg c (sw_meanwhile w s c)"
  shows "runs lib tree cfg c (fst (sweep_segments w sz segs c))"
proof (induction segs arbitrary: c)
  case (Cons segment segs)
  let ?c1 = "sw_meanwhile w segment c"
  let ?read = "read_segment (sw_slot w) (sw_pause w) (slot_range (segment * sz) ((segment + 1) * sz))"
  show ?case
  proof (cases "sw_start w segment")
    case (Inr h)
    note start = Inr
    show ?thesis
    proof (cases ?read)
      case (Inr live)
      note r = Inr
      show ?thesis
      proof (cases "sweep_segment ?c1 segment sz h live (sw_clock w segment)")
        case (Inr c2)
        have "runs lib tree cfg ?c1 c2" by (rule run_step, rule step.swept [OF r Inr])
        from rtranclp_trans [OF others rtranclp_trans [OF this Cons.IH]] show ?thesis by (simp add: start r Inr)
      qed (simp add: start r others)
    qed (simp add: start others)
  qed simp
qed simp

lemma scan_runs:
  assumes others: "\<And>s c. runs lib tree cfg c (sw_meanwhile w s c)"
  shows "runs lib tree cfg c (fst (scan_live_state w c))"
proof -
  have segs: "runs lib tree cfg c c'" if "sweep_segments w sz segs c = (c', out)" for sz segs c' out
    using sweep_segments_runs [OF others, of c sz segs] by (simp add: that)
  have ended: "runs lib tree cfg c c'" if "sweep_balances c1 now = (c', entries)" "runs lib tree cfg c c1" for c1 now c' entries
    using step.swept_balances [of lib tree cfg c1 now] that by (auto intro: rtranclp.rtrancl_into_rtrancl)
  have zeroed: "runs lib tree cfg c (fst (zero_balance_cache_except c1 shown now))" if "runs lib tree cfg c c1" for c1 shown now
    using that step.swept_zero by (rule rtranclp.rtrancl_into_rtrancl)
  show ?thesis
    unfolding scan_live_state_def
    by (auto dest!: segs ended intro: zeroed split: option.splits sum.splits prod.splits)
qed

lemma fill_gap_stateless:
  assumes "fill_gap tree lib source resolution keep find_offer now h c s = (s', r)"
  shows "\<exists>offered. fill_gap tree lib source resolution keep (\<lambda>u _ _. (u, offered)) now h c () = ((), r)"
proof (cases "canonical_hash_at c h")
  case (Some r1)
  obtain bid hash where r1: "r1 = (bid, hash)" by (cases r1)
  show ?thesis using assms
    by (intro exI [of _ "snd (find_offer s h hash)"])
      (auto simp: fill_gap_def Some r1 split: option.splits sum.splits prod.splits)
qed (use assms in \<open>simp add: fill_gap_def\<close>)

lemma fill_gap_loop_runs:
  "source \<in> {''import'', ''peer''} \<Longrightarrow>
     runs lib tree cfg c (fst (fill_gap_loop tree lib source resolution keep find_offer clk hs c s r))"
proof (induction hs arbitrary: c s r)
  case (Cons h hs)
  obtain s' res where f: "fill_gap tree lib source resolution keep find_offer (clk h) h c s = (s', res)" by fastforce
  show ?case
  proof (cases res)
    case (Inr x)
    obtain c' out where x: "x = (c', out)" by (cases x)
    from fill_gap_stateless [OF f] obtain offered where
      "fill_gap tree lib source resolution keep (\<lambda>u _ _. (u, offered)) (clk h) h c () = ((), Inr (c', out))"
      by (auto simp: Inr x)
    then have "step lib tree cfg c c'" by (rule step.gap [OF Cons.prems])
    with Cons.IH [OF Cons.prems] show ?thesis by (simp add: f Inr x converse_rtranclp_into_rtranclp)
  qed (simp add: f)
qed simp

lemma fill_gaps_runs:
  assumes "source \<in> {''import'', ''peer''}"
  shows "runs lib tree cfg c (fst (fill_gaps tree lib limit source resolution keep find_offer clk now c s))"
proof -
  let ?start = "\<lparr>ir_gaps = length (open_gap_heights c 0), ir_imported = 0, ir_not_in_source = 0, ir_rejected = 0, ir_flags_cleared = 0\<rparr>"
  obtain c1 s1 r where l: "fill_gap_loop tree lib source resolution keep find_offer clk (take limit (open_gap_heights c 0)) c s ?start = (c1, s1, r)"
    by (metis prod_cases3)
  have one: "runs lib tree cfg c c1"
    using fill_gap_loop_runs [OF assms, of lib tree cfg c resolution keep find_offer clk "take limit (open_gap_heights c 0)" s ?start]
    by (simp add: l)
  note two = rtranclp.rtrancl_into_rtrancl [OF one step.spent_flags]
  note three = rtranclp.rtrancl_into_rtrancl [OF two step.closed_gaps]
  show ?thesis using one three by (auto simp: fill_gaps_def Let_def l split: sum.splits prod.splits)
qed

lemma fill_raw_loop_runs:
  "runs lib tree cfg c (fst (fill_raw_loop lib source find_raw clk wanted c s r))"
proof (induction wanted arbitrary: c s r)
  case (Cons x wanted)
  obtain h hash where x: "x = (h, hash)" by (cases x)
  obtain s1 out where f: "find_raw s h hash = (s1, out)" by fastforce
  show ?case
  proof (cases "\<exists>bytes u c' added. out = Inr (Some bytes) \<and> verify_raw lib bytes h hash = Inr u
      \<and> store_raw lib c h hash bytes source (clk h) = Inr (c', added)")
    case True
    then obtain bytes u c' added where o: "out = Inr (Some bytes)" and v: "verify_raw lib bytes h hash = Inr u"
      and st: "store_raw lib c h hash bytes source (clk h) = Inr (c', added)" by blast
    have "step lib tree cfg c c'" by (rule step.raw_import [OF v st])
    with Cons.IH show ?thesis by (simp add: x f o v st converse_rtranclp_into_rtranclp)
  next
    case False
    with Cons.IH show ?thesis by (auto simp: x f split: sum.splits option.splits prod.splits)
  qed
qed simp

lemma adopt_seen_runs: "runs lib tree cfg c (fst (adopt_seen rows c n))"
proof (induction rows arbitrary: c n)
  case (Cons x rows)
  obtain h hash at where x: "x = (h, hash, at)" by (cases x)
  have "step lib tree cfg c (fst (adopt_tip_seen c h hash at))" by (rule step.peer_seen)
  with Cons.IH show ?case by (auto simp: x split: prod.split intro: converse_rtranclp_into_rtranclp)
qed simp

lemma adopt_proofs_runs: "runs lib tree cfg c (fst (adopt_proofs rows c n))"
proof (induction rows arbitrary: c n)
  case (Cons x rows)
  obtain h hash cls where x: "x = (h, hash, cls)" by (cases x)
  have "step lib tree cfg c (fst (adopt_proof_class c h hash cls))" by (rule step.peer_proof)
  with Cons.IH show ?case by (auto simp: x split: prod.split intro: converse_rtranclp_into_rtranclp)
qed simp

lemma fill_seen_runs: "runs lib tree cfg c (fst (fill_seen_from_peers peers tip c n))"
proof (induction peers tip c n rule: fill_seen_from_peers.induct)
  case (2 p ps tip c n)
  have "runs lib tree cfg c (fst (fill_seen_from_peers ps tip c' m))" if "adopt_seen rows c n = (c', m)" 
    "runs lib tree cfg c' (fst (fill_seen_from_peers ps tip c' m))" for rows c' m
    using adopt_seen_runs [of lib tree cfg c rows n] that by (simp add: rtranclp_trans)
  with 2 show ?case by (auto split: option.splits sum.splits list.splits http.splits prod.splits)
qed simp

lemma fill_proof_runs: "runs lib tree cfg c (fst (fill_proof_from_peers peers start c n))"
proof (induction peers start c n rule: fill_proof_from_peers.induct)
  case (2 p ps start c n)
  have "runs lib tree cfg c (fst (fill_proof_from_peers ps start c' m))" if "adopt_proofs rows c n = (c', m)"
    "runs lib tree cfg c' (fst (fill_proof_from_peers ps start c' m))" for rows c' m
    using adopt_proofs_runs [of lib tree cfg c rows n] that by (simp add: rtranclp_trans)
  with 2 show ?case by (auto split: option.splits sum.splits list.splits http.splits prod.splits)
qed simp

lemma fill_raw_from_peers_runs: "runs lib tree cfg c (fst (fill_raw_from_peers lib peers below limit clk c))"
  by (auto simp: fill_raw_from_peers_def fill_raw_def fill_raw_loop_runs split: prod.split option.split)

lemma peer_round_runs: "runs lib tree cfg c (fst (peer_round tree lib peers keep clk now c))"
proof -
  obtain c1 u r1 where f: "fill_from_peers tree lib peers PEER_BACKFILL_BATCH keep clk now c = (c1, u, r1)" by (metis prod_cases3)
  have one: "runs lib tree cfg c c1"
    using fill_gaps_runs [of "''peer''" lib tree cfg c PEER_BACKFILL_BATCH] f unfolding fill_from_peers_def by (metis fst_conv insertCI)
  obtain c2 v r2 where w: "fill_raw_from_peers lib peers (saturating_sub (processed_height c1) GETBLOCK_SERVING_WINDOW)
      (of_nat PEER_BACKFILL_BATCH) clk c1 = (c2, v, r2)" by (metis prod_cases3)
  have two: "runs lib tree cfg c1 c2" using fill_raw_from_peers_runs [of lib tree cfg c1] w by (metis fst_conv)
  have rest: "runs lib tree cfg c c3" if "runs lib tree cfg c c2'" "fill_seen_from_peers ps tip c2' 0 = (c3, r)" for c2' ps tip c3 r
    using rtranclp_trans [OF that(1) fill_seen_runs [of lib tree cfg c2' ps tip 0]] that(2) by simp
  have final: "runs lib tree cfg c c4" if "runs lib tree cfg c c3" "fill_proof_from_peers ps start c3 0 = (c4, r)" for c3 ps start c4 r
    using rtranclp_trans [OF that(1) fill_proof_runs [of lib tree cfg c3 ps start 0]] that(2) by simp
  show ?thesis
    using one rtranclp_trans [OF one two]
    by (auto simp: peer_round_def f w split: sum.splits prod.splits if_splits intro: rest final)
qed

lemma import_one_runs: "c1 = c \<or> (\<exists>d answer now. c1 = fst (import_one c entry d answer now)) \<Longrightarrow> runs lib tree cfg c c1"
  using step.receipt by (auto intro: run_step)

lemma import_receipts_runs: "runs lib tree cfg c (fst (import_receipts lib' rl verify clk entries seen c))"
proof (induction entries arbitrary: seen c)
  case (Cons entry rest)
  obtain c1 seen1 where r: "fst (import_receipts lib' rl verify clk (entry # rest) seen c) = fst (import_receipts lib' rl verify clk rest seen1 c1)"
    "c1 = c \<or> (\<exists>d answer now. c1 = fst (import_one c entry d answer now))"
    by (rule import_receipts_step) blast
  show ?case unfolding r(1) by (rule rtranclp_trans [OF import_one_runs [OF r(2)] Cons.IH])
qed simp

section \<open>The process\<close>

lemma poll_and_note_runs:
  assumes "wf_db (ix_db s)" "above_headers (ob_rpc w) (ix_db s)"
  shows "runs lib tree (config.truncate cfg) (ix_db s) (ix_db (poll_and_note lib cfg w s))"
proof -
  note p = poll_once_runs [OF assms, of lib tree "config.truncate cfg" "ob_clock w"]
  note n = note_sightings_runs [of lib tree "config.truncate cfg"
      "fst (poll_once lib (ix_db s) (ob_rpc w) (config.truncate cfg) (ob_clock w))" "ob_now_ms w" "ix_sightings s"]
  from rtranclp_trans [OF p n] show ?thesis by (simp add: poll_and_note_def Let_def case_prod_beta)
qed

lemma jobs_run:
  "prune_job cfg cycles now c = Some c' \<Longrightarrow> runs lib tree cfg' c c'"
  "refresh_job cfg cycles rpc at c = Some c' \<Longrightarrow> runs lib tree cfg' c c'"
  by (auto simp: prune_job_def refresh_job_def refresh_runs run_step step.prune split: option.splits if_splits)

lemma main_cycle_runs:
  assumes "wf_db (ix_db s)" "above_headers (ob_rpc w) (ix_db s)"
  shows "runs lib tree (config.truncate cfg) (ix_db s) (ix_db (main_cycle lib cfg w s))"
proof -
  note p = poll_and_note_runs [OF assms, of lib tree cfg]
  have "runs lib tree (config.truncate cfg) (ix_db (poll_and_note lib cfg w s)) (ix_db (main_cycle lib cfg w s))"
    by (auto simp: main_cycle_def Let_def trigger_sweep_def split: option.splits
        intro: jobs_run rtranclp_trans [OF jobs_run(1) jobs_run(2)])
  with p show ?thesis by (rule rtranclp_trans)
qed

inductive_cases moveE: "moves lib tree cfg s s'"

text \<open>After a panic no cycle and no poll of the main thread follows; the other threads go on.\<close>

lemma panicked_stays: "moves lib tree cfg s s' \<Longrightarrow> ix_panicked s \<Longrightarrow> ix_panicked s' \<and> ix_cycles s' = ix_cycles s"
  by (erule moveE) simp_all

lemma main_cycle_sweeps:
  "ix_sweep_flag (main_cycle lib cfg w s) = (ix_sweep_flag s \<or> ix_sweeps (main_cycle lib cfg w s) \<noteq> ix_sweeps s)"
  "ix_sweeps (main_cycle lib cfg w s) \<le> ix_sweeps s + (if ix_sweep_flag s then 0 else 1)"
  "ix_sweeps s \<le> ix_sweeps (main_cycle lib cfg w s)"
  by (auto simp: main_cycle_def poll_and_note_def Let_def trigger_sweep_def split: option.splits prod.splits)

lemma poll_and_note_sweeps [simp]:
  "ix_sweep_flag (poll_and_note lib cfg w s) = ix_sweep_flag s" "ix_sweeps (poll_and_note lib cfg w s) = ix_sweeps s"
  by (simp_all add: poll_and_note_def Let_def split: prod.split)

definition one_sweep :: "indexer \<Rightarrow> bool" where
  "one_sweep s = (ix_sweeps s = (if ix_sweep_flag s then 1 else 0))"

lemma move_one_sweep: "moves lib tree cfg s s' \<Longrightarrow> one_sweep s \<Longrightarrow> one_sweep s'"
proof (induction rule: moves.induct)
  case (cycle s w)
  with main_cycle_sweeps(1,2) [of lib cfg w s] main_cycle_sweeps(3) [of s lib cfg w] show ?case by (auto simp: one_sweep_def split: if_splits)
qed (auto simp: one_sweep_def split: if_splits)

lemma move_keeps: "moves lib tree cfg s s' \<Longrightarrow> wf_db (ix_db s) \<Longrightarrow> wf_db (ix_db s') \<and> evidence_le (ix_db s) (ix_db s')"
proof (induction rule: moves.induct)
  case (cycle s w)
  show ?case by (rule steps_keep [OF main_cycle_runs [OF cycle(3,2)] cycle(3)])
next
  case (wake s w)
  show ?case by (rule steps_keep [OF poll_and_note_runs [OF wake(3,2)] wake(3)])
next
  case (thread s c')
  then show ?case using step_keeps by simp
qed simp_all

lemma moves_keep:
  "(moves lib tree cfg)\<^sup>*\<^sup>* s s' \<Longrightarrow> wf_db (ix_db s) \<Longrightarrow> one_sweep s \<Longrightarrow>
     wf_db (ix_db s') \<and> evidence_le (ix_db s) (ix_db s') \<and> one_sweep s'"
  by (induction rule: rtranclp_induct) (auto dest: move_keeps move_one_sweep intro: evidence_trans)

lemma start_keeps:
  "wf_db c \<Longrightarrow> wf_db (ix_db (start_indexer c now)) \<and> evidence_le c (ix_db (start_indexer c now))"
  "one_sweep (start_indexer c now)"
  using repairs_keep(3) [of c now] by (simp_all add: start_indexer_def one_sweep_def)

section \<open>Properties\<close>

text \<open>
  C5. The process as a whole: however the main loop, the tip watcher, the sweep, the header backfill, the
  peer thread and imports interleave their transactions, and whatever the peers and the node answer (the main
  thread only never gets details of a block it holds as a bare header, \<open>above_headers\<close>), from a start on a
  well-formed database every state reached is well-formed and has all evidence of every earlier state, and at
  most one sweep runs, exactly when its flag is set.
\<close>
theorem indexer_keeps_the_archive:
  assumes "wf_db c" "(moves lib tree cfg)\<^sup>*\<^sup>* (start_indexer c now) s" "(moves lib tree cfg)\<^sup>*\<^sup>* s s'"
  shows "wf_db (ix_db s') \<and> evidence_le c (ix_db s) \<and> evidence_le (ix_db s) (ix_db s')
    \<and> ix_sweeps s' \<le> 1 \<and> (ix_sweep_flag s' \<longleftrightarrow> ix_sweeps s' = 1)"
proof -
  note s0 = start_keeps(1) [OF assms(1), of now]
  note s1 = moves_keep [OF assms(2) conjunct1 [OF s0] start_keeps(2)]
  with moves_keep [OF assms(3)] have s2: "wf_db (ix_db s')" "evidence_le (ix_db s) (ix_db s')" "one_sweep s'" by blast+
  with s0 s1 show ?thesis by (auto simp: one_sweep_def intro: evidence_trans split: if_splits)
qed

definition sample_run_config :: indexer_config where
  "sample_run_config = default_indexer_config\<lparr>scan_slots_every_cycles := 1\<rparr>"

definition sample_observed :: observed where
  "sample_observed = \<lparr>ob_rpc = sample_rpc, ob_clock = sample_clock, ob_now_ms = 0, ob_now = 0, ob_refreshed = ''t''\<rparr>"

text \<open>
  C32. The main loop stops in a panic exactly when a cadence it divides by is zero: \<^verbatim>\<open>prune_every_cycles\<close>
  while a retention is set, or \<^verbatim>\<open>refresh_addresses_every_cycles\<close> after the first cycle. The loaded
  configuration is not checked for either; the defaults run for ever.
\<close>
theorem loop_panics_on_a_zero_cadence:
  assumes "\<not> ix_panicked s"
  shows "(ix_panicked (main_cycle lib cfg w s) \<longleftrightarrow>
      0 < retention_days cfg \<and> prune_every_cycles cfg = 0
      \<or> refresh_addresses_every_cycles cfg = 0 \<and> ix_cycles s + 1 \<noteq> 1)
    \<and> \<not> ix_panicked (main_cycle lib default_indexer_config w s)"
  using assms
  by (auto simp: main_cycle_def poll_and_note_def prune_job_def refresh_job_def due_def trigger_sweep_def Let_def
      default_indexer_config_def default_config_def indexer_config.defs config.defs word_gt_0 split: option.splits prod.splits if_splits)

section \<open>Witnesses\<close>

lemma wf_sample_start: "wf_db sample_start"
  using op_set_state.keeps_wf [OF wf_empty, of "(LAST_PROCESSED, u64_to_string 4)"] by (simp add: sample_start_def)

lemma sample_start_above: "above_headers (ob_rpc sample_observed) sample_start"
  unfolding sample_observed_def by (simp, rule sample_above) (simp add: sample_start_def set_state_def empty_db_def)

definition sample_running :: indexer where
  "sample_running = start_indexer sample_start ''t0''"

lemma sample_running_db: "ix_db sample_running = sample_start"
  by (simp add: sample_running_def start_indexer_def resolve_gaps_with_bodies_def update_where_def sample_start_def
      set_state_def empty_db_def)

lemma sample_cycle: "moves sample_lib sample_tree sample_run_config sample_running
    (main_cycle sample_lib sample_run_config sample_observed sample_running)"
  by (rule moves.cycle) (simp_all add: sample_running_db sample_start_above, simp add: sample_running_def start_indexer_def)

text \<open>After the first cycle of a run a sweep is under way; it ends, and the flag is free again.\<close>

theorem indexer_keeps_the_archive_witness:
  "let s = main_cycle sample_lib sample_run_config sample_observed sample_running; s' = s\<lparr>ix_sightings := [(5, ''B'', 1)]\<rparr>
   in wf_db (ix_db s') \<and> evidence_le sample_start (ix_db s) \<and> evidence_le (ix_db s) (ix_db s')
      \<and> ix_sweeps s' \<le> 1 \<and> (ix_sweep_flag s' \<longleftrightarrow> ix_sweeps s' = 1)"
proof -
  let ?s = "main_cycle sample_lib sample_run_config sample_observed sample_running"
  have "ix_sightings ?s = []"
    by (simp add: main_cycle_def poll_and_note_def Let_def trigger_sweep_def sample_running_def start_indexer_def
        split: option.split prod.split)
  then have "(moves sample_lib sample_tree sample_run_config)\<^sup>*\<^sup>* ?s (?s\<lparr>ix_sightings := [(5, ''B'', 1)]\<rparr>)"
    using moves.sighted [of sample_lib sample_tree sample_run_config ?s "[(5, ''B'', 1)]"] by simp
  moreover have "(moves sample_lib sample_tree sample_run_config)\<^sup>*\<^sup>* (start_indexer sample_start ''t0'') ?s"
    using sample_cycle unfolding sample_running_def by (rule r_into_rtranclp [of "moves sample_lib sample_tree sample_run_config"])
  ultimately show ?thesis
    unfolding Let_def by (intro indexer_keeps_the_archive [OF wf_sample_start])
qed

theorem loop_panics_on_a_zero_cadence_witness:
  "ix_panicked (main_cycle sample_lib (sample_run_config\<lparr>refresh_addresses_every_cycles := 0\<rparr>) sample_observed
     (sample_running\<lparr>ix_cycles := 1\<rparr>))
   \<and> \<not> ix_panicked (main_cycle sample_lib default_indexer_config sample_observed sample_running)"
  using loop_panics_on_a_zero_cadence [of "sample_running\<lparr>ix_cycles := 1\<rparr>"] loop_panics_on_a_zero_cadence [of sample_running]
  by (simp add: sample_running_def start_indexer_def sample_run_config_def default_indexer_config_def default_config_def
      indexer_config.defs config.defs)

end
