(* ===== verification/Settled.thy ===== *)
theory Settled
  imports Run Query_Spec
begin

text \<open>
  Every block of the archive has a status, and a bare header is always canonical: the invariant the
  queries rely on when they skip the status lookup for header-only rows and read \<open>is_canonical\<close> as a
  number. A write that adds no status and no header row is an instance of one locale; the writes that
  do are treated one by one, and every step of the process keeps the invariant.
\<close>

section \<open>Writes that leave the status log alone\<close>

definition quiet_write :: "db \<Rightarrow> db \<Rightarrow> bool" where
  "quiet_write c c' = (status_log c' = status_log c
     \<and> (\<forall>(i, x) \<in> block_sigs c'. \<exists>y. (i, y) \<in> block_sigs c \<and> (y \<longrightarrow> x)))"

lemma quiet_same:
  assumes "status_log c' = status_log c" "block_sigs c' = block_sigs c" shows "quiet_write c c'"
proof -
  have "\<exists>y. (i, y) \<in> block_sigs c \<and> (y \<longrightarrow> x)" if "(i, x) \<in> block_sigs c'" for i x
    using that unfolding assms(2) by blast
  with assms(1) show ?thesis unfolding quiet_write_def by blast
qed

lemma quiet_refl [simp]: "quiet_write c c"
  by (simp add: quiet_same)

lemma quiet_trans: "quiet_write a b \<Longrightarrow> quiet_write b c \<Longrightarrow> quiet_write a c"
  by (fastforce simp: quiet_write_def)

lemma settled_sigs:
  "settled c \<longleftrightarrow> (\<forall>(i, x) \<in> block_sigs c. current_status c i \<noteq> None \<and> (\<not> x \<longrightarrow> is_canonical c i))"
  by (auto simp: settled_def block_sig_def)

lemma quiet_settled: "quiet_write c c' \<Longrightarrow> settled c \<Longrightarrow> settled c'"
  by (fastforce simp: quiet_write_def settled_sigs current_status_def is_canonical_def)

locale quiet_operation =
  fixes wr :: "'a \<Rightarrow> db \<Rightarrow> db" and pre :: "'a \<Rightarrow> bool"
  assumes quiet: "pre a \<Longrightarrow> quiet_write c (wr a c)"
begin

lemma run_quiet: "\<forall>a \<in> set as. pre a \<Longrightarrow> quiet_write c (foldl (\<lambda>c a. wr a c) c as)"
  by (induction as arbitrary: c) (auto intro: quiet_trans quiet)

lemma keeps_settled: "pre a \<Longrightarrow> settled c \<Longrightarrow> settled (wr a c)"
  by (rule quiet_settled [OF quiet])

end

lemma quiet_update: "(\<And>b. P b \<Longrightarrow> block_sig (f b) = block_sig b) \<Longrightarrow> quiet_write c (c\<lparr>blocks := update_where P f (blocks c)\<rparr>)"
  by (intro quiet_same) (simp_all add: image_update_where)

interpretation q_state: quiet_operation "\<lambda>(k, v) c. set_state c k v" "\<lambda>_. True"
  by unfold_locales (auto simp: set_state_def intro: quiet_same)

interpretation q_gap: quiet_operation "\<lambda>(h, x, now, m) c. record_gap c h x now m" "\<lambda>_. True"
  by unfold_locales (auto simp: record_gap_def intro: quiet_same)

interpretation q_resolve: quiet_operation "\<lambda>(h, now, m) c. resolve_gap c h now m" "\<lambda>_. True"
  by unfold_locales (auto simp: resolve_gap_def intro: quiet_same)

interpretation q_close: quiet_operation "\<lambda>now c. fst (resolve_gaps_with_bodies c now)" "\<lambda>_. True"
  by unfold_locales (auto simp: resolve_gaps_with_bodies_def Let_def intro: quiet_same)

lemma recovered_sig:
  assumes "(i, x) \<in> block_sigs (mark_body_recovered c bid src)" "src \<noteq> HEADER_ONLY_SOURCE"
  obtains y where "(i, y) \<in> block_sigs c" "y \<longrightarrow> x"
proof -
  from assms(1) obtain b where b: "b \<in> set (blocks c)" "i = b_id b"
    "x = archived (if b_id b = bid then b\<lparr>b_body_captured := True, b_body_source := Some src\<rparr> else b)"
    by (auto simp: mark_body_recovered_def update_where_def block_sig_def)
  then have "(i, archived b) \<in> block_sigs c" by (force simp: block_sig_def)
  with b(3) assms(2) show thesis by (intro that [of "archived b"]) (auto simp: archived_def)
qed

interpretation q_recovered: quiet_operation "\<lambda>(bid, src) c. mark_body_recovered c bid src" "\<lambda>(bid, src). src \<noteq> HEADER_ONLY_SOURCE"
proof unfold_locales
  fix a :: "int \<times> string" and c
  assume "(\<lambda>(bid, src). src \<noteq> HEADER_ONLY_SOURCE) a"
  then obtain bid src where a: "a = (bid, src)" "src \<noteq> HEADER_ONLY_SOURCE" by auto
  have "status_log (mark_body_recovered c bid src) = status_log c" by (simp add: mark_body_recovered_def)
  moreover have "\<exists>y. (i, y) \<in> block_sigs c \<and> (y \<longrightarrow> x)" if "(i, x) \<in> block_sigs (mark_body_recovered c bid src)" for i x
    using recovered_sig [OF that a(2)] by blast
  ultimately have "quiet_write c (mark_body_recovered c bid src)" unfolding quiet_write_def by blast
  then show "quiet_write c ((\<lambda>(bid, src) c. mark_body_recovered c bid src) a c)" by (simp add: a)
qed

lemma transactions_keep_blocks: "blocks (foldl (\<lambda>c tx. insert_transaction bid tx c) c txs) = blocks c"
  by (induction txs arbitrary: c) (simp_all add: insert_transaction_def Let_def)

lemma transactions_keep_status: "status_log (foldl (\<lambda>c tx. insert_transaction bid tx c) c txs) = status_log c"
  by (induction txs arbitrary: c) (simp_all add: insert_transaction_def Let_def)

lemma body_columns_sig [simp]: "block_sig (body_columns retained b) = block_sig b"
  by (simp add: body_columns_def block_sig_def archived_def)

interpretation q_transactions: quiet_operation "\<lambda>(bid, retained) c. insert_transactions c bid retained" "\<lambda>_. True"
  by unfold_locales
    (simp add: insert_transactions_def transactions_keep_blocks transactions_keep_status image_update_where quiet_same split: prod.split)

interpretation q_flags: quiet_operation "\<lambda>(h, x, flags) c. set_contract_flags c h x flags" "\<lambda>_. True"
proof unfold_locales
  fix a :: "u64 \<times> string \<times> (u32 \<times> u8) list" and c
  have "quiet_write c (c\<lparr>transactions := ts, blocks := update_where P (\<lambda>b. b\<lparr>b_contracts_scanned := True\<rparr>) (blocks c)\<rparr>)" for ts P
    by (intro quiet_same) (simp_all add: image_update_where block_sig_def archived_def)
  then show "quiet_write c ((\<lambda>(h, x, flags) c. set_contract_flags c h x flags) a c)"
    by (cases a) (simp add: set_contract_flags_def Let_def split: option.split)
qed

lemma quiet_contract_flags [simp]: "quiet_write c (record_contract_flags lib c h x raw)"
  using q_flags.quiet by (auto simp: record_contract_flags_def split: option.splits sum.splits)

lemma quiet_store_raw: "store_raw lib c h x bytes src now = Inr (c', added) \<Longrightarrow> quiet_write c c'"
  by (auto simp: store_raw_def and_then_Inr_iff insert_raw_block_def intro: quiet_same split: option.splits if_splits)

interpretation q_raw: quiet_operation "\<lambda>(lib, cfg, h, x, raw, src, now) c. keep_raw lib c cfg h x raw src now" "\<lambda>_. True"
  by unfold_locales (auto simp: keep_raw_def committed_def split: option.splits sum.splits dest: quiet_store_raw)

interpretation q_seen: quiet_operation "\<lambda>(h, x, at) c. fst (set_tip_seen c h x at)" "\<lambda>_. True"
  by unfold_locales (auto simp: set_tip_seen_def Let_def block_sig_def archived_def intro!: quiet_update)

interpretation q_adopt_seen: quiet_operation "\<lambda>(h, x, at) c. fst (adopt_tip_seen c h x at)" "\<lambda>_. True"
  by unfold_locales (auto simp: adopt_tip_seen_def Let_def block_sig_def archived_def intro!: quiet_update)

interpretation q_adopt_proof: quiet_operation "\<lambda>(h, x, cls) c. fst (adopt_proof_class c h x cls)" "\<lambda>_. True"
  by unfold_locales (auto simp: adopt_proof_class_def Let_def block_sig_def archived_def intro!: quiet_update)

interpretation q_prune_block: quiet_operation "\<lambda>bid c. prune_block c bid" "\<lambda>_. True"
  by unfold_locales (simp add: prune_block_def Let_def image_update_where block_sig_def archived_def quiet_same)

interpretation q_cached: quiet_operation "\<lambda>(entries, now) c. cache_balances entries now c" "\<lambda>_. True"
proof unfold_locales
  fix a :: "(string \<times> u128 \<times> u64) list \<times> string" and c
  obtain entries now where a: "a = (entries, now)" by (cases a)
  show "quiet_write c ((\<lambda>(entries, now) c. cache_balances entries now c) a c)"
    using cache_balances_tables [of entries now c] by (auto simp: a intro: quiet_same)
qed

interpretation q_zero: quiet_operation "\<lambda>(shown, now) c. fst (zero_balance_cache_except c shown now)" "\<lambda>_. True"
proof unfold_locales
  fix a :: "string set \<times> string" and c
  obtain shown now where a: "a = (shown, now)" by (cases a)
  obtain rows where "fst (zero_balance_cache_except c shown now) = c\<lparr>balances := rows\<rparr>"
    unfolding zero_balance_cache_except_def Let_def fst_conv using zeroed_tables by blast
  then show "quiet_write c ((\<lambda>(shown, now) c. fst (zero_balance_cache_except c shown now)) a c)"
    by (simp add: a quiet_same)
qed

interpretation q_clear: quiet_operation "\<lambda>(u :: unit) c. fst (clear_spent_in_gap_with_recorded_spend c)" "\<lambda>_. True"
  by unfold_locales (auto simp: clear_spent_in_gap_with_recorded_spend_def Let_def intro: quiet_same)

lemma quiet_sweep_balances: "quiet_write c (fst (sweep_balances c now))"
proof -
  let ?c1 = "fst (clear_spent_in_gap_with_recorded_spend c)"
  have "quiet_write c ?c1" using q_clear.quiet [of c] by simp
  moreover have "quiet_write ?c1 (cache_balances (live_balances ?c1) now ?c1)"
    using q_cached.quiet [of ?c1 "(live_balances ?c1, now)"] by simp
  ultimately have "quiet_write c (cache_balances (live_balances ?c1) now ?c1)" by (rule quiet_trans)
  then have "quiet_write c (cache_balances (live_balances ?c1) now ?c1\<lparr>indexer_state := s\<rparr>)" for s
    by (auto simp: quiet_write_def)
  then show ?thesis by (simp add: sweep_balances_def Let_def)
qed

lemma quiet_history: "same_history c c' \<Longrightarrow> quiet_write c c'"
  by (auto simp: same_history_def intro: quiet_same)

section \<open>Writes of a status\<close>

lemma appended_status: "current_status (append_status c bid st now) x = (if x = bid then Some st else current_status c x)"
proof -
  let ?new = "\<lparr>s_id = next_rowid (map s_id (status_log c)), s_block_id = bid, s_status = st, s_observed_at = now\<rparr>"
  have "s_id s < next_rowid (map s_id (status_log c))" if "s \<in> set (status_log c)" for s
    using that by (intro next_rowid_fresh) simp
  then have "latest s_id (filter (\<lambda>s. s_block_id s = bid) (status_log c) @ [?new]) = Some ?new"
    by (intro latest_append_greater) simp
  then show ?thesis by (simp add: append_status_def current_status_def)
qed

lemma settled_canonical:
  assumes "settled c" "\<forall>b \<in> set bs. b \<in> set (blocks c) \<or> b_id b = bid"
  shows "settled (append_status (c\<lparr>blocks := bs\<rparr>) bid Canonical now)"
  using assms by (auto simp: settled_def is_canonical_def appended_status)

lemma settled_header_row:
  assumes "settled c" shows "settled (fst (insert_block_header_row c h captured src now))"
proof -
  let ?row = "header_row (next_rowid (map b_id (blocks c))) h captured src now"
  let ?P = "\<lambda>b. b_height b = as_i64 (h_height h) \<and> b_hash b = h_hash h"
  show ?thesis
  proof (cases "find ?P (blocks c)")
    case None
    then have "(b_height ?row, b_hash ?row) \<notin> (\<lambda>b. (b_height b, b_hash b)) ` set (blocks c)"
      by (auto simp: find_None_iff header_row_def)
    then show ?thesis
      using settled_canonical [OF assms, of "blocks c @ [?row]" "b_id ?row"]
      by (simp add: insert_block_header_row_def insert_or_ignore_def Let_def find_append None header_row_def)
  next
    case (Some b)
    then have "b \<in> set (blocks c)" "(b_height ?row, b_hash ?row) = (b_height b, b_hash b)"
      by (auto simp: find_Some_iff header_row_def)
    then have "(b_height ?row, b_hash ?row) \<in> (\<lambda>b. (b_height b, b_hash b)) ` set (blocks c)" by (rule rev_image_eqI)
    then show ?thesis
      using settled_canonical [OF assms, of "blocks c" "b_id b"]
      by (simp add: insert_block_header_row_def insert_or_ignore_def Let_def Some)
  qed
qed

lemma settled_insert_header:
  assumes "settled c" shows "settled (committed c (insert_header_only_block c b now))"
proof (rule insert_header_only_cases [of c b now])
  let ?id = "next_rowid (map b_id (blocks c))"
  assume "committed c (insert_header_only_block c b now)
      = append_status (c\<lparr>blocks := blocks c @ [header_only_row ?id b now]\<rparr>) ?id Canonical now"
  with settled_canonical [OF assms, of "blocks c @ [header_only_row ?id b now]" ?id now] show ?thesis
    by (simp add: header_only_row_def)
qed (simp add: assms)

lemma settled_orphaned:
  assumes "wf_db c" "settled c" "is_header_only c bid = Inr False"
  shows "settled (mark_orphaned c bid now)"
proof -
  obtain b where f: "find (\<lambda>b. b_id b = bid) (blocks c) = Some b" and a: "archived b"
    using assms(3) by (auto simp: is_header_only_def block_with_id_def archived_def split: option.splits)
  from f have b: "b \<in> set (blocks c)" "b_id b = bid" by (auto simp: find_Some_iff)
  have "b' = b" if "b' \<in> set (blocks c)" "b_id b' = bid" for b'
    using assms(1) b that by (auto simp: wf_db_def wf_blocks_def distinct_map inj_on_def)
  then have "b_id b' \<noteq> bid" if "b' \<in> set (blocks c)" "\<not> archived b'" for b' using that a by blast
  then show ?thesis using assms(2) by (auto simp: settled_def mark_orphaned_def is_canonical_def appended_status)
qed

lemma settled_gap_block: "settled c \<Longrightarrow> settled (record_gap_block c d m now)"
proof -
  assume s: "settled c"
  have "settled (record_gap c' h x now m)" if "settled c'" for c' h x
    using q_gap.keeps_settled [of c' "(h, x, now, m)"] that by simp
  then show ?thesis using s settled_header_row [OF s] by (simp add: record_gap_block_def Let_def)
qed

lemma settled_store_block:
  assumes s: "settled c" and src: "src \<noteq> HEADER_ONLY_SOURCE" and r: "store_block c d src now = Inr c'"
  shows "settled c'"
proof -
  have body: "settled (insert_transactions c1 bid retained)" if "settled c1" for c1 bid retained
    using q_transactions.keeps_settled [of c1 "(bid, retained)"] that by simp
  have recovered: "settled (resolve_gap (mark_body_recovered c1 bid src) h now m)" if "settled c1" for c1 bid h m
    using q_resolve.keeps_settled [of "mark_body_recovered c1 bid src" "(h, now, m)"] q_recovered.keeps_settled [of "(bid, src)" c1] that src
    by simp
  have row: "settled c1" if "insert_block_header_row c h True (Some src) now = (c1, bid)" for c1 h bid
    using settled_header_row [OF s, of h True "Some src" now] that by simp
  show ?thesis
    using r s by (auto simp: store_block_def Let_def body recovered split: option.splits if_splits prod.splits dest: row)
qed

lemma settled_extras:
  assumes "settled c" "src \<noteq> HEADER_ONLY_SOURCE" "store_with_extras lib c cfg h d src raw now = Inr c'"
  shows "settled c'"
proof (rule store_with_extras_unfold [OF assms(3)])
  fix c1
  let ?c2 = "record_contract_flags lib c1 h (h_hash (d_header d)) raw"
  assume c1: "store_block c d src now = Inr c1"
    and c': "c' = keep_raw lib ?c2 cfg h (h_hash (d_header d)) raw ''node'' now"
  have "settled ?c2" by (rule quiet_settled [OF quiet_contract_flags settled_store_block [OF assms(1,2) c1]])
  then show ?thesis using q_raw.keeps_settled [of ?c2 "(lib, cfg, h, h_hash (d_header d), raw, ''node'', now)"] by (simp add: c')
qed

lemma settled_selfcheck: "settled c \<Longrightarrow> settled (selfcheck lib c h d raw)"
  using q_state.keeps_settled [of c "(k, v)" for k v]
  by (auto simp: selfcheck_def increment_mismatch_counter_def Let_def split: sum.splits)

lemma settled_ingest:
  assumes "settled c" "ingest_height lib c rpc cfg h now = Inr (c', x)" shows "settled c'"
proof (cases "get_block_details rpc h")
  case (Inr answer)
  show ?thesis
  proof (cases answer)
    case None
    then show ?thesis using assms Inr by (simp add: ingest_height_def)
  next
    case (Some d)
    show ?thesis
    proof (cases "resolve_body lib rpc cfg d ''body already pruned by node on first ingest attempt''")
      case (Store d' src raw)
      obtain raw' c1 where c1: "store_with_extras lib c cfg h d' src raw' now = Inr c1"
        and c': "c' = (if src = ''getblock'' then c1 else if decoder_selfcheck cfg
            then (case raw' of Some bytes \<Rightarrow> selfcheck lib c1 h d' bytes | None \<Rightarrow> c1) else c1)"
        by (rule ingest_store [OF assms(2) Inr [unfolded Some] Store])
      have "settled c1" using settled_extras [OF assms(1) _ c1] resolve_body_header(1) [OF Store] by simp
      then show ?thesis by (simp add: c' settled_selfcheck split: option.split)
    next
      case (Gap d' reason)
      with ingest_gap [OF assms(2) Inr [unfolded Some] Gap] show ?thesis by (simp add: settled_gap_block [OF assms(1)])
    qed
  qed
qed (use assms in \<open>simp add: ingest_height_def\<close>)

lemma settled_replace:
  assumes "settled c" and r: "replace_block lib c rpc cfg h x (map_option (\<lambda>d. resolve_body lib rpc cfg d m) details) t1 t2 = Inr c'"
  shows "settled c'"
proof (cases details)
  case None
  then show ?thesis using r q_gap.keeps_settled [of c "(h, Some x, t1, REORG_NOTE)"] assms(1) by (simp add: replace_block_def)
next
  case (Some d)
  show ?thesis
  proof (cases "resolve_body lib rpc cfg d m")
    case (Store d' src raw)
    then obtain raw' where "store_with_extras lib c cfg h d' src raw' t2 = Inr c'"
      using r Some by (auto simp: replace_block_def Let_def)
    then show ?thesis using settled_extras [OF assms(1)] resolve_body_header(1) [OF Store] by blast
  next
    case (Gap d' reason)
    then show ?thesis using r Some settled_gap_block [OF assms(1)] by (auto simp: replace_block_def)
  qed
qed

lemma recheck_cases:
  assumes "recheck_height lib c rpc cfg h t1 t2 = Inr c'"
  shows "c' = c \<or> (\<exists>bid x details. is_header_only c bid = Inr False
      \<and> replace_block lib (mark_orphaned c bid t1) rpc cfg h x (map_option (\<lambda>d. resolve_body lib rpc cfg d REORG_NOTE) details) t1 t2 = Inr c')"
proof -
  obtain answer where a: "get_block_header rpc h = Inr answer" using assms by (auto simp: recheck_height_def and_then_Inr_iff)
  show ?thesis
  proof (cases answer)
    case (Some header)
    show ?thesis
    proof (cases "canonical_hash_at c h")
      case (Some r)
      obtain bid known where r: "r = (bid, known)" by (cases r)
      show ?thesis
        using assms unfolding recheck_height_def a \<open>answer = Some header\<close> Some r
        by (auto simp: and_then_Inr_iff Let_def split: if_splits)
    qed (use assms a Some in \<open>simp add: recheck_height_def\<close>)
  qed (use assms a in \<open>simp add: recheck_height_def\<close>)
qed

lemma settled_recheck:
  assumes "wf_db c" "settled c" "recheck_height lib c rpc cfg h t1 t2 = Inr c'" shows "settled c'"
  using recheck_cases [OF assms(3)] settled_replace [OF settled_orphaned [OF assms(1,2)]] assms(2) by blast

section \<open>Every step\<close>

lemma settled_headers: "insert_headers hs now c = Inr c' \<Longrightarrow> settled c \<Longrightarrow> settled c'"
proof (induction hs arbitrary: c)
  case (Cons h hs)
  obtain c1 bid where i: "insert_header_only_block c (header_only_block_of h) now = Inr (c1, bid)"
    and r: "insert_headers hs now c1 = Inr c'"
    using Cons.prems(1) by (auto simp: and_then_Inr_iff)
  from settled_insert_header [OF Cons.prems(2), of "header_only_block_of h" now] have "settled c1" by (simp add: i)
  from Cons.IH [OF r this] show ?case .
qed simp

lemma settled_batch: "header_batch src c height e now = Inr (c', e') \<Longrightarrow> settled c \<Longrightarrow> settled c'"
proof -
  assume b: "header_batch src c height e now = Inr (c', e')" and s: "settled c"
  obtain hs c1 v where i: "insert_headers hs now c = Inr c1" and c': "c' = set_state c1 HEADER_BACKFILL_KEY v"
    using b by (auto simp: header_batch_def Let_def and_then_Inr_iff)
  show ?thesis using q_state.keeps_settled [of c1 "(HEADER_BACKFILL_KEY, v)"] settled_headers [OF i s] by (simp add: c')
qed

lemma settled_resolve: "settled c \<Longrightarrow> settled (resolve_gap c h now m)"
  using q_resolve.keeps_settled [of c "(h, now, m)"] by simp

lemma settled_body: "settled c \<Longrightarrow> src \<noteq> HEADER_ONLY_SOURCE \<Longrightarrow> settled (mark_body_recovered (insert_transactions c bid body) bid src)"
  using q_recovered.keeps_settled [of "(bid, src)" "insert_transactions c bid body"] q_transactions.keeps_settled [of c "(bid, body)"] by simp

lemma settled_flags: "settled c \<Longrightarrow> settled (record_contract_flags lib c h hash raw)"
  by (rule quiet_settled [OF quiet_contract_flags])

lemma settled_keep_raw: "settled c \<Longrightarrow> settled (keep_raw lib c cfg h hash raw src now)"
  using q_raw.keeps_settled [of c "(lib, cfg, h, hash, raw, src, now)"] by simp

lemma settled_backfill: "settled c \<Longrightarrow> settled (backfill_gap lib c rpc cfg h now)"
  by (auto simp: backfill_gap_def HEADER_ONLY_SOURCE_def intro!: settled_resolve settled_keep_raw settled_flags settled_body
      split: option.splits fallback_outcome.splits)

lemma settled_take_body:
  assumes "settled c" "src \<noteq> HEADER_ONLY_SOURCE" "take_body lib c h hash bid body raw src m keep now = Inr c'"
  shows "settled c'"
proof (rule take_body_steps [OF assms(3)])
  fix c1 c2
  assume c1: "c1 = mark_body_recovered (insert_transactions c bid body) bid src"
    and c2: "c2 = c1 \<or> (\<exists>bytes. c2 = record_contract_flags lib c1 h hash (Some bytes))
      \<or> (\<exists>bytes. c2 = committed (record_contract_flags lib c1 h hash (Some bytes))
           (store_raw lib (record_contract_flags lib c1 h hash (Some bytes)) h hash bytes src now))"
    and c': "c' = resolve_gap c2 h now m"
  have s1: "settled c1" using assms(1,2) c1 by (simp add: settled_body)
  have "settled (committed c (store_raw lib c h hash bytes src now))" if "settled c" for c bytes
    using quiet_settled [OF quiet_store_raw that] that by (auto simp: committed_def split: sum.split)
  then have "settled c2" using c2 s1 settled_flags [OF s1] by blast
  then show "settled c'" by (simp add: c' settled_resolve)
qed

lemma settled_fill_gap:
  assumes "settled c" "src \<noteq> HEADER_ONLY_SOURCE"
    and "fill_gap tree lib src m keep find_offer now h c s = (s', Inr (c', out))"
  shows "settled c'"
proof (cases "out = Imported")
  case True
  show ?thesis
    by (rule fill_gap_imports [OF assms(3) [unfolded True]]) (use settled_take_body [OF assms(1,2)] in blast)
qed (use fill_gap_leaves [OF assms(3)] assms(1) in auto)

lemma settled_receipt: "settled c \<Longrightarrow> settled (fst (import_one c entry d answer now))"
proof -
  assume s: "settled c"
  have "settled c'" if "insert_receipt_transaction c bid tx now = Inr (c', fresh)" for bid tx c' fresh
  proof (cases fresh)
    case True
    then have st: "store_receipt_rows c bid tx now = Inr c'" using insert_receipt_transaction_Inr [OF that] by simp
    have "block_sigs c' = block_sigs c"
      unfolding store_receipt_blocks(4) [OF st] by (simp add: image_update_where block_sig_def archived_def)
    from quiet_settled [OF quiet_same [OF store_receipt_blocks(2) [OF st] this] s] show ?thesis .
  qed (use insert_receipt_transaction_Inr [OF that] s in simp)
  then have "settled (committed c (insert_receipt_transaction c bid tx now))" for bid tx
    using s by (auto simp: committed_def split: sum.split)
  then show ?thesis using import_one_db [of c entry d answer now] s by metis
qed

lemma settled_prune: "settled c \<Longrightarrow> settled (fst (prune_older_than c cutoff))"
  using quiet_settled [OF q_prune_block.run_quiet [of "prunable c cutoff" c]] by (simp add: prune_older_than_def)

lemmas settled_small =
  q_seen.keeps_settled [of c "(h, x, at)" for c h x at, simplified]
  q_adopt_seen.keeps_settled [of c "(h, x, at)" for c h x at, simplified]
  q_adopt_proof.keeps_settled [of c "(h, x, cls)" for c h x cls, simplified]
  q_state.keeps_settled [of c "(k, v)" for c k v, simplified]
  q_cached.keeps_settled [of c "(entries, now)" for c entries now, simplified]
  q_zero.keeps_settled [of c "(shown, now)" for c shown now, simplified]
  q_clear.keeps_settled [simplified] q_close.keeps_settled [simplified] quiet_settled [OF quiet_sweep_balances]
  settled_prune settled_receipt settled_backfill settled_keep_raw

lemma settled_step: "step lib tree cfg c c' \<Longrightarrow> wf_db c \<Longrightarrow> settled c \<Longrightarrow> settled c'"
proof (induction rule: step.induct)
  case (ingest rpc c h now c' x)
  show ?case by (rule settled_ingest [OF ingest.prems(2) ingest(2)])
next
  case (recheck rpc c h t1 t2 c')
  show ?case by (rule settled_recheck [OF recheck.prems recheck(2)])
next
  case (header_rows src c height e now c' e')
  show ?case by (rule settled_batch [OF header_rows(1) header_rows.prems(2)])
next
  case (swept ask pause segment sz live c height now c')
  then show ?case using swept_segment quiet_settled [OF quiet_history] by blast
next
  case (gap source resolution keep offered now h c c' out)
  have "source \<noteq> HEADER_ONLY_SOURCE" using gap(1) by (auto simp: HEADER_ONLY_SOURCE_def)
  then show ?case by (rule settled_fill_gap [OF gap.prems(2) _ gap(2)])
next
  case (raw_import bytes h hash u c source now c' added)
  show ?case by (rule quiet_settled [OF quiet_store_raw [OF raw_import(2)] raw_import.prems(2)])
qed (rule settled_small; assumption)+

lemma settled_runs: "runs lib tree cfg c c' \<Longrightarrow> wf_db c \<Longrightarrow> settled c \<Longrightarrow> wf_db c' \<and> settled c'"
  by (induction rule: rtranclp_induct) (auto dest: step_keeps settled_step)

lemma settled_move: "moves lib tree cfg s s' \<Longrightarrow> wf_db (ix_db s) \<Longrightarrow> settled (ix_db s) \<Longrightarrow> wf_db (ix_db s') \<and> settled (ix_db s')"
proof (induction rule: moves.induct)
  case (cycle s w)
  show ?case by (rule settled_runs [OF main_cycle_runs [OF cycle(3,2)] cycle(3,4)])
next
  case (wake s w)
  show ?case by (rule settled_runs [OF poll_and_note_runs [OF wake(3,2)] wake(3,4)])
next
  case (thread s c')
  then show ?case using step_keeps settled_step by simp
qed simp_all

lemma settled_moves: "(moves lib tree cfg)\<^sup>*\<^sup>* s s' \<Longrightarrow> wf_db (ix_db s) \<Longrightarrow> settled (ix_db s) \<Longrightarrow> settled (ix_db s')"
proof -
  have "(moves lib tree cfg)\<^sup>*\<^sup>* s s' \<Longrightarrow> wf_db (ix_db s) \<Longrightarrow> settled (ix_db s) \<Longrightarrow> wf_db (ix_db s') \<and> settled (ix_db s')"
    by (induction rule: rtranclp_induct) (auto dest: settled_move)
  then show "(moves lib tree cfg)\<^sup>*\<^sup>* s s' \<Longrightarrow> wf_db (ix_db s) \<Longrightarrow> settled (ix_db s) \<Longrightarrow> settled (ix_db s')" by blast
qed
section \<open>Properties\<close>

text \<open>
  C6. The status column never reads as null: in every state the process reaches from a start on a
  well-formed settled database (an empty one, or one that a run left behind), every block has a status,
  bare headers are canonical, the status lookups of the queries succeed for every block, and the filter
  that skips the lookup for bare headers selects exactly the canonical blocks.
\<close>
theorem every_block_has_a_status:
  assumes "wf_db c" "settled c" "(moves lib tree cfg)\<^sup>*\<^sup>* (start_indexer c now) s"
  shows "settled (ix_db s) \<and> (\<forall>b \<in> set (blocks (ix_db s)).
      canonical_flag (ix_db s) (b_id b) = Inr (is_canonical (ix_db s) (b_id b))
      \<and> (is_orphaned (ix_db s) (b_id b) \<longleftrightarrow> \<not> is_canonical (ix_db s) (b_id b))
      \<and> (\<not> archived b \<longrightarrow> is_canonical (ix_db s) (b_id b))
      \<and> canonical_or_header_only (ix_db s) b = is_canonical (ix_db s) (b_id b))"
proof -
  have "settled (fst (resolve_gaps_with_bodies c now))" using q_close.keeps_settled [of c now] assms(2) by simp
  with start_keeps(1) [OF assms(1), of now] have st: "settled (ix_db s)"
    by (intro settled_moves [OF assms(3)]) (simp_all add: start_indexer_def)
  have "canonical_flag d i = Inr (is_canonical d i)" if "current_status d i \<noteq> None" for d i
    using that by (auto simp: canonical_flag_def is_canonical_def)
  with st show ?thesis
    by (auto simp: settled_status canonical_or_header_only_eq) (auto simp: settled_def)
qed

text \<open>The empty database is settled; so is one with two archived blocks, and a thread writes to it.\<close>

lemma settled_empty: "settled empty_db"
  by (simp add: settled_def empty_db_def)

definition sample_written :: indexer where
  "sample_written = (start_indexer sample_ledger ''t3'')\<lparr>ix_db := set_state sample_ledger HEADER_BACKFILL_KEY ''done''\<rparr>"

lemma sample_thread: "(moves sample_lib sample_tree sample_run_config)\<^sup>*\<^sup>* (start_indexer sample_ledger ''t3'') sample_written"
proof -
  have "ix_db (start_indexer sample_ledger ''t3'') = sample_ledger"
    by (simp add: start_indexer_def resolve_gaps_with_bodies_def sample_ledger_def empty_db_def update_where_def)
  with moves.thread [of sample_lib sample_tree sample_run_config "start_indexer sample_ledger ''t3''", OF step.headers_done]
  show ?thesis unfolding sample_written_def by (intro r_into_rtranclp) simp
qed

lemma sample_written_block: "sample_block_row 2 6 ''B'' \<in> set (blocks (ix_db sample_written))"
  by (simp add: sample_written_def set_state_def sample_ledger_def)

lemma sample_written_status: "is_canonical (ix_db sample_written) 2"
  by (simp add: sample_written_def set_state_def sample_ledger_def empty_db_def is_canonical_def current_status_def)

theorem every_block_has_a_status_witness:
  "canonical_flag (ix_db sample_written) 2 = Inr True \<and> settled (ix_db (start_indexer empty_db ''t0''))"
proof -
  have "settled (ix_db (start_indexer empty_db ''t0''))"
    using every_block_has_a_status [OF wf_empty settled_empty, of sample_lib sample_tree sample_run_config "''t0''"] by blast
  moreover have "canonical_flag (ix_db sample_written) 2 = Inr True"
    using every_block_has_a_status [OF wf_sample_ledger sample_settled sample_thread] sample_written_block sample_written_status
    by (fastforce simp: sample_block_row_def)
  ultimately show ?thesis by blast
qed

end
