(* ===== verification/Api_Spec.thy ===== *)
theory Api_Spec
  imports Economics Settled
begin

text \<open>
  What the API promises: figures from a cache are recent ones of the same indexed tip, an hour's caching is
  given to final content only, the caches stay bounded, the mempool asks the node once per transaction, and
  the history of burned fees is the one of the definition.
\<close>

section \<open>Caches with an age\<close>

text \<open>A server answers a list of requests, each with the cache the one before left.\<close>

fun serve_all :: "('r \<Rightarrow> 's \<Rightarrow> 's \<times> 'v) \<Rightarrow> 's \<Rightarrow> 'r list \<Rightarrow> 'v list" where
  "serve_all serve s [] = []"
| "serve_all serve s (r # rs) = (case serve r s of (s, v) \<Rightarrow> v # serve_all serve s rs)"

locale aged_cache =
  fixes serve :: "'r \<Rightarrow> ('k \<times> int \<times> 'v) option \<Rightarrow> ('k \<times> int \<times> 'v) option \<times> 'v"
    and key :: "'r \<Rightarrow> 'k" and clock_of :: "'r \<Rightarrow> int" and fresh :: "'r \<Rightarrow> 'v" and age :: int
  assumes empty: "serve r None = (Some (key r, clock_of r, fresh r), fresh r)"
    and entry: "serve r (Some (k, at, v)) =
      (if k = key r \<and> clock_of r - at < age then (Some (k, at, v), v) else (Some (key r, clock_of r, fresh r), fresh r))"
begin

lemma answer_or_entry:
  "i < length rs \<Longrightarrow>
     (\<exists>j \<le> i. serve_all serve s rs ! i = fresh (rs ! j) \<and> key (rs ! j) = key (rs ! i)
        \<and> (j = i \<or> clock_of (rs ! i) - clock_of (rs ! j) < age))
     \<or> (\<exists>k at v. s = Some (k, at, v) \<and> serve_all serve s rs ! i = v \<and> k = key (rs ! i) \<and> clock_of (rs ! i) - at < age)"
proof (induction rs arbitrary: s i)
  case (Cons r rs)
  obtain s' v where sv: "serve r s = (s', v)" by (cases "serve r s")
  have made: "s' = s \<and> (\<exists>k at. s = Some (k, at, v) \<and> k = key r \<and> clock_of r - at < age)
      \<or> s' = Some (key r, clock_of r, fresh r) \<and> v = fresh r"
    using sv empty [of r] by (cases s) (auto simp: entry split: if_splits)
  show ?case
  proof (cases i)
    case 0
    with made sv show ?thesis by auto
  next
    case (Suc i')
    with Cons.prems have "i' < length rs" by simp
    from Cons.IH [OF this, of s'] consider
      (run) j where "j \<le> i'" "serve_all serve s' rs ! i' = fresh (rs ! j)" "key (rs ! j) = key (rs ! i')"
        "j = i' \<or> clock_of (rs ! i') - clock_of (rs ! j) < age"
      | (held) k at v' where "s' = Some (k, at, v')" "serve_all serve s' rs ! i' = v'" "k = key (rs ! i')"
        "clock_of (rs ! i') - at < age" by blast
    then show ?thesis
    proof cases
      case run
      then show ?thesis using sv Suc by (intro disjI1 exI [of _ "Suc j"]) auto
    next
      case held
      from made show ?thesis
      proof
        assume "s' = s \<and> (\<exists>k at. s = Some (k, at, v) \<and> k = key r \<and> clock_of r - at < age)"
        then show ?thesis using held sv Suc by auto
      next
        assume "s' = Some (key r, clock_of r, fresh r) \<and> v = fresh r"
        then show ?thesis using held sv Suc by (intro disjI1 exI [of _ 0]) auto
      qed
    qed
  qed
qed simp

text \<open>Started empty, it answers what one of the requests up to this one made anew.\<close>

lemma answers_are_recent:
  "i < length rs \<Longrightarrow> \<exists>j \<le> i. serve_all serve None rs ! i = fresh (rs ! j) \<and> key (rs ! j) = key (rs ! i)
     \<and> (j = i \<or> clock_of (rs ! i) - clock_of (rs ! j) < age)"
  using answer_or_entry [of i rs None] by auto

end

interpretation stats_cache: aged_cache "\<lambda>(now, c) s. cached_chain_stats c now s" "\<lambda>(now, c). tip_or_0 c" fst
  "\<lambda>(now, c). chain_stats c now" CHAIN_STATS_MAX_AGE_SECONDS
  by unfold_locales (auto simp: cached_chain_stats_def Let_def)

interpretation periods_cache: aged_cache "\<lambda>(now, c) s. cached_periods c now s" "\<lambda>(now, c). tip_or_0 c" fst
  "\<lambda>(now, c). periods_of c now" 60
  by unfold_locales (auto simp: cached_periods_def Let_def)

interpretation miners_cache: aged_cache "\<lambda>(now, c) s. cached_miners seconds c now s"
  "\<lambda>(now, c). (tip_or_0 c, lowest_recorded_height c)" fst
  "\<lambda>(now, c). miners c (map_option (\<lambda>s. now - s) seconds) MINERS_MAX" 60 for seconds
  by unfold_locales (simp_all add: cached_miners_def Let_def split: prod.split)

section \<open>The walk over the recorded burns\<close>

definition burns_from :: "(u64 \<times> u128) list \<Rightarrow> nat \<Rightarrow> nat" where
  "burns_from burns i = sum_list (map (unat \<circ> snd) (drop i burns))"

lemma burns_from_Suc: "i < length burns \<Longrightarrow> burns_from burns i = unat (snd (burns ! i)) + burns_from burns (Suc i)"
  by (simp add: burns_from_def Cons_nth_drop_Suc [symmetric])

text \<open>The pointer stands behind the last recorded block at or below the height, and what is above is taken off.\<close>

definition walked :: "(u64 \<times> u128) list \<Rightarrow> u128 \<Rightarrow> u64 \<Rightarrow> nat \<times> u128 \<Rightarrow> bool" where
  "walked burns total_burn h = (\<lambda>(i, r). i \<le> length burns \<and> (\<forall>j. i \<le> j \<longrightarrow> j < length burns \<longrightarrow> h < fst (burns ! j))
     \<and> unat r = unat total_burn - burns_from burns i)"

lemma walked_down: "walked burns b h s \<Longrightarrow> h' \<le> h \<Longrightarrow> walked burns b h' s"
  by (auto simp: walked_def)

lemma take_off_walk:
  "walked burns total_burn h (i, r) \<Longrightarrow> take_off burns h i r = (i', r') \<Longrightarrow>
     walked burns total_burn h (i', r') \<and> (0 < i' \<longrightarrow> fst (burns ! (i' - 1)) \<le> h)"
proof (induction burns h i r rule: take_off.induct)
  case (2 burns h i r)
  show ?case
  proof (cases "fst (burns ! i) > h")
    case True
    have i: "i < length burns" using 2(2) by (simp add: walked_def)
    have "unat (saturating_sub r (snd (burns ! i))) = unat total_burn - burns_from burns i"
      using 2(2) by (simp add: walked_def unat_saturating_sub burns_from_Suc [OF i])
    moreover have "h < fst (burns ! j)" if "i \<le> j" "j < length burns" for j
      using that 2(2) True by (cases "j = i") (auto simp: walked_def)
    ultimately have "walked burns total_burn h (i, saturating_sub r (snd (burns ! i)))" using i by (simp add: walked_def)
    from 2(1) [OF True this] 2(3) True show ?thesis by simp
  next
    case False
    with 2(2,3) show ?thesis by auto
  qed
qed simp

text \<open>So what is left is the burn at the tip less the burns of all recorded blocks above the height.\<close>

definition burned_above :: "(u64 \<times> u128) list \<Rightarrow> u64 \<Rightarrow> nat" where
  "burned_above burns h = sum_list (map (unat \<circ> snd) (filter (\<lambda>b. h < fst b) burns))"

lemma walked_above:
  assumes "sorted (map fst burns)" "walked burns total_burn h (i, r)" "0 < i \<longrightarrow> fst (burns ! (i - 1)) \<le> h"
  shows "unat r = unat total_burn - burned_above burns h"
proof -
  have below: "fst (burns ! j) \<le> h" if "j < i" for j
  proof -
    have i: "j \<le> i - 1" "i - 1 < length burns" using that assms(2) by (auto simp: walked_def)
    then have "fst (burns ! j) \<le> fst (burns ! (i - 1))" using sorted_nth_mono [OF assms(1) i(1)] by simp
    then show ?thesis using assms(3) that by simp
  qed
  have "filter (\<lambda>b. h < fst b) (take i burns) = []"
    using below by (fastforce simp: filter_empty_conv in_set_conv_nth not_less)
  moreover have "filter (\<lambda>b. h < fst b) (drop i burns) = drop i burns"
    unfolding filter_id_conv
  proof
    fix x assume "x \<in> set (drop i burns)"
    then obtain k where "k < length burns - i" "x = burns ! (i + k)" by (auto simp: in_set_conv_nth)
    then show "h < fst x" using assms(2) by (auto simp: walked_def)
  qed
  moreover have "filter (\<lambda>b. h < fst b) burns = filter (\<lambda>b. h < fst b) (take i burns) @ filter (\<lambda>b. h < fst b) (drop i burns)"
    by (simp flip: filter_append)
  ultimately have "filter (\<lambda>b. h < fst b) burns = drop i burns" by simp
  then show ?thesis using assms(2) by (simp add: walked_def burned_above_def burns_from_def)
qed

definition burn_point :: "(u64 \<times> u128) list \<Rightarrow> u64 \<Rightarrow> u64 list \<Rightarrow> u128 \<Rightarrow> header_sample \<Rightarrow> economics_point" where
  "burn_point burns best exps total_burn s =
     \<lparr>ep_height = hs_height s, ep_issued = u128_to_string (emitted_up_to (hs_height s) exps),
      ep_burned = (if on_record_at burns best (hs_height s)
        then Some (decimal (unat total_burn - burned_above burns (hs_height s))) else None),
      ep_estimate = None\<rparr>"

lemma burn_points_walk:
  assumes "sorted (map fst burns)"
  shows "sorted_wrt (\<ge>) (map hs_height ss) \<Longrightarrow> (ss \<noteq> [] \<Longrightarrow> walked burns total_burn (hs_height (hd ss)) (i, r)) \<Longrightarrow>
    burn_points burns best exps ss i r = map (burn_point burns best exps total_burn) ss"
proof (induction ss arbitrary: i r)
  case (Cons s ss)
  obtain i' r' where t: "take_off burns (hs_height s) i r = (i', r')" by fastforce
  from take_off_walk [OF _ t, of total_burn] Cons.prems(2)
  have w: "walked burns total_burn (hs_height s) (i', r')" "0 < i' \<longrightarrow> fst (burns ! (i' - 1)) \<le> hs_height s" by simp_all
  have "burn_points burns best exps ss i' r' = map (burn_point burns best exps total_burn) ss"
  proof (rule Cons.IH)
    assume "ss \<noteq> []"
    then have "hs_height (hd ss) \<le> hs_height s" using Cons.prems(1) by (cases ss) auto
    then show "walked burns total_burn (hs_height (hd ss)) (i', r')" by (rule walked_down [OF w(1)])
  qed (use Cons.prems(1) in simp)
  then show ?case using t walked_above [OF assms w] by (simp add: burn_point_def u128_to_string_def)
qed simp

lemma sorted_burns:
  assumes "heights_in_range c" shows "sorted (map fst (burn_by_block c))"
proof -
  let ?rows = "sort_key b_height (with_body c)"
  have mono: "as_u64 (b_height x) \<le> as_u64 (b_height y)"
    if "x \<in> set ?rows" "y \<in> set ?rows" "b_height x \<le> b_height y" for x y
  proof -
    have "0 \<le> b_height b \<and> b_height b < 2 ^ 64" if "b \<in> set ?rows" for b
      using assms that by (auto simp: heights_in_range_def with_body_def)
    then have "uint (as_u64 (b_height b)) = b_height b" if "b \<in> set ?rows" for b
      using that by (simp add: as_u64_def uint_word_of_int_eq take_bit_int_eq_self_iff)
    then show ?thesis using that by (simp add: word_le_def)
  qed
  have "sorted_wrt (\<lambda>x y. b_height x \<le> b_height y) ?rows"
    using sorted_sort_key [of b_height "with_body c"] by (simp add: sorted_wrt_map)
  then have "sorted_wrt (\<lambda>x y. as_u64 (b_height x) \<le> as_u64 (b_height y)) ?rows"
    by (rule sorted_wrt_mono_rel [rotated]) (rule mono)
  then show ?thesis by (simp add: burn_by_block_def sorted_wrt_map o_def)
qed

section \<open>The estimate\<close>

lemma supply_of_text [simp]: "supply_of (u128_to_string n) = n"
proof -
  obtain ch ds where d: "decimal (unat n) = ch # ds" by (cases "decimal (unat n)") simp_all
  have "is_digit ch" using decimal_digits [of "unat n"] by (simp add: d)
  then have "ch \<noteq> CHR ''+''" using plus_is_no_digit by auto
  then have "parse_u128 (u128_to_string n) = Some n"
    using decimal_digits [of "unat n"] digits_value_decimal [of "unat n"] unsigned_less [of n]
    by (simp add: parse_u128_def u128_to_string_def d)
  then show ?thesis by (simp add: supply_of_def)
qed

lemma estimate_value:
  assumes "user_mints s \<le> m" "unat (b :: u128) * unat m < 2 ^ 128"
  shows "unat (estimate_at b m s) = (if 0 < m then unat b * unat (user_mints s) div unat m else 0)"
proof -
  have "unat b * unat (user_mints s) \<le> unat b * unat m" using assms(1) by (simp add: word_le_nat_alt)
  from le_less_trans [OF this assms(2)] have "unat b * unat (ucast (user_mints s) :: u128) < 2 ^ LENGTH(128)"
    by (simp add: unat_ucast_u128)
  then have "unat (b * ucast (user_mints s)) = unat b * unat (user_mints s)"
    by (subst unat_mult_bound) (simp_all add: unat_ucast_u128)
  then show ?thesis by (simp add: estimate_at_def unat_div unat_ucast_u128)
qed

lemma estimate_grows:
  assumes "user_mints s \<le> user_mints t" "user_mints t \<le> m" "unat (b :: u128) * unat m < 2 ^ 128"
  shows "estimate_at b m s \<le> estimate_at b m t"
  using assms by (auto simp: word_le_nat_alt estimate_value intro!: div_le_mono mult_le_mono2)

lemma estimate_below:
  assumes "user_mints s \<le> m" "unat (b :: u128) * unat m < 2 ^ 128" shows "estimate_at b m s \<le> b"
proof -
  have "unat b * unat (user_mints s) div unat m \<le> unat b * unat m div unat m"
    using assms(1) by (intro div_le_mono mult_le_mono2) (simp add: word_le_nat_alt)
  also have "\<dots> \<le> unat b" by simp
  finally show ?thesis using assms by (simp add: word_le_nat_alt estimate_value)
qed

section \<open>Properties\<close>

text \<open>
  C23. The history of burned fees is exact wherever the records reach: at every sample from the first
  recorded block on, and at the tip, the page shows the burn at the tip less the burns of all recorded
  blocks above the sample (never below zero), and nothing measured elsewhere; the single backward walk
  over samples and blocks computes just that.
\<close>
theorem burn_history_is_exact:
  assumes "heights_in_range c" "sorted (map hs_height samples)"
  shows "measured_history (burn_by_block c) best exps samples total_burn
    = map (burn_point (burn_by_block c) best exps total_burn) samples"
proof -
  have down: "sorted_wrt (\<ge>) (map hs_height (rev samples))"
    using assms(2) by (simp add: sorted_wrt_rev rev_map [symmetric])
  have "burn_points (burn_by_block c) best exps (rev samples) (length (burn_by_block c)) total_burn
      = map (burn_point (burn_by_block c) best exps total_burn) (rev samples)"
    by (rule burn_points_walk [OF sorted_burns [OF assms(1)] down]) (simp add: walked_def burns_from_def)
  then show ?thesis by (simp add: measured_history_def rev_map)
qed

text \<open>
  C40. Before the records begin the page shows an estimate that meets the first measured value there: it
  never falls as the mint counter grows, stays at or below that value, and is zero where nothing had been
  minted.
\<close>
theorem estimates_meet_the_measurement:
  assumes a: "a = length (takeWhile (\<lambda>p. ep_burned p = None) history)" "a < length history"
    and measured: "ep_burned (history ! a) = Some (u128_to_string b)"
    and mints: "\<And>i j. i \<le> j \<Longrightarrow> j \<le> a \<Longrightarrow> user_mints (samples ! i) \<le> user_mints (samples ! j)"
    and fits: "unat b * unat (user_mints (samples ! a)) < 2 ^ 128"
  shows "\<exists>est. (\<forall>i \<le> a. ep_estimate (with_estimates samples history ! i) = Some (u128_to_string (est i)))
    \<and> (\<forall>i j. i \<le> j \<longrightarrow> j \<le> a \<longrightarrow> est i \<le> est j) \<and> est a = b
    \<and> (\<forall>i < a. user_mints (samples ! i) = 0 \<longrightarrow> est i = 0)"
proof -
  let ?m = "\<lambda>i. user_mints (samples ! i)"
  let ?est = "\<lambda>i. if i < a then estimate_at b (?m a) (samples ! i) else b"
  show ?thesis
  proof (intro exI [of _ ?est] conjI allI impI)
    fix i assume "i \<le> a"
    then show "ep_estimate (with_estimates samples history ! i) = Some (u128_to_string (?est i))"
      using a measured by (auto simp: with_estimates_def Let_def)
  next
    fix i j assume ij: "i \<le> j" "j \<le> a"
    have "estimate_at b (?m a) (samples ! i) \<le> estimate_at b (?m a) (samples ! j)"
      using estimate_grows [OF mints [OF ij] mints [OF ij(2) order_refl] fits] .
    moreover have "estimate_at b (?m a) (samples ! i) \<le> b" if "i < a"
      using estimate_below [OF mints [of i a] fits] that by simp
    ultimately show "?est i \<le> ?est j" using ij by auto
  next
    fix i assume "i < a" "?m i = 0"
    then show "?est i = 0" by (simp add: estimate_at_def)
  qed simp
qed
text \<open>
  C38. Figures kept in a cache are recent: however many requests come, and however the database and the
  clock move between them, the statistics, the activity of the periods and each period's miners are what
  the query gave for this request or for an earlier one that found the same indexed tip (and, for the
  miners, the same lowest block), less than 30 or 60 seconds before.
\<close>
theorem cached_figures_are_recent:
  assumes "i < length rs"
  shows "(\<exists>j \<le> i. serve_all (\<lambda>(now, c). cached_chain_stats c now) None rs ! i = chain_stats (snd (rs ! j)) (fst (rs ! j))
      \<and> tip_or_0 (snd (rs ! j)) = tip_or_0 (snd (rs ! i)) \<and> (j = i \<or> fst (rs ! i) - fst (rs ! j) < 30))
    \<and> (\<exists>j \<le> i. serve_all (\<lambda>(now, c). cached_periods c now) None rs ! i = periods_of (snd (rs ! j)) (fst (rs ! j))
      \<and> tip_or_0 (snd (rs ! j)) = tip_or_0 (snd (rs ! i)) \<and> (j = i \<or> fst (rs ! i) - fst (rs ! j) < 60))
    \<and> (\<exists>j \<le> i. serve_all (\<lambda>(now, c). cached_miners seconds c now) None rs ! i
          = miners (snd (rs ! j)) (map_option (\<lambda>s. fst (rs ! j) - s) seconds) MINERS_MAX
      \<and> tip_or_0 (snd (rs ! j)) = tip_or_0 (snd (rs ! i))
      \<and> lowest_recorded_height (snd (rs ! j)) = lowest_recorded_height (snd (rs ! i))
      \<and> (j = i \<or> fst (rs ! i) - fst (rs ! j) < 60))"
  using stats_cache.answers_are_recent [OF assms] periods_cache.answers_are_recent [OF assms]
    miners_cache.answers_are_recent [OF assms, of seconds]
  by (auto simp: split_def CHAIN_STATS_MAX_AGE_SECONDS_def)

section \<open>Bounds of the caches\<close>

lemma length_update: "length (AList.update k v xs) = (if k \<in> fst ` set xs then length xs else Suc (length xs))"
  by (induction xs) auto

text \<open>
  The cache of balance histories never holds more than its bound, whatever addresses are asked for, and
  an answer is either made for this request or was made for the same address at the same indexed tip.
\<close>
theorem balance_cache_is_bounded:
  assumes "length cache \<le> BALANCE_CACHE_MAX" "get_address_balance_history strftime c address cache = (cache', answer)"
  shows "length cache' \<le> BALANCE_CACHE_MAX
    \<and> (\<forall>v. answer = Answer Unstated v \<longrightarrow> map_of cache' address = Some (tip_or_0 c, v)
        \<and> (balance_history_of strftime c address = Inr v \<or> map_of cache address = Some (tip_or_0 c, v)))"
  using assms
  by (auto simp: get_address_balance_history_def Let_def length_update AList.update_conv' BALANCE_CACHE_MAX_def
      split: if_splits option.splits sum.splits)

section \<open>The mempool\<close>

definition shown_as :: "(string \<Rightarrow> mempool_entry option result) \<Rightarrow> (string \<rightharpoonup> bool) \<Rightarrow> mempool_tx \<Rightarrow> mempool_tx" where
  "shown_as ask memo tx = (case contract_of ask memo (mp_tx_hash tx) of None \<Rightarrow> tx | Some b \<Rightarrow> tx\<lparr>mp_contract := b\<rparr>)"

lemma shown_hash [simp]: "mp_tx_hash (shown_as ask memo tx) = mp_tx_hash tx"
  by (simp add: shown_as_def split: option.split)

lemma shown_contract: "contract_of ask memo (mp_tx_hash tx) = Some b \<Longrightarrow> mp_contract (shown_as ask memo tx) = b"
  by (simp add: shown_as_def)

lemma marked_txs: "fst (mark_contracts ask memo txs now) = map (shown_as ask memo) txs"
proof (induction txs arbitrary: now)
  case (Cons tx txs)
  then show ?case
    by (cases "contract_of ask memo (mp_tx_hash tx)") (simp_all add: shown_as_def split_def del: fun_upd_apply)
qed simp

lemma marked_memo:
  "snd (mark_contracts ask memo txs now) h
     = (if h \<in> mp_tx_hash ` set txs \<and> contract_of ask memo h \<noteq> None then contract_of ask memo h else now h)"
proof (induction txs arbitrary: now)
  case (Cons tx txs)
  show ?case
  proof (cases "contract_of ask memo (mp_tx_hash tx)")
    case None
    then show ?thesis by (auto simp: Cons.IH split_def)
  next
    case (Some b)
    have "snd (mark_contracts ask memo (tx # txs) now) h = snd (mark_contracts ask memo txs (now(mp_tx_hash tx \<mapsto> b))) h"
      by (simp add: Some split_def del: fun_upd_apply)
    also have "\<dots> = (if h \<in> mp_tx_hash ` set (tx # txs) \<and> contract_of ask memo h \<noteq> None then contract_of ask memo h else now h)"
      unfolding Cons.IH using Some by auto
    finally show ?thesis .
  qed
qed simp

lemma get_mempool_answer:
  assumes "get_mempool net memo = (memo', Answer Unstated info)"
  obtains txs where "mo_txs info = map (shown_as (ln_mempool_entry net) memo) txs"
    "memo' = (\<lambda>h. if h \<in> mp_tx_hash ` set txs then contract_of (ln_mempool_entry net) memo h else None)"
proof -
  obtain i where i: "ln_mempool_info net = Inr i" using assms by (auto simp: get_mempool_def split: sum.splits)
  let ?m = "mark_contracts (ln_mempool_entry net) memo (mo_txs i) Map.empty"
  have "memo' = snd ?m" "info = i\<lparr>mo_txs := fst ?m\<rparr>" using assms by (simp_all add: get_mempool_def i split_def)
  then show thesis by (intro that [of "mo_txs i"]) (auto simp: marked_txs marked_memo fun_eq_iff)
qed

text \<open>
  C39. The node is asked once per pending transaction: an answer keeps, for exactly the transactions it
  listed and knew or was told about, what it showed, nothing else; whatever the node says at the next
  poll, a transaction kept is shown as before, so only the others depend on it.
\<close>
theorem mempool_asks_once:
  assumes "get_mempool net memo = (memo', Answer Unstated info)" "get_mempool net' memo' = (memo'', Answer Unstated info')"
    and listed: "tx \<in> set (mo_txs info)" and pending: "tx' \<in> set (mo_txs info')" "mp_tx_hash tx' = mp_tx_hash tx"
  shows "memo' (mp_tx_hash tx) = contract_of (ln_mempool_entry net) memo (mp_tx_hash tx)
    \<and> dom memo' \<subseteq> mp_tx_hash ` set (mo_txs info)
    \<and> (\<forall>b. memo' (mp_tx_hash tx) = Some b \<longrightarrow> mp_contract tx = b \<and> mp_contract tx' = b \<and> memo'' (mp_tx_hash tx) = Some b)"
proof -
  obtain txs where one: "mo_txs info = map (shown_as (ln_mempool_entry net) memo) txs"
    "memo' = (\<lambda>h. if h \<in> mp_tx_hash ` set txs then contract_of (ln_mempool_entry net) memo h else None)"
    by (rule get_mempool_answer [OF assms(1)])
  obtain txs' where two: "mo_txs info' = map (shown_as (ln_mempool_entry net') memo') txs'"
    "memo'' = (\<lambda>h. if h \<in> mp_tx_hash ` set txs' then contract_of (ln_mempool_entry net') memo' h else None)"
    by (rule get_mempool_answer [OF assms(2)])
  obtain t where t: "t \<in> set txs" "tx = shown_as (ln_mempool_entry net) memo t" using listed by (auto simp: one(1))
  obtain t' where t': "t' \<in> set txs'" "tx' = shown_as (ln_mempool_entry net') memo' t'" using pending(1) by (auto simp: two(1))
  have in1: "mp_tx_hash tx \<in> mp_tx_hash ` set txs" and in2: "mp_tx_hash tx \<in> mp_tx_hash ` set txs'"
    using t t' pending(2) by (auto intro: rev_image_eqI)
  have first: "memo' (mp_tx_hash tx) = contract_of (ln_mempool_entry net) memo (mp_tx_hash tx)" using in1 by (simp add: one(2))
  have "mp_contract tx = b \<and> mp_contract tx' = b \<and> memo'' (mp_tx_hash tx) = Some b" if b: "memo' (mp_tx_hash tx) = Some b" for b
  proof -
    have next_time: "contract_of (ln_mempool_entry net') memo' (mp_tx_hash tx) = Some b" by (simp add: contract_of_def b)
    have "mp_contract tx = b" unfolding t(2) using first b by (intro shown_contract) (simp add: t(2))
    moreover have "mp_contract tx' = b" unfolding t'(2) using next_time pending(2) by (intro shown_contract) (simp add: t'(2))
    ultimately show ?thesis using in2 next_time by (simp add: two(2))
  qed
  moreover have "dom memo' \<subseteq> mp_tx_hash ` set (mo_txs info)" by (auto simp: one image_image split: if_splits)
  ultimately show ?thesis using first by blast
qed
section \<open>Caching for an hour\<close>

lemma wrap_id: "in_i64 x \<Longrightarrow> wrap x = x"
  by (simp add: wrap_def in_i64_def as_i64_def sint_sbintrunc' signed_take_bit_int_eq_self_iff)

lemma wrap_final:
  assumes "0 \<le> t" "0 \<le> h" "h < 2 ^ 63" "n \<le> wrap (t - h + 1)" "n < 2 ^ 63"
  shows "n \<le> t - h + 1"
proof (cases "in_i64 (t - h + 1)")
  case True
  then show ?thesis using assms(4) by (simp only: wrap_id)
next
  case False
  then show ?thesis using assms by (auto simp: in_i64_def)
qed

lemma newest_is_first:
  assumes "s \<in> set (recent_blocks c lim before)" shows "sm_height s \<le> sm_height (hd (recent_blocks c lim before))"
proof -
  let ?rows = "sort_desc b_height (filter (\<lambda>b. b_height b < (case before of Some h \<Rightarrow> h | None \<Rightarrow> I64_MAX) \<and> is_canonical c (b_id b)) (blocks c))"
  have "sorted_wrt (\<lambda>a b. b_height b \<le> b_height a) (limit_rows lim ?rows)"
    by (simp add: limit_rows_def sorted_sort_desc sorted_wrt_take)
  then have "sorted_wrt (\<lambda>a b. sm_height b \<le> sm_height a) (recent_blocks c lim before)"
    by (simp add: recent_blocks_def sorted_wrt_map block_summary_of_def)
  with assms show ?thesis by (cases "recent_blocks c lim before") auto
qed

lemma recent_block_rows:
  "s \<in> set (recent_blocks c lim before) \<Longrightarrow> \<exists>b \<in> set (blocks c). s = block_summary_of c b \<and> is_canonical c (b_id b)"
  by (auto simp: recent_blocks_def limit_rows_def split: if_splits dest!: in_set_takeD)
definition deep_enough :: "db \<Rightarrow> int \<Rightarrow> bool" where
  "deep_enough c h = (\<exists>t. indexed_tip c = Some t \<and> 18 \<le> t - h + 1)"

lemma confirmed_deep:
  assumes "heights_in_range c" "b \<in> set (blocks c)" "\<forall>t. indexed_tip c = Some t \<longrightarrow> 0 \<le> t"
    and "confirmations_for (indexed_tip c) (b_height b) = Some n" "18 \<le> n"
  shows "deep_enough c (b_height b)"
proof -
  obtain t where t: "indexed_tip c = Some t" "n = max (wrap (t - b_height b + 1)) 0"
    using assms(4) by (auto simp: confirmations_for_def)
  then have "18 \<le> wrap (t - b_height b + 1)" using assms(5) by simp
  then have "18 \<le> t - b_height b + 1" using assms(1-3) t(1) by (intro wrap_final) (auto simp: heights_in_range_def)
  then show ?thesis using t(1) by (auto simp: deep_enough_def)
qed

lemma block_by_found:
  assumes "block_by c P = Inr (Some d)"
  obtains b where "b \<in> set (blocks c)" "bd_height d = b_height b"
    "bd_confirmations d = (if bd_canonical d then confirmations_for (indexed_tip c) (b_height b) else Some 0)"
proof -
  obtain bid d0 vs where r: "block_id_and_row c P = Inr (Some (bid, d0))" and d: "finish_block c bid d0 = Inr d"
    using assms by (auto simp: block_by_def and_then_Inr_iff split: option.splits)
  obtain b bs where s: "sort_desc (\<lambda>b. status_rank c (b_id b)) (filter P (blocks c)) = b # bs" and h: "bd_height d0 = b_height b"
    using r by (auto simp: block_id_and_row_def and_then_Inr_iff split: list.splits)
  have "set (b # bs) = set (filter P (blocks c))" by (simp flip: s)
  then have "b \<in> set (blocks c)" by auto
  with d h show thesis by (intro that [of b]) (auto simp: finish_block_def and_then_Inr_iff)
qed

lemma tx_found:
  assumes "tx_by_txid c txid = Inr (Some d)"
  obtains b where "b \<in> set (blocks c)" "td_block_height d = b_height b"
    "td_confirmations d = (if td_block_canonical d then confirmations_for (indexed_tip c) (b_height b) else Some 0)"
proof -
  let ?found = "filter (\<lambda>(t, b). t_txid t = txid) (joined c)"
  obtain t b rest where s: "sort_desc (\<lambda>(t, b). status_rank c (b_id b)) ?found = (t, b) # rest"
    and d: "td_block_height d = b_height b"
      "td_confirmations d = (if td_block_canonical d then confirmations_for (indexed_tip c) (b_height b) else Some 0)"
    using assms by (auto simp: tx_by_txid_def Let_def and_then_Inr_iff split: list.splits prod.splits)
  have "set ((t, b) # rest) = set ?found" by (simp flip: s)
  then have "(t, b) \<in> set (joined c)" by auto
  then have "find (\<lambda>b. b_id b = t_block_id t) (blocks c) = Some b"
    by (auto simp: joined_def List.map_filter_def block_with_id_def)
  then have "b \<in> set (blocks c)" by (auto simp: find_Some_iff)
  with d show thesis by (intro that [of b]) simp_all
qed

lemma block_response_final:
  "block_response lib dims rpc c found = Answer One_Hour d \<Longrightarrow>
     \<exists>b n. found = Some b \<and> bd_height d = bd_height b \<and> bd_canonical d = bd_canonical b \<and> bd_confirmations b = Some n \<and> 18 \<le> n"
  by (auto simp: block_response_def Let_def cached_json_def FINAL_CONFIRMATIONS_def split: option.splits if_splits prod.splits)

text \<open>
  C20. Caching for an hour is given to final content only: whenever a block, a transaction or a page of
  blocks is answered with it, every block shown is canonical and at least 18 deep below the indexed tip.
\<close>
theorem hour_long_caching_is_final:
  assumes "heights_in_range c" "\<forall>t. indexed_tip c = Some t \<longrightarrow> 0 \<le> t"
  shows "(get_block_by_height lib dims rpc c height = Answer One_Hour d \<or> get_block_by_hash lib dims rpc c hash = Answer One_Hour d
        \<longrightarrow> bd_canonical d \<and> deep_enough c (bd_height d))
    \<and> (get_tx rpc c txid = Answer One_Hour (t, fees) \<longrightarrow> td_block_canonical t \<and> deep_enough c (td_block_height t))
    \<and> (get_blocks c lim before = Answer One_Hour page \<longrightarrow> page \<noteq> []
        \<and> (\<forall>s \<in> set page. deep_enough c (sm_height s) \<and> (\<exists>b \<in> set (blocks c). s = block_summary_of c b \<and> is_canonical c (b_id b))))"
proof (intro conjI impI)
  have block: "bd_canonical d \<and> deep_enough c (bd_height d)"
    if resp: "block_response lib dims rpc c found = Answer One_Hour d" and by_P: "block_by c P = Inr found" for found P
  proof -
    obtain d0 n where d0: "found = Some d0" "bd_height d = bd_height d0" "bd_canonical d = bd_canonical d0"
      "bd_confirmations d0 = Some n" "18 \<le> n" using block_response_final [OF resp] by blast
    obtain b where b: "b \<in> set (blocks c)" "bd_height d0 = b_height b"
      "bd_confirmations d0 = (if bd_canonical d0 then confirmations_for (indexed_tip c) (b_height b) else Some 0)"
      using by_P unfolding d0(1) by (rule block_by_found)
    have can: "bd_canonical d0" using b(3) d0(4,5) by (auto split: if_splits)
    then have "confirmations_for (indexed_tip c) (b_height b) = Some n" using b(3) d0(4) by simp
    from confirmed_deep [OF assms(1) b(1) assms(2) this d0(5)] can show ?thesis by (simp add: d0 b(2))
  qed
  assume "get_block_by_height lib dims rpc c height = Answer One_Hour d \<or> get_block_by_hash lib dims rpc c hash = Answer One_Hour d"
  then show "bd_canonical d" "deep_enough c (bd_height d)"
    using block by (auto simp: get_block_by_height_def get_block_by_hash_def block_by_height_def block_by_hash_def answering_def
        split: if_splits sum.splits)
next
  assume g: "get_tx rpc c txid = Answer One_Hour (t, fees)"
  then have f: "tx_by_txid c txid = Inr (Some t)" and n: "td_block_canonical t" "\<exists>n. td_confirmations t = Some n \<and> 18 \<le> n"
    by (auto simp: get_tx_def answering_def cached_json_def FINAL_CONFIRMATIONS_def split: if_splits sum.splits option.splits)
  show "td_block_canonical t" by (rule n)
  show "deep_enough c (td_block_height t)"
    by (rule tx_found [OF f]) (use n confirmed_deep [OF assms(1) _ assms(2)] in auto)
next
  assume g: "get_blocks c lim before = Answer One_Hour page"
  have p: "page = recent_blocks c (clamped lim 25 1 200) before" and "page \<noteq> []"
    and tip: "\<exists>t. indexed_tip c = Some t \<and> 18 \<le> wrap (t - sm_height (hd page) + 1)"
    using g by (auto simp: get_blocks_def Let_def cached_json_def FINAL_CONFIRMATIONS_def split: if_splits option.splits)
  show "page \<noteq> []" by fact
  have rows: "\<exists>b \<in> set (blocks c). s = block_summary_of c b \<and> is_canonical c (b_id b)" if "s \<in> set page" for s
    using recent_block_rows that by (simp add: p)
  have range: "0 \<le> sm_height s \<and> sm_height s < 2 ^ 63" if "s \<in> set page" for s
    using rows [OF that] assms(1) by (auto simp: heights_in_range_def block_summary_of_def)
  obtain t where t: "indexed_tip c = Some t" "18 \<le> wrap (t - sm_height (hd page) + 1)" using tip by blast
  have "18 \<le> t - sm_height (hd page) + 1"
    using range [of "hd page"] \<open>page \<noteq> []\<close> t assms(2) by (intro wrap_final) auto
  then have "deep_enough c (sm_height s)" if "s \<in> set page" for s
    using newest_is_first [of s c "clamped lim 25 1 200" before] that t(1) by (auto simp: deep_enough_def p)
  with rows show "\<forall>s \<in> set page. deep_enough c (sm_height s) \<and> (\<exists>b \<in> set (blocks c). s = block_summary_of c b \<and> is_canonical c (b_id b))"
    by blast
qed
section \<open>Arrival times in the pages\<close>

definition with_seen :: "int \<Rightarrow> string \<Rightarrow> int \<Rightarrow> block_summary \<Rightarrow> block_summary" where
  "with_seen height hash at_ms x =
     (if sm_height x = height \<and> sm_hash x = hash \<and> sm_seen_at_ms x = None then x\<lparr>sm_seen_at_ms := Some at_ms\<rparr> else x)"

lemma limit_rows_map: "limit_rows n (map f xs) = map f (limit_rows n xs)"
  by (simp add: limit_rows_def take_map)

lemma sort_desc_map: "sort_desc f (map g xs) = map g (sort_desc (\<lambda>x. f (g x)) xs)"
  unfolding sort_desc_def by (metis map_sort_key rev_map)

lemma recent_blocks_seen:
  "recent_blocks (fst (adopt_tip_seen c h hash at_ms)) lim before = map (with_seen (as_i64 h) hash at_ms) (recent_blocks c lim before)"
proof -
  let ?P = "\<lambda>b. b_height b = as_i64 h \<and> b_hash b = hash \<and> b_tip_seen_at_ms b = None"
  let ?u = "\<lambda>b. if ?P b then b\<lparr>b_tip_seen_at_ms := Some at_ms\<rparr> else b"
  let ?c = "fst (adopt_tip_seen c h hash at_ms)"
  have blocks: "blocks ?c = map ?u (blocks c)" by (simp add: adopt_tip_seen_def Let_def update_where_def)
  have same: "b_height (?u b) = b_height b" "b_id (?u b) = b_id b" for b by simp_all
  have can: "is_canonical ?c bid = is_canonical c bid" for bid
    by (simp add: is_canonical_def current_status_def adopt_tip_seen_def Let_def)
  have line: "block_summary_of ?c (?u b) = with_seen (as_i64 h) hash at_ms (block_summary_of c b)" for b
    by (simp add: block_summary_of_def with_seen_def txs_of_block_def archived_def adopt_tip_seen_def Let_def)
  show ?thesis
    unfolding recent_blocks_def blocks filter_map o_def sort_desc_map limit_rows_map map_map same can by (simp add: line)
qed

lemma same_line:
  assumes "wf_db c" "x \<in> set (recent_blocks c lim before)" "y \<in> set (recent_blocks c lim' before')"
    and "sm_height x = sm_height y" "sm_hash x = sm_hash y"
  shows "x = y"
proof -
  obtain a b where a: "a \<in> set (blocks c)" "x = block_summary_of c a" and b: "b \<in> set (blocks c)" "y = block_summary_of c b"
    using assms(2,3) recent_block_rows by metis
  have "block_key a = block_key b" using assms(4,5) by (simp add: a b block_summary_of_def block_key_def)
  then have "a = b" using assms(1) a(1) b(1) by (auto simp: wf_db_def wf_blocks_def distinct_map inj_on_def)
  then show ?thesis by (simp add: a b)
qed

lemma hour_long_page: "get_blocks c lim before = Answer One_Hour page \<longleftrightarrow>
    page = recent_blocks c (clamped lim 25 1 200) before \<and> page \<noteq> [] \<and> before \<noteq> None
    \<and> (int (length page) = clamped lim 25 1 200 \<or> sm_height (last page) = 0)
    \<and> (\<exists>t. indexed_tip c = Some t \<and> 18 \<le> wrap (t - sm_height (hd page) + 1))"
  by (auto simp: get_blocks_def Let_def cached_json_def FINAL_CONFIRMATIONS_def split: if_splits option.splits)

text \<open>
  C37. A page cached for an hour still changes. Every request so answered names the height below it, fills
  its page or reaches genesis, and shows blocks 18 deep or more; but when a peer reports the arrival time of any
  block of the page that has none, the same request, again answered for an hour, gives another page: that
  block's line carries the time now, every other line is as it was.
\<close>
theorem hour_long_page_can_change:
  assumes "wf_db c" "get_blocks c lim before = Answer One_Hour page"
    and "s \<in> set page" "sm_seen_at_ms s = None" "as_i64 h = sm_height s"
  shows "before \<noteq> None \<and> (int (length page) = clamped lim 25 1 200 \<or> sm_height (last page) = 0)
    \<and> (\<exists>t. indexed_tip c = Some t \<and> 18 \<le> wrap (t - sm_height (hd page) + 1))
    \<and> get_blocks (fst (adopt_tip_seen c h (sm_hash s) at_ms)) lim before
      = Answer One_Hour (map (\<lambda>x. if x = s then s\<lparr>sm_seen_at_ms := Some at_ms\<rparr> else x) page)
    \<and> map (\<lambda>x. if x = s then s\<lparr>sm_seen_at_ms := Some at_ms\<rparr> else x) page \<noteq> page"
proof -
  let ?new = "\<lambda>x. if x = s then s\<lparr>sm_seen_at_ms := Some at_ms\<rparr> else x"
  note p = assms(2) [unfolded hour_long_page]
  have line: "with_seen (as_i64 h) (sm_hash s) at_ms x = ?new x" if "x \<in> set page" for x
    using that assms(3-5) same_line [OF assms(1)] p by (auto simp: with_seen_def)
  have shown: "recent_blocks (fst (adopt_tip_seen c h (sm_hash s) at_ms)) (clamped lim 25 1 200) before = map ?new page"
    using line by (simp add: recent_blocks_seen conjunct1 [OF p, symmetric])
  have ends: "sm_height (hd (map ?new page)) = sm_height (hd page)" "sm_height (last (map ?new page)) = sm_height (last page)"
    using conjunct1 [OF conjunct2 [OF p]] by (simp_all add: hd_map last_map)
  have tip: "indexed_tip (fst (adopt_tip_seen c h (sm_hash s) at_ms)) = indexed_tip c"
    by (simp add: indexed_tip_def get_state_def adopt_tip_seen_def Let_def)
  have "get_blocks (fst (adopt_tip_seen c h (sm_hash s) at_ms)) lim before = Answer One_Hour (map ?new page)"
    unfolding hour_long_page shown ends tip length_map map_is_Nil_conv by (rule conjI [OF refl conjunct2 [OF p]])
  moreover have "map ?new page \<noteq> page"
  proof
    assume "map ?new page = page"
    then have "map ?new page = map (\<lambda>x. x) page" by (simp only: list.map_ident)
    then have "?new s = s" unfolding map_eq_conv using assms(3) by (rule bspec)
    then have "sm_seen_at_ms (s\<lparr>sm_seen_at_ms := Some at_ms\<rparr>) = sm_seen_at_ms s" by simp
    then show False by (simp add: assms(4))
  qed
  ultimately show ?thesis using p by blast
qed

section \<open>Witnesses\<close>

definition sample_final :: db where
  "sample_final = set_state sample_ledger LAST_PROCESSED ''30''"

definition page_of :: "'a api \<Rightarrow> 'a option" where
  "page_of r = (case r of Answer One_Hour page \<Rightarrow> Some page | _ \<Rightarrow> None)"

lemma page_of_Some: "page_of r = Some page \<longleftrightarrow> r = Answer One_Hour page"
  by (cases r) (auto simp: page_of_def split: caching.splits)

lemma sample_page_lines: "map_option (map (\<lambda>x. (sm_height x, sm_hash x, sm_seen_at_ms x))) (page_of (get_blocks sample_final (Some 2) (Some 7)))
    = Some [(6, ''B'', None), (5, ''A'', None)]"
  by code_simp

lemma wf_sample_final: "wf_db sample_final"
  using op_set_state.keeps_wf [OF wf_sample_ledger, of "(LAST_PROCESSED, ''30'')"] by (simp add: sample_final_def)

text \<open>A peer's report of block 6 in a final page of two blocks.\<close>

lemma hour_long_page_can_change_witness:
  "\<exists>page page'. get_blocks sample_final (Some 2) (Some 7) = Answer One_Hour page \<and> map sm_seen_at_ms page = [None, None]
     \<and> get_blocks (fst (adopt_tip_seen sample_final 6 ''B'' 1)) (Some 2) (Some 7) = Answer One_Hour page'
     \<and> map sm_seen_at_ms page' = [Some 1, None]"
proof -
  obtain page where page: "get_blocks sample_final (Some 2) (Some 7) = Answer One_Hour page"
    and lines: "map (\<lambda>x. (sm_height x, sm_hash x, sm_seen_at_ms x)) page = [(6, ''B'', None), (5, ''A'', None)]"
    using sample_page_lines by (auto simp: page_of_Some)
  obtain s rest where p: "page = [s, rest]" "sm_height s = 6" "sm_hash s = ''B''" "sm_seen_at_ms s = None" "sm_seen_at_ms rest = None"
    "sm_height rest = 5" using lines by (auto simp: map_eq_Cons_conv)
  have "as_i64 6 = sm_height s" by (simp add: as_i64_def p(2))
  from hour_long_page_can_change [OF wf_sample_final page _ p(4) this]
  have "get_blocks (fst (adopt_tip_seen sample_final 6 ''B'' 1)) (Some 2) (Some 7)
      = Answer One_Hour (map (\<lambda>x. if x = s then s\<lparr>sm_seen_at_ms := Some 1\<rparr> else x) page)"
    unfolding p(1,3) by simp
  moreover have "rest \<noteq> s" using p(2,6) by auto
  then have "map sm_seen_at_ms (map (\<lambda>x. if x = s then s\<lparr>sm_seen_at_ms := Some 1\<rparr> else x) page) = [Some 1, None]"
    unfolding p(1) using p(5) by simp
  moreover have "map sm_seen_at_ms page = [None, None]" unfolding p(1) using p(4,5) by simp
  ultimately show ?thesis using page
    by (intro exI [of _ page] exI [of _ "map (\<lambda>x. if x = s then s\<lparr>sm_seen_at_ms := Some 1\<rparr> else x) page"] conjI)
qed

definition sample_curve_at :: "u64 \<Rightarrow> u64 \<Rightarrow> header_sample" where
  "sample_curve_at h n = \<lparr>hs_height = h, hs_active_slot_count = 0, hs_alloc_counter = n\<rparr>"

lemma sample_curve_height [simp]: "hs_height (sample_curve_at h n) = h"
  by (simp add: sample_curve_at_def)

lemma sample_burns: "burn_by_block sample_ledger = [(5, 44999950), (6, 44999950)]" by code_simp

lemma burn_history_is_exact_witness:
  "map ep_burned (measured_history (burn_by_block sample_ledger) 6 []
      [sample_curve_at 4 20, sample_curve_at 5 30, sample_curve_at 6 40] 100000000)
    = [None, Some (decimal 55000050), Some (decimal 100000000)]"
proof -
  have burned: "ep_burned (burn_point (burn_by_block sample_ledger) 6 [] 100000000 (sample_curve_at h n))
      = (if h = 4 then None else Some (decimal (100000000 - burned_above (burn_by_block sample_ledger) h)))"
    if "h \<in> {4, 5, 6}" for h n using that by (auto simp: burn_point_def on_record_at_def sample_burns)
  have above: "burned_above (burn_by_block sample_ledger) 5 = 44999950" "burned_above (burn_by_block sample_ledger) 6 = 0"
    by (simp_all add: sample_burns burned_above_def)
  have ascending: "sorted (map hs_height [sample_curve_at 4 20, sample_curve_at 5 30, sample_curve_at 6 40])" by simp
  show ?thesis
    unfolding burn_history_is_exact [OF sample_ledger_heights ascending] by (simp add: burned above)
qed

definition sample_requests :: "(int \<times> db) list" where
  "sample_requests = [(100, sample_ledger), (110, sample_ledger)]"

lemma cached_figures_are_recent_witness:
  "serve_all (\<lambda>(now, c). cached_chain_stats c now) None sample_requests ! 1
     \<in> {chain_stats sample_ledger 100, chain_stats sample_ledger 110}"
proof -
  obtain j where "j \<le> 1" "serve_all (\<lambda>(now, c). cached_chain_stats c now) None sample_requests ! 1
      = chain_stats (snd (sample_requests ! j)) (fst (sample_requests ! j))"
    using cached_figures_are_recent [of 1 sample_requests None] by (auto simp: sample_requests_def)
  then show ?thesis by (cases j) (simp_all add: sample_requests_def)
qed

definition sample_address :: string where
  "sample_address = ''o1'' @ replicate 50 CHR ''a''"

definition sample_asked :: "balance_cache \<times> balance_history api" where
  "sample_asked = get_address_balance_history (\<lambda>_. None) sample_ledger sample_address []"

lemma sample_asked_kept: "map fst (fst sample_asked) = [sample_address]" by code_simp

lemma balance_cache_is_bounded_witness: "length (fst sample_asked) \<le> 2000 \<and> map fst (fst sample_asked) = [sample_address]"
  using balance_cache_is_bounded [of "[]" "\<lambda>_. None" sample_ledger sample_address "fst sample_asked" "snd sample_asked"]
  using sample_asked_kept by (simp add: sample_asked_def BALANCE_CACHE_MAX_def)

definition sample_pending :: mempool_tx where
  "sample_pending = \<lparr>mp_tx_hash = ''p'', mp_fee = 0, mp_fee_rate = 0, mp_n_inputs = 1, mp_n_outputs = 1, mp_page_count = 1,
     mp_admitted_height = 6, mp_minimum_proof_class = None, mp_requires_b255_miner = False, mp_contract = False\<rparr>"

definition sample_net :: "mempool_entry option result \<Rightarrow> live_node" where
  "sample_net entry = \<lparr>ln_rpc = sample_node ''B'' None, ln_chain_info = bail ''off'', ln_mining_info = bail ''off'',
     ln_state_info = bail ''off'', ln_active_slot_count = bail ''off'',
     ln_mempool_info = Inr \<lparr>mo_size = 1, mo_fee_floor = 0, mo_txs = [sample_pending]\<rparr>, ln_mempool_entry = (\<lambda>_. entry)\<rparr>"

lemma mempool_asks_once_witness:
  "\<exists>memo info memo' info' tx'. get_mempool (sample_net (Inr (Some \<lparr>pe_contract_opening = Some ''c''\<rparr>))) Map.empty = (memo, Answer Unstated info)
     \<and> get_mempool (sample_net (bail ''off'')) memo = (memo', Answer Unstated info')
     \<and> tx' \<in> set (mo_txs info') \<and> mp_tx_hash tx' = ''p'' \<and> mp_contract tx'"
proof -
  let ?told = "sample_net (Inr (Some \<lparr>pe_contract_opening = Some ''c''\<rparr>))" and ?memo = "[''p'' \<mapsto> True]"
  let ?shown = "sample_pending\<lparr>mp_contract := True\<rparr>"
  let ?info = "\<lparr>mo_size = 1, mo_fee_floor = 0, mo_txs = [?shown]\<rparr>"
  have one: "get_mempool ?told Map.empty = (?memo, Answer Unstated ?info)"
    and two: "get_mempool (sample_net (bail ''off'')) ?memo = (?memo, Answer Unstated ?info)"
    by (simp_all add: get_mempool_def sample_net_def contract_of_def sample_pending_def)
  have "mp_contract ?shown" if "?memo (mp_tx_hash ?shown) = Some True"
    using mempool_asks_once [OF one two, of ?shown ?shown] that by simp
  moreover have "mp_tx_hash ?shown = ''p''" by (simp add: sample_pending_def)
  ultimately have "?shown \<in> set (mo_txs ?info)" "mp_tx_hash ?shown = ''p''" "mp_contract ?shown" by simp_all
  with one two show ?thesis by blast
qed

lemma sample_final_heights: "heights_in_range sample_final" by code_simp
lemma sample_final_tip: "indexed_tip sample_final = Some 30" by code_simp
lemma sample_final_page: "map_option (map sm_height) (page_of (get_blocks sample_final (Some 2) (Some 7))) = Some [6, 5]" by code_simp

lemma hour_long_caching_is_final_witness:
  "\<exists>page. get_blocks sample_final (Some 2) (Some 7) = Answer One_Hour page \<and> map sm_height page = [6, 5]
     \<and> deep_enough sample_final 6 \<and> deep_enough sample_final 5"
proof -
  obtain page where page: "get_blocks sample_final (Some 2) (Some 7) = Answer One_Hour page" "map sm_height page = [6, 5]"
    using sample_final_page by (auto simp: page_of_Some)
  have "\<forall>s \<in> set page. deep_enough sample_final (sm_height s)"
    using hour_long_caching_is_final [OF sample_final_heights] page(1) by (simp add: sample_final_tip)
  moreover have "6 \<in> sm_height ` set page" "5 \<in> sm_height ` set page" using page(2) by (simp_all flip: set_map)
  ultimately have "deep_enough sample_final 6" "deep_enough sample_final 5" by (metis imageE)+
  with page show ?thesis by (intro exI [of _ page]) simp
qed

lemma estimates_meet_the_measurement_witness:
  "\<exists>est. ep_estimate (with_estimates [sample_curve_at 4 20, sample_curve_at 5 30]
        [\<lparr>ep_height = 4, ep_issued = [], ep_burned = None, ep_estimate = None\<rparr>,
         \<lparr>ep_height = 5, ep_issued = [], ep_burned = Some (u128_to_string 1000), ep_estimate = None\<rparr>] ! 0)
      = Some (u128_to_string (est :: u128)) \<and> est \<le> 1000"
proof -
  let ?samples = "[sample_curve_at 4 20, sample_curve_at 5 30]"
  let ?history = "[\<lparr>ep_height = 4, ep_issued = [], ep_burned = None, ep_estimate = None\<rparr>,
    \<lparr>ep_height = 5, ep_issued = [], ep_burned = Some (u128_to_string 1000), ep_estimate = None\<rparr>]"
  have four: "user_mints (sample_curve_at 4 20) = 16" and five: "user_mints (sample_curve_at 5 30) = 25" by code_simp+
  have mints: "user_mints (?samples ! i) \<le> user_mints (?samples ! j)" if "i \<le> j" "j \<le> 1" for i j
    using that by (cases i; cases j) (auto simp: four five)
  have "unat (1000 :: u128) * unat (user_mints (?samples ! 1)) < 2 ^ 128" by (simp add: five)
  then obtain est where "\<forall>i \<le> 1. ep_estimate (with_estimates ?samples ?history ! i) = Some (u128_to_string (est i))"
    "\<forall>i j. i \<le> j \<longrightarrow> j \<le> 1 \<longrightarrow> est i \<le> est j" "est 1 = (1000 :: u128)"
    using estimates_meet_the_measurement [of 1 ?history 1000 ?samples] mints by auto
  then have "ep_estimate (with_estimates ?samples ?history ! 0) = Some (u128_to_string (est 0)) \<and> est 0 \<le> 1000" by fastforce
  then show ?thesis by (rule exI)
qed

end
