(* ===== verification/Schema.thy ===== *)
theory Schema
  imports Rpc_Types
begin

text \<open>
  Opening a database in \<^verbatim>\<open>core/src/db.rs\<close>: the statements that create the tables and indexes, the columns
  later versions added, and the rebuild of \<^verbatim>\<open>tx_outputs\<close>. Here a table is its columns and rows as SQLite
  stores them; Db_Tables starts from the layout this arrives at. An index knows its table, and creating
  one needs the columns it names. The pragmas set durability and locking, which the model takes as given.
\<close>

section \<open>Tables as SQLite stores them\<close>

datatype cell = Null_Cell | Int_Cell int | Text_Cell string | Blob_Cell bytes

record column =
  cl_name :: string
  cl_type :: string
  cl_not_null :: bool
  cl_default :: cell

record tbl =
  tb_columns :: "column list"
  tb_rows :: "(int \<times> cell list) list"

record catalog =
  tables :: "string \<rightharpoonup> tbl"
  indexes :: "string \<rightharpoonup> string"

definition optional :: "string \<Rightarrow> string \<Rightarrow> column" where
  "optional x ty = \<lparr>cl_name = x, cl_type = ty, cl_not_null = False, cl_default = Null_Cell\<rparr>"

definition required :: "string \<Rightarrow> string \<Rightarrow> column" where
  "required x ty = \<lparr>cl_name = x, cl_type = ty, cl_not_null = True, cl_default = Null_Cell\<rparr>"

definition column_names :: "tbl \<Rightarrow> string list" where
  "column_names t = map cl_name (tb_columns t)"

definition cell_at :: "tbl \<Rightarrow> cell list \<Rightarrow> string \<rightharpoonup> cell" where
  "cell_at t cells = map_of (zip (column_names t) cells)"

section \<open>The statements\<close>

datatype statement =
    Create_Table string "column list"
  | Create_Index string string "string list"
  | Add_Column string column
  | Relax_Creation_Id

definition create_table :: "catalog \<Rightarrow> string \<Rightarrow> column list \<Rightarrow> catalog" where
  "create_table s n cs =
     (if tables s n = None then s\<lparr>tables := (tables s)(n \<mapsto> \<lparr>tb_columns = cs, tb_rows = []\<rparr>)\<rparr> else s)"

definition create_index :: "catalog \<Rightarrow> string \<Rightarrow> string \<Rightarrow> string list \<Rightarrow> catalog result" where
  "create_index s i n xs =
     (if indexes s i \<noteq> None then Inr s
      else case tables s n of
             None \<Rightarrow> bail ''no such table''
           | Some t \<Rightarrow> if set xs \<subseteq> set (column_names t) then Inr (s\<lparr>indexes := (indexes s)(i \<mapsto> n)\<rparr>)
                       else bail ''no such column'')"

definition add_column_if_missing :: "catalog \<Rightarrow> string \<Rightarrow> column \<Rightarrow> catalog result" where
  "add_column_if_missing s n c =
     (case tables s n of
        None \<Rightarrow> bail ''no such table''
      | Some t \<Rightarrow>
          if cl_name c \<in> set (column_names t) then Inr s
          else if cl_not_null c \<and> cl_default c = Null_Cell then bail ''cannot add a NOT NULL column with default value NULL''
          else Inr (s\<lparr>tables := (tables s)(n \<mapsto> \<lparr>tb_columns = tb_columns t @ [c],
                 tb_rows = map (\<lambda>(rid, cells). (rid, cells @ [cl_default c])) (tb_rows t)\<rparr>)\<rparr>))"

definition column_is_not_null :: "catalog \<Rightarrow> string \<Rightarrow> string \<Rightarrow> bool" where
  "column_is_not_null s n x =
     (case tables s n of None \<Rightarrow> False | Some t \<Rightarrow> \<exists>c \<in> set (tb_columns t). cl_name c = x \<and> cl_not_null c)"

definition rebuilt_columns :: "column list" where
  "rebuilt_columns = [required ''tx_id'' ''INTEGER'', required ''idx'' ''INTEGER'', required ''page'' ''INTEGER'',
     required ''lane'' ''INTEGER'', required ''slot_index'' ''INTEGER'', required ''amount_micronoid'' ''INTEGER'',
     required ''owner'' ''TEXT'', optional ''creation_id'' ''TEXT'',
     (required ''spent_in_gap'' ''INTEGER'')\<lparr>cl_default := Int_Cell 0\<rparr>, optional ''spent_in_gap_at'' ''TEXT'']"

text \<open>\<open>INSERT INTO .. SELECT\<close> by name; a \<open>NULL\<close> where the new table forbids it fails.\<close>

definition copy_row :: "tbl \<Rightarrow> column list \<Rightarrow> int \<times> cell list \<Rightarrow> (int \<times> cell list) option" where
  "copy_row t cs = (\<lambda>(rid, cells).
     let copied = map (\<lambda>c. case cell_at t cells (cl_name c) of Some v \<Rightarrow> v | None \<Rightarrow> Null_Cell) cs
     in if \<exists>(c, v) \<in> set (zip cs copied). cl_not_null c \<and> v = Null_Cell then None else Some (rid, copied))"

definition relax_output_creation_id :: "catalog \<Rightarrow> catalog result" where
  "relax_output_creation_id s =
     (if \<not> column_is_not_null s ''tx_outputs'' ''creation_id'' then Inr s
      else case tables s ''tx_outputs'' of
             None \<Rightarrow> bail ''no such table''
           | Some t \<Rightarrow>
               if \<not> set (map cl_name rebuilt_columns) \<subseteq> set (column_names t) then bail ''no such column''
               else case those (map (copy_row t rebuilt_columns) (tb_rows t)) of
                      None \<Rightarrow> bail ''NOT NULL constraint failed''
                    | Some copied \<Rightarrow>
                        if length copied \<noteq> length (tb_rows t) then bail ''tx_outputs rebuild copied too few rows''
                        else Inr (s\<lparr>tables := (tables s)(''tx_outputs_new'' := None,
                                      ''tx_outputs'' \<mapsto> \<lparr>tb_columns = rebuilt_columns, tb_rows = copied\<rparr>),
                                    indexes := (\<lambda>i. if indexes s i = Some ''tx_outputs'' then None else indexes s i)
                                      (''idx_outputs_owner'' \<mapsto> ''tx_outputs'', ''idx_outputs_creation'' \<mapsto> ''tx_outputs'',
                                       ''idx_outputs_slot'' \<mapsto> ''tx_outputs'')\<rparr>))"

fun execute :: "statement \<Rightarrow> catalog \<Rightarrow> catalog result" where
  "execute (Create_Table n cs) s = Inr (create_table s n cs)"
| "execute (Create_Index i n xs) s = create_index s i n xs"
| "execute (Add_Column n c) s = add_column_if_missing s n c"
| "execute Relax_Creation_Id s = relax_output_creation_id s"

fun execute_all :: "statement list \<Rightarrow> catalog \<Rightarrow> catalog result" where
  "execute_all [] s = Inr s"
| "execute_all (st # sts) s = and_then (execute st s) (execute_all sts)"

section \<open>The schema\<close>

definition init_schema :: "statement list" where
  "init_schema =
     [Create_Table ''blocks'' [optional ''id'' ''INTEGER'', required ''height'' ''INTEGER'', required ''hash'' ''TEXT'',
        required ''prev_hash'' ''TEXT'', required ''state_root'' ''TEXT'', required ''tx_root'' ''TEXT'',
        required ''timestamp'' ''INTEGER'', required ''miner'' ''TEXT'', required ''nonce_hex'' ''TEXT'',
        required ''difficulty_target'' ''TEXT'', optional ''proof_class'' ''TEXT'', optional ''reward_micronoid'' ''INTEGER'',
        optional ''total_fees_micronoid'' ''TEXT'', required ''body_captured'' ''INTEGER'', required ''first_seen_at'' ''TEXT''],
      Create_Index ''idx_blocks_height'' ''blocks'' [''height''],
      Create_Table ''block_status_log'' [optional ''id'' ''INTEGER'', required ''block_id'' ''INTEGER'',
        required ''status'' ''TEXT'', required ''observed_at'' ''TEXT''],
      Create_Index ''idx_status_log_block'' ''block_status_log'' [''block_id''],
      Create_Table ''transactions'' [optional ''id'' ''INTEGER'', required ''block_id'' ''INTEGER'', required ''position'' ''INTEGER'',
        required ''txid'' ''TEXT'', required ''page_count'' ''INTEGER'', required ''fee_micronoid'' ''INTEGER'',
        required ''coinbase'' ''INTEGER'', required ''development_payout'' ''INTEGER'', required ''epoch_anchor'' ''TEXT'',
        optional ''input_owner'' ''TEXT'', required ''input_sum_micronoid'' ''TEXT'', required ''output_sum_micronoid'' ''TEXT''],
      Create_Index ''idx_tx_txid'' ''transactions'' [''txid''],
      Create_Index ''idx_tx_block'' ''transactions'' [''block_id''],
      Create_Index ''idx_tx_owner'' ''transactions'' [''input_owner''],
      Create_Table ''tx_page_hashes'' [required ''tx_id'' ''INTEGER'', required ''idx'' ''INTEGER'', required ''page_hash'' ''TEXT''],
      Create_Table ''tx_inputs'' [required ''tx_id'' ''INTEGER'', required ''idx'' ''INTEGER'', required ''page'' ''INTEGER'',
        required ''lane'' ''INTEGER'', required ''slot_index'' ''INTEGER'', required ''amount_micronoid'' ''INTEGER'',
        required ''creation_id'' ''TEXT''],
      Create_Table ''tx_outputs'' [required ''tx_id'' ''INTEGER'', required ''idx'' ''INTEGER'', required ''page'' ''INTEGER'',
        required ''lane'' ''INTEGER'', required ''slot_index'' ''INTEGER'', required ''amount_micronoid'' ''INTEGER'',
        required ''owner'' ''TEXT'', optional ''creation_id'' ''TEXT''],
      Create_Index ''idx_outputs_owner'' ''tx_outputs'' [''owner''],
      Create_Table ''ingest_gaps'' [optional ''height'' ''INTEGER'', optional ''hash'' ''TEXT'', required ''detected_at'' ''TEXT'',
        required ''note'' ''TEXT''],
      Create_Table ''indexer_state'' [optional ''key'' ''TEXT'', required ''value'' ''TEXT''],
      Create_Table ''address_balance_cache'' [optional ''address'' ''TEXT'', required ''live_balance_micronoid'' ''TEXT'',
        required ''live_utxo_count'' ''INTEGER'', required ''fetched_at'' ''TEXT'']]"

definition zero_flag :: "string \<Rightarrow> column" where
  "zero_flag x = (required x ''INTEGER'')\<lparr>cl_default := Int_Cell 0\<rparr>"

definition migrations :: "statement list" where
  "migrations =
     [Add_Column ''blocks'' (optional ''body_source'' ''TEXT''),
      Add_Column ''ingest_gaps'' (optional ''resolved_at'' ''TEXT''),
      Add_Column ''ingest_gaps'' (optional ''resolution'' ''TEXT''),
      Add_Column ''tx_outputs'' (zero_flag ''spent_in_gap''),
      Add_Column ''tx_outputs'' (optional ''spent_in_gap_at'' ''TEXT''),
      Add_Column ''blocks'' (optional ''log_slots'' ''INTEGER''),
      Add_Column ''transactions'' (zero_flag ''contract_flags''),
      Add_Column ''blocks'' (optional ''contracts_scanned'' ''INTEGER''),
      Create_Table ''state_slots'' [optional ''slot_index'' ''INTEGER'', required ''segment'' ''INTEGER'',
        required ''creation_id'' ''TEXT'', required ''owner'' ''TEXT'', required ''amount_micronoid'' ''INTEGER'',
        required ''seen_height'' ''INTEGER'', required ''seen_at'' ''TEXT''],
      Create_Index ''idx_state_slots_segment'' ''state_slots'' [''segment''],
      Create_Index ''idx_state_slots_creation'' ''state_slots'' [''creation_id''],
      Create_Index ''idx_outputs_slot'' ''tx_outputs'' [''slot_index''],
      Create_Index ''idx_inputs_creation'' ''tx_inputs'' [''creation_id''],
      Create_Index ''idx_outputs_creation'' ''tx_outputs'' [''creation_id''],
      Create_Index ''idx_blocks_timestamp'' ''blocks'' [''timestamp''],
      Create_Index ''idx_tx_contract'' ''transactions'' [''block_id'', ''contract_flags''],
      Create_Index ''idx_blocks_miner'' ''blocks'' [''miner'', ''body_source'', ''height''],
      Create_Index ''idx_blocks_header_only'' ''blocks'' [''height'', ''body_source''],
      Create_Index ''idx_blocks_archive_height'' ''blocks'' [''height'', ''body_source''],
      Create_Index ''idx_blocks_archive_timestamp'' ''blocks'' [''timestamp'', ''body_source''],
      Add_Column ''transactions'' (optional ''source'' ''TEXT''),
      Add_Column ''blocks'' (optional ''tx_count_total'' ''INTEGER''),
      Add_Column ''blocks'' (optional ''tip_seen_at_ms'' ''INTEGER''),
      Create_Index ''idx_blocks_seen'' ''blocks'' [''height'', ''tip_seen_at_ms''],
      Create_Table ''tx_receipts'' [optional ''tx_id'' ''INTEGER'', required ''receipt_hex'' ''TEXT'', required ''imported_at'' ''TEXT''],
      Create_Index ''idx_tx_receipt'' ''transactions'' [''block_id'', ''source''],
      Relax_Creation_Id,
      Create_Table ''raw_blocks'' [optional ''block_id'' ''INTEGER'', required ''codec'' ''TEXT'', required ''raw_len'' ''INTEGER'',
        required ''data'' ''BLOB'', required ''source'' ''TEXT'', required ''stored_at'' ''TEXT'']]"

text \<open>The schema is created statement by statement, the migrations run in one transaction.\<close>

definition open_catalog :: "catalog \<Rightarrow> catalog result" where
  "open_catalog s = and_then (execute_all init_schema s) (execute_all migrations)"

end
