(* ===== verification/Schema_Spec.thy ===== *)
theory Schema_Spec
  imports Schema "HOL-Library.AList"
begin

text \<open>
  Opening a database of any release arrives at the current layout without losing a value. What each statement
  needs and gives is a check on column names (\<open>checked\<close>), evaluated once for the whole schema; that it
  carries over to the tables is an induction over the statements.
\<close>

section \<open>Layouts\<close>

definition schema_script :: "statement list" where
  "schema_script = init_schema @ migrations"

text \<open>All columns a table has in the current layout, and the column of \<^verbatim>\<open>tx_outputs\<close> as early releases declared it.\<close>

definition layout :: "string \<Rightarrow> column list" where
  "layout n = concat (map (\<lambda>st. case st of
     Create_Table m cs \<Rightarrow> if m = n then cs else []
   | Add_Column m c \<Rightarrow> if m = n then [c] else []
   | _ \<Rightarrow> []) schema_script)"

definition base_columns :: "string \<Rightarrow> column list" where
  "base_columns n = concat (map (\<lambda>st. case st of Create_Table m cs \<Rightarrow> if m = n then cs else [] | _ \<Rightarrow> []) schema_script)"

definition strict_creation_id :: column where
  "strict_creation_id = required ''creation_id'' ''TEXT''"

definition known_tables :: "string list" where
  "known_tables = concat (map (\<lambda>st. case st of Create_Table n cs \<Rightarrow> [n] | _ \<Rightarrow> []) schema_script)"

definition allowed :: "string \<Rightarrow> column \<Rightarrow> bool" where
  "allowed n c = (c \<in> set (layout n) \<or> n = ''tx_outputs'' \<and> c = strict_creation_id)"

definition sound_rows :: "tbl \<Rightarrow> bool" where
  "sound_rows t = (distinct (column_names t) \<and> (\<forall>(rid, cells) \<in> set (tb_rows t). length cells = length (tb_columns t)
     \<and> (\<forall>(c, v) \<in> set (zip (tb_columns t) cells). cl_not_null c \<longrightarrow> v \<noteq> Null_Cell)))"

text \<open>
  A database some release left behind, or one an interrupted opening did: each table it has was created with
  its first columns, may have any of those added later, and no others.
\<close>

definition released :: "catalog \<Rightarrow> bool" where
  "released s = ((\<forall>n t. tables s n = Some t \<longrightarrow> n \<in> set known_tables \<and> sound_rows t
       \<and> (\<forall>c \<in> set (tb_columns t). allowed n c) \<and> cl_name ` set (base_columns n) \<subseteq> set (column_names t))
     \<and> (\<forall>i n. indexes s i = Some n \<longrightarrow> (\<exists>xs. Create_Index i n xs \<in> set schema_script)))"

definition current_layout :: "catalog \<Rightarrow> bool" where
  "current_layout s = (\<forall>n \<in> set known_tables. \<exists>t. tables s n = Some t \<and> set (tb_columns t) = set (layout n))"

text \<open>Every row keeps its rowid and every value it had, whatever columns are added.\<close>

definition keeps_table :: "tbl \<Rightarrow> tbl \<Rightarrow> bool" where
  "keeps_table t t' = (set (column_names t) \<subseteq> set (column_names t')
     \<and> list_all2 (\<lambda>(i, v) (j, w). i = j \<and> (\<forall>x \<in> set (column_names t). cell_at t' w x = cell_at t v x)) (tb_rows t) (tb_rows t'))"

definition keeps_rows :: "catalog \<Rightarrow> catalog \<Rightarrow> bool" where
  "keeps_rows s s' = (\<forall>n t. tables s n = Some t \<longrightarrow> (\<exists>t'. tables s' n = Some t' \<and> keeps_table t t'))"

lemma keeps_table_refl [simp]: "keeps_table t t"
  by (simp add: keeps_table_def list_all2_same split_def)

lemma keeps_table_trans: "keeps_table a b \<Longrightarrow> keeps_table b d \<Longrightarrow> keeps_table a d"
  unfolding keeps_table_def
  by (elim conjE, intro conjI, blast) (erule (1) list_all2_trans [rotated], fastforce simp: split_def)

lemma keeps_rows_refl [simp]: "keeps_rows s s"
  by (simp add: keeps_rows_def)

lemma keeps_rows_trans: "keeps_rows a b \<Longrightarrow> keeps_rows b d \<Longrightarrow> keeps_rows a d"
  unfolding keeps_rows_def by (meson keeps_table_trans)

lemma keeps_rows_update: "tables s n = Some t \<Longrightarrow> keeps_table t t' \<Longrightarrow> tables s' = (tables s)(n \<mapsto> t') \<Longrightarrow> keeps_rows s s'"
  by (auto simp: keeps_rows_def)

section \<open>Columns\<close>

text \<open>What is known of the tables so far: for each of some tables, columns it has.\<close>

type_synonym known_columns = "(string \<times> string list) list"

definition covers :: "catalog \<Rightarrow> known_columns \<Rightarrow> bool" where
  "covers s g = (\<forall>n xs. map_of g n = Some xs \<longrightarrow> (\<exists>t. tables s n = Some t \<and> set xs \<subseteq> set (column_names t)))"

definition has_columns :: "known_columns \<Rightarrow> string \<Rightarrow> string list \<Rightarrow> bool" where
  "has_columns g n xs = (case map_of g n of None \<Rightarrow> False | Some ys \<Rightarrow> list_all (List.member ys) xs)"

fun known_after :: "statement \<Rightarrow> known_columns \<Rightarrow> known_columns option" where
  "known_after (Create_Table n cs) g = (if map_of g n = None then Some ((n, map cl_name cs) # g) else None)"
| "known_after (Create_Index i n xs) g = (if has_columns g n xs then Some g else None)"
| "known_after (Add_Column n c) g =
     (case map_of g n of
        None \<Rightarrow> None
      | Some ys \<Rightarrow> if cl_not_null c \<and> cl_default c = Null_Cell then None else Some (AList.update n (cl_name c # ys) g))"
| "known_after Relax_Creation_Id g = (if has_columns g ''tx_outputs'' (map cl_name rebuilt_columns) then Some g else None)"

fun checked :: "known_columns \<Rightarrow> statement list \<Rightarrow> known_columns option" where
  "checked g [] = Some g"
| "checked g (st # sts) = Option.bind (known_after st g) (\<lambda>g. checked g sts)"

definition known_at_last :: known_columns where
  "known_at_last = the (checked [] schema_script)"

lemma script_checked: "checked [] schema_script \<noteq> None"
  by code_simp

text \<open>What holds of each statement on its own.\<close>

fun well_placed :: "statement \<Rightarrow> bool" where
  "well_placed (Create_Table n cs) = (base_columns n = cs \<and> n \<in> set known_tables \<and> list_all (\<lambda>c. c \<in> set (layout n)) cs
     \<and> distinct (map cl_name cs))"
| "well_placed (Create_Index i n xs) = (n = ''tx_outputs'' \<longrightarrow> i \<in> set [''idx_outputs_owner'', ''idx_outputs_creation'', ''idx_outputs_slot''])"
| "well_placed (Add_Column n c) = (n \<in> set known_tables \<and> c \<in> set (layout n))"
| "well_placed Relax_Creation_Id = True"

lemma all_well_placed: "list_all well_placed schema_script"
  by code_simp

lemma well_placed [dest]: "st \<in> set schema_script \<Longrightarrow> well_placed st"
  using all_well_placed by (simp add: list_all_iff)

lemma layout_distinct: "list_all (\<lambda>n. distinct (map cl_name (layout n))) known_tables"
  by code_simp

lemma layout_inj: "n \<in> set known_tables \<Longrightarrow> c \<in> set (layout n) \<Longrightarrow> c' \<in> set (layout n) \<Longrightarrow> cl_name c = cl_name c' \<Longrightarrow> c = c'"
  using layout_distinct by (auto simp: list_all_iff distinct_map dest: inj_onD)

lemma rebuilt_checked: "list_all (\<lambda>c. c \<in> set rebuilt_columns) (layout ''tx_outputs'')" "list_all (\<lambda>c. c \<in> set (layout ''tx_outputs'')) rebuilt_columns"
  "distinct (map cl_name rebuilt_columns)" "''tx_outputs'' \<in> set known_tables" "''tx_outputs_new'' \<notin> set known_tables"
  "list_all (\<lambda>c. c \<in> set (layout ''tx_outputs'')) (base_columns ''tx_outputs'')"
  "list_ex (\<lambda>c. c = optional ''creation_id'' ''TEXT'') rebuilt_columns"
  by code_simp+

lemma rebuilt_indexes:
  "list_all (\<lambda>i. list_ex (\<lambda>st. case st of Create_Index j n xs \<Rightarrow> j = i \<and> n = ''tx_outputs'' | _ \<Rightarrow> False) schema_script)
     [''idx_outputs_owner'', ''idx_outputs_creation'', ''idx_outputs_slot'']"
  by code_simp

lemma creation_id_first: "''creation_id'' \<in> cl_name ` set (base_columns ''tx_outputs'')"
  by code_simp

lemma rebuilt_layout: "set rebuilt_columns = set (layout ''tx_outputs'')" "set (base_columns ''tx_outputs'') \<subseteq> set rebuilt_columns"
  using rebuilt_checked by (auto simp: list_all_iff)

lemma last_checked: "list_all (\<lambda>n. has_columns known_at_last n (map cl_name (layout n))) known_tables"
  by code_simp

lemma index_listed:
  "list_ex (\<lambda>st. case st of Create_Index j m xs \<Rightarrow> j = i \<and> m = n | _ \<Rightarrow> False) sts \<Longrightarrow> \<exists>xs. Create_Index i n xs \<in> set sts"
  by (induction sts) (auto split: statement.splits)

lemma rebuilt_index: "\<exists>xs. Create_Index ''idx_outputs_owner'' ''tx_outputs'' xs \<in> set schema_script"
  "\<exists>xs. Create_Index ''idx_outputs_creation'' ''tx_outputs'' xs \<in> set schema_script"
  "\<exists>xs. Create_Index ''idx_outputs_slot'' ''tx_outputs'' xs \<in> set schema_script"
  using rebuilt_indexes by (auto dest!: index_listed)

lemma rebuilt_relaxed: "list_all (\<lambda>c. cl_name c = ''creation_id'' \<longrightarrow> \<not> cl_not_null c) rebuilt_columns"
  by code_simp

section \<open>One statement\<close>

definition strict :: "catalog \<Rightarrow> bool" where
  "strict s = column_is_not_null s ''tx_outputs'' ''creation_id''"

text \<open>What a statement achieves on the database of any release.\<close>

definition advances :: "catalog \<Rightarrow> catalog \<Rightarrow> bool" where
  "advances s s' = (released s' \<and> keeps_rows s s' \<and> dom (indexes s) \<subseteq> dom (indexes s') \<and> (strict s' \<longrightarrow> strict s))"

lemma advances_trans: "advances a b \<Longrightarrow> advances b d \<Longrightarrow> advances a d"
  by (auto simp: advances_def intro: keeps_rows_trans)

lemma coversD: "covers s g \<Longrightarrow> has_columns g n xs \<Longrightarrow> \<exists>t. tables s n = Some t \<and> set xs \<subseteq> set (column_names t)"
  by (auto simp: covers_def has_columns_def list_all_iff split: option.splits) fastforce

lemma releasedD:
  assumes "released s" "tables s n = Some t"
  shows "n \<in> set known_tables" "sound_rows t" "\<And>c. c \<in> set (tb_columns t) \<Longrightarrow> allowed n c"
    "cl_name ` set (base_columns n) \<subseteq> set (column_names t)"
  using assms by (auto simp: released_def)

lemma released_update:
  assumes "released s" "n \<in> set known_tables" "sound_rows t" "\<And>c. c \<in> set (tb_columns t) \<Longrightarrow> allowed n c"
    "cl_name ` set (base_columns n) \<subseteq> set (column_names t)"
  shows "released (s\<lparr>tables := (tables s)(n \<mapsto> t)\<rparr>)"
  using assms by (auto simp: released_def)

lemma create_advances:
  assumes "Create_Table n cs \<in> set schema_script" "released s"
  shows "advances s (create_table s n cs)"
proof -
  have w: "base_columns n = cs" "n \<in> set known_tables" "set cs \<subseteq> set (layout n)" "distinct (map cl_name cs)"
    using well_placed [OF assms(1)] by (auto simp: list_all_iff)
  show ?thesis
  proof (cases "tables s n")
    case None
    let ?t = "\<lparr>tb_columns = cs, tb_rows = []\<rparr>"
    have "released (s\<lparr>tables := (tables s)(n \<mapsto> ?t)\<rparr>)"
      using w by (intro released_update [OF assms(2)]) (auto simp: sound_rows_def column_names_def allowed_def)
    moreover have "keeps_rows s (s\<lparr>tables := (tables s)(n \<mapsto> ?t)\<rparr>)" using None by (auto simp: keeps_rows_def)
    moreover have "strict s" if now_strict: "strict (s\<lparr>tables := (tables s)(n \<mapsto> ?t)\<rparr>)"
    proof (cases "n = ''tx_outputs''")
      case True
      then obtain c where "c \<in> set cs" "cl_name c = ''creation_id''" "cl_not_null c"
        using now_strict by (auto simp: strict_def column_is_not_null_def)
      moreover have "optional ''creation_id'' ''TEXT'' \<in> set (layout ''tx_outputs'')"
        using rebuilt_checked(7) rebuilt_layout(1) by (auto simp: list_ex_iff)
      ultimately have "c = optional ''creation_id'' ''TEXT''"
        using w(3) True by (intro layout_inj [OF rebuilt_checked(4)]) (auto simp: optional_def)
      with \<open>cl_not_null c\<close> show ?thesis by (simp add: optional_def)
    qed (use now_strict in \<open>simp add: strict_def column_is_not_null_def\<close>)
    ultimately show ?thesis using None by (simp add: advances_def create_table_def)
  qed (simp add: create_table_def advances_def assms(2))
qed

lemma index_advances:
  assumes "Create_Index i n xs \<in> set schema_script" "released s" "covers s g" "has_columns g n xs"
  shows "\<exists>s'. create_index s i n xs = Inr s' \<and> advances s s' \<and> tables s' = tables s \<and> indexes s' i \<noteq> None"
proof (cases "indexes s i")
  case None
  obtain t where t: "tables s n = Some t" "set xs \<subseteq> set (column_names t)" using coversD [OF assms(3,4)] by blast
  have "released (s\<lparr>indexes := (indexes s)(i \<mapsto> n)\<rparr>)" using assms(1,2) by (auto simp: released_def)
  then show ?thesis using None t
    by (simp add: create_index_def advances_def keeps_rows_def strict_def column_is_not_null_def) blast
qed (simp add: create_index_def advances_def assms(2))

lemma cell_at_append:
  assumes "length cells = length (tb_columns t)" "x \<in> set (column_names t)" "t' = \<lparr>tb_columns = tb_columns t @ [c], tb_rows = rows\<rparr>"
  shows "cell_at t' (cells @ [v]) x = cell_at t cells x"
proof -
  have "x \<in> fst ` set (zip (column_names t) cells)" using assms(1,2) by (metis column_names_def length_map list.set_map map_fst_zip)
  then obtain y where "map_of (zip (column_names t) cells) x = Some y" by (metis map_of_eq_None_iff not_None_eq)
  then show ?thesis using assms(1) by (simp add: cell_at_def column_names_def assms(3) map_add_def)
qed

lemma add_advances:
  assumes "Add_Column n c \<in> set schema_script" "released s" "tables s n = Some t" "cl_not_null c \<longrightarrow> cl_default c \<noteq> Null_Cell"
  shows "\<exists>s' t'. add_column_if_missing s n c = Inr s' \<and> advances s s' \<and> tables s' = (tables s)(n \<mapsto> t')
    \<and> set (column_names t') = insert (cl_name c) (set (column_names t)) \<and> indexes s' = indexes s"
proof (cases "cl_name c \<in> set (column_names t)")
  case True
  then show ?thesis using assms(2,3) by (intro exI [of _ s] exI [of _ t]) (auto simp: add_column_if_missing_def advances_def)
next
  case False
  let ?t = "\<lparr>tb_columns = tb_columns t @ [c], tb_rows = map (\<lambda>(rid, cells). (rid, cells @ [cl_default c])) (tb_rows t)\<rparr>"
  let ?s = "s\<lparr>tables := (tables s)(n \<mapsto> ?t)\<rparr>"
  have w: "n \<in> set known_tables" "c \<in> set (layout n)" using well_placed [OF assms(1)] by simp_all
  note old = releasedD [OF assms(2,3)]
  have rows: "length cells = length (tb_columns t)" if "(rid, cells) \<in> set (tb_rows t)" for rid cells
    using old(2) that by (auto simp: sound_rows_def)
  have "sound_rows ?t"
    using old(2) False assms(4) by (fastforce simp: sound_rows_def column_names_def zip_append)
  then have "released ?s"
    using old w by (intro released_update [OF assms(2)]) (auto simp: column_names_def allowed_def)
  moreover have "keeps_table t ?t"
    using rows by (auto simp: keeps_table_def list_all2_map2 list_all2_same column_names_def cell_at_append [where t = t])
  then have "keeps_rows s ?s" by (intro keeps_rows_update [OF assms(3)]) simp_all
  moreover have "strict s" if now_strict: "strict ?s"
  proof (cases "n = ''tx_outputs''")
    case True
    then have "c \<in> set rebuilt_columns" "''creation_id'' \<in> set (column_names t)"
      using w old(4) rebuilt_layout(1) creation_id_first by auto
    then show ?thesis using now_strict assms(3) False True by (auto simp: strict_def column_is_not_null_def)
  qed (use now_strict in \<open>simp add: strict_def column_is_not_null_def\<close>)
  ultimately show ?thesis using False assms(3,4)
    by (intro exI [of _ ?s] exI [of _ ?t]) (auto simp: add_column_if_missing_def advances_def column_names_def)
qed

section \<open>The rebuild\<close>

lemma copied_row:
  assumes "released s" "tables s ''tx_outputs'' = Some t" "set (map cl_name rebuilt_columns) \<subseteq> set (column_names t)"
    and "(rid, cells) \<in> set (tb_rows t)"
  shows "\<exists>vs. copy_row t rebuilt_columns (rid, cells) = Some (rid, vs) \<and> length vs = length rebuilt_columns
    \<and> (\<forall>(c, v) \<in> set (zip rebuilt_columns vs). cl_not_null c \<longrightarrow> v \<noteq> Null_Cell)
    \<and> (\<forall>x \<in> set (column_names t). map_of (zip (map cl_name rebuilt_columns) vs) x = cell_at t cells x)"
proof -
  note old = releasedD [OF assms(1,2)]
  let ?v = "\<lambda>c. case cell_at t cells (cl_name c) of Some v \<Rightarrow> v | None \<Rightarrow> Null_Cell"
  let ?vs = "map ?v rebuilt_columns"
  have len: "length cells = length (tb_columns t)" and names: "distinct (column_names t)"
    and filled: "\<And>c v. (c, v) \<in> set (zip (tb_columns t) cells) \<Longrightarrow> cl_not_null c \<Longrightarrow> v \<noteq> Null_Cell"
    using old(2) assms(4) by (auto simp: sound_rows_def)
  have cell: "\<exists>c' v. (c', v) \<in> set (zip (tb_columns t) cells) \<and> cl_name c' = x \<and> cell_at t cells x = Some v"
    if x: "x \<in> set (column_names t)" for x
  proof -
    obtain i where i: "i < length (tb_columns t)" "x = cl_name (tb_columns t ! i)"
      using x by (auto simp: column_names_def in_set_conv_nth)
    have "(x, cells ! i) \<in> set (zip (column_names t) cells)" using i len by (auto simp: set_zip column_names_def intro!: exI [of _ i])
    then have "cell_at t cells x = Some (cells ! i)"
      using names len by (simp add: cell_at_def column_names_def)
    moreover have "(tb_columns t ! i, cells ! i) \<in> set (zip (tb_columns t) cells)" using i(1) len by (auto simp: set_zip)
    ultimately show ?thesis using i(2) by blast
  qed
  have not_null: "?v c \<noteq> Null_Cell" if c: "c \<in> set rebuilt_columns" "cl_not_null c" for c
  proof -
    have "cl_name c \<in> set (column_names t)" using assms(3) c(1) by auto
    from cell [OF this] obtain c' v where c': "(c', v) \<in> set (zip (tb_columns t) cells)" "cl_name c' = cl_name c"
      "cell_at t cells (cl_name c) = Some v" by blast
    have lay: "c \<in> set (layout ''tx_outputs'')" using c(1) rebuilt_layout(1) by simp
    have "c' \<in> set (tb_columns t)" using c'(1) by (rule set_zip_leftD)
    then have "allowed ''tx_outputs'' c'" by (rule old(3))
    then have "cl_not_null c'"
      using layout_inj [OF rebuilt_checked(4) _ lay c'(2)] c(2) by (auto simp: allowed_def strict_creation_id_def required_def)
    then show ?thesis using filled [OF c'(1)] c'(3) by simp
  qed
  have keeps: "map_of (zip (map cl_name rebuilt_columns) ?vs) x = cell_at t cells x" if x: "x \<in> set (column_names t)" for x
  proof -
    obtain c' where "c' \<in> set (tb_columns t)" "cl_name c' = x" using x by (auto simp: column_names_def)
    then have "x \<in> cl_name ` set rebuilt_columns"
      using old(3) [of c'] rebuilt_layout creation_id_first by (auto simp: allowed_def strict_creation_id_def required_def)
    then obtain c where c: "c \<in> set rebuilt_columns" "cl_name c = x" by blast
    then have "map_of (zip (map cl_name rebuilt_columns) ?vs) x = Some (?v c)"
      using rebuilt_checked(3) by (intro map_of_is_SomeI) (simp, auto simp: zip_map_map zip_same_conv_map)
    then show ?thesis using cell [OF x] c(2) by auto
  qed
  have "\<not> (\<exists>(c, v) \<in> set (zip rebuilt_columns ?vs). cl_not_null c \<and> v = Null_Cell)"
    using not_null by (auto simp: zip_map2 zip_same_conv_map)
  then show ?thesis using keeps by (auto simp: copy_row_def Let_def)
qed

lemma those_all: "(\<And>x. x \<in> set xs \<Longrightarrow> f x = Some (g x)) \<Longrightarrow> those (map f xs) = Some (map g xs)"
  by (induction xs) auto

lemma relax_advances:
  assumes "released s" "covers s g" "has_columns g ''tx_outputs'' (map cl_name rebuilt_columns)"
  shows "\<exists>s'. relax_output_creation_id s = Inr s' \<and> advances s s' \<and> \<not> strict s' \<and> (\<forall>n t. tables s n = Some t \<longrightarrow>
    (\<exists>t'. tables s' n = Some t' \<and> set (column_names t) \<subseteq> set (column_names t')))"
proof (cases "strict s")
  case False
  then show ?thesis using assms(1) by (simp add: relax_output_creation_id_def strict_def advances_def)
next
  case True
  obtain t where t: "tables s ''tx_outputs'' = Some t" "set (map cl_name rebuilt_columns) \<subseteq> set (column_names t)"
    using coversD [OF assms(2,3)] by blast
  note old = releasedD [OF assms(1) t(1)]
  note copied = copied_row [OF assms(1) t]
  define copy where "copy = (\<lambda>r. the (copy_row t rebuilt_columns r))"
  have copy: "copy_row t rebuilt_columns r = Some (copy r)" if "r \<in> set (tb_rows t)" for r
    using copied that by (cases r) (fastforce simp: copy_def)
  let ?t = "\<lparr>tb_columns = rebuilt_columns, tb_rows = map copy (tb_rows t)\<rparr>"
  define s' where "s' = s\<lparr>tables := (tables s)(''tx_outputs_new'' := None, ''tx_outputs'' \<mapsto> ?t),
    indexes := (\<lambda>i. if indexes s i = Some ''tx_outputs'' then None else indexes s i)
      (''idx_outputs_owner'' \<mapsto> ''tx_outputs'', ''idx_outputs_creation'' \<mapsto> ''tx_outputs'', ''idx_outputs_slot'' \<mapsto> ''tx_outputs'')\<rparr>"
  have all: "those (map (copy_row t rebuilt_columns) (tb_rows t)) = Some (map copy (tb_rows t))" by (rule those_all) (rule copy)
  have run: "relax_output_creation_id s = Inr s'"
    using True t all by (simp add: relax_output_creation_id_def strict_def s'_def)
  have no_new: "tables s ''tx_outputs_new'' = None"
    using releasedD(1) [OF assms(1)] rebuilt_checked(5) by (metis not_None_eq)
  have tabs: "tables s' = (tables s)(''tx_outputs'' \<mapsto> ?t)" using no_new by (auto simp: s'_def fun_eq_iff)
  have "keeps_table t ?t"
  proof -
    have "list_all2 (\<lambda>(i, v) (j, w). i = j \<and> (\<forall>x \<in> set (column_names t). cell_at ?t w x = cell_at t v x)) (tb_rows t) (map copy (tb_rows t))"
      unfolding list_all2_map2 list_all2_same
    proof
      fix r assume r: "r \<in> set (tb_rows t)"
      obtain rid cells where rc: "r = (rid, cells)" by (cases r)
      show "(case r of (i, v) \<Rightarrow> \<lambda>(j, w). i = j \<and> (\<forall>x \<in> set (column_names t). cell_at ?t w x = cell_at t v x)) (copy r)"
        using copied [of rid cells] copy [OF r] r by (auto simp: rc cell_at_def column_names_def)
    qed
    moreover have "set (column_names t) \<subseteq> set (column_names ?t)"
    proof
      fix x assume "x \<in> set (column_names t)"
      then obtain c where "c \<in> set (tb_columns t)" "cl_name c = x" by (auto simp: column_names_def)
      then show "x \<in> set (column_names ?t)"
        using old(3) [of c] rebuilt_layout creation_id_first by (auto simp: column_names_def allowed_def strict_creation_id_def required_def)
    qed
    ultimately show ?thesis by (simp add: keeps_table_def)
  qed
  have "sound_rows ?t"
    unfolding sound_rows_def
  proof (intro conjI)
    show "distinct (column_names ?t)" using rebuilt_checked(3) by (simp add: column_names_def)
    show "\<forall>(rid, cells) \<in> set (tb_rows ?t). length cells = length (tb_columns ?t)
        \<and> (\<forall>(c, v) \<in> set (zip (tb_columns ?t) cells). cl_not_null c \<longrightarrow> v \<noteq> Null_Cell)"
    proof
      fix r' assume "r' \<in> set (tb_rows ?t)"
      then obtain rid cells where r: "(rid, cells) \<in> set (tb_rows t)" "r' = copy (rid, cells)" by auto
      then show "case r' of (rid, cells) \<Rightarrow> length cells = length (tb_columns ?t)
          \<and> (\<forall>(c, v) \<in> set (zip (tb_columns ?t) cells). cl_not_null c \<longrightarrow> v \<noteq> Null_Cell)"
        using copied [OF r(1)] copy [OF r(1)] by auto
    qed
  qed
  moreover have "cl_name ` set (base_columns ''tx_outputs'') \<subseteq> set (column_names ?t)"
    using rebuilt_layout(2) by (auto simp: column_names_def)
  ultimately have "released (s\<lparr>tables := (tables s)(''tx_outputs'' \<mapsto> ?t)\<rparr>)"
    using rebuilt_layout(1) rebuilt_checked(4) by (intro released_update [OF assms(1)]) (auto simp: allowed_def)
  moreover have "\<exists>xs. Create_Index i n xs \<in> set schema_script" if "indexes s' i = Some n" for i n
    using that assms(1) rebuilt_index by (auto simp: s'_def released_def split: if_splits)
  ultimately have "released s'" using tabs by (simp add: released_def)
  moreover have "dom (indexes s) \<subseteq> dom (indexes s')"
  proof
    fix i assume "i \<in> dom (indexes s)"
    then obtain n xs where n: "indexes s i = Some n" "Create_Index i n xs \<in> set schema_script"
      using assms(1) unfolding released_def by (metis domD)
    show "i \<in> dom (indexes s')" using n(1) well_placed [OF n(2)] by (auto simp: s'_def)
  qed
  moreover have "keeps_rows s s'" by (rule keeps_rows_update [OF t(1) \<open>keeps_table t ?t\<close> tabs])
  moreover have "\<not> strict s'"
    using rebuilt_relaxed by (simp add: strict_def column_is_not_null_def tabs list_all_iff)
  ultimately show ?thesis using run \<open>keeps_table t ?t\<close> t(1) tabs by (auto simp: advances_def keeps_table_def)
qed

section \<open>The whole script\<close>

definition indexed :: "catalog \<Rightarrow> statement \<Rightarrow> bool" where
  "indexed s st = (case st of Create_Index i n xs \<Rightarrow> indexes s i \<noteq> None | _ \<Rightarrow> True)"

lemma statement_advances:
  assumes st: "st \<in> set schema_script" and g: "known_after st g = Some g'" and s: "covers s g" "released s"
  shows "\<exists>s'. execute st s = Inr s' \<and> advances s s' \<and> covers s' g' \<and> indexed s' st \<and> (st = Relax_Creation_Id \<longrightarrow> \<not> strict s')"
proof (cases st)
  case (Create_Table n cs)
  have adv: "advances s (create_table s n cs)" using st s(2) unfolding Create_Table by (rule create_advances)
  have "base_columns n = cs" using well_placed [OF st] by (simp add: Create_Table)
  then have "\<exists>t. tables (create_table s n cs) n = Some t \<and> cl_name ` set cs \<subseteq> set (column_names t)"
    using releasedD(4) [OF s(2)] by (cases "tables s n") (auto simp: create_table_def column_names_def, blast)
  then have "covers (create_table s n cs) g'"
    using g s(1) by (auto simp: Create_Table covers_def create_table_def image_subset_iff split: if_splits)
  with adv show ?thesis by (simp add: Create_Table indexed_def)
next
  case (Create_Index i n xs)
  with g have g: "has_columns g n xs" "g' = g" by (auto split: if_splits)
  from index_advances [OF _ s(2,1) g(1), of i] st obtain s' where
    "create_index s i n xs = Inr s'" "advances s s'" "tables s' = tables s" "indexes s' i \<noteq> None" by (auto simp: Create_Index)
  then show ?thesis using s(1) by (auto simp: Create_Index indexed_def covers_def g(2))
next
  case (Add_Column n c)
  with g obtain ys where ys: "map_of g n = Some ys" "cl_not_null c \<longrightarrow> cl_default c \<noteq> Null_Cell" "g' = AList.update n (cl_name c # ys) g"
    by (auto split: option.splits if_splits)
  from ys(1) s(1) obtain t where t: "tables s n = Some t" "set ys \<subseteq> set (column_names t)" unfolding covers_def by metis
  from add_advances [OF _ s(2) t(1) ys(2)] st obtain s' t' where s': "add_column_if_missing s n c = Inr s'" "advances s s'"
    "tables s' = (tables s)(n \<mapsto> t')" "set (column_names t') = insert (cl_name c) (set (column_names t))" by (auto simp: Add_Column)
  then have "covers s' g'" using s(1) t by (auto simp: covers_def ys(3) update_conv')
  with s' show ?thesis by (simp add: Add_Column indexed_def)
next
  case Relax_Creation_Id
  with g have g: "has_columns g ''tx_outputs'' (map cl_name rebuilt_columns)" "g' = g" by (auto split: if_splits)
  from relax_advances [OF s(2,1) g(1)] obtain s' where s': "relax_output_creation_id s = Inr s'" "advances s s'" "\<not> strict s'"
    "\<forall>n t. tables s n = Some t \<longrightarrow> (\<exists>t'. tables s' n = Some t' \<and> set (column_names t) \<subseteq> set (column_names t'))" by blast
  then have "covers s' g'" using s(1) unfolding covers_def g(2) by (meson order_trans)
  with s' show ?thesis by (simp add: Relax_Creation_Id indexed_def)
qed

lemma script_advances:
  "set sts \<subseteq> set schema_script \<Longrightarrow> checked g sts = Some g' \<Longrightarrow> covers s g \<Longrightarrow> released s \<Longrightarrow>
     \<exists>s'. execute_all sts s = Inr s' \<and> advances s s' \<and> covers s' g' \<and> (\<forall>st \<in> set sts. indexed s' st)
       \<and> (Relax_Creation_Id \<in> set sts \<longrightarrow> \<not> strict s')"
proof (induction sts arbitrary: g s)
  case Nil
  then show ?case by (auto simp: advances_def)
next
  case (Cons st sts)
  from Cons.prems(2) obtain g1 where g1: "known_after st g = Some g1" "checked g1 sts = Some g'" by (auto simp: bind_eq_Some_conv)
  from statement_advances [OF _ g1(1) Cons.prems(3,4)] Cons.prems(1) obtain s1 where
    s1: "execute st s = Inr s1" "advances s s1" "covers s1 g1" "indexed s1 st" "st = Relax_Creation_Id \<longrightarrow> \<not> strict s1" by auto
  from Cons.IH [OF _ g1(2) s1(3)] Cons.prems(1) s1(2) obtain s' where
    s': "execute_all sts s1 = Inr s'" "advances s1 s'" "covers s' g'" "\<forall>st \<in> set sts. indexed s' st"
    "Relax_Creation_Id \<in> set sts \<longrightarrow> \<not> strict s'" by (auto simp: advances_def)
  have "indexed s' st" using s1(4) s'(2) by (auto simp: indexed_def advances_def split: statement.splits)
  moreover have "st = Relax_Creation_Id \<longrightarrow> \<not> strict s'" using s1(5) s'(2) by (auto simp: advances_def)
  ultimately show ?case using s1(1,2) s' by (auto intro: advances_trans)
qed

text \<open>A database in the current layout is opened without a change.\<close>

definition up_to_date :: "catalog \<Rightarrow> bool" where
  "up_to_date s = (released s \<and> \<not> strict s \<and> (\<forall>st \<in> set schema_script. indexed s st)
     \<and> (\<forall>n \<in> set known_tables. \<exists>t. tables s n = Some t \<and> set (map cl_name (layout n)) \<subseteq> set (column_names t)))"

lemma up_to_date_still: "up_to_date s \<Longrightarrow> st \<in> set schema_script \<Longrightarrow> execute st s = Inr s"
proof (cases st)
  case (Create_Table n cs)
  assume "up_to_date s" "st \<in> set schema_script"
  then show ?thesis using well_placed [of st] by (auto simp: Create_Table up_to_date_def create_table_def)
next
  case (Create_Index i n xs)
  assume "up_to_date s" "st \<in> set schema_script"
  then show ?thesis by (auto simp: Create_Index up_to_date_def create_index_def indexed_def)
next
  case (Add_Column n c)
  assume s: "up_to_date s" "st \<in> set schema_script"
  then have "n \<in> set known_tables" "c \<in> set (layout n)" using well_placed [of st] by (simp_all add: Add_Column)
  then obtain t where "tables s n = Some t" "cl_name c \<in> set (column_names t)" using s(1) by (fastforce simp: up_to_date_def)
  then show ?thesis by (simp add: Add_Column add_column_if_missing_def)
next
  case Relax_Creation_Id
  assume "up_to_date s"
  then show ?thesis by (simp add: Relax_Creation_Id relax_output_creation_id_def up_to_date_def strict_def)
qed

lemma script_still: "up_to_date s \<Longrightarrow> set sts \<subseteq> set schema_script \<Longrightarrow> execute_all sts s = Inr s"
  by (induction sts) (simp_all add: up_to_date_still)

lemma execute_all_append: "execute_all (xs @ ys) s = and_then (execute_all xs s) (execute_all ys)"
  by (induction xs arbitrary: s) (simp_all add: and_then_def split: sum.split)

lemma open_catalog_script: "open_catalog s = execute_all schema_script s"
  by (simp add: open_catalog_def schema_script_def execute_all_append)

lemma has_relax: "Relax_Creation_Id \<in> set schema_script"
  by (simp add: schema_script_def migrations_def)

lemma up_to_date_layout:
  assumes "up_to_date s" shows "current_layout s"
  unfolding current_layout_def
proof
  fix n assume n: "n \<in> set known_tables"
  then obtain t where t: "tables s n = Some t" "set (map cl_name (layout n)) \<subseteq> set (column_names t)" using assms by (auto simp: up_to_date_def)
  have rel: "released s" "\<not> strict s" using assms by (auto simp: up_to_date_def)
  have "c \<noteq> strict_creation_id" if "n = ''tx_outputs''" "c \<in> set (tb_columns t)" for c
    using rel(2) t(1) that by (auto simp: strict_def column_is_not_null_def strict_creation_id_def required_def)
  then have sub: "set (tb_columns t) \<subseteq> set (layout n)" using releasedD(3) [OF rel(1) t(1)] by (auto simp: allowed_def)
  moreover have "c \<in> set (tb_columns t)" if c: "c \<in> set (layout n)" for c
  proof -
    obtain c' where "c' \<in> set (tb_columns t)" "cl_name c = cl_name c'" using t(2) c by (auto simp: column_names_def)
    then show ?thesis using layout_inj [OF n c, of c'] sub by auto
  qed
  ultimately show "\<exists>t. tables s n = Some t \<and> set (tb_columns t) = set (layout n)" using t(1) by auto
qed

lemma checked_take: "checked g (xs @ ys) = Some g' \<Longrightarrow> \<exists>g'. checked g (take k xs) = Some g'"
proof (induction xs arbitrary: g k)
  case (Cons st xs)
  then show ?case by (cases k) (auto simp: bind_eq_Some_conv)
qed simp

section \<open>Properties\<close>

text \<open>
  C7. A database of any release opens: no statement fails, every table arrives at exactly the columns of the
  current layout, every row keeps its rowid and each of its values, and opening it again changes nothing. When the
  creation of the schema is cut off after any statement, what it leaves opens just as well.
\<close>
theorem opening_brings_any_release_up_to_date:
  assumes "released s"
  shows "\<exists>s'. open_catalog s = Inr s' \<and> current_layout s' \<and> keeps_rows s s' \<and> open_catalog s' = Inr s'
    \<and> (\<forall>k. \<exists>cut. execute_all (take k init_schema) s = Inr cut \<and> released cut \<and> keeps_rows s cut)"
proof -
  obtain g where g: "checked [] schema_script = Some g" using script_checked by auto
  have none: "covers s []" by (simp add: covers_def)
  obtain s' where s': "execute_all schema_script s = Inr s'" "advances s s'" "covers s' g" "\<forall>st \<in> set schema_script. indexed s' st" "\<not> strict s'"
    using script_advances [OF order_refl g none assms] has_relax by blast
  have "g = known_at_last" by (simp add: known_at_last_def g)
  then have "\<exists>t. tables s' n = Some t \<and> set (map cl_name (layout n)) \<subseteq> set (column_names t)" if "n \<in> set known_tables" for n
    using coversD [OF s'(3), of n "map cl_name (layout n)"] last_checked that by (simp add: list_all_iff)
  then have "up_to_date s'" using s' by (simp add: up_to_date_def advances_def)
  moreover have "\<exists>cut. execute_all (take k init_schema) s = Inr cut \<and> released cut \<and> keeps_rows s cut" for k
  proof -
    obtain g' where g': "checked [] (take k init_schema) = Some g'"
      using checked_take [OF g [unfolded schema_script_def]] by blast
    have "set (take k init_schema) \<subseteq> set schema_script" by (auto simp: schema_script_def dest: in_set_takeD)
    from script_advances [OF this g' none assms] show ?thesis by (auto simp: advances_def)
  qed
  ultimately show ?thesis using s'(1,2) script_still [of s' schema_script] up_to_date_layout
    by (auto simp: open_catalog_script advances_def)
qed

text \<open>A database of the first release, with one output and without the columns and indexes of later ones.\<close>

definition first_release :: catalog where
  "first_release = \<lparr>tables = [''tx_outputs'' \<mapsto>
       \<lparr>tb_columns = map (\<lambda>c. if cl_name c = ''creation_id'' then strict_creation_id else c) (base_columns ''tx_outputs''),
        tb_rows = [(4, [Int_Cell 1, Int_Cell 0, Int_Cell 0, Int_Cell 0, Int_Cell 7, Int_Cell 50, Text_Cell ''m'', Text_Cell ''9''])]\<rparr>],
     indexes = [''idx_outputs_owner'' \<mapsto> ''tx_outputs'']\<rparr>"

definition first_outputs :: tbl where
  "first_outputs = the (tables first_release ''tx_outputs'')"

lemma first_outputs: "tables first_release ''tx_outputs'' = Some first_outputs"
  by (simp add: first_outputs_def first_release_def)

lemma first_outputs_ok: "sound_rows first_outputs" "list_all (allowed ''tx_outputs'') (tb_columns first_outputs)"
  "map cl_name (base_columns ''tx_outputs'') = column_names first_outputs"
  "map (\<lambda>(rid, cells). (rid, cell_at first_outputs cells ''creation_id'')) (tb_rows first_outputs) = [(4, Some (Text_Cell ''9''))]"
  "''creation_id'' \<in> set (column_names first_outputs)"
  by code_simp+

lemma first_release_released: "released first_release"
proof -
  have "cl_name ` set (base_columns ''tx_outputs'') = set (column_names first_outputs)"
    using first_outputs_ok(3) by (metis list.set_map)
  then show ?thesis using first_outputs_ok(1,2) rebuilt_index(1) rebuilt_checked(4)
    by (auto simp: released_def first_release_def first_outputs_def list_all_iff split: if_splits)
qed

lemma opening_brings_any_release_up_to_date_witness:
  "\<exists>s' t. open_catalog first_release = Inr s' \<and> tables s' ''tx_outputs'' = Some t \<and> set (tb_columns t) = set rebuilt_columns
     \<and> (\<exists>cells. tb_rows t = [(4, cells)] \<and> cell_at t cells ''creation_id'' = Some (Text_Cell ''9''))"
proof -
  obtain s' where s': "open_catalog first_release = Inr s'" "current_layout s'" "keeps_rows first_release s'"
    using opening_brings_any_release_up_to_date [OF first_release_released] by blast
  obtain t where t: "tables s' ''tx_outputs'' = Some t" "set (tb_columns t) = set rebuilt_columns"
    using s'(2) rebuilt_checked(4) rebuilt_layout(1) by (auto simp: current_layout_def)
  have "keeps_table first_outputs t"
    using s'(3) t(1) first_outputs unfolding keeps_rows_def by fastforce
  then have "\<exists>cells. tb_rows t = [(4, cells)] \<and> cell_at t cells ''creation_id'' = Some (Text_Cell ''9'')"
    using first_outputs_ok(4,5) by (auto simp: keeps_table_def list_all2_Cons1 map_eq_Cons_conv)
  with s'(1) t show ?thesis by blast
qed

end
