(* ===== verification/Rpc_Client.thy ===== *)
theory Rpc_Client
  imports Live_Rpc Receipts
begin

text \<open>
  The two clients of the node: the indexer's of \<^verbatim>\<open>permanode/src/rpc.rs\<close> and the API's of
  \<^verbatim>\<open>core/src/live_rpc.rs\<close>, as the method they send, what they make of \<open>null\<close>, and what they read. Sending
  a call (HTTP, JSON-RPC) is the argument \<open>send\<close>, reading a JSON value into a type is the record \<open>serde\<close>.
\<close>

record 'j serde =
  js_number :: "u64 \<Rightarrow> 'j"
  js_text :: "string \<Rightarrow> 'j"
  js_is_null :: "'j \<Rightarrow> bool"
  js_as_u64 :: "'j \<Rightarrow> u64 option"
  js_as_str :: "'j \<Rightarrow> string option"
  js_hex :: "string \<Rightarrow> bytes result"
  js_header :: "'j \<Rightarrow> block_header_info result"
  js_details :: "'j \<Rightarrow> block_details_info result"
  js_slot :: "'j \<Rightarrow> slot_info result"
  js_slots :: "'j \<Rightarrow> slot_info list result"
  js_state_map :: "'j \<Rightarrow> state_map_info result"
  js_verdict :: "'j \<Rightarrow> receipt_verdict result"
  js_chain_info :: "'j \<Rightarrow> chain_info result"
  js_mining_info :: "'j \<Rightarrow> mining_info result"
  js_state_info :: "'j \<Rightarrow> state_info result"
  js_mempool_info :: "'j \<Rightarrow> mempool_info result"
  js_mempool_entry :: "'j \<Rightarrow> mempool_entry result"

type_synonym 'j sender = "string \<Rightarrow> 'j list \<Rightarrow> 'j reply result"

definition asked :: "'j sender \<Rightarrow> string \<Rightarrow> 'j list \<Rightarrow> 'j result" where
  "asked send rpc_method params = call rpc_method (send rpc_method params)"

definition u64_answer :: "'j serde \<Rightarrow> string \<Rightarrow> 'j result \<Rightarrow> u64 result" where
  "u64_answer js what answer =
     and_then answer (\<lambda>v. case js_as_u64 js v of None \<Rightarrow> bail (what @ '': result is not u64'') | Some n \<Rightarrow> Inr n)"

text \<open>\<open>get_block_raw\<close>: anything but a string, \<open>null\<close> included, is a block the node does not serve.\<close>

definition raw_answer :: "'j serde \<Rightarrow> 'j result \<Rightarrow> bytes option result" where
  "raw_answer js answer =
     and_then answer (\<lambda>v. case js_as_str js v of None \<Rightarrow> Inr None | Some hex \<Rightarrow> and_then (js_hex js hex) (\<lambda>bytes. Inr (Some bytes)))"

definition indexer_client :: "'j serde \<Rightarrow> 'j sender \<Rightarrow> node" where
  "indexer_client js send =
     \<lparr>block_count = u64_answer js ''blockCount'' (asked send ''paranoid_blockCount'' []),
      get_block_header = (\<lambda>h. nullable (js_is_null js) (js_header js) (asked send ''paranoid_getBlockHeader'' [js_number js h])),
      get_block_details = (\<lambda>h. nullable (js_is_null js) (js_details js) (asked send ''paranoid_getBlockDetails'' [js_number js h])),
      get_block_raw = (\<lambda>h. raw_answer js (asked send ''paranoid_getBlock'' [js_number js h])),
      get_slot = (\<lambda>i. and_then (asked send ''paranoid_getSlot'' [js_number js i]) (js_slot js)),
      get_slots_by_owner = (\<lambda>a. and_then (asked send ''paranoid_getSlotsByOwner'' [js_text js a]) (js_slots js)),
      get_state_map = and_then (asked send ''paranoid_getStateMap'' []) (js_state_map js)\<rparr>"

definition verify_receipt :: "'j serde \<Rightarrow> 'j sender \<Rightarrow> string \<Rightarrow> receipt_verdict result" where
  "verify_receipt js send hex = and_then (asked send ''paranoid_verifyReceipt'' [js_text js hex]) (js_verdict js)"

definition api_client :: "'j serde \<Rightarrow> 'j sender \<Rightarrow> live_node" where
  "api_client js send =
     \<lparr>ln_rpc = indexer_client js send,
      ln_chain_info = and_then (asked send ''paranoid_getChainInfo'' []) (js_chain_info js),
      ln_mining_info = and_then (asked send ''paranoid_getMiningInfo'' []) (js_mining_info js),
      ln_state_info = and_then (asked send ''paranoid_getStateInfo'' []) (js_state_info js),
      ln_active_slot_count = u64_answer js ''getActiveSlotCount'' (asked send ''paranoid_getActiveSlotCount'' []),
      ln_mempool_info = and_then (asked send ''paranoid_getMempoolInfo'' []) (js_mempool_info js),
      ln_mempool_entry = (\<lambda>h. nullable (js_is_null js) (js_mempool_entry js) (asked send ''paranoid_getMempoolEntry'' [js_text js h]))\<rparr>"

lemma call_Inr: "call m sent = Inr v \<longleftrightarrow> (\<exists>r. sent = Inr r \<and> rp_error r = None \<and> rp_result r = Some v)"
  by (cases sent) (auto simp: call_def bail_def split: option.splits)

lemma nullable_None: "nullable is_null read answer = Inr None \<longleftrightarrow> (\<exists>v. answer = Inr v \<and> is_null v)"
  by (cases answer) (auto simp: nullable_def and_then_Inr_iff)

text \<open>
  A header or details answer is \<open>None\<close> exactly when the node answered \<open>null\<close>: an error of the node or of
  the transport is never taken for a block it does not have.
\<close>

lemma absent_is_null:
  "get_block_details (indexer_client js send) h = Inr None \<longleftrightarrow>
     (\<exists>r v. send ''paranoid_getBlockDetails'' [js_number js h] = Inr r \<and> rp_error r = None \<and> rp_result r = Some v \<and> js_is_null js v)"
  "get_block_header (indexer_client js send) h = Inr None \<longleftrightarrow>
     (\<exists>r v. send ''paranoid_getBlockHeader'' [js_number js h] = Inr r \<and> rp_error r = None \<and> rp_result r = Some v \<and> js_is_null js v)"
  by (auto simp: indexer_client_def nullable_None asked_def call_Inr)

end
