(* ===== verification/Receipt_Files.thy ===== *)
theory Receipt_Files
  imports Receipts
begin

text \<open>
  The files \<^verbatim>\<open>permanode/src/receipts.rs\<close> reads receipts from - a wallet's journal, a JSON object, or text
  with one receipt per line - and the lines it reports. A \<open>String\<close> is its UTF-8 bytes, so text is decoded to
  code points where the code looks at characters. serde's reading of a JSON object of strings is the
  parameter \<open>json_map\<close>: the entries of the \<open>BTreeMap\<close> it gives.
\<close>

section \<open>UTF-8\<close>

type_synonym codepoints = "nat list"

definition continues :: "nat \<Rightarrow> bool" where
  "continues b = (128 \<le> b \<and> b \<le> 191)"

text \<open>\<open>std::str::from_utf8\<close>: shortest forms only, no surrogates, nothing above \<open>0x10FFFF\<close>.\<close>

fun utf8_decode :: "nat list \<Rightarrow> codepoints option" where
  "utf8_decode [] = Some []"
| "utf8_decode (a # s) =
     (if a < 128 then map_option (Cons a) (utf8_decode s)
      else case s of [] \<Rightarrow> None | b # s \<Rightarrow>
        if 194 \<le> a \<and> a \<le> 223 \<and> continues b
        then map_option (Cons ((a - 192) * 64 + (b - 128))) (utf8_decode s)
        else case s of [] \<Rightarrow> None | d # s \<Rightarrow>
          if 224 \<le> a \<and> a \<le> 239 \<and> continues b \<and> continues d \<and> (a = 224 \<longrightarrow> 160 \<le> b) \<and> (a = 237 \<longrightarrow> b \<le> 159)
          then map_option (Cons ((a - 224) * 4096 + (b - 128) * 64 + (d - 128))) (utf8_decode s)
          else case s of [] \<Rightarrow> None | e # s \<Rightarrow>
            if 240 \<le> a \<and> a \<le> 244 \<and> continues b \<and> continues d \<and> continues e \<and> (a = 240 \<longrightarrow> 144 \<le> b) \<and> (a = 244 \<longrightarrow> b \<le> 143)
            then map_option (Cons ((a - 240) * 262144 + (b - 128) * 4096 + (d - 128) * 64 + (e - 128))) (utf8_decode s)
            else None)"

definition utf8_char :: "nat \<Rightarrow> nat list" where
  "utf8_char n =
     (if n < 128 then [n]
      else if n < 2048 then [192 + n div 64, 128 + n mod 64]
      else if n < 65536 then [224 + n div 4096, 128 + n div 64 mod 64, 128 + n mod 64]
      else [240 + n div 262144, 128 + n div 4096 mod 64, 128 + n div 64 mod 64, 128 + n mod 64])"

definition utf8_encode :: "codepoints \<Rightarrow> string" where
  "utf8_encode cs = map char_of (concat (map utf8_char cs))"

section \<open>Text\<close>

text \<open>\<open>char::is_whitespace\<close>.\<close>

definition white_space :: "nat \<Rightarrow> bool" where
  "white_space c = (9 \<le> c \<and> c \<le> 13 \<or> c = 32 \<or> c = 133 \<or> c = 160 \<or> c = 5760 \<or> 8192 \<le> c \<and> c \<le> 8202
     \<or> c = 8232 \<or> c = 8233 \<or> c = 8239 \<or> c = 8287 \<or> c = 12288)"

definition trim :: "codepoints \<Rightarrow> codepoints" where
  "trim s = rev (dropWhile white_space (rev (dropWhile white_space s)))"

text \<open>\<open>str::lines\<close>: split after every newline, without it and a carriage return before it.\<close>

fun split_lines :: "codepoints \<Rightarrow> codepoints \<Rightarrow> codepoints list" where
  "split_lines line [] = (if line = [] then [] else [line])"
| "split_lines line (c # s) =
     (if c = 10 then (if line \<noteq> [] \<and> last line = 13 then butlast line else line) # split_lines [] s
      else split_lines (line @ [c]) s)"

definition text_lines :: "codepoints \<Rightarrow> codepoints list" where
  "text_lines s = split_lines [] s"

definition lower_codepoint :: "nat \<Rightarrow> nat" where
  "lower_codepoint c = (if 65 \<le> c \<and> c \<le> 90 then c + 32 else c)"

text \<open>All white space out, one \<open>0x\<close> in front off, ASCII letters in lower case.\<close>

definition clean_hex :: "codepoints \<Rightarrow> codepoints" where
  "clean_hex raw =
     (let joined = filter (Not \<circ> white_space) raw
      in map lower_codepoint (if take 2 joined = [48, 120] then drop 2 joined else joined))"

section \<open>A receipt file\<close>

definition MAX_INPUT_BYTES :: nat where "MAX_INPUT_BYTES = 256 * 1024 * 1024"

definition points_of :: "string \<Rightarrow> codepoints" where
  "points_of s = (case utf8_decode (map of_char s) of Some cs \<Rightarrow> cs | None \<Rightarrow> [])"

definition receipt_entry_of :: "string \<Rightarrow> string option \<Rightarrow> codepoints \<Rightarrow> receipt_entry" where
  "receipt_entry_of file_name key hex = \<lparr>re_origin = file_name, re_key = key, re_hex = utf8_encode (clean_hex hex)\<rparr>"

definition parse_receipt_file :: "journal_lib \<Rightarrow> (string \<Rightarrow> (string \<times> string) list result) \<Rightarrow> string \<Rightarrow> bytes \<Rightarrow> receipt_entry list result" where
  "parse_receipt_file jl json_map file_name bytes =
     (if take (length JOURNAL_MAGIC) bytes = JOURNAL_MAGIC
      then and_then (parse_journal jl bytes) (\<lambda>held.
        Inr (map (\<lambda>(k, v). receipt_entry_of file_name (Some k) (points_of v)) held))
      else case utf8_decode (map unat bytes) of
        None \<Rightarrow> bail ''neither a wallet receipt journal nor text''
      | Some text \<Rightarrow>
          if take 1 (dropWhile white_space text) = [123]
          then and_then (json_map (utf8_encode text)) (\<lambda>entries.
            Inr (map (\<lambda>(k, v). receipt_entry_of file_name (Some (map ascii_lower k)) (points_of v)) entries))
          else Inr (map (receipt_entry_of file_name None)
            (filter (\<lambda>l. l \<noteq> [] \<and> hd l \<noteq> 35) (map trim (text_lines text)))))"

text \<open>A file system: the size and the content of a file, where they can be read.\<close>

definition read_receipt_file :: "journal_lib \<Rightarrow> (string \<Rightarrow> (string \<times> string) list result) \<Rightarrow> (string \<Rightarrow> (nat \<times> bytes result) result)
    \<Rightarrow> (string \<Rightarrow> string) \<Rightarrow> string \<Rightarrow> receipt_entry list result" where
  "read_receipt_file jl json_map fs name_of path =
     and_then (fs path) (\<lambda>(size, content).
       if MAX_INPUT_BYTES < size then bail (path @ '' is not a receipt file'')
       else and_then content (\<lambda>bytes. parse_receipt_file jl json_map (name_of path) bytes))"

section \<open>The report\<close>

text \<open>An imported receipt is a decoded one; without that the code panics, here the text is empty.\<close>

definition count_outcomes :: "(receipt_outcome \<Rightarrow> bool) \<Rightarrow> (receipt_entry \<times> receipt_outcome) list \<Rightarrow> nat" where
  "count_outcomes f results = length (filter (\<lambda>(e, out). f out) results)"

definition is_rejected :: "receipt_outcome \<Rightarrow> bool" where
  "is_rejected out = (case out of Receipt_Rejected why \<Rightarrow> True | _ \<Rightarrow> False)"

definition rejected_count :: "(receipt_entry \<times> receipt_outcome) list \<Rightarrow> nat" where
  "rejected_count results = count_outcomes is_rejected results"

fun failure_text :: "failure \<Rightarrow> string" where
  "failure_text (Failure s) = s"

definition sum_u128 :: "u64 list \<Rightarrow> u128" where
  "sum_u128 xs = sum_list (map ucast xs)"

definition outcome_text :: "decoded_receipt option \<Rightarrow> receipt_outcome \<Rightarrow> string" where
  "outcome_text decoded out =
     (case out of
        Receipt_Imported \<Rightarrow>
          (case decoded of
             None \<Rightarrow> []
           | Some d \<Rightarrow>
               ''imported: '' @ decimal (length (rt_inputs (dr_tx d))) @ '' input(s) ''
               @ noid (sum_u128 (map ri_amount (rt_inputs (dr_tx d)))) @ '' NOID -> ''
               @ decimal (length (rt_outputs (dr_tx d))) @ '' output(s) ''
               @ noid (sum_u128 (map ro_amount (rt_outputs (dr_tx d)))) @ '' NOID, fee ''
               @ noid (ucast (rt_fee (dr_tx d))) @ '' NOID'')
      | Already_Imported \<Rightarrow> ''already imported''
      | Duplicate \<Rightarrow> ''listed twice, skipped''
      | In_Archive True \<Rightarrow> ''skipped: the block is part of the archive, which holds this transaction''
      | In_Archive False \<Rightarrow> ''skipped: the block is part of the archive, but the archive does NOT hold this transaction''
      | In_Gap \<Rightarrow> ''skipped: the block is an archive gap (fill gaps with import-bodies)''
      | No_Header \<Rightarrow> ''skipped: no block header on record at this height yet''
      | Receipt_Rejected why \<Rightarrow> ''REJECTED: '' @ failure_text why)"

definition describe :: "receipt_entry \<Rightarrow> decoded_receipt option \<Rightarrow> receipt_outcome \<Rightarrow> string" where
  "describe entry decoded out =
     re_origin entry @ '' ''
     @ (case decoded of Some d \<Rightarrow> rt_txid (dr_tx d) | None \<Rightarrow> (case re_key entry of Some k \<Rightarrow> k | None \<Rightarrow> ''(no txid)''))
     @ (case decoded of
          None \<Rightarrow> []
        | Some d \<Rightarrow> '' #'' @ u64_to_string (dr_height d) @ '' position '' @ decimal (unat (rt_position (dr_tx d)))
            @ '' of '' @ decimal (unat (rt_tx_count (dr_tx d))))
     @ '': '' @ outcome_text decoded out"

section \<open>UTF-8 is read as it is written\<close>

definition scalar_value :: "nat \<Rightarrow> bool" where
  "scalar_value c = (c < 55296 \<or> 57344 \<le> c \<and> c < 1114112)"

lemma utf8_decode_char:
  assumes "scalar_value c" shows "utf8_decode (utf8_char c @ s) = map_option (Cons c) (utf8_decode s)"
proof -
  have m: "k mod 64 \<le> 63" for k :: nat by presburger
  consider "c < 128" | "128 \<le> c" "c < 2048" | "2048 \<le> c" "c < 65536" | "65536 \<le> c" by linarith
  then show ?thesis
  proof cases
    case 2
    then have "194 \<le> 192 + c div 64" "192 + c div 64 \<le> 223" by (simp_all add: less_eq_div_iff_mult_less_eq)
    then show ?thesis using 2 by (simp add: utf8_char_def continues_def m)
  next
    case 3
    let ?q = "c div 64"
    have hi: "c div 4096 = ?q div 64" by (simp flip: div_mult2_eq)
    have q: "32 \<le> ?q" "?q < 1024" "?q < 864 \<or> 896 \<le> ?q"
      using 3 assms by (auto simp: scalar_value_def less_eq_div_iff_mult_less_eq div_less_iff_less_mult)
    have "?q div 64 \<le> 15" "?q div 64 = 0 \<longrightarrow> 32 \<le> ?q mod 64" "?q div 64 = 13 \<longrightarrow> ?q mod 64 \<le> 31"
      using q div_mult_mod_eq [of ?q 64] m [of ?q] by linarith+
    moreover have "?q div 64 * 4096 + ?q mod 64 * 64 + c mod 64 = c"
      using div_mult_mod_eq [of ?q 64] div_mult_mod_eq [of c 64] by linarith
    ultimately show ?thesis using 3 by (simp add: utf8_char_def continues_def hi m)
  next
    case 4
    let ?q = "c div 64" and ?p = "c div 4096"
    have hi: "?p = ?q div 64" "c div 262144 = ?p div 64" by (simp_all flip: div_mult2_eq)
    have p: "16 \<le> ?p" "?p < 272"
      using 4 assms by (auto simp: scalar_value_def less_eq_div_iff_mult_less_eq div_less_iff_less_mult)
    have "?p div 64 \<le> 4" "?p div 64 = 0 \<longrightarrow> 16 \<le> ?p mod 64" "?p div 64 = 4 \<longrightarrow> ?p mod 64 \<le> 15"
      using p div_mult_mod_eq [of ?p 64] m [of ?p] by linarith+
    moreover have "?p div 64 * 262144 + ?p mod 64 * 4096 + ?q mod 64 * 64 + c mod 64 = c"
      using div_mult_mod_eq [of ?p 64] div_mult_mod_eq [of ?q 64] div_mult_mod_eq [of c 64] hi(1) by linarith
    ultimately show ?thesis using 4 by (simp add: utf8_char_def continues_def hi(2) m)
  qed (simp add: utf8_char_def)
qed

lemma utf8_decode_text: "list_all scalar_value cs \<Longrightarrow> utf8_decode (concat (map utf8_char cs)) = Some cs"
  by (induction cs) (simp_all add: utf8_decode_char)

section \<open>Lines\<close>

lemma split_line: "10 \<notin> set l \<Longrightarrow>
  split_lines line (l @ 10 # s) = (if line @ l \<noteq> [] \<and> last (line @ l) = 13 then butlast (line @ l) else line @ l) # split_lines [] s"
  by (induction l arbitrary: line) simp_all

lemma trim_snoc: "white_space w \<Longrightarrow> trim (l @ [w]) = trim l"
  by (cases "\<forall>c \<in> set l. white_space c") (auto simp: trim_def dropWhile_append1 dropWhile_append2 dropWhile_eq_Nil_conv [THEN iffD2])

lemma trimmed_line:
  assumes "10 \<notin> set l" shows "map trim (split_lines [] (l @ 10 # s)) = trim l # map trim (split_lines [] s)"
proof -
  have "trim (butlast l) = trim l" if "l \<noteq> []" "last l = 13"
    using trim_snoc [of 13 "butlast l"] append_butlast_last_id [OF that(1)] that(2) by (simp add: white_space_def)
  then show ?thesis using split_line [OF assms, of "[]" s] by simp
qed

lemma filter_dropped: "filter (Not \<circ> white_space) (dropWhile white_space l) = filter (Not \<circ> white_space) l"
  by (induction l) auto

lemma filter_trim: "filter (Not \<circ> white_space) (trim l) = filter (Not \<circ> white_space) l"
  using filter_dropped [of "rev (dropWhile white_space l)"] filter_dropped [of l] by (simp add: trim_def flip: rev_filter)

lemma trim_blank: "\<forall>c \<in> set l. white_space c \<Longrightarrow> trim l = []"
  by (simp add: trim_def dropWhile_eq_Nil_conv [THEN iffD2])

lemma hd_trim:
  assumes "\<forall>c \<in> set pre. white_space c" "\<not> white_space a"
  shows "trim (pre @ a # l) \<noteq> [] \<and> hd (trim (pre @ a # l)) = a"
proof -
  have "dropWhile white_space (pre @ a # l) = a # l" using assms by (simp add: dropWhile_append2)
  moreover have "\<exists>m. dropWhile white_space (rev l @ [a]) = m @ [a]"
  proof (cases "\<forall>c \<in> set l. white_space c")
    case True
    then have "dropWhile white_space (rev l @ [a]) = [] @ [a]" using assms(2) by (subst dropWhile_append2) auto
    then show ?thesis by blast
  next
    case False
    then show ?thesis by (auto simp: dropWhile_append1)
  qed
  ultimately show ?thesis using assms(2) by (auto simp: trim_def)
qed

section \<open>Receipts written as text\<close>

definition lower_hexdigit :: "char \<Rightarrow> bool" where
  "lower_hexdigit ch = (is_hexdigit ch \<and> ascii_lower ch = ch)"

text \<open>
  A line a person may write: blank, a comment, or a receipt in hex digits of either case, with white space
  anywhere and \<open>0x\<close> in front or not.
\<close>

definition written_line :: "codepoints \<Rightarrow> string option \<Rightarrow> bool" where
  "written_line l r = (10 \<notin> set l \<and> list_all scalar_value l \<and> (case r of
     None \<Rightarrow> (\<forall>c \<in> set l. white_space c) \<or> (\<exists>pre note. l = pre @ 35 # note \<and> (\<forall>c \<in> set pre. white_space c))
   | Some h \<Rightarrow> h \<noteq> [] \<and> list_all lower_hexdigit h
       \<and> (\<exists>hs. filter (Not \<circ> white_space) l \<in> {hs, 48 # 120 # hs} \<and> map lower_codepoint hs = map of_char h)))"

lemma hex_codepoint:
  assumes "lower_hexdigit ch" "lower_codepoint c = of_char ch" shows "c \<notin> {35, 78, 120, 123}" "c < 128"
  using assms by (auto simp: lower_hexdigit_def is_hexdigit_def lower_codepoint_def Let_def split: if_splits)

lemma hex_points:
  assumes "list_all lower_hexdigit h" "map lower_codepoint hs = map of_char h"
  shows "\<forall>c \<in> set hs. c \<notin> {35, 78, 120, 123}" "utf8_encode (map lower_codepoint hs) = h"
proof -
  show "\<forall>c \<in> set hs. c \<notin> {35, 78, 120, 123}"
  proof
    fix c assume "c \<in> set hs"
    then have "lower_codepoint c \<in> set (map of_char h)" unfolding assms(2) [symmetric] by simp
    then obtain ch where "ch \<in> set h" "lower_codepoint c = of_char ch" by auto
    then show "c \<notin> {35, 78, 120, 123}" using assms(1) by (intro hex_codepoint(1)) (auto simp: list_all_iff)
  qed
  have "utf8_char (of_char ch) = [of_char ch]" if "lower_hexdigit ch" for ch
    using that by (simp add: lower_hexdigit_def is_hexdigit_def utf8_char_def Let_def) linarith
  then have "concat (map utf8_char (map of_char h)) = map of_char h"
    using assms(1) by (induction h) auto
  then show "utf8_encode (map lower_codepoint hs) = h" by (simp add: utf8_encode_def assms(2) comp_def)
qed

lemma first_of_line:
  assumes "written_line l r" "filter (Not \<circ> white_space) l = x # xs" shows "x \<notin> {78, 123}" "r \<noteq> None \<Longrightarrow> x \<noteq> 35"
proof -
  have "x \<notin> {78, 123} \<and> (r \<noteq> None \<longrightarrow> x \<noteq> 35)"
  proof (cases r)
    case None
    then have "(\<forall>c \<in> set l. white_space c) \<or> (\<exists>pre note. l = pre @ 35 # note \<and> (\<forall>c \<in> set pre. white_space c))"
      using assms(1) by (simp add: written_line_def)
    moreover have "\<not> white_space 35" by (simp add: white_space_def)
    ultimately have "x = 35" using assms(2) by (elim disjE exE conjE) (simp_all add: filter_False)
    then show ?thesis using None by simp
  next
    case (Some h)
    then obtain hs where hs: "list_all lower_hexdigit h" "filter (Not \<circ> white_space) l \<in> {hs, 48 # 120 # hs}" "map lower_codepoint hs = map of_char h"
      using assms(1) by (auto simp: written_line_def)
    then have "x = 48 \<or> x \<in> set hs" unfolding assms(2) by auto
    then show ?thesis
    proof
      assume "x \<in> set hs"
      with hex_points(1) [OF hs(1,3)] have "x \<notin> {35, 78, 120, 123}" by (rule bspec)
      then show ?thesis by simp
    qed simp
  qed
  then show "x \<notin> {78, 123}" "r \<noteq> None \<Longrightarrow> x \<noteq> 35" by auto
qed

lemma read_written:
  assumes "written_line l (Some h)"
  shows "trim l \<noteq> [] \<and> hd (trim l) \<noteq> 35 \<and> receipt_entry_of file_name None (trim l) = \<lparr>re_origin = file_name, re_key = None, re_hex = h\<rparr>"
proof -
  obtain hs where hs: "h \<noteq> []" "list_all lower_hexdigit h" "filter (Not \<circ> white_space) l \<in> {hs, 48 # 120 # hs}"
    "map lower_codepoint hs = map of_char h" using assms by (auto simp: written_line_def)
  have "hs \<noteq> []" using hs(1,4) by auto
  then obtain x xs where x: "filter (Not \<circ> white_space) l = x # xs" using hs(3) by (cases hs) auto
  have "clean_hex (trim l) = map lower_codepoint hs"
  proof -
    have "take 2 hs \<noteq> [48, 120]"
    proof
      assume "take 2 hs = [48, 120]"
      then have "120 \<in> set hs" using in_set_takeD [of 120 2 hs] by simp
      with hex_points(1) [OF hs(2,4)] have "120 \<notin> {35, 78, 120, 123 :: nat}" by (rule bspec)
      then show False by simp
    qed
    moreover have "filter (Not \<circ> white_space) l = hs \<or> filter (Not \<circ> white_space) l = 48 # 120 # hs" using hs(3) by simp
    ultimately show ?thesis by (elim disjE) (simp_all add: clean_hex_def filter_trim)
  qed
  then have "utf8_encode (clean_hex (trim l)) = h" using hex_points(2) [OF hs(2,4)] by simp
  moreover have "trim l \<noteq> []" using filter_trim [of l] x by auto
  moreover have "hd (trim l) \<noteq> 35"
  proof
    assume "hd (trim l) = 35"
    then obtain m where "trim l = 35 # m" using \<open>trim l \<noteq> []\<close> by (cases "trim l") auto
    then have "x = 35" using filter_trim [of l] x by (simp add: white_space_def)
    then show False using first_of_line(2) [OF assms x] by simp
  qed
  ultimately show ?thesis by (simp add: receipt_entry_of_def)
qed

lemma skip_written:
  assumes "written_line l None" shows "trim l = [] \<or> hd (trim l) = 35"
proof -
  have "(\<forall>c \<in> set l. white_space c) \<or> (\<exists>pre note. l = pre @ 35 # note \<and> (\<forall>c \<in> set pre. white_space c))"
    using assms by (simp add: written_line_def)
  moreover have "\<not> white_space 35" by (simp add: white_space_def)
  ultimately show ?thesis using trim_blank hd_trim by blast
qed

definition written_text :: "(codepoints \<times> string option) list \<Rightarrow> codepoints" where
  "written_text ls = concat (map (\<lambda>(l, r). l @ [10]) ls)"

lemma written_text_Cons [simp]: "written_text [] = []" "written_text ((l, r) # ls) = l @ 10 # written_text ls"
  by (simp_all add: written_text_def)

lemma written_scalar: "\<forall>(l, r) \<in> set ls. written_line l r \<Longrightarrow> list_all scalar_value (written_text ls)"
  by (induction ls) (auto simp: written_line_def scalar_value_def)

lemma written_lines: "\<forall>(l, r) \<in> set ls. written_line l r \<Longrightarrow> map trim (text_lines (written_text ls)) = map (trim \<circ> fst) ls"
proof (induction ls)
  case (Cons lr ls)
  obtain l r where lr: "lr = (l, r)" by (cases lr)
  have "10 \<notin> set l" using Cons.prems by (simp add: lr written_line_def)
  from trimmed_line [OF this] Cons show ?case by (simp add: lr text_lines_def)
qed (simp add: text_lines_def)

lemma written_receipts:
  "\<forall>(l, r) \<in> set ls. written_line l r \<Longrightarrow>
     map (receipt_entry_of file_name None) (filter (\<lambda>l. l \<noteq> [] \<and> hd l \<noteq> 35) (map (trim \<circ> fst) ls))
       = map (\<lambda>h. \<lparr>re_origin = file_name, re_key = None, re_hex = h\<rparr>) (List.map_filter snd ls)"
proof (induction ls)
  case (Cons lr ls)
  obtain l r where lr: "lr = (l, r)" by (cases lr)
  have IH: "map (receipt_entry_of file_name None) (filter (\<lambda>l. l \<noteq> [] \<and> hd l \<noteq> 35) (map (trim \<circ> fst) ls))
       = map (\<lambda>h. \<lparr>re_origin = file_name, re_key = None, re_hex = h\<rparr>) (List.map_filter snd ls)"
    using Cons.prems by (intro Cons.IH) simp
  have w: "written_line l r" using Cons.prems by (simp add: lr)
  show ?case
  proof (cases r)
    case None
    then show ?thesis using IH skip_written [of l] w by (auto simp: lr List.map_filter_simps comp_def)
  next
    case (Some h)
    then show ?thesis using IH read_written [of l h file_name] w by (simp add: lr List.map_filter_simps comp_def)
  qed
qed (simp add: List.map_filter_simps)

lemma written_no_object: "\<forall>(l, r) \<in> set ls. written_line l r \<Longrightarrow> take 1 (dropWhile white_space (written_text ls)) \<noteq> [123]"
proof (induction ls)
  case (Cons lr ls)
  obtain l r where lr: "lr = (l, r)" by (cases lr)
  have w: "written_line l r" using Cons.prems by (simp add: lr)
  have nl: "white_space 10" by (simp add: white_space_def)
  show ?case
  proof (cases "\<forall>c \<in> set l. white_space c")
    case True
    then have "dropWhile white_space (l @ 10 # written_text ls) = dropWhile white_space (written_text ls)"
      using nl by (simp add: dropWhile_append2)
    then show ?thesis using Cons by (simp add: lr)
  next
    case False
    then have drop: "dropWhile white_space (l @ 10 # written_text ls) = dropWhile white_space l @ 10 # written_text ls"
      by (auto simp: dropWhile_append1)
    obtain x xs where x: "dropWhile white_space l = x # xs" "\<not> white_space x"
      using False by (metis dropWhile_eq_Cons_conv dropWhile_eq_Nil_conv neq_Nil_conv)
    then have "filter (Not \<circ> white_space) l = x # filter (Not \<circ> white_space) xs"
      using filter_dropped [of l] by (simp add: x)
    from first_of_line(1) [OF w this] show ?thesis using drop x(1) by (simp add: lr)
  qed
qed simp

lemma utf8_bytes: "scalar_value c \<Longrightarrow> \<forall>b \<in> set (utf8_char c). b < 256"
  by (auto simp: utf8_char_def scalar_value_def div_less_iff_less_mult)

lemma utf8_first: "scalar_value c \<Longrightarrow> c \<noteq> 78 \<Longrightarrow> \<exists>b bs. utf8_char c = b # bs \<and> b \<noteq> 78"
  by (auto simp: utf8_char_def)

lemma written_no_journal:
  assumes "\<forall>(l, r) \<in> set ls. written_line l r"
  shows "take (length JOURNAL_MAGIC) (map of_nat (concat (map utf8_char (written_text ls)))) \<noteq> JOURNAL_MAGIC"
proof (cases ls)
  case Nil
  then show ?thesis by (simp add: JOURNAL_MAGIC_def)
next
  case (Cons lr ls')
  obtain l r where lr: "lr = (l, r)" by (cases lr)
  have w: "written_line l r" using assms by (simp add: Cons lr)
  obtain c cs where c: "written_text ls = c # cs" by (cases "written_text ls") (simp_all add: Cons lr)
  have "c \<noteq> 78"
  proof
    assume "c = 78"
    then obtain l' where "l = 78 # l'" using c by (cases l) (simp_all add: Cons lr)
    then have "filter (Not \<circ> white_space) l = 78 # filter (Not \<circ> white_space) l'" by (simp add: white_space_def)
    from first_of_line(1) [OF w this] show False by simp
  qed
  have sc: "scalar_value c" using written_scalar [OF assms] by (simp add: c)
  then obtain b bs where b: "utf8_char c = b # bs" "b \<noteq> 78" "b < 256" using utf8_first \<open>c \<noteq> 78\<close> utf8_bytes by fastforce
  have "(of_nat b :: u8) \<noteq> 78"
  proof
    assume "(of_nat b :: u8) = 78"
    then have "unat (of_nat b :: u8) = 78" by simp
    then show False using b(2,3) by (simp add: unat_of_nat)
  qed
  then show ?thesis by (simp add: c b(1) JOURNAL_MAGIC_def)
qed

text \<open>
  C18. A text file of receipts reads back: whatever blank lines, comments in any language, white space, \<^verbatim>\<open>0x\<close>
  and upper-case digits a person writes, the entries are the receipts of the file in their order, in plain
  lower-case hex, and the file is taken for neither a journal nor JSON.
\<close>
theorem receipt_text_reads_back:
  assumes "\<forall>(l, r) \<in> set ls. written_line l r"
  shows "parse_receipt_file jl json_map file_name (map of_nat (concat (map utf8_char (written_text ls))))
    = Inr (map (\<lambda>h. \<lparr>re_origin = file_name, re_key = None, re_hex = h\<rparr>) (List.map_filter snd ls))"
proof -
  let ?points = "written_text ls"
  have "map unat (map of_nat (concat (map utf8_char ?points)) :: bytes) = concat (map utf8_char ?points)"
  proof -
    have "b < 256" if "b \<in> set (concat (map utf8_char ?points))" for b
      using that utf8_bytes written_scalar [OF assms] by (auto simp: list_all_iff)
    then have "unat (of_nat b :: u8) = b" if "b \<in> set (concat (map utf8_char ?points))" for b
      using that by (simp add: unat_of_nat)
    then show ?thesis unfolding map_map by (intro map_idI) simp
  qed
  then have "utf8_decode (map unat (map of_nat (concat (map utf8_char ?points)) :: bytes)) = Some ?points"
    using utf8_decode_text [OF written_scalar [OF assms]] by simp
  then show ?thesis
    using written_no_journal [OF assms] written_no_object [OF assms] written_receipts [OF assms, of file_name]
    by (simp add: parse_receipt_file_def written_lines [OF assms])
qed

text \<open>Two receipts, one spelt \<open>0xAB cD\<close> and followed by a carriage return, below a comment.\<close>

definition sample_lines :: "(codepoints \<times> string option) list" where
  "sample_lines = [([35, 32, 233, 8364], None), ([32, 48, 120, 65, 66, 32, 99, 68, 13], Some ''abcd''), ([], None), ([48, 49], Some ''01'')]"

lemma sample_lines_written: "\<forall>(l, r) \<in> set sample_lines. written_line l r"
proof -
  have "written_line [35, 32, 233, 8364] None" by (simp add: written_line_def scalar_value_def) (metis append_Nil empty_iff empty_set)
  moreover have "written_line [32, 48, 120, 65, 66, 32, 99, 68, 13] (Some ''abcd'')"
    by (simp add: written_line_def scalar_value_def white_space_def lower_hexdigit_def is_hexdigit_def ascii_lower_def lower_codepoint_def)
      (intro exI [of _ "[65, 66, 99, 68]"], simp add: lower_codepoint_def)
  moreover have "written_line [] None" by (simp add: written_line_def)
  moreover have "written_line [48, 49] (Some ''01'')"
    by (simp add: written_line_def scalar_value_def white_space_def lower_hexdigit_def is_hexdigit_def ascii_lower_def lower_codepoint_def)
  ultimately show ?thesis by (simp add: sample_lines_def)
qed

lemma receipt_text_reads_back_witness:
  "\<forall>jl json_map. map_option (map re_hex) (case parse_receipt_file jl json_map ''f'' (map of_nat (concat (map utf8_char (written_text sample_lines)))) of
     Inr es \<Rightarrow> Some es | Inl e \<Rightarrow> None) = Some [''abcd'', ''01'']"
  by (simp add: receipt_text_reads_back [OF sample_lines_written]) (simp add: sample_lines_def List.map_filter_simps)

end
