(* ===== verification/Commands.thy ===== *)
theory Commands
  imports Run Receipt_Files
begin

text \<open>
  The commands of \<^verbatim>\<open>permanode/src/main.rs\<close>, each a function of the database (and of what it reads besides)
  to the database it leaves and to success or an error, which is the exit status; and the configuration
  file of \<^verbatim>\<open>permanode/src/config.rs\<close>. Argument parsing is the \<open>clap\<close> crate's.
\<close>

section \<open>Commands\<close>

definition rejected_status :: "nat \<Rightarrow> unit result" where
  "rejected_status n = (if 0 < n then bail (decimal n @ '' block(s) rejected, see warnings above'') else Inr ())"

text \<open>\<open>raw-block\<close>: the bytes kept for a block, found by hash or as the canonical one of the height.\<close>

definition run_raw_block :: "chain_lib \<Rightarrow> db \<Rightarrow> u64 \<Rightarrow> string option \<Rightarrow> (string \<times> bytes) result" where
  "run_raw_block lib c height hash =
     and_then (case hash of
         Some h \<Rightarrow> Inr (map ascii_lower h)
       | None \<Rightarrow> (case canonical_hash_at c height of
           Some (_, h) \<Rightarrow> Inr h
         | None \<Rightarrow> bail (''no canonical block at #'' @ u64_to_string height @ '' on record'')))
       (\<lambda>h. and_then (load_raw lib c height h) (\<lambda>kept_bytes. case kept_bytes of
         None \<Rightarrow> bail (''no raw bytes kept for #'' @ u64_to_string height @ '' '' @ h)
       | Some bytes \<Rightarrow> Inr (h, bytes)))"

text \<open>\<open>import-bodies\<close>. The copy is opened, and checked to be a permanode's, before anything is written.\<close>

definition run_import :: "tree_lib \<Rightarrow> chain_lib \<Rightarrow> string \<Rightarrow> (db \<times> bool) result \<Rightarrow> bool \<Rightarrow> (u64 \<Rightarrow> string) \<Rightarrow> string \<Rightarrow> db
    \<Rightarrow> db \<times> unit result" where
  "run_import tree lib source_name source keep clk now c =
     (case source of
        Inl e \<Rightarrow> (c, Inl e)
      | Inr (copy, has_raw) \<Rightarrow>
          (case import_bodies tree lib source_name has_raw keep copy clk now c of
             (c, Inl e) \<Rightarrow> (c, Inl e)
           | (c, Inr r) \<Rightarrow>
               if keep
               then (case import_raw lib has_raw copy clk c of
                       (c, Inl e) \<Rightarrow> (c, Inl e)
                     | (c, Inr raw) \<Rightarrow> (c, rejected_status (ir_rejected r + rr_rejected raw)))
               else (c, rejected_status (ir_rejected r))))"

text \<open>\<open>fill-from-peer\<close>, with every peer that could not be asked named once.\<close>

fun join :: "string \<Rightarrow> string list \<Rightarrow> string" where
  "join sep [] = []"
| "join sep [s] = s"
| "join sep (s # ss) = s @ sep @ join sep ss"

definition peers_status :: "string list \<Rightarrow> nat \<Rightarrow> unit result" where
  "peers_status unreachable n =
     (if unreachable \<noteq> [] then bail (''unreachable: '' @ join '', '' unreachable) else rejected_status n)"

definition run_fill_from_peer :: "tree_lib \<Rightarrow> chain_lib \<Rightarrow> (string \<times> peer) list \<Rightarrow> bool \<Rightarrow> (u64 \<Rightarrow> string) \<Rightarrow> string \<Rightarrow> db
    \<Rightarrow> db \<times> unit result" where
  "run_fill_from_peer tree lib peers keep clk now c =
     (case fill_from_peers tree lib peers (length (open_gap_heights c 0)) keep clk now c of
        (c, _, Inl e) \<Rightarrow> (c, Inl e)
      | (c, unreachable, Inr r) \<Rightarrow>
          if keep
          then (case fill_raw_from_peers lib peers (saturating_sub (processed_height c) GETBLOCK_SERVING_WINDOW) (- 1) clk c of
                  (c, _, Inl e) \<Rightarrow> (c, Inl e)
                | (c, silent, Inr raw) \<Rightarrow>
                    (c, peers_status (unreachable @ filter (\<lambda>p. p \<notin> set unreachable) silent) (ir_rejected r + rr_rejected raw)))
          else (c, peers_status unreachable (ir_rejected r)))"

text \<open>\<open>import-receipts\<close>: every file is read before the database is touched.\<close>

fun read_all :: "(string \<Rightarrow> receipt_entry list result) \<Rightarrow> string list \<Rightarrow> receipt_entry list result" where
  "read_all read_file [] = Inr []"
| "read_all read_file (f # fs) =
     and_then (read_file f) (\<lambda>found. and_then (read_all read_file fs) (\<lambda>rest. Inr (found @ rest)))"

definition run_import_receipts :: "chain_lib \<Rightarrow> receipt_lib \<Rightarrow> (string \<Rightarrow> receipt_entry list result) \<Rightarrow> (receipt_entry \<Rightarrow> receipt_verdict result)
    \<Rightarrow> (receipt_entry \<Rightarrow> string) \<Rightarrow> string list \<Rightarrow> db \<Rightarrow> db \<times> (receipt_entry \<times> receipt_outcome) list \<times> unit result" where
  "run_import_receipts lib rl read_file verify clk files c =
     (case read_all read_file files of
        Inl e \<Rightarrow> (c, [], Inl e)
      | Inr entries \<Rightarrow>
          (case import_receipts lib rl verify clk entries [] c of
             (c, results) \<Rightarrow> (c, results,
               if 0 < rejected_count results then bail (decimal (rejected_count results) @ '' receipt(s) rejected, see above'') else Inr ())))"

section \<open>Both halves in one process\<close>

text \<open>
  \<open>run_both\<close> looks at the two threads once a second; a thread is running, has ended, or has panicked. The
  process ends with the first that is over; \<open>None\<close> is a list of looks at which both were running.
\<close>

datatype thread_state = Running_Thread | Ended "unit result" | Panicked

definition thread_over :: "string \<Rightarrow> thread_state \<Rightarrow> failure option" where
  "thread_over what t =
     (case t of
        Running_Thread \<Rightarrow> None
      | Ended (Inl e) \<Rightarrow> Some e
      | Ended (Inr _) \<Rightarrow> Some (Failure (what @ '' stopped''))
      | Panicked \<Rightarrow> Some (Failure (what @ '' thread panicked'')))"

fun run_both :: "(thread_state \<times> thread_state) list \<Rightarrow> failure option" where
  "run_both [] = None"
| "run_both ((ix, sv) # looks) =
     (case thread_over ''indexer'' ix of
        Some e \<Rightarrow> Some e
      | None \<Rightarrow> (case thread_over ''api server'' sv of Some e \<Rightarrow> Some e | None \<Rightarrow> run_both looks))"

section \<open>The configuration file\<close>

datatype setting = Number u64 | Flag bool | Str string | Strs "string list"

text \<open>serde's reading of a TOML table: a missing key takes its default, another type is an error, other keys are ignored.\<close>

definition number_setting :: "(string \<rightharpoonup> setting) \<Rightarrow> string \<Rightarrow> u64 \<Rightarrow> u64 option" where
  "number_setting table key standard =
     (case table key of None \<Rightarrow> Some standard | Some (Number n) \<Rightarrow> Some n | Some _ \<Rightarrow> None)"

definition flag_setting :: "(string \<rightharpoonup> setting) \<Rightarrow> string \<Rightarrow> bool option" where
  "flag_setting table key = (case table key of None \<Rightarrow> Some True | Some (Flag b) \<Rightarrow> Some b | Some _ \<Rightarrow> None)"

definition string_setting :: "(string \<rightharpoonup> setting) \<Rightarrow> string \<Rightarrow> string \<Rightarrow> string option" where
  "string_setting table key standard =
     (case table key of None \<Rightarrow> Some standard | Some (Str s) \<Rightarrow> Some s | Some _ \<Rightarrow> None)"

definition optional_setting :: "(string \<rightharpoonup> setting) \<Rightarrow> string \<Rightarrow> string option option" where
  "optional_setting table key =
     (case table key of None \<Rightarrow> Some None | Some (Str s) \<Rightarrow> Some (Some s) | Some _ \<Rightarrow> None)"

definition strings_setting :: "(string \<rightharpoonup> setting) \<Rightarrow> string \<Rightarrow> string list option" where
  "strings_setting table key =
     (case table key of None \<Rightarrow> Some [] | Some (Strs ss) \<Rightarrow> Some ss | Some _ \<Rightarrow> None)"

text \<open>\<open>None\<close> is a table that does not fit \<open>Config\<close>.\<close>

definition config_of :: "(string \<rightharpoonup> setting) \<Rightarrow> indexer_config option" where
  "config_of table =
     Option.bind (string_setting table ''rpc_url'' ''http://127.0.0.1:9601'') (\<lambda>url.
     Option.bind (string_setting table ''db_path'' ''permanode.sqlite3'') (\<lambda>path.
     Option.bind (number_setting table ''poll_interval_seconds'' 5) (\<lambda>poll.
     Option.bind (number_setting table ''reorg_check_depth'' 30) (\<lambda>depth.
     Option.bind (number_setting table ''retention_days'' 0) (\<lambda>days.
     Option.bind (number_setting table ''prune_every_cycles'' 720) (\<lambda>prune.
     Option.bind (flag_setting table ''getblock_fallback'') (\<lambda>fallback.
     Option.bind (flag_setting table ''decoder_selfcheck'') (\<lambda>check.
     Option.bind (flag_setting table ''archive_raw_blocks'') (\<lambda>raw.
     Option.bind (number_setting table ''refresh_addresses_every_cycles'' 120) (\<lambda>refresh.
     Option.bind (number_setting table ''scan_slots_every_cycles'' 360) (\<lambda>scan.
     Option.bind (number_setting table ''state_scan_max_per_second'' 500) (\<lambda>scan_rate.
     Option.bind (number_setting table ''header_backfill_per_second'' 50) (\<lambda>header_rate.
     Option.bind (number_setting table ''tip_watch_ms'' 1000) (\<lambda>watch.
     Option.bind (string_setting table ''listen'' ''127.0.0.1:8420'') (\<lambda>at.
     Option.bind (optional_setting table ''site_dir'') (\<lambda>site.
     Option.bind (optional_setting table ''donation_address'') (\<lambda>donation.
     Option.bind (optional_setting table ''peer_listen'') (\<lambda>peer_at.
     Option.bind (strings_setting table ''backfill_peers'') (\<lambda>peers.
     Option.bind (number_setting table ''peer_backfill_interval_seconds'' 300) (\<lambda>interval.
       Some (config.extend
         \<lparr>getblock_fallback = fallback, decoder_selfcheck = check, archive_raw_blocks = raw, reorg_check_depth = depth\<rparr>
         (indexer_config.fields url path poll days prune refresh scan scan_rate header_rate watch at site donation peer_at
            peers interval))))))))))))))))))))))"

text \<open>\<open>{:?}\<close> of a string of printable ASCII, and of a flag.\<close>

definition quoted_text :: "string \<Rightarrow> string" where
  "quoted_text s =
     [CHR 0x22] @ concat (map (\<lambda>ch. if ch = CHR 0x22 \<or> ch = CHR 0x5C then [CHR 0x5C, ch] else [ch]) s) @ [CHR 0x22]"

definition flag_word :: "bool \<Rightarrow> string" where
  "flag_word b = (if b then ''true'' else ''false'')"

definition entry_line :: "string \<Rightarrow> string \<Rightarrow> string" where
  "entry_line key v = key @ '' = '' @ v"

definition config_lines :: "indexer_config \<Rightarrow> string list" where
  "config_lines cfg =
     [''# parano1d-permanode indexer config'',
      ''# Missing keys fall back to these defaults.'',
      [],
      entry_line ''rpc_url'' (quoted_text (rpc_url cfg)),
      entry_line ''db_path'' (quoted_text (db_path cfg)),
      entry_line ''poll_interval_seconds'' (u64_to_string (poll_interval_seconds cfg)),
      entry_line ''reorg_check_depth'' (u64_to_string (reorg_check_depth cfg)),
      ''# 0 = keep transaction detail forever'',
      entry_line ''retention_days'' (u64_to_string (retention_days cfg)),
      entry_line ''prune_every_cycles'' (u64_to_string (prune_every_cycles cfg)),
      entry_line ''getblock_fallback'' (flag_word (getblock_fallback cfg)),
      entry_line ''decoder_selfcheck'' (flag_word (decoder_selfcheck cfg)),
      ''# keep every block's raw bytes (compressed, ~0.4 KB per block) next to the decoded tables'',
      entry_line ''archive_raw_blocks'' (flag_word (archive_raw_blocks cfg)),
      entry_line ''refresh_addresses_every_cycles'' (u64_to_string (refresh_addresses_every_cycles cfg)),
      ''# 0 disables the live-state sweep'',
      entry_line ''scan_slots_every_cycles'' (u64_to_string (scan_slots_every_cycles cfg)),
      ''# getSlot calls per second while the sweep reads a segment (0 = unthrottled)'',
      entry_line ''state_scan_max_per_second'' (u64_to_string (state_scan_max_per_second cfg)),
      ''# getBlockHeader calls per second while copying the headers below the archive (0 disables it)'',
      entry_line ''header_backfill_per_second'' (u64_to_string (header_backfill_per_second cfg)),
      ''# API listen address (put a TLS reverse proxy in front for the public)'',
      entry_line ''listen'' (quoted_text (listen cfg)),
      ''# your donation address, returned by /api/v1/stats for a frontend to show (leave empty for none)'',
      entry_line ''donation_address'' (quoted_text []),
      ''# peer endpoint other permanodes fill their gaps from (a private network address), unset = off'',
      ''# peer_listen = '' @ quoted_text ''[fd00::1]:8421'',
      ''# peer endpoints this permanode fills its own gaps from'',
      entry_line ''backfill_peers'' ''[]'',
      entry_line ''peer_backfill_interval_seconds'' (u64_to_string (peer_backfill_interval_seconds cfg))]"

definition config_text :: "indexer_config \<Rightarrow> string" where
  "config_text cfg = concat (map (\<lambda>l. l @ [CHR 0x0A]) (config_lines cfg))"

text \<open>
  \<open>load_or_create\<close>: a missing file is written, if it can be, and the defaults are used; a file is read by
  the TOML parser, which is a parameter.
\<close>

definition load_or_create :: "(string \<Rightarrow> (string \<rightharpoonup> setting) result) \<Rightarrow> string result option \<Rightarrow> (string \<Rightarrow> unit result)
    \<Rightarrow> indexer_config result" where
  "load_or_create toml file write_file =
     (case file of
        None \<Rightarrow> and_then (write_file (config_text default_indexer_config)) (\<lambda>_. Inr default_indexer_config)
      | Some content \<Rightarrow> and_then content (\<lambda>text. and_then (toml text) (\<lambda>table. case config_of table of
          None \<Rightarrow> bail ''invalid type''
        | Some cfg \<Rightarrow> Inr cfg)))"

section \<open>The written file means the defaults\<close>

text \<open>A reader for such files: a line is blank, a comment, or a key and a value of one of the four kinds.\<close>

definition read_value :: "string \<Rightarrow> setting option" where
  "read_value s =
     (if s = ''true'' then Some (Flag True)
      else if s = ''false'' then Some (Flag False)
      else if s = ''[]'' then Some (Strs [])
      else if 2 \<le> length s \<and> hd s = CHR 0x22 \<and> last s = CHR 0x22 \<and> CHR 0x22 \<notin> set (butlast (tl s)) \<and> CHR 0x5C \<notin> set s
      then Some (Str (butlast (tl s)))
      else map_option Number (parse_u64 s))"

fun read_setting :: "string \<Rightarrow> string \<Rightarrow> (string \<times> setting) option" where
  "read_setting key (c # s) =
     (if take 3 (c # s) = '' = '' then map_option (Pair (rev key)) (read_value (drop 3 (c # s))) else read_setting (c # key) s)"
| "read_setting key [] = None"

fun read_settings :: "string list \<Rightarrow> (string \<times> setting) list option" where
  "read_settings [] = Some []"
| "read_settings (l # ls) =
     (if l = [] \<or> hd l = CHR 0x23 then read_settings ls
      else Option.bind (read_setting [] l) (\<lambda>e. map_option (Cons e) (read_settings ls)))"

definition default_settings :: "(string \<times> setting) list" where
  "default_settings = the (read_settings (config_lines default_indexer_config))"

definition plain :: "string \<Rightarrow> bool" where
  "plain s = (CHR 0x22 \<notin> set s \<and> CHR 0x5C \<notin> set s)"

lemma read_number: "read_value (u64_to_string n) = Some (Number n)"
proof -
  obtain c ds where d: "decimal (unat n) = c # ds" by (cases "decimal (unat n)") simp_all
  then have "is_digit c" using decimal_digits [of "unat n"] by simp
  then have "c \<noteq> CHR ''t''" "c \<noteq> CHR ''f''" "c \<noteq> CHR ''[''" "c \<noteq> CHR 0x22" by (auto simp: is_digit_def)
  moreover have "parse_u64 (c # ds) = Some n" using parse_u64_to_string [of n] by (simp add: u64_to_string_def d)
  ultimately show ?thesis by (simp add: read_value_def u64_to_string_def d)
qed

lemma read_flag: "read_value (flag_word b) = Some (Flag b)"
  by (simp add: read_value_def flag_word_def)

lemma read_quoted_string:
  assumes "plain s" shows "read_value (quoted_text s) = Some (Str s)"
proof -
  have "concat (map (\<lambda>ch. if ch = CHR 0x22 \<or> ch = CHR 0x5C then [CHR 0x5C, ch] else [ch]) s) = s"
    using assms by (induction s) (auto simp: plain_def)
  then have "quoted_text s = CHR 0x22 # s @ [CHR 0x22]" by (simp add: quoted_text_def)
  then show ?thesis using assms by (simp add: read_value_def plain_def)
qed

lemma read_empty_list: "read_value ''[]'' = Some (Strs [])"
  by (simp add: read_value_def)

lemma read_entry: "CHR '' '' \<notin> set key \<Longrightarrow> read_setting acc (entry_line key v) = map_option (Pair (rev acc @ key)) (read_value v)"
  by (induction key arbitrary: acc) (auto simp: entry_line_def)

lemma read_entry_line:
  "CHR '' '' \<notin> set (k # key) \<Longrightarrow> k \<noteq> CHR 0x23 \<Longrightarrow> read_value v = Some s \<Longrightarrow>
     read_settings (entry_line (k # key) v # ls) = map_option (Cons (k # key, s)) (read_settings ls)"
  using read_entry [of "k # key" "[]" v] by (simp add: entry_line_def)

lemma read_other_line: "read_settings ([] # ls) = read_settings ls" "read_settings ((CHR 0x23 # l) # ls) = read_settings ls"
  by simp_all

lemmas read_line = read_entry_line read_other_line read_number read_flag read_quoted_string read_empty_list

lemma written_config_reads_back:
  assumes "plain (rpc_url cfg)" "plain (db_path cfg)" "plain (listen cfg)"
  shows "read_settings (config_lines cfg) = Some
    [(''rpc_url'', Str (rpc_url cfg)), (''db_path'', Str (db_path cfg)), (''poll_interval_seconds'', Number (poll_interval_seconds cfg)),
     (''reorg_check_depth'', Number (reorg_check_depth cfg)), (''retention_days'', Number (retention_days cfg)),
     (''prune_every_cycles'', Number (prune_every_cycles cfg)), (''getblock_fallback'', Flag (getblock_fallback cfg)),
     (''decoder_selfcheck'', Flag (decoder_selfcheck cfg)), (''archive_raw_blocks'', Flag (archive_raw_blocks cfg)),
     (''refresh_addresses_every_cycles'', Number (refresh_addresses_every_cycles cfg)),
     (''scan_slots_every_cycles'', Number (scan_slots_every_cycles cfg)),
     (''state_scan_max_per_second'', Number (state_scan_max_per_second cfg)),
     (''header_backfill_per_second'', Number (header_backfill_per_second cfg)), (''listen'', Str (listen cfg)),
     (''donation_address'', Str []), (''backfill_peers'', Strs []),
     (''peer_backfill_interval_seconds'', Number (peer_backfill_interval_seconds cfg))]"
  using assms by (simp add: config_lines_def read_line plain_def [of "[]"] del: read_settings.simps(2))

text \<open>The address to donate to is written empty, which the server takes for none.\<close>

lemma written_config_means_the_defaults:
  "\<exists>table. read_settings (config_lines default_indexer_config) = Some table
     \<and> config_of (map_of table) = Some (default_indexer_config\<lparr>donation_address := Some []\<rparr>)"
proof -
  have strings: "plain (rpc_url default_indexer_config)" "plain (db_path default_indexer_config)" "plain (listen default_indexer_config)"
    by (simp_all add: plain_def default_indexer_config_def default_config_def indexer_config.defs config.defs)
  show ?thesis
    unfolding written_config_reads_back [OF strings]
    by (simp add: config_of_def string_setting_def number_setting_def flag_setting_def optional_setting_def strings_setting_def
        default_indexer_config_def default_config_def indexer_config.defs config.defs)
qed

section \<open>What a command leaves\<close>

lemma read_all_files: "read_all read_file files = Inr entries \<longleftrightarrow> (\<exists>found. map read_file files = map Inr found \<and> entries = concat found)"
proof (induction files arbitrary: entries)
  case (Cons f fs)
  show ?case by (auto simp: and_then_Inr_iff Cons.IH map_eq_Cons_conv Cons_eq_map_conv)
qed auto

lemma import_bodies_runs: "runs lib tree cfg c (fst (import_bodies tree lib name has_raw keep copy clk now c))"
  using fill_gaps_runs [of "''import''" lib tree cfg c "length (open_gap_heights c 0)" "''recovered via import from '' @ name" keep
      "\<lambda>s height hash. (s, offer_from_db lib has_raw copy height hash)" clk now "()"]
  by (auto simp: import_bodies_def split: prod.split)

lemma import_raw_runs: "runs lib tree cfg c (fst (import_raw lib has_raw copy clk c))"
  by (auto simp: import_raw_def split: prod.splits) (metis fill_raw_loop_runs fill_raw_def fst_conv)

lemma run_import_runs: "runs lib tree cfg c (fst (run_import tree lib name source keep clk now c))"
proof (cases source)
  case (Inr x)
  obtain copy has_raw where x: "x = (copy, has_raw)" by (cases x)
  obtain c1 r where one: "import_bodies tree lib name has_raw keep copy clk now c = (c1, r)" by fastforce
  have first: "runs lib tree cfg c c1"
    using import_bodies_runs [of lib tree cfg c name has_raw keep copy clk now] by (simp add: one)
  obtain c2 raw where two: "import_raw lib has_raw copy clk c1 = (c2, raw)" by fastforce
  have "runs lib tree cfg c1 c2" using import_raw_runs [of lib tree cfg c1 has_raw copy clk] by (simp add: two)
  with first show ?thesis by (auto simp: run_import_def Inr x one two split: sum.split intro: rtranclp_trans)
qed (simp add: run_import_def)

lemma run_fill_from_peer_runs: "runs lib tree cfg c (fst (run_fill_from_peer tree lib peers keep clk now c))"
proof -
  obtain c1 u r where one: "fill_from_peers tree lib peers (length (open_gap_heights c 0)) keep clk now c = (c1, u, r)" by (metis prod_cases3)
  have first: "runs lib tree cfg c c1"
    using fill_gaps_runs [of "''peer''" lib tree cfg c] one unfolding fill_from_peers_def by (metis fst_conv insertCI)
  obtain c2 s raw where two:
    "fill_raw_from_peers lib peers (saturating_sub (processed_height c1) GETBLOCK_SERVING_WINDOW) (- 1) clk c1 = (c2, s, raw)"
    by (metis prod_cases3)
  have "runs lib tree cfg c1 c2"
    using fill_raw_from_peers_runs [of lib tree cfg c1 peers "saturating_sub (processed_height c1) GETBLOCK_SERVING_WINDOW" "- 1" clk]
    by (simp add: two)
  with first show ?thesis by (auto simp: run_fill_from_peer_def one two split: sum.split intro: rtranclp_trans)
qed

lemma status_of_receipts: "rejected_count results = 0 \<longleftrightarrow> list_all (\<lambda>(e, out). \<not> is_rejected out) results"
  by (induction results) (auto simp: rejected_count_def count_outcomes_def)

lemma import_receipts_answers_every_entry: "map fst (snd (import_receipts lib rl verify clk entries seen c)) = entries"
proof (induction entries arbitrary: seen c)
  case (Cons entry rest)
  then show ?case by (auto simp: Let_def split: prod.split) (metis snd_conv)+
qed simp

lemma read_all_cases:
  "read_all read_file files =
     (if list_all (\<lambda>f. \<not> isl (read_file f)) files then Inr (concat (map (\<lambda>f. projr (read_file f)) files))
      else Inl (projl (the (find isl (map read_file files)))))"
  by (induction files) (auto simp: and_then_def split: sum.splits)

text \<open>
  C17. A command that writes - import-bodies, fill-from-peer, import-receipts - is a run of the very steps the
  indexer's threads take, whatever the copy, the peers, the receipt files and the node answer. So it may run
  beside the indexer, and what the archive keeps under every interleaving of steps it keeps under the
  commands too. import-receipts reads every file before it writes: one file that cannot be read leaves the
  database as it was and fails. Otherwise it answers every entry of every file, in order, and succeeds
  exactly when none was rejected.
\<close>

theorem commands_are_runs_of_steps:
  "runs lib tree cfg c (fst (run_import tree lib name source keep clk now c))
   \<and> runs lib tree cfg c (fst (run_fill_from_peer tree lib peers keep clk now c))
   \<and> (case run_import_receipts lib rl read_file verify clk' files c of (c', results, status) \<Rightarrow>
        runs lib tree cfg c c'
        \<and> (if list_all (\<lambda>f. \<not> isl (read_file f)) files
           then map fst results = concat (map (\<lambda>f. projr (read_file f)) files)
             \<and> (status = Inr () \<longleftrightarrow> list_all (\<lambda>(e, out). \<not> is_rejected out) results)
           else c' = c \<and> results = [] \<and> status \<noteq> Inr ()))"
proof (intro conjI run_import_runs run_fill_from_peer_runs)
  show "case run_import_receipts lib rl read_file verify clk' files c of (c', results, status) \<Rightarrow>
        runs lib tree cfg c c'
        \<and> (if list_all (\<lambda>f. \<not> isl (read_file f)) files
           then map fst results = concat (map (\<lambda>f. projr (read_file f)) files)
             \<and> (status = Inr () \<longleftrightarrow> list_all (\<lambda>(e, out). \<not> is_rejected out) results)
           else c' = c \<and> results = [] \<and> status \<noteq> Inr ())"
  proof (cases "list_all (\<lambda>f. \<not> isl (read_file f)) files")
    case True
    let ?entries = "concat (map (\<lambda>f. projr (read_file f)) files)"
    obtain c' results where r: "import_receipts lib rl verify clk' ?entries [] c = (c', results)" by fastforce
    have "runs lib tree cfg c c'" using import_receipts_runs [of lib tree cfg c lib rl verify clk' ?entries "[]"] by (simp add: r)
    moreover have "map fst results = ?entries" using import_receipts_answers_every_entry [of lib rl verify clk' ?entries "[]" c] by (simp add: r)
    ultimately show ?thesis using status_of_receipts [of results]
      by (auto simp: run_import_receipts_def read_all_cases [of read_file files] True r bail_def)
  qed (simp add: run_import_receipts_def read_all_cases [of read_file files])
qed

end
