(* ===== verification/Spec2Isabelle.thy ===== *)
theory Spec2Isabelle
  imports Emission_Contract Serve_Spec Export Api_Spec Schema_Spec Rpc_Client Commands
begin

text \<open>
  A model of the permanode: an indexer that follows a node of the chain and records every block with its
  transactions in an SQLite archive, and an API server that answers from that archive and from the node.

  \<^bold>\<open>The program and its parts.\<close>

  \<^item> \<^verbatim>\<open>core/src/emission.rs\<close>, \<^verbatim>\<open>core/src/fees.rs\<close>: pure functions, the emission schedule and the fee model.
  \<^item> \<^verbatim>\<open>core/src/db.rs\<close>: the archive's tables and every statement that reads or writes them, and how
    opening a database of an older release brings it to the current layout.
  \<^item> \<^verbatim>\<open>core/src/queries.rs\<close>: the queries of the API over the same tables.
  \<^item> \<^verbatim>\<open>core/src/live_rpc.rs\<close>, \<^verbatim>\<open>permanode/src/rpc.rs\<close>: the node's answers as the API and the indexer see them.
  \<^item> \<^verbatim>\<open>permanode/src/decode.rs\<close>, \<^verbatim>\<open>permanode/src/raw.rs\<close>: the decoder of raw blocks and the store of raw bytes.
  \<^item> \<^verbatim>\<open>permanode/src/indexer.rs\<close>: the poll cycle (ingest new heights, re-check a trailing window for reorgs, retry
    gaps and raw bytes), the tip watcher, the header backfill, the live-state sweep, and the main loop.
  \<^item> \<^verbatim>\<open>permanode/src/import.rs\<close>, \<^verbatim>\<open>permanode/src/receipts.rs\<close>: filling gaps from a database copy or from peers,
    and importing a wallet's payment receipts.
  \<^item> \<^verbatim>\<open>permanode/src/serve.rs\<close>, \<^verbatim>\<open>permanode/src/export.rs\<close>: the API with its caches and the peer endpoint, and the
    CSV export.
  \<^item> \<^verbatim>\<open>permanode/src/main.rs\<close>, \<^verbatim>\<open>permanode/src/config.rs\<close>: the commands and the configuration file.

  The threads of the indexer share nothing but the database; each commits transactions of its own. The API
  reads the database and caches balances in it. Peers read it through the peer endpoint and write through the functions of
  \<^verbatim>\<open>import.rs\<close>.

  \<^bold>\<open>How the code is rendered.\<close> A struct is a record, an enum a datatype; \<open>u32\<close>, \<open>u64\<close> and \<open>u128\<close> are words of that
  width and wrap as a release build does, SQLite's \<open>i64\<close> columns are integers (\<open>as_i64\<close> and \<open>as_u64\<close> are the
  casts). A table is the list of its rows in rowid order, a query a function on these lists, with the
  keys, \<open>NULL\<close>s, text comparisons and the overflow error of \<open>SUM\<close> written out. A function that writes returns
  the new database; \<open>Result\<close> is \<open>failure + 'a\<close>; an error inside a write transaction leaves the database as it was.
  Clock readings are arguments. The node is the record \<open>node\<close> (for the API \<open>live_node\<close>) of its methods, a
  function from arguments to a result; where the code asks again, the attempt is an argument too.

  \<^bold>\<open>Parameters.\<close> What is not in the repository is an argument of the definitions that use it: \<open>chain_lib\<close>
  (the node's crates for blocks and addresses, and zlib), \<open>tree_lib\<close> (the Merkle root and hex decoding used by an
  import), \<open>journal_lib\<close> and \<open>receipt_lib\<close> (checksum, JSON delta and receipt format), SQLite's \<open>strftime\<close>
  and \<open>datetime\<close>, the answers of peers (\<open>http\<close>), the transport and the JSON reader of a node client (\<open>sender\<close>,
  \<open>serde\<close>), the TOML parser and the reader of a JSON object of strings. Nothing is assumed of them except in named hypotheses;
  the witnesses instantiate them with the concrete \<open>sample_lib\<close>, \<open>sample_tree\<close> and the like.

  \<^bold>\<open>The theories.\<close>

  \<^item> Prelude, Text: saturating arithmetic and casts; decimal text, hex digits, \<open>LIKE\<close>.
  \<^item> Emission, Emission_Spec, Emission_Contract: the schedule; the locale \<open>cumulative\<close> of running totals; its four
    interpretations (miner subsidy, development allocation, payout blocks, target seconds) and the properties.
  \<^item> Fees: the fee model, and the threshold and burn-band tables \<^verbatim>\<open>serve.rs\<close> derives from it.
  \<^item> Rpc_Types, Db_Tables, Db, Db_Records, Db_Live: the answers of the node, the schema, and \<^verbatim>\<open>db.rs\<close> statement by
    statement.
  \<^item> Schema, Schema_Spec: creating and migrating the tables, as the statements in their order; what a database of any
    release becomes when it is opened.
  \<^item> Ingest, Decode, Poll: how one height is written, the decoder and raw archive, and the poll cycle.
  \<^item> Db_Invariant: \<open>wf_db\<close> (keys, references, no body below the archive) and \<open>evidence_le\<close> (nothing once recorded is
    overwritten). The locale \<open>archive_operation\<close> is the contract of a write; every write of \<^verbatim>\<open>db.rs\<close> is an
    interpretation of it.
  \<^item> Canonical, Samples, Reorg, Cycle: which block of a height is canonical (the locale \<open>status_view\<close>), writes that
    do not touch that (\<open>chain_neutral\<close>), what a re-check does (\<open>body_operation\<close>), and the poll cycle as a whole.
    Samples holds the concrete blocks, nodes and databases of the witnesses.
  \<^item> Archive_View, Headers: the archive's own figures and the writes below it (\<open>leaves_archive_alone\<close>); the header
    backfill, its links and its completion.
  \<^item> Live_State: the sweep, its segments and its agreement with the node.
  \<^item> Import, Body_Roundtrip, Fill_Gaps: filling gaps; the writes that keep bodies (\<open>keeps_bodies\<close>); a stored body
    reads back, and an imported one fits the header on record.
  \<^item> Receipts, Receipt_Import, Receipt_Files: the wallet's journal, the import of receipts, and the other forms of a
    receipt file down to UTF-8 and white space.
  \<^item> Run, Settled: the transactions of all threads as the step relation \<open>step\<close>, the process as \<open>moves\<close>, the main
    loop; what holds of every reachable state, and the writes that leave the status log alone
    (\<open>quiet_operation\<close>).
  \<^item> Queries, Query_Stats, Query_Spec: \<^verbatim>\<open>queries.rs\<close>; how its figures agree with each other and with the sweep's.
  \<^item> Serve, Serve_Spec: request checks, the peer endpoint, and the figures computed from the node's headers.
  \<^item> Rpc_Client: the two node clients, from the method sent to what is made of the reply.
  \<^item> Commands: the commands, each a run of \<open>step\<close>, the two threads of one process, and the configuration file with
    the defaults written into a missing one.
  \<^item> Live_Rpc, Api, Economics, Api_Spec: the API's node client, its handlers and pages; the locale \<open>aged_cache\<close> of a
    cache that expires, interpreted by the three caches of that kind.
  \<^item> Export: the CSV files, a reader for them, and the rule its README gives for balances.

  \<^bold>\<open>What the lemmas show.\<close> The storage layer keeps its invariant and only adds evidence, operation by operation,
  and therefore in every cycle and in every interleaving of the threads. A re-check makes the node's block
  the only canonical one of its height; the cursor passes no height without a block; the header backfill
  links every header to the one above and ends when the node serves the chain; opening an older database
  loses no row; a quiet sweep reproduces the
  node's live coins. A body is stored, handed on and stored elsewhere without change, and taken only when it
  fits its header. The closed forms of the emission are block-by-block sums. The figures of an address, of
  the miners, of the pages and of the export agree with each other. Caches answer recent figures, hour-long
  caching is given to deep canonical blocks only, and the history of burned fees is the one defined by the
  records. Some theorems state where the code falls short: a re-check without details loses the height, a
  clock step backwards hides an orphaning, stripped raw bytes displace a block, a cadence of zero panics, a
  page cached for an hour changes with the arrival time of any block on it, and the totals of an address miss what
  it spent from outputs recorded only of a block that a reorg replaced by a gap.

  \<^bold>\<open>Loops, bounds and fuel.\<close> Loops over heights, gaps, segments, slots, pages and rows recurse over the list of
  what they visit; the retries of a header call over the number of attempts (five). The header backfill
  waits for the node between batches, so its loop recurses over the tips the node reports; that enough of
  them end it is a theorem. The binary search and the halving of samples terminate by a measure. The walk
  over headers is a \<open>partial_function\<close>, which in a 64-bit counter need not end; that it ends at every tip
  whose last step does not overflow is part of \<open>history_from_the_cache_is_the_full_walk\<close>. There is no fuel
  elsewhere. Hypotheses on sizes say that heights fit SQLite's 63 bits (\<open>heights_in_range\<close>). Two hypotheses are
  about the chain and the node: \<open>ledger_fits\<close> states the rules of the chain for the record of an address, and
  \<open>above_headers\<close> that the node serves no details of a block held as a bare header; such a block lies below the
  archive, where the node has pruned the bodies.

  \<^bold>\<open>Not modelled.\<close> SQLite's pragmas, locks and file format: the model takes a write transaction as atomic, and a
  failing statement is modelled only where the code reacts to it; Schema keeps of an index its table and the
  columns it names, and Db_Tables starts from the layout Schema arrives at. HTTP in either direction, the text of
  JSON and TOML, routes, the static site, argument parsing, logging, files, thread creation and sleeping: they belong
  to frameworks or only pass on what is modelled. Figures that are only shown as floating-point numbers (a
  miner's share, the average block time, the hashrate) stay pairs of integers or stop at the expected number
  of hashes.
\<close>

end
